(* ===== verification/Prelude.thy ===== *)
theory Prelude
  imports Main "HOL-Library.Word" "HOL-Library.Monad_Syntax" "HOL-Library.Multiset"
begin

text \<open>
  Vocabulary shared by every component of the development.

  C code is modelled in the option monad: \<^term>\<open>None\<close> is a run that the C standard
  leaves undefined (an index outside its array, a dereference of a null or freed pointer)
  or that never comes back from a loop; \<^term>\<open>Some\<close> carries the result.  Errors that the
  source reports itself (a null result, \<open>-1\<close>, a message) are ordinary values.
  A theorem of the form \<open>\<exists>r. f s = Some r \<and> \<dots>\<close> therefore
  states termination and memory safety along with the functional result.
\<close>

section \<open>Machine types\<close>

type_synonym u8 = "8 word"
type_synonym u16 = "16 word"
type_synonym u32 = "32 word"
type_synonym u64 = "64 word"

section \<open>Collections of facts\<close>

named_theorems irq_simps \<open>effects of masking and unmasking interrupts on the rest of the state\<close>
named_theorems frame_simps \<open>fields that an operation leaves alone\<close>

section \<open>Array accesses\<close>

definition get_at :: "'a list \<Rightarrow> nat \<Rightarrow> 'a option" where
  "get_at xs i = (if i < length xs then Some (xs ! i) else None)"

definition set_at :: "'a list \<Rightarrow> nat \<Rightarrow> 'a \<Rightarrow> 'a list option" where
  "set_at xs i v = (if i < length xs then Some (xs[i := v]) else None)"

lemma get_at_Some [simp]: "i < length xs \<Longrightarrow> get_at xs i = Some (xs ! i)"
  by (simp add: get_at_def)

lemma get_at_None [simp]: "length xs \<le> i \<Longrightarrow> get_at xs i = None"
  by (simp add: get_at_def)

lemma get_at_eq_Some: "get_at xs i = Some v \<longleftrightarrow> i < length xs \<and> xs ! i = v"
  by (auto simp: get_at_def)

lemma set_at_Some [simp]: "i < length xs \<Longrightarrow> set_at xs i v = Some (xs[i := v])"
  by (simp add: set_at_def)

lemma set_at_None [simp]: "length xs \<le> i \<Longrightarrow> set_at xs i v = None"
  by (simp add: set_at_def)

lemma set_at_eq_Some: "set_at xs i v = Some ys \<longleftrightarrow> i < length xs \<and> ys = xs[i := v]"
  by (auto simp: set_at_def)

section \<open>Numbers\<close>

lemma dvd_pow2_interval_disjoint:
  fixes i j :: nat
  assumes "2 ^ a dvd i" "2 ^ b dvd j" "a \<le> b" "i < j + 2 ^ b" "j < i + 2 ^ a"
  shows "j \<le> i \<and> i + 2 ^ a \<le> j + 2 ^ b"
proof -
  obtain x where x: "i = 2 ^ a * x" using assms(1) by (auto simp: dvd_def)
  have "(2::nat) ^ a dvd 2 ^ b" using assms(3) by (simp add: le_imp_power_dvd)
  then obtain y where y: "j = 2 ^ a * y" using assms(2) by (metis dvd_def dvd_trans)
  obtain z where z: "(2::nat) ^ b = 2 ^ a * z" using \<open>2 ^ a dvd 2 ^ b\<close> by (auto simp: dvd_def)
  have pos: "(0::nat) < 2 ^ a" by simp
  have "2 ^ a * y < 2 ^ a * (x + 1)" using assms(5) x y by (simp add: algebra_simps)
  then have "y < x + 1" using pos by (simp only: nat_mult_less_cancel1)
  moreover have "2 ^ a * x < 2 ^ a * (y + z)" using assms(4) x y z by (simp add: algebra_simps)
  then have "x < y + z" using pos by (simp only: nat_mult_less_cancel1)
  ultimately have "y \<le> x" and "x + 1 \<le> y + z" by simp_all
  then have "2 ^ a * y \<le> 2 ^ a * x" and "2 ^ a * (x + 1) \<le> 2 ^ a * (y + z)"
    by (simp_all only: mult_le_mono2)
  then show ?thesis using x y z by (simp add: algebra_simps)
qed

lemma aligned_block_fits:
  fixes i :: nat
  assumes "2 ^ e dvd i" "i < 2 ^ n" "e \<le> n"
  shows "i + 2 ^ e \<le> 2 ^ n"
  using dvd_pow2_interval_disjoint [of e i n 0] assms by simp

lemma unat_of_nat_small: "n < 2 ^ LENGTH('a) \<Longrightarrow> unat (of_nat n :: 'a::len word) = n"
  by (simp add: unsigned_of_nat take_bit_nat_eq_self)

unbundle bit_operations_syntax

lemma align_down_unat:
  fixes x :: "64 word"
  assumes "k < 64"
  shows "unat (x AND NOT (2 ^ k - 1)) = unat x div 2 ^ k * 2 ^ k"
proof -
  have "x AND NOT (2 ^ k - 1) = push_bit k (drop_bit k x)"
    unfolding mask_eq_exp_minus_1 [symmetric] by (rule bit_eqI) (auto simp: bit_simps)
  moreover have "unat (push_bit k (drop_bit k x)) = unat x div 2 ^ k * 2 ^ k"
  proof -
    have x: "unat x < 2 ^ 64" using unsigned_less [of x] by simp
    have "unat x div 2 ^ k * 2 ^ k \<le> unat x" by simp
    also note x
    finally show ?thesis using x
      unfolding unsigned_push_bit_eq unsigned_drop_bit_eq
      by (simp add: push_bit_eq_mult drop_bit_eq_div take_bit_nat_eq_self)
  qed
  ultimately show ?thesis by simp
qed
lemma pow2_above: "i + 2 ^ k \<le> j \<Longrightarrow> i < j" for i j :: nat
  using zero_less_power [of "2::nat" k] by linarith

lemma pow2_between: "i \<le> j \<Longrightarrow> i < j + 2 ^ k" for i j :: nat
  using zero_less_power [of "2::nat" k] by linarith

end
