(* ===== verification/Irq.thy ===== *)
theory Irq
  imports Prelude
begin

text \<open>
  The processor state that every critical section of the kernel touches
  (\<open>include/kernel/interrupt.h\<close>): the nesting counter, the DAIF mask, and the messages the
  kernel prints.  The records of the later components extend \<open>cpu\<close>, one group of the kernel's
  global variables at a time, so an operation of one component runs unchanged on the state
  of the components above it.

  A kernel function that masks interrupts for its whole body runs without interleaving on the single
  core that the kernel uses, so its model is a function from state to state.
\<close>

record cpu =
  irq_nested_count :: int
  daif_masked :: bool
  console :: "string list"

definition disable_int :: "'a cpu_scheme \<Rightarrow> 'a cpu_scheme" where
  "disable_int s = s\<lparr>daif_masked := True, irq_nested_count := irq_nested_count s + 1\<rparr>"

definition enable_int :: "'a cpu_scheme \<Rightarrow> 'a cpu_scheme" where
  "enable_int s =
     (let c = irq_nested_count s - 1; s1 = s\<lparr>irq_nested_count := c\<rparr>
      in if c = 0 then s1\<lparr>daif_masked := False\<rparr> else s1)"

text \<open>A call of \<open>printf\<close> or \<open>err\<close> with a constant message.\<close>

definition print_msg :: "string \<Rightarrow> 'a cpu_scheme \<Rightarrow> 'a cpu_scheme" where
  "print_msg m s = s\<lparr>console := console s @ [m]\<rparr>"

text \<open>Interrupts are masked exactly while some critical section is open.\<close>

definition irq_ok :: "'a cpu_scheme \<Rightarrow> bool" where
  "irq_ok s \<longleftrightarrow> 0 \<le> irq_nested_count s \<and> (daif_masked s \<longleftrightarrow> 0 < irq_nested_count s)"

lemma disable_int_simps [simp, irq_simps]:
  "irq_nested_count (disable_int s) = irq_nested_count s + 1"
  "daif_masked (disable_int s)"
  "console (disable_int s) = console s"
  by (simp_all add: disable_int_def)

lemma enable_int_simps [simp, irq_simps]:
  "irq_nested_count (enable_int s) = irq_nested_count s - 1"
  "daif_masked (enable_int s) \<longleftrightarrow> daif_masked s \<and> irq_nested_count s \<noteq> 1"
  "console (enable_int s) = console s"
  by (auto simp: enable_int_def Let_def)

lemma print_msg_simps [simp, irq_simps]:
  "irq_nested_count (print_msg m s) = irq_nested_count s"
  "daif_masked (print_msg m s) = daif_masked s"
  "console (print_msg m s) = console s @ [m]"
  by (simp_all add: print_msg_def)

lemma irq_ok_disable [simp]: "irq_ok s \<Longrightarrow> irq_ok (disable_int s)"
  by (simp add: irq_ok_def)

lemma irq_ok_enable [simp]: "irq_ok s \<Longrightarrow> daif_masked s \<Longrightarrow> irq_ok (enable_int s)"
  by (auto simp: irq_ok_def)

lemma critical_section_id: "irq_ok s \<Longrightarrow> enable_int (disable_int s) = s"
  by (cases s) (auto simp: irq_ok_def enable_int_def disable_int_def Let_def)

lemma critical_section_print: "irq_ok s \<Longrightarrow> enable_int (print_msg m (disable_int s)) = print_msg m s"
  by (cases s) (auto simp: irq_ok_def enable_int_def disable_int_def print_msg_def Let_def)

end
