(* ===== verification/Dll.thy ===== *)
theory Dll
  imports Prelude
begin

text \<open>
  Doubly linked segments over two pointer fields, given as functions \<open>P\<close> (previous) and
  \<open>X\<close> (next) from node addresses to optional addresses.  The buddy allocator's free lists
  (\<open>mem.c\<close>) and the generic list of \<open>list.c\<close> both link their nodes this way, so the laws of
  insertion at either end and of removal are proved once here.
\<close>

fun dseg :: "('p \<Rightarrow> 'p option) \<Rightarrow> ('p \<Rightarrow> 'p option) \<Rightarrow>
    'p option \<Rightarrow> 'p option \<Rightarrow> 'p list \<Rightarrow> 'p option \<Rightarrow> 'p option \<Rightarrow> bool" where
  "dseg P X pv cu [] la ne \<longleftrightarrow> pv = la \<and> cu = ne"
| "dseg P X pv cu (a # as) la ne \<longleftrightarrow> cu = Some a \<and> P a = pv \<and> dseg P X (Some a) (X a) as la ne"

text \<open>A whole list: no predecessor before the head, no successor after the tail.\<close>

abbreviation dll :: "('p \<Rightarrow> 'p option) \<Rightarrow> ('p \<Rightarrow> 'p option) \<Rightarrow> 'p option \<Rightarrow> 'p list \<Rightarrow> 'p option \<Rightarrow> bool" where
  "dll P X h xs t \<equiv> dseg P X None h xs t None"

lemma dseg_append:
  "dseg P X pv cu (xs @ ys) la ne \<longleftrightarrow> (\<exists>m n. dseg P X pv cu xs m n \<and> dseg P X m n ys la ne)"
  by (induction xs arbitrary: pv cu) auto

lemma dseg_frame:
  "(\<And>a. a \<in> set xs \<Longrightarrow> P' a = P a \<and> X' a = X a) \<Longrightarrow>
     dseg P' X' pv cu xs la ne = dseg P X pv cu xs la ne"
  by (induction xs arbitrary: pv cu) auto

lemma dseg_updP [simp]: "a \<notin> set xs \<Longrightarrow> dseg (P(a := v)) X pv cu xs la ne = dseg P X pv cu xs la ne"
  by (rule dseg_frame) auto

lemma dseg_updX [simp]: "a \<notin> set xs \<Longrightarrow> dseg P (X(a := v)) pv cu xs la ne = dseg P X pv cu xs la ne"
  by (rule dseg_frame) auto

lemma dseg_first: "dseg P X pv cu xs la ne \<Longrightarrow> cu = (if xs = [] then ne else Some (hd xs))"
  by (cases xs) auto

lemma dseg_last: "dseg P X pv cu xs la ne \<Longrightarrow> la = (if xs = [] then pv else Some (last xs))"
  by (induction xs arbitrary: pv cu) auto

lemma dseg_relink_next:
  "dseg P X pv cu xs (Some b) ne \<Longrightarrow> distinct xs \<Longrightarrow> xs \<noteq> [] \<Longrightarrow>
     dseg P (X(b := ne')) pv cu xs (Some b) ne'"
proof (induction xs arbitrary: pv cu)
  case (Cons a as)
  show ?case
  proof (cases "as = []")
    case True
    then show ?thesis using Cons.prems by auto
  next
    case False
    with Cons.prems have "b = last as" using dseg_last [of P X "Some a" "X a" as] by auto
    then have "a \<noteq> b" using Cons.prems False by auto
    with Cons False show ?thesis by auto
  qed
qed simp

lemma dseg_relink_prev:
  "dseg P X pv (Some b) xs la ne \<Longrightarrow> distinct xs \<Longrightarrow> xs \<noteq> [] \<Longrightarrow>
     dseg (P(b := pv')) X pv' (Some b) xs la ne"
  by (cases xs) auto

lemma dll_nth_prev:
  "dseg P X pv cu (xs @ a # ys) la ne \<Longrightarrow> P a = (if xs = [] then pv else Some (last xs))"
  using dseg_last by (fastforce simp: dseg_append)

lemma dll_nth_next:
  "dseg P X pv cu (xs @ a # ys) la ne \<Longrightarrow> X a = (if ys = [] then ne else Some (hd ys))"
  using dseg_first by (fastforce simp: dseg_append)

lemma dll_head_iff: "dll P X h xs t \<Longrightarrow> distinct xs \<Longrightarrow> a \<in> set xs \<Longrightarrow> h = Some a \<longleftrightarrow> P a = None"
proof -
  assume d: "dll P X h xs t" "distinct xs" and "a \<in> set xs"
  then obtain ys zs where xs: "xs = ys @ a # zs" by (meson split_list)
  have "h = Some (hd xs)" using dseg_first [OF d(1)] xs by simp
  moreover have "P a = (if ys = [] then None else Some (last ys))"
    using d(1) unfolding xs by (rule dll_nth_prev)
  ultimately show ?thesis using d(2) xs by (cases ys) auto
qed

text \<open>Insertion in front, appending, and removal.\<close>

lemma dll_push_front:
  assumes "dll P X h xs t" "a \<notin> set xs" "distinct xs" "P a = None"
  shows "dll (case h of None \<Rightarrow> P | Some b \<Rightarrow> P(b := Some a)) (X(a := h)) (Some a) (a # xs)
           (case h of None \<Rightarrow> Some a | Some b \<Rightarrow> t)"
proof (cases xs)
  case Nil
  then show ?thesis using assms by auto
next
  case (Cons b bs)
  then have h: "h = Some b" using assms(1) by simp
  then have "dseg (P(b := Some a)) (X(a := h)) (Some a) h xs t None"
    using assms Cons by auto
  then show ?thesis using assms Cons h by auto
qed

lemma dll_push_back:
  assumes "dll P X h xs t" "a \<notin> set xs" "distinct xs"
  shows "dll (P(a := t)) (case t of None \<Rightarrow> X(a := None) | Some b \<Rightarrow> (X(a := None))(b := Some a))
           (case t of None \<Rightarrow> Some a | Some b \<Rightarrow> h) (xs @ [a]) (Some a)"
proof (cases t)
  case None
  then have "xs = []" using dseg_last [OF assms(1)] by (auto split: if_splits)
  then show ?thesis using None assms by simp
next
  case (Some b)
  then have ne: "xs \<noteq> []" and b: "b = last xs" using dseg_last [OF assms(1)] by (auto split: if_splits)
  then have "b \<noteq> a" using assms(2) last_in_set by metis
  have "dseg P (X(b := Some a)) None h xs (Some b) (Some a)"
    using assms Some ne by (auto intro: dseg_relink_next)
  then have "dseg (P(a := t)) ((X(a := None))(b := Some a)) None h xs (Some b) (Some a)"
    using assms(2) by (subst dseg_frame [where P = P and X = "X(b := Some a)"]) auto
  then show ?thesis using Some \<open>b \<noteq> a\<close> by (auto simp: dseg_append)
qed

lemma dll_remove:
  assumes "dll P X h (ys @ a # zs) t" "distinct (ys @ a # zs)"
  shows "dll (case X a of None \<Rightarrow> P | Some b \<Rightarrow> P(b := P a))
             (case P a of None \<Rightarrow> X | Some b \<Rightarrow> X(b := X a))
             (case P a of None \<Rightarrow> X a | Some b \<Rightarrow> h) (ys @ zs)
             (case X a of None \<Rightarrow> P a | Some b \<Rightarrow> t)"
proof -
  have pa: "P a = (if ys = [] then None else Some (last ys))" using assms(1) by (rule dll_nth_prev)
  have xa: "X a = (if zs = [] then None else Some (hd zs))" using assms(1) by (rule dll_nth_next)
  obtain m n where s1: "dseg P X None h ys m n" and s2: "n = Some a" "P a = m"
    "dseg P X (Some a) (X a) zs t None" using assms(1) by (auto simp: dseg_append)
  define P' where "P' = (case X a of None \<Rightarrow> P | Some b \<Rightarrow> P(b := P a))"
  define X' where "X' = (case P a of None \<Rightarrow> X | Some b \<Rightarrow> X(b := X a))"
  have fp: "P' c = P c" if "c \<in> set ys" for c
    using that assms(2) xa by (cases zs) (auto simp: P'_def)
  have fx: "X' c = X c" if "c \<in> set zs" for c
  proof -
    have "last ys \<noteq> c" if "ys \<noteq> []"
      using last_in_set [OF that] \<open>c \<in> set zs\<close> assms(2) by auto
    then show ?thesis using pa by (auto simp: X'_def)
  qed
  have front: "dseg P' X' None (case P a of None \<Rightarrow> X a | Some b \<Rightarrow> h) ys (P a) (X a)"
  proof (cases "ys = []")
    case True
    then show ?thesis using pa by simp
  next
    case False
    then have "dseg P (X(last ys := X a)) None h ys (P a) (X a)"
      using s1 s2 pa assms(2) dseg_relink_next [of P X None h ys "last ys"] by auto
    then show ?thesis using False pa fp
      by (subst dseg_frame [where P = P and X = "X(last ys := X a)"]) (auto simp: X'_def)
  qed
  have rear: "dseg P' X' (P a) (X a) zs (case X a of None \<Rightarrow> P a | Some b \<Rightarrow> t) None"
  proof (cases "zs = []")
    case True
    then show ?thesis using xa by simp
  next
    case False
    then have "dseg (P(hd zs := P a)) X (P a) (X a) zs t None"
      using s2 xa assms(2) dseg_relink_prev [of P X "Some a" "hd zs" zs] by auto
    then show ?thesis using False xa fx
      by (subst dseg_frame [where P = "P(hd zs := P a)" and X = X]) (auto simp: P'_def)
  qed
  from front rear show ?thesis unfolding dseg_append P'_def X'_def by blast
qed

end
