(* ===== verification/Block_Map.thy ===== *)
theory Block_Map
  imports Prelude
begin

text \<open>
  The meaning of the array \<open>buddy_data.arr\<close> of \<open>mem.c\<close>, on its own: which entries are heads of
  blocks, that the blocks partition the pages, and what splitting, joining and re-marking blocks
  does to the partition.  The comment above \<open>buddy_data\<close> in the source fixes the
  encoding: \<open>EMPTY\<close> for a page that is not a head, the size exponent for the head of a free block, its
  negation (or \<open>NEG_ZERO\<close>) for the head of a used block.
\<close>

section \<open>Encoding\<close>

definition EMPTY :: int where "EMPTY = 2147483647"
definition NEG_ZERO :: int where "NEG_ZERO = - 2147483647"

text \<open>The mark of a used block of \<open>2 ^ e\<close> pages.\<close>

definition neg_exp :: "nat \<Rightarrow> int" where
  "neg_exp e = (if e = 0 then NEG_ZERO else - int e)"

definition bexp :: "int \<Rightarrow> nat" where
  "bexp v = (if v = NEG_ZERO then 0 else nat \<bar>v\<bar>)"

definition is_head :: "int list \<Rightarrow> nat \<Rightarrow> bool" where
  "is_head a i \<longleftrightarrow> i < length a \<and> a ! i \<noteq> EMPTY"

definition covers :: "int list \<Rightarrow> nat \<Rightarrow> nat \<Rightarrow> bool" where
  "covers a i j \<longleftrightarrow> is_head a i \<and> i \<le> j \<and> j < i + 2 ^ bexp (a ! i)"

text \<open>
  The blocks are aligned, no larger than the memory, and partition the pages.  The bound on
  \<open>n\<close> keeps block exponents away from the two reserved values.
\<close>

definition part_ok :: "nat \<Rightarrow> int list \<Rightarrow> bool" where
  "part_ok n a \<longleftrightarrow> n \<le> 30 \<and> length a = 2 ^ n
     \<and> (\<forall>i. is_head a i \<longrightarrow> bexp (a ! i) \<le> n \<and> 2 ^ bexp (a ! i) dvd i)
     \<and> (\<forall>j < 2 ^ n. \<exists>!i. covers a i j)"

definition used_at :: "int list \<Rightarrow> nat \<Rightarrow> nat \<Rightarrow> bool" where
  "used_at a i e \<longleftrightarrow> i < length a \<and> a ! i = neg_exp e"

definition free_at :: "int list \<Rightarrow> nat \<Rightarrow> nat \<Rightarrow> bool" where
  "free_at a i e \<longleftrightarrow> i < length a \<and> a ! i = int e"

text \<open>No two buddies are both free: every release has merged as far as possible.\<close>

definition coalesced :: "nat \<Rightarrow> int list \<Rightarrow> bool" where
  "coalesced n a \<longleftrightarrow> (\<forall>e < n. \<forall>i < 2 ^ n. 2 ^ Suc e dvd i \<longrightarrow> \<not> (a ! i = int e \<and> a ! (i + 2 ^ e) = int e))"

text \<open>The same, except that the pair at level \<open>e\<close> that contains page \<open>idx\<close> may still be unmerged.\<close>

definition coalesced_but :: "nat \<Rightarrow> nat \<Rightarrow> nat \<Rightarrow> int list \<Rightarrow> bool" where
  "coalesced_but idx d n a \<longleftrightarrow>
     (\<forall>e < n. \<forall>i < 2 ^ n. 2 ^ Suc e dvd i \<longrightarrow> (e = d \<longrightarrow> i \<noteq> idx \<and> i + 2 ^ e \<noteq> idx)
        \<longrightarrow> \<not> (a ! i = int e \<and> a ! (i + 2 ^ e) = int e))"

text \<open>
  The index of the buddy: \<^term>\<open>None\<close> where the C subtraction would go below zero and the
  array access that follows would be outside the array.
\<close>

definition buddy_of :: "nat \<Rightarrow> nat \<Rightarrow> nat option" where
  "buddy_of idx e =
     (if idx mod 2 ^ (e + 1) = 0 then Some (idx + 2 ^ e)
      else if idx < 2 ^ e then None else Some (idx - 2 ^ e))"

section \<open>Arithmetic of the encoding\<close>

lemma bexp_int [simp]: "bexp (int e) = e"
  by (simp add: bexp_def NEG_ZERO_def)

lemma bexp_neg_exp [simp]: "e \<le> 30 \<Longrightarrow> bexp (neg_exp e) = e"
  by (auto simp: bexp_def neg_exp_def NEG_ZERO_def)

lemma neg_exp_neg [simp]: "neg_exp e < 0" "\<not> 0 \<le> neg_exp e"
  by (auto simp: neg_exp_def NEG_ZERO_def)

lemma neg_exp_not_EMPTY [simp]: "neg_exp e \<noteq> EMPTY" "EMPTY \<noteq> neg_exp e"
  by (auto simp: neg_exp_def NEG_ZERO_def EMPTY_def)

lemma neg_exp_not_int [simp]: "neg_exp e \<noteq> int k" "int k \<noteq> neg_exp e"
  by (auto simp: neg_exp_def NEG_ZERO_def)

lemma int_not_EMPTY [simp]: "e \<le> 30 \<Longrightarrow> int e \<noteq> EMPTY" "e \<le> 30 \<Longrightarrow> EMPTY \<noteq> int e"
  by (auto simp: EMPTY_def)

lemma EMPTY_nonneg [simp]: "0 \<le> EMPTY" "\<not> EMPTY < 0"
  by (simp_all add: EMPTY_def)

lemma neg_exp_inj: "d \<le> 30 \<Longrightarrow> e \<le> 30 \<Longrightarrow> neg_exp d = neg_exp e \<longleftrightarrow> d = e"
  by (metis bexp_neg_exp)

lemma neg_is_neg_exp: "v < 0 \<Longrightarrow> bexp v \<le> 30 \<Longrightarrow> v = neg_exp (bexp v)"
  by (auto simp: bexp_def neg_exp_def)

lemma nonneg_is_int: "0 \<le> v \<Longrightarrow> v = int (bexp v)"
  by (auto simp: bexp_def NEG_ZERO_def)

section \<open>Consequences of the partition\<close>

lemma part_okD:
  assumes "part_ok n a"
  shows "n \<le> 30" "length a = 2 ^ n"
    "\<And>i. is_head a i \<Longrightarrow> bexp (a ! i) \<le> n" "\<And>i. is_head a i \<Longrightarrow> 2 ^ bexp (a ! i) dvd i"
    "\<And>j. j < 2 ^ n \<Longrightarrow> \<exists>!i. covers a i j"
  using assms by (auto simp: part_ok_def)

lemma covers_unique: "part_ok n a \<Longrightarrow> covers a i j \<Longrightarrow> covers a k j \<Longrightarrow> j < 2 ^ n \<Longrightarrow> i = k"
  using part_okD(5) by blast

lemma head_covers_self: "is_head a i \<Longrightarrow> covers a i i"
  by (simp add: covers_def)

lemma block_fits: "part_ok n a \<Longrightarrow> is_head a i \<Longrightarrow> i + 2 ^ bexp (a ! i) \<le> 2 ^ n"
  using part_okD by (intro aligned_block_fits) (auto simp: is_head_def)

lemma interior_EMPTY:
  assumes "part_ok n a" "is_head a i" "i < j" "j < i + 2 ^ bexp (a ! i)"
  shows "a ! j = EMPTY"
proof (rule ccontr)
  assume "a ! j \<noteq> EMPTY"
  have j: "j < 2 ^ n" using block_fits [OF assms(1,2)] assms(4) by simp
  then have "is_head a j" using \<open>a ! j \<noteq> EMPTY\<close> part_okD(2) [OF assms(1)] by (simp add: is_head_def)
  moreover have "covers a i j" using assms by (simp add: covers_def)
  ultimately have "i = j" using covers_unique [OF assms(1)] head_covers_self j by blast
  then show False using assms(3) by simp
qed

text \<open>Different blocks have no page in common.\<close>

lemma blocks_disjoint:
  assumes "part_ok n a" "is_head a i" "is_head a k" "i \<noteq> k"
  shows "{i..<i + 2 ^ bexp (a ! i)} \<inter> {k..<k + 2 ^ bexp (a ! k)} = {}"
proof (rule ccontr)
  assume "\<not> ?thesis"
  then obtain j where "j \<in> {i..<i + 2 ^ bexp (a ! i)}" "j \<in> {k..<k + 2 ^ bexp (a ! k)}" by blast
  then have j: "covers a i j" "covers a k j" using assms by (simp_all add: covers_def)
  then have "j < 2 ^ n" using block_fits [OF assms(1,2)] by (auto simp: covers_def)
  then show False using covers_unique [OF assms(1) j] assms(4) by simp
qed

section \<open>Updates of the array\<close>

lemma part_ok_retag:
  assumes "part_ok n a" "is_head a i" "bexp v = bexp (a ! i)" "v \<noteq> EMPTY"
  shows "part_ok n (a[i := v])"
proof -
  have h: "is_head (a[i := v]) k = is_head a k" for k
    using assms by (auto simp: is_head_def nth_list_update)
  have "bexp (a[i := v] ! k) = bexp (a ! k)" for k
    using assms by (cases "k = i") (auto simp: is_head_def)
  then show ?thesis using assms(1) h by (simp add: part_ok_def covers_def)
qed

lemma part_ok_split:
  assumes p: "part_ok n a" and i: "is_head a i" "bexp (a ! i) = Suc e"
    and v: "bexp v = e" "v \<noteq> EMPTY" and w: "bexp w = e" "w \<noteq> EMPTY"
  shows "part_ok n (a[i := v, i + 2 ^ e := w])" (is "part_ok n ?a'")
proof -
  let ?b = "i + 2 ^ e"
  note D = part_okD [OF p]
  have fit: "i + 2 ^ Suc e \<le> 2 ^ n" using block_fits [OF p i(1)] i(2) by simp
  have "?b < i + 2 ^ Suc e" by simp
  then have lb: "?b < length a" "?b \<noteq> i" using fit D(2) by (linarith, simp)
  have bE: "a ! ?b = EMPTY" using interior_EMPTY [OF p i(1)] i(2) by simp
  have cov: "covers ?a' x j \<longleftrightarrow> (if x = i then i \<le> j \<and> j < ?b
      else if x = ?b then ?b \<le> j \<and> j < i + 2 ^ Suc e else covers a x j)" for x j
    using lb i v w by (auto simp: covers_def is_head_def nth_list_update)
  have ci: "covers a i j \<longleftrightarrow> i \<le> j \<and> j < i + 2 ^ Suc e" for j using i by (simp add: covers_def)
  have cb: "\<not> covers a ?b j" for j using bE by (simp add: covers_def is_head_def)
  have "\<exists>!x. covers ?a' x j" if j: "j < 2 ^ n" for j
  proof -
    obtain x where x: "covers a x j" "\<And>y. covers a y j \<Longrightarrow> y = x" using D(5) [OF j] by blast
    show ?thesis
    proof (cases "x = i")
      case True
      then have "i \<le> j" "j < i + 2 ^ Suc e" using x(1) ci by auto
      moreover have "y = i" if "covers a y j" for y using that x(2) True by blast
      ultimately show ?thesis using lb(2) unfolding cov
        by (intro ex1I [of _ "if j < ?b then i else ?b"]) (auto split: if_splits)
    next
      case False
      then have nj: "\<not> (i \<le> j \<and> j < i + 2 ^ Suc e)" using x(2) ci by blast
      have "x \<noteq> ?b" using x(1) cb by blast
      then show ?thesis unfolding cov
      proof (intro ex1I [of _ x])
        fix y assume "if y = i then i \<le> j \<and> j < ?b
          else if y = ?b then ?b \<le> j \<and> j < i + 2 ^ Suc e else covers a y j"
        then show "y = x" using x(2) [of y] nj by (auto split: if_splits)
      qed (use False x(1) in simp)
    qed
  qed
  moreover have "bexp (?a' ! x) \<le> n \<and> 2 ^ bexp (?a' ! x) dvd x" if "is_head ?a' x" for x
  proof -
    have le: "Suc e \<le> n" "2 ^ Suc e dvd i" using D(3,4) [OF i(1)] i(2) by auto
    then have "(2::nat) ^ e dvd i" by (meson dvd_trans le_imp_power_dvd lessI less_imp_le)
    then have "(2::nat) ^ e dvd ?b" by simp
    then show ?thesis using that le \<open>2 ^ e dvd i\<close> D(3,4) [of x] v w lb
      by (auto simp: is_head_def nth_list_update split: if_splits)
  qed
  ultimately show ?thesis using D by (auto simp: part_ok_def)
qed

lemma part_ok_join:
  assumes p: "part_ok n a" and i: "is_head a i" "bexp (a ! i) = e"
    and b: "is_head a (i + 2 ^ e)" "bexp (a ! (i + 2 ^ e)) = e"
    and al: "2 ^ Suc e dvd i" "e < n" and v: "bexp v = Suc e" "v \<noteq> EMPTY"
  shows "part_ok n (a[i := v, i + 2 ^ e := EMPTY])" (is "part_ok n ?a'")
proof -
  let ?b = "i + 2 ^ e"
  note D = part_okD [OF p]
  have lb: "i < length a" "?b < length a" "?b \<noteq> i" using i b by (simp_all add: is_head_def)
  have cov: "covers ?a' x j \<longleftrightarrow> (if x = i then i \<le> j \<and> j < i + 2 ^ Suc e
      else if x = ?b then False else covers a x j)" for x j
    using lb v by (auto simp: covers_def is_head_def nth_list_update)
  have ci: "covers a i j \<longleftrightarrow> i \<le> j \<and> j < ?b" for j using i by (simp add: covers_def)
  have cb: "covers a ?b j \<longleftrightarrow> ?b \<le> j \<and> j < i + 2 ^ Suc e" for j
    using b by (auto simp: covers_def)
  have "\<exists>!x. covers ?a' x j" if j: "j < 2 ^ n" for j
  proof -
    obtain x where x: "covers a x j" "\<And>y. covers a y j \<Longrightarrow> y = x" using D(5) [OF j] by blast
    show ?thesis
    proof (cases "x = i \<or> x = ?b")
      case True
      then have "covers a i j \<or> covers a ?b j" using x(1) by blast
      then have "i \<le> j" "j < i + 2 ^ Suc e" unfolding ci cb by auto
      moreover have "y = i" if "y \<noteq> ?b" "covers a y j" for y using that x(2) True by blast
      ultimately show ?thesis unfolding cov by (intro ex1I [of _ i]) (auto split: if_splits)
    next
      case False
      then have "\<not> covers a i j" "\<not> covers a ?b j" using x(2) by blast+
      then have nj: "\<not> (i \<le> j \<and> j < i + 2 ^ Suc e)" unfolding ci cb by linarith
      show ?thesis unfolding cov
      proof (intro ex1I [of _ x])
        fix y assume "if y = i then i \<le> j \<and> j < i + 2 ^ Suc e
          else if y = ?b then False else covers a y j"
        then show "y = x" using x(2) [of y] nj by (auto split: if_splits)
      qed (use False x(1) in simp)
    qed
  qed
  moreover have "bexp (?a' ! x) \<le> n \<and> 2 ^ bexp (?a' ! x) dvd x" if "is_head ?a' x" for x
    using that al v lb D(3,4) [of x] by (auto simp: is_head_def nth_list_update split: if_splits)
  ultimately show ?thesis using D by (auto simp: part_ok_def)
qed

section \<open>Splitting a block down to a size\<close>

primrec cut_exp :: "nat \<Rightarrow> nat \<Rightarrow> nat" where
  "cut_exp 0 req = 0"
| "cut_exp (Suc e) req = (if 2 ^ e < req then Suc e else cut_exp e req)"

primrec cut_arr :: "nat \<Rightarrow> nat \<Rightarrow> nat \<Rightarrow> int list \<Rightarrow> int list" where
  "cut_arr idx 0 req a = a"
| "cut_arr idx (Suc e) req a =
     (if 2 ^ e < req then a else cut_arr idx e req (a[idx := neg_exp e, idx + 2 ^ e := int e]))"

lemma cut_exp_le: "cut_exp e req \<le> e"
  by (induction e) auto

lemma cut_exp_enough: "req \<le> 2 ^ e \<Longrightarrow> req \<le> 2 ^ cut_exp e req"
  by (induction e) auto

lemma cut_exp_tight: "cut_exp e req = 0 \<or> 2 ^ (cut_exp e req - 1) < req"
  by (induction e) auto

lemma length_cut_arr [simp]: "length (cut_arr idx e req a) = length a"
  by (induction e arbitrary: a) auto

lemma cut_arr_other:
  "i \<noteq> idx \<Longrightarrow> i < length a \<Longrightarrow> cut_arr idx e req a ! i = a ! i
     \<or> (idx < i \<and> i < idx + 2 ^ e \<and> 0 \<le> cut_arr idx e req a ! i)"
proof (induction e arbitrary: a)
  case (Suc e)
  let ?a = "a[idx := neg_exp e, idx + 2 ^ e := int e]"
  show ?case
  proof (cases "2 ^ e < req")
    case False
    have "?a ! i = (if i = idx + 2 ^ e then int e else a ! i)" using Suc.prems by (simp add: nth_list_update)
    then show ?thesis using Suc.IH [of ?a] Suc.prems False by (cases "i = idx + 2 ^ e") auto
  qed simp
qed simp

lemma cut_arr_part:
  "part_ok n a \<Longrightarrow> is_head a idx \<Longrightarrow> a ! idx = neg_exp e \<Longrightarrow> e \<le> n \<Longrightarrow>
     part_ok n (cut_arr idx e req a) \<and> cut_arr idx e req a ! idx = neg_exp (cut_exp e req)"
proof (induction e arbitrary: a)
  case (Suc e)
  let ?a = "a[idx := neg_exp e, idx + 2 ^ e := int e]"
  have n: "n \<le> 30" using part_okD(1) [OF Suc.prems(1)] .
  have "part_ok n ?a"
    using part_ok_split [OF Suc.prems(1,2), of e "neg_exp e" "int e"] Suc.prems n by simp
  moreover have "is_head ?a idx" "?a ! idx = neg_exp e"
    using Suc.prems by (simp_all add: is_head_def nth_list_update)
  ultimately show ?case using Suc.IH [of ?a] Suc.prems by simp
qed simp

lemma cut_arr_coalesced:
  "part_ok n a \<Longrightarrow> coalesced n a \<Longrightarrow> is_head a idx \<Longrightarrow> a ! idx = neg_exp e \<Longrightarrow> e \<le> n \<Longrightarrow>
     coalesced n (cut_arr idx e req a)"
proof (induction e arbitrary: a)
  case (Suc e)
  let ?b = "idx + 2 ^ e"
  let ?a = "a[idx := neg_exp e, ?b := int e]"
  have n: "n \<le> 30" using part_okD(1) [OF Suc.prems(1)] .
  have al: "2 ^ Suc e dvd idx" using part_okD(4) [OF Suc.prems(1,3)] Suc.prems(4,5) n by simp
  have "part_ok n ?a"
    using part_ok_split [OF Suc.prems(1,3), of e "neg_exp e" "int e"] Suc.prems n by simp
  moreover have h: "is_head ?a idx" "?a ! idx = neg_exp e"
    using Suc.prems by (simp_all add: is_head_def nth_list_update)
  moreover have "coalesced n ?a"
    unfolding coalesced_def
  proof (intro allI impI notI)
    fix d i assume d: "d < n" "i < 2 ^ n" "2 ^ Suc d dvd i" and f: "?a ! i = int d \<and> ?a ! (i + 2 ^ d) = int d"
    have "i \<noteq> idx" "i + 2 ^ d \<noteq> idx" using f h(2) by auto
    then have "i = ?b \<or> i + 2 ^ d = ?b"
      using f d Suc.prems(2) unfolding coalesced_def by (metis nth_list_update_neq)
    then show False
    proof
      assume i: "i = ?b"
      then have "d = e" using f h(1) \<open>i \<noteq> idx\<close> d(2) part_okD(2) [OF Suc.prems(1)]
        by (simp add: is_head_def)
      then have "2 ^ Suc e dvd idx + 2 ^ e" using d(3) i by simp
      then have "(2::nat) ^ Suc e dvd 2 ^ e" using al dvd_add_right_iff by blast
      then show False by (simp add: power_dvd_imp_le)
    next
      assume i: "i + 2 ^ d = ?b"
      have "idx + 2 * 2 ^ e \<le> 2 ^ n" using block_fits [OF Suc.prems(1,3)] Suc.prems(4,5) n by simp
      moreover have "(0::nat) < 2 ^ e" by simp
      ultimately have "idx + 2 ^ e < 2 ^ n" by linarith
      then have "?b < length ?a" using part_okD(2) [OF Suc.prems(1)] by simp
      then have "d = e" using f i by simp
      then show False using i \<open>i \<noteq> idx\<close> by simp
    qed
  qed
  ultimately show ?case using Suc.IH [of ?a] Suc.prems by simp
qed simp

section \<open>Merging up\<close>

function merge_arr :: "nat \<Rightarrow> nat \<Rightarrow> nat \<Rightarrow> int list \<Rightarrow> int list" where
  "merge_arr n idx e a =
     (if n \<le> e then a
      else case buddy_of idx e of
        None \<Rightarrow> a
      | Some b \<Rightarrow>
          if a ! b \<noteq> int e then a
          else merge_arr n (min idx b) (Suc e) (a[min idx b := int (Suc e), max idx b := EMPTY]))"
  by pat_completeness auto
termination
  by (relation "measure (\<lambda>(n, idx, e, a). n - e)") auto

declare merge_arr.simps [simp del]

lemma buddy_cases:
  assumes "2 ^ e dvd idx"
  obtains (low) "2 ^ Suc e dvd idx" "buddy_of idx e = Some (idx + 2 ^ e)"
  | (high) lo where "2 ^ Suc e dvd lo" "idx = lo + 2 ^ e" "buddy_of idx e = Some lo"
proof (cases "2 ^ Suc e dvd idx")
  case True
  then show ?thesis by (intro low) (auto simp: buddy_of_def)
next
  case False
  obtain k where k: "idx = 2 ^ e * k" using assms by (auto simp: dvd_def)
  with False have "odd k" by (metis dvd_mult_cancel1 even_mult_iff mult.commute mult_dvd_mono
        dvd_refl power_Suc)
  then obtain m where "k = 2 * m + 1" by (rule oddE)
  then have "idx = 2 ^ Suc e * m + 2 ^ e" using k by (simp add: algebra_simps)
  then show ?thesis using False by (intro high [of "2 ^ Suc e * m"]) (auto simp: buddy_of_def mod_eq_0_iff_dvd)
qed

text \<open>One merge step, seen from the lower of the two buddies.\<close>

lemma merge_step:
  assumes p: "part_ok n a" and e: "e < n" and lo: "2 ^ Suc e dvd lo" "lo < 2 ^ n"
    and f: "a ! lo = int e" "a ! (lo + 2 ^ e) = int e"
    and c: "coalesced_but lo e n a \<or> coalesced_but (lo + 2 ^ e) e n a"
  defines "a' \<equiv> a[lo := int (Suc e), lo + 2 ^ e := EMPTY]"
  shows "part_ok n a'" "a' ! lo = int (Suc e)" "coalesced_but lo (Suc e) n a'"
proof -
  have n: "n \<le> 30" "length a = 2 ^ n" using part_okD [OF p] by auto
  have "lo + 2 ^ Suc e \<le> 2 ^ n" using aligned_block_fits [OF lo] e by simp
  moreover have "lo + 2 ^ e < lo + 2 ^ Suc e" by simp
  ultimately have lb: "lo < length a" "lo + 2 ^ e < length a" using n lo by linarith+
  have h: "is_head a lo" "is_head a (lo + 2 ^ e)" using lb f n e by (simp_all add: is_head_def)
  show "part_ok n a'" unfolding a'_def
    by (rule part_ok_join [OF p h(1) _ h(2) _ lo(1) e])
      (use f n e in \<open>simp_all del: of_nat_Suc\<close>)
  show "a' ! lo = int (Suc e)" using lb by (simp add: a'_def)
  show "coalesced_but lo (Suc e) n a'"
    unfolding coalesced_but_def
  proof (intro allI impI notI)
    fix d i assume d: "d < n" "i < 2 ^ n" "2 ^ Suc d dvd i" "d = Suc e \<longrightarrow> i \<noteq> lo \<and> i + 2 ^ d \<noteq> lo"
      and g: "a' ! i = int d \<and> a' ! (i + 2 ^ d) = int d"
    have E: "a' ! (lo + 2 ^ e) = EMPTY" "a' ! lo = int (Suc e)" using lb by (simp_all add: a'_def)
    have ne: "int d \<noteq> EMPTY" using d n by simp
    have "i \<noteq> lo + 2 ^ e" "i + 2 ^ d \<noteq> lo + 2 ^ e" using g E ne by auto
    have "i = lo \<or> i + 2 ^ d = lo \<Longrightarrow> int d = int (Suc e)" using g E(2) by metis
    then have "i \<noteq> lo" "i + 2 ^ d \<noteq> lo" using d(4) of_nat_eq_iff by metis+
    then have "a ! i = int d \<and> a ! (i + 2 ^ d) = int d"
      using g \<open>i \<noteq> lo + 2 ^ e\<close> \<open>i + 2 ^ d \<noteq> lo + 2 ^ e\<close> by (simp add: a'_def)
    with c d(1,2,3) \<open>i \<noteq> lo\<close> \<open>i + 2 ^ d \<noteq> lo\<close> \<open>i \<noteq> lo + 2 ^ e\<close> \<open>i + 2 ^ d \<noteq> lo + 2 ^ e\<close>
    show False unfolding coalesced_but_def by metis
  qed
qed

lemma coalesced_but_done:
  assumes "coalesced_but idx e n a" "2 ^ e dvd idx"
    "n \<le> e \<or> (\<exists>b. buddy_of idx e = Some b \<and> a ! b \<noteq> int e)"
  shows "coalesced n a"
  unfolding coalesced_def
proof (intro allI impI notI)
  fix d i assume d: "d < n" "i < 2 ^ n" "2 ^ Suc d dvd i" and f: "a ! i = int d \<and> a ! (i + 2 ^ d) = int d"
  then have "d = e" and i: "i = idx \<or> i + 2 ^ e = idx"
    using assms(1) unfolding coalesced_but_def by metis+
  then obtain b where b: "buddy_of idx e = Some b" "a ! b \<noteq> int e" using assms(3) d(1) by auto
  from assms(2) show False
  proof (cases rule: buddy_cases)
    case low
    then have "i \<noteq> idx" using b f \<open>d = e\<close> by auto
    then have "idx = i + 2 ^ e" using i by simp
    then have "(2::nat) ^ Suc e dvd 2 ^ e" using low(1) d(3) \<open>d = e\<close> dvd_add_right_iff by blast
    then show False by (simp add: power_dvd_imp_le)
  next
    case (high lo)
    then have "i + 2 ^ e \<noteq> idx" using b f \<open>d = e\<close> by auto
    then have "i = lo + 2 ^ e" using i high(2) by simp
    then have "(2::nat) ^ Suc e dvd 2 ^ e" using high(1) d(3) \<open>d = e\<close> dvd_add_right_iff by blast
    then show False by (simp add: power_dvd_imp_le)
  qed
qed

lemma coalesced_but_release:
  assumes "coalesced n a" "idx < length a" shows "coalesced_but idx e n (a[idx := int e])"
  unfolding coalesced_but_def
proof (intro allI impI notI)
  fix d i assume d: "d < n" "i < 2 ^ n" "2 ^ Suc d dvd i" "d = e \<longrightarrow> i \<noteq> idx \<and> i + 2 ^ d \<noteq> idx"
    and f: "a[idx := int e] ! i = int d \<and> a[idx := int e] ! (i + 2 ^ d) = int d"
  have "i = idx \<or> i + 2 ^ d = idx \<Longrightarrow> int d = int e" using f assms(2) by (metis nth_list_update_eq)
  then have "i \<noteq> idx" "i + 2 ^ d \<noteq> idx" using d(4) of_nat_eq_iff by metis+
  then have "a ! i = int d \<and> a ! (i + 2 ^ d) = int d" using f by simp
  then show False using d(1,2,3) assms(1) unfolding coalesced_def by blast
qed

lemma coalesced_mark_used:
  assumes "coalesced n a" "i < length a" shows "coalesced n (a[i := neg_exp k])"
  unfolding coalesced_def
proof (intro allI impI notI)
  fix d j assume d: "d < n" "j < 2 ^ n" "2 ^ Suc d dvd j"
    and f: "a[i := neg_exp k] ! j = int d \<and> a[i := neg_exp k] ! (j + 2 ^ d) = int d"
  then have "j \<noteq> i" "j + 2 ^ d \<noteq> i" using assms(2) by auto
  then have "a ! j = int d \<and> a ! (j + 2 ^ d) = int d" using f by simp
  then show False using assms(1) d unfolding coalesced_def by blast
qed

text \<open>A page that belongs to a block in use.\<close>

definition page_used :: "nat \<Rightarrow> int list \<Rightarrow> nat \<Rightarrow> bool" where
  "page_used n a pg \<longleftrightarrow> (\<exists>i d. d \<le> n \<and> used_at a i d \<and> i \<le> pg \<and> pg < i + 2 ^ d)"

lemma merge_arr_stop:
  "n \<le> e \<or> (\<exists>b. buddy_of idx e = Some b \<and> a ! b \<noteq> int e) \<Longrightarrow> merge_arr n idx e a = a"
  by (subst merge_arr.simps) auto

lemma merge_arr_go:
  "e < n \<Longrightarrow> buddy_of idx e = Some b \<Longrightarrow> a ! b = int e \<Longrightarrow>
     merge_arr n idx e a = merge_arr n (min idx b) (Suc e) (a[min idx b := int (Suc e), max idx b := EMPTY])"
  by (subst merge_arr.simps) auto

lemma merge_pair:
  assumes "2 ^ e dvd idx" "idx < 2 ^ n" "buddy_of idx e = Some b"
  obtains lo where "2 ^ Suc e dvd lo" "lo < 2 ^ n" "min idx b = lo" "max idx b = lo + 2 ^ e"
    "{idx, b} = {lo, lo + 2 ^ e}"
  using assms(1)
proof (cases rule: buddy_cases)
  case low
  then show ?thesis using assms(2,3) by (intro that [of idx]) auto
next
  case (high lo)
  then show ?thesis using assms(2,3) by (intro that [of lo]) auto
qed

lemma length_merge_arr [simp]: "length (merge_arr n idx e a) = length a"
proof (induction n idx e a rule: merge_arr.induct)
  case (1 n idx e a)
  then show ?case by (subst merge_arr.simps) (simp split: option.splits)
qed

text \<open>
  Merging keeps the partition, leaves no pair of free buddies, and touches no mark of a used block.
\<close>

lemma merge_arr_ok:
  "part_ok n a \<Longrightarrow> idx < 2 ^ n \<Longrightarrow> e \<le> n \<Longrightarrow> a ! idx = int e \<Longrightarrow> coalesced_but idx e n a \<Longrightarrow>
     part_ok n (merge_arr n idx e a) \<and> coalesced n (merge_arr n idx e a)
     \<and> (\<forall>i < 2 ^ n. a ! i < 0 \<or> merge_arr n idx e a ! i < 0 \<longrightarrow> merge_arr n idx e a ! i = a ! i)"
proof (induction n idx e a rule: merge_arr.induct)
  case (1 n idx e a)
  have n: "n \<le> 30" "length a = 2 ^ n" using part_okD [OF 1(2)] by auto
  have h: "is_head a idx" using 1(3-5) n by (simp add: is_head_def)
  have al: "2 ^ e dvd idx" using part_okD(4) [OF 1(2) h] 1(5) by simp
  obtain b where b: "buddy_of idx e = Some b" using al by (cases rule: buddy_cases) auto
  obtain lo where lo: "2 ^ Suc e dvd lo" "lo < 2 ^ n" "min idx b = lo" "max idx b = lo + 2 ^ e"
    "{idx, b} = {lo, lo + 2 ^ e}" using merge_pair [OF al 1(3) b] .
  show ?case
  proof (cases "n \<le> e \<or> a ! b \<noteq> int e")
    case True
    then show ?thesis using coalesced_but_done [OF 1(6) al] b 1(2) by (auto simp: merge_arr_stop)
  next
    case False
    let ?a = "a[lo := int (Suc e), lo + 2 ^ e := EMPTY]"
    have eq: "merge_arr n idx e a = merge_arr n lo (Suc e) ?a"
      using merge_arr_go [of e n idx b a] b False lo(3,4) by simp
    have f: "a ! lo = int e" "a ! (lo + 2 ^ e) = int e"
      using lo(5) False 1(5) by (metis doubleton_eq_iff)+
    have c: "coalesced_but lo e n a \<or> coalesced_but (lo + 2 ^ e) e n a"
      using lo(5) 1(6) by (metis doubleton_eq_iff)
    have en: "e < n" using False by simp
    note st = merge_step [OF 1(2) en lo(1,2) f c]
    have "part_ok n (merge_arr n lo (Suc e) ?a) \<and> coalesced n (merge_arr n lo (Suc e) ?a)
      \<and> (\<forall>i < 2 ^ n. ?a ! i < 0 \<or> merge_arr n lo (Suc e) ?a ! i < 0
            \<longrightarrow> merge_arr n lo (Suc e) ?a ! i = ?a ! i)"
      by (rule 1(1) [OF _ b, unfolded lo(3,4), OF _ _ st(1) lo(2) _ st(2,3)]) (use False in simp_all)
    moreover have "?a ! i < 0 \<or> a ! i < 0 \<Longrightarrow> ?a ! i = a ! i" if "i < 2 ^ n" for i
      using f that n by (cases "i = lo"; cases "i = lo + 2 ^ e") auto
    ultimately show ?thesis unfolding eq by metis
  qed
qed

text \<open>
  Splitting a block down and releasing the front piece merges everything back together.
\<close>

lemma merge_cut:
  "part_ok n a \<Longrightarrow> is_head a idx \<Longrightarrow> a ! idx = neg_exp e \<Longrightarrow> e \<le> n \<Longrightarrow>
     merge_arr n idx (cut_exp e req) ((cut_arr idx e req a)[idx := int (cut_exp e req)])
       = merge_arr n idx e (a[idx := int e])"
proof (induction e arbitrary: a)
  case (Suc e)
  let ?b = "idx + 2 ^ e"
  let ?a = "a[idx := neg_exp e, ?b := int e]"
  have n: "n \<le> 30" "length a = 2 ^ n" using part_okD [OF Suc.prems(1)] by auto
  have al: "2 ^ Suc e dvd idx" using part_okD(4) [OF Suc.prems(1,2)] Suc.prems n by simp
  have "idx + 2 ^ Suc e \<le> 2 ^ n" using block_fits [OF Suc.prems(1,2)] Suc.prems n by simp
  moreover have "(0::nat) < 2 ^ e" by simp
  ultimately have b: "?b < 2 ^ n" unfolding power_Suc by linarith
  have E: "a ! ?b = EMPTY"
    using interior_EMPTY [OF Suc.prems(1,2), of ?b] Suc.prems(3,4) n by simp
  show ?case
  proof (cases "2 ^ e < req")
    case False
    have "part_ok n ?a"
      using part_ok_split [OF Suc.prems(1,2), of e "neg_exp e" "int e"] Suc.prems n by simp
    moreover have "is_head ?a idx" "?a ! idx = neg_exp e"
      using Suc.prems by (simp_all add: is_head_def nth_list_update)
    ultimately have "merge_arr n idx (cut_exp e req) ((cut_arr idx e req ?a)[idx := int (cut_exp e req)])
       = merge_arr n idx e (?a[idx := int e])"
      using Suc.IH [of ?a] Suc.prems by simp
    also have "\<dots> = merge_arr n idx (Suc e) (?a[idx := int (Suc e), ?b := EMPTY])"
    proof -
      have bo: "buddy_of idx e = Some ?b" using al by (simp add: buddy_of_def)
      have v: "?a[idx := int e] ! ?b = int e" using b n by simp
      show ?thesis using merge_arr_go [OF _ bo v] Suc.prems(4) by simp
    qed
    also have "?a[idx := int (Suc e), ?b := EMPTY] = a[idx := int (Suc e)]"
      using E b n by (intro nth_equalityI) (auto simp: nth_list_update)
    finally show ?thesis using False by simp
  qed simp
qed simp

text \<open>The released pages end up inside one free block.\<close>

lemma merge_arr_holds:
  "part_ok n a \<Longrightarrow> idx < 2 ^ n \<Longrightarrow> e \<le> n \<Longrightarrow> a ! idx = int e \<Longrightarrow>
     \<exists>h k. free_at (merge_arr n idx e a) h k \<and> k \<le> n \<and> h \<le> idx \<and> idx + 2 ^ e \<le> h + 2 ^ k"
proof (induction n idx e a rule: merge_arr.induct)
  case (1 n idx e a)
  have n: "n \<le> 30" "length a = 2 ^ n" using part_okD [OF 1(2)] by auto
  have h: "is_head a idx" using 1(3-5) n by (simp add: is_head_def)
  have al: "2 ^ e dvd idx" using part_okD(4) [OF 1(2) h] 1(5) by simp
  obtain b where b: "buddy_of idx e = Some b" using al by (cases rule: buddy_cases) auto
  obtain lo where lo: "2 ^ Suc e dvd lo" "lo < 2 ^ n" "min idx b = lo" "max idx b = lo + 2 ^ e"
    "{idx, b} = {lo, lo + 2 ^ e}" using merge_pair [OF al 1(3) b] .
  show ?case
  proof (cases "n \<le> e \<or> a ! b \<noteq> int e")
    case True
    then have "free_at (merge_arr n idx e a) idx e" using b 1(3,5) n by (auto simp: merge_arr_stop free_at_def)
    then show ?thesis using 1(4) by blast
  next
    case False
    let ?a = "a[lo := int (Suc e), lo + 2 ^ e := EMPTY]"
    have en: "e < n" using False by simp
    have f: "a ! lo = int e" "a ! (lo + 2 ^ e) = int e"
      using lo(5) False 1(5) by (metis doubleton_eq_iff)+
    have "lo + 2 ^ Suc e \<le> 2 ^ n" using aligned_block_fits [OF lo(1,2)] en by simp
    moreover have "(0::nat) < 2 ^ e" by simp
    ultimately have hi: "lo + 2 ^ e < 2 ^ n" unfolding power_Suc by linarith
    then have "is_head a lo" "is_head a (lo + 2 ^ e)" using lo(2) f n en by (simp_all add: is_head_def)
    then have p: "part_ok n ?a"
      using part_ok_join [OF 1(2), of lo e "int (Suc e)"] f lo(1) en n by (simp del: of_nat_Suc)
    have v: "?a ! lo = int (Suc e)" using lo(2) n by simp
    have "\<exists>h k. free_at (merge_arr n lo (Suc e) ?a) h k \<and> k \<le> n \<and> h \<le> lo \<and> lo + 2 ^ Suc e \<le> h + 2 ^ k"
      by (rule 1(1) [OF _ b, unfolded lo(3,4), OF _ _ p lo(2) _ v]) (use False in simp_all)
    moreover have "lo \<le> idx" "idx + 2 ^ e \<le> lo + 2 ^ Suc e" using lo(5) by (auto simp: doubleton_eq_iff)
    moreover have "merge_arr n idx e a = merge_arr n lo (Suc e) ?a"
      using merge_arr_go [of e n idx b a] b False lo(3,4) by simp
    ultimately show ?thesis by (metis order_trans)
  qed
qed

lemma merge_arr_id:
  assumes "part_ok n a" "coalesced n a" "free_at a idx e" "e \<le> n"
  shows "merge_arr n idx e a = a"
proof (rule merge_arr_stop)
  have n: "n \<le> 30" "length a = 2 ^ n" using part_okD [OF assms(1)] by auto
  have i: "idx < 2 ^ n" "a ! idx = int e" using assms(3) n by (auto simp: free_at_def)
  then have "is_head a idx" using n assms(4) by (simp add: is_head_def)
  then have al: "2 ^ e dvd idx" using part_okD(4) [OF assms(1)] i by fastforce
  then show "n \<le> e \<or> (\<exists>b. buddy_of idx e = Some b \<and> a ! b \<noteq> int e)"
  proof (cases rule: buddy_cases)
    case low
    then show ?thesis using assms(2) i by (auto simp: coalesced_def not_le)
  next
    case (high lo)
    then have "e < n \<Longrightarrow> a ! lo \<noteq> int e" using assms(2) i unfolding coalesced_def by auto
    then show ?thesis using high by force
  qed
qed

end
