(* ===== verification/Buddy.thy ===== *)
theory Buddy
  imports Irq Dll Block_Map
begin

text \<open>
  The startup allocator and the buddy page allocator of \<open>mem.c\<close>.

  The buddy system keeps one array entry per page (\<open>arr\<close>), one list node per page
  (\<open>buddy_node_arr\<close>) and one free-list head per block size (\<open>free_blocks_list\<close>).  A pointer to
  \<open>buddy_node_arr[i]\<close> is modelled by its index \<open>i\<close>, the null pointer by \<^term>\<open>None\<close>.  Page indices
  and size exponents are C \<open>int\<close>s that the code only ever uses with values that are not
  negative; they are \<^typ>\<open>nat\<close> here, and the one subtraction that could go below zero is guarded.
\<close>

unbundle bit_operations_syntax

section \<open>State\<close>

definition PAGE_SIZE :: u64 where "PAGE_SIZE = 0x1000"
definition HEAP_SIZE :: u64 where "HEAP_SIZE = 0x8000000"

record simple_heap = cpu +
  heap_start :: u64
  heap_ptr :: u64

record buddy_node =
  node_idx :: nat
  prev :: "nat option"
  nxt :: "nat option"

record buddy_data = simple_heap +
  base :: u64
  bend :: u64
  num_pages_exp :: nat
  arr :: "int list"
  free_blocks_list :: "nat option list"
  buddy_node_arr :: "buddy_node list"

section \<open>The startup allocator\<close>

definition align_padding :: "u64 \<Rightarrow> u64 \<Rightarrow> u64" where
  "align_padding hp sz =
     (case find (\<lambda>i. sz mod i = 0) [8, 4, 2, 1] of
        None \<Rightarrow> 0
      | Some i \<Rightarrow> if hp mod i \<noteq> 0 then i - hp mod i else 0)"

definition simple_malloc :: "u64 \<Rightarrow> 'a simple_heap_scheme \<Rightarrow> u64 \<times> 'a simple_heap_scheme" where
  "simple_malloc sz s =
     (let pad = align_padding (heap_ptr s) sz; ret = heap_ptr s + pad in
      if heap_ptr s + sz + pad \<le> heap_start s + HEAP_SIZE
      then (ret, s\<lparr>heap_ptr := heap_ptr s + (sz + pad)\<rparr>)
      else (0, print_msg ''Allocation failed'' s))"

section \<open>Free lists\<close>

definition node_at :: "nat \<Rightarrow> 'a buddy_data_scheme \<Rightarrow> buddy_node option" where
  "node_at i s = get_at (buddy_node_arr s) i"

definition upd_node ::
  "nat \<Rightarrow> (buddy_node \<Rightarrow> buddy_node) \<Rightarrow> 'a buddy_data_scheme \<Rightarrow> 'a buddy_data_scheme option" where
  "upd_node i f s = do {
     n \<leftarrow> get_at (buddy_node_arr s) i;
     ns \<leftarrow> set_at (buddy_node_arr s) i (f n);
     Some (s\<lparr>buddy_node_arr := ns\<rparr>)
   }"

definition set_arr :: "nat \<Rightarrow> int \<Rightarrow> 'a buddy_data_scheme \<Rightarrow> 'a buddy_data_scheme option" where
  "set_arr i v s = do { a \<leftarrow> set_at (arr s) i v; Some (s\<lparr>arr := a\<rparr>) }"

definition set_head :: "nat \<Rightarrow> nat option \<Rightarrow> 'a buddy_data_scheme \<Rightarrow> 'a buddy_data_scheme option" where
  "set_head li h s = do { fl \<leftarrow> set_at (free_blocks_list s) li h; Some (s\<lparr>free_blocks_list := fl\<rparr>) }"

definition buddy_list_empty :: "nat \<Rightarrow> 'a buddy_data_scheme \<Rightarrow> bool option" where
  "buddy_list_empty list_idx s = do { h \<leftarrow> get_at (free_blocks_list s) list_idx; Some (h = None) }"

definition buddy_delete_free_block ::
  "nat \<Rightarrow> nat \<Rightarrow> 'a buddy_data_scheme \<Rightarrow> 'a buddy_data_scheme option" where
  "buddy_delete_free_block idx list_idx s = do {
     let s = disable_int s;
     v \<leftarrow> get_at (arr s) idx;
     if v \<noteq> int list_idx then Some (print_msg ''Node not found'' (enable_int s))
     else do {
       n \<leftarrow> node_at idx s;
       s \<leftarrow> (case prev n of None \<Rightarrow> Some s | Some p \<Rightarrow> upd_node p (\<lambda>m. m\<lparr>nxt := nxt n\<rparr>) s);
       n \<leftarrow> node_at idx s;
       s \<leftarrow> (case nxt n of None \<Rightarrow> Some s | Some q \<Rightarrow> upd_node q (\<lambda>m. m\<lparr>prev := prev n\<rparr>) s);
       h \<leftarrow> get_at (free_blocks_list s) list_idx;
       n \<leftarrow> node_at idx s;
       s \<leftarrow> (if h = Some idx then set_head list_idx (nxt n) s else Some s);
       s \<leftarrow> upd_node idx (\<lambda>m. m\<lparr>prev := None\<rparr>) s;
       s \<leftarrow> upd_node idx (\<lambda>m. m\<lparr>nxt := None\<rparr>) s;
       s \<leftarrow> set_arr idx (neg_exp list_idx) s;
       Some (enable_int s)
     }
   }"

definition buddy_insert_free_block ::
  "nat \<Rightarrow> nat \<Rightarrow> 'a buddy_data_scheme \<Rightarrow> 'a buddy_data_scheme option" where
  "buddy_insert_free_block idx list_idx s = do {
     let s = disable_int s;
     head \<leftarrow> get_at (free_blocks_list s) list_idx;
     e \<leftarrow> buddy_list_empty list_idx s;
     s \<leftarrow> (if \<not> e then (case head of None \<Rightarrow> None | Some h \<Rightarrow> upd_node h (\<lambda>m. m\<lparr>prev := Some idx\<rparr>) s)
          else Some s);
     s \<leftarrow> upd_node idx (\<lambda>m. m\<lparr>nxt := head\<rparr>) s;
     s \<leftarrow> set_head list_idx (Some idx) s;
     s \<leftarrow> set_arr idx (int list_idx) s;
     Some (enable_int s)
   }"

section \<open>Initialisation\<close>

text \<open>The loop that looks for the smallest power-of-two number of pages covering the memory.\<close>

partial_function (option) pages_exp_loop :: "u64 \<Rightarrow> u64 \<Rightarrow> nat \<Rightarrow> (u64 \<times> nat) option" where
  "pages_exp_loop lim int_ptr e =
     (if int_ptr < lim then pages_exp_loop lim (push_bit 1 int_ptr) (e + 1) else Some (int_ptr, e))"

definition buddy_init :: "u64 \<Rightarrow> 'a buddy_data_scheme \<Rightarrow> 'a buddy_data_scheme option" where
  "buddy_init usable_end s = do {
     (int_ptr, n) \<leftarrow> pages_exp_loop usable_end PAGE_SIZE 0;
     let s = s\<lparr>base := 0, num_pages_exp := n, bend := int_ptr\<rparr>;
     let (p1, s) = simple_malloc (push_bit n 1 * 24) s;
     s \<leftarrow> (if p1 = 0 then None
          else Some (s\<lparr>buddy_node_arr :=
                 map (\<lambda>i. \<lparr>node_idx = i, prev = None, nxt = None\<rparr>) [0..<2 ^ n]\<rparr>));
     let (p2, s) = simple_malloc (push_bit n 1 * 4) s;
     s \<leftarrow> (if p2 = 0 then None else Some (s\<lparr>arr := replicate (2 ^ n) EMPTY\<rparr>));
     let (p3, s) = simple_malloc ((of_nat n + 1) * 8) s;
     s \<leftarrow> (if p3 = 0 then None else Some (s\<lparr>free_blocks_list := replicate (n + 1) None\<rparr>));
     buddy_insert_free_block 0 n s
   }"

section \<open>Allocation\<close>

fun buddy_cut_block ::
  "nat \<Rightarrow> nat \<Rightarrow> u32 \<Rightarrow> 'a buddy_data_scheme \<Rightarrow> 'a buddy_data_scheme option" where
  "buddy_cut_block idx 0 required_size s = Some (enable_int (disable_int s))"
| "buddy_cut_block idx (Suc e) required_size s =
     (let s = disable_int s in
      if 2 ^ e < unat required_size then Some (enable_int s)
      else do {
        v \<leftarrow> get_at (arr s) idx;
        s \<leftarrow> set_arr idx (v + 1) s;
        s \<leftarrow> (if v + 1 = 0 then set_arr idx NEG_ZERO s else Some s);
        s \<leftarrow> buddy_insert_free_block (idx + 2 ^ e) e s;
        s \<leftarrow> buddy_cut_block idx e required_size s;
        Some (enable_int s)
      })"

text \<open>The search for the smallest free list that can serve the request; \<open>Some None\<close>: there is none.\<close>

partial_function (option) buddy_find ::
  "u32 \<Rightarrow> nat \<Rightarrow> 'a buddy_data_scheme \<Rightarrow> nat option option" where
  "buddy_find sz list_idx s = do {
     skip \<leftarrow> (if 2 ^ list_idx < unat sz then Some True else buddy_list_empty list_idx s);
     if skip then
       (if list_idx + 1 > num_pages_exp s then Some None else buddy_find sz (list_idx + 1) s)
     else Some (Some list_idx)
   }"

definition buddy_malloc :: "u32 \<Rightarrow> 'a buddy_data_scheme \<Rightarrow> (u64 \<times> 'a buddy_data_scheme) option" where
  "buddy_malloc sz s =
     (let s = disable_int s in
      if sz = 0 then Some (0, enable_int s)
      else do {
        found \<leftarrow> buddy_find sz 0 s;
        (case found of
           None \<Rightarrow> Some (0, print_msg ''No enough space'' (enable_int s))
         | Some list_idx \<Rightarrow> do {
             h \<leftarrow> get_at (free_blocks_list s) list_idx;
             p \<leftarrow> h;
             n \<leftarrow> node_at p s;
             let idx = node_idx n;
             s \<leftarrow> buddy_delete_free_block idx list_idx s;
             s \<leftarrow> buddy_cut_block idx list_idx sz s;
             Some (of_nat idx * PAGE_SIZE, enable_int s)
           })
      })"

section \<open>Release\<close>

partial_function (option) buddy_merge_block ::
  "nat \<Rightarrow> nat \<Rightarrow> 'a buddy_data_scheme \<Rightarrow> 'a buddy_data_scheme option" where
  "buddy_merge_block idx e s =
     (let s = disable_int s in
      if e = num_pages_exp s then Some (enable_int s)
      else do {
        buddy_idx \<leftarrow> buddy_of idx e;
        v \<leftarrow> get_at (arr s) buddy_idx;
        if v \<noteq> int e then Some (enable_int s)
        else do {
          let small_idx = min idx buddy_idx;
          let big_idx = max idx buddy_idx;
          s \<leftarrow> buddy_delete_free_block idx e s;
          s \<leftarrow> buddy_delete_free_block buddy_idx e s;
          s \<leftarrow> buddy_insert_free_block small_idx (e + 1) s;
          s \<leftarrow> set_arr big_idx EMPTY s;
          s \<leftarrow> buddy_merge_block small_idx (e + 1) s;
          Some (enable_int s)
        }
      })"

definition buddy_free :: "u64 \<Rightarrow> 'a buddy_data_scheme \<Rightarrow> 'a buddy_data_scheme option" where
  "buddy_free ptr s =
     (let s = disable_int s in
      if bend s \<le> ptr \<or> ptr AND (PAGE_SIZE - 1) \<noteq> 0
      then Some (print_msg ''Invalid pointer'' (enable_int s))
      else do {
        let idx = unat (ptr div PAGE_SIZE);
        v \<leftarrow> get_at (arr s) idx;
        if 0 \<le> v then Some (print_msg ''The page is not in use'' (enable_int s))
        else if v = EMPTY then Some (print_msg ''Not start of a block'' (enable_int s))
        else do {
          let list_idx = (if v = NEG_ZERO then 0 else nat (- v));
          s \<leftarrow> buddy_insert_free_block idx list_idx s;
          s \<leftarrow> buddy_merge_block idx list_idx s;
          Some (enable_int s)
        }
      })"

end
