(* ===== verification/Buddy_Links.thy ===== *)
theory Buddy_Links
  imports Buddy
begin

text \<open>
  The free lists of the buddy allocator: the invariant that ties the three arrays of
  \<open>mem.c\<close> together (every free head of exponent \<open>li\<close> is a node of the doubly linked list
  \<open>free_blocks_list[li]\<close>, once, and nothing else is), and that unlinking and linking a block
  keep it.  An operation that only relinks blocks is described by \<open>relinked s a s'\<close>: the new array is
  \<open>a\<close>, the links fit it, and no other variable has changed.
\<close>

section \<open>The invariant\<close>

definition links_ok :: "nat \<Rightarrow> int list \<Rightarrow> buddy_node list \<Rightarrow> nat option list \<Rightarrow> bool" where
  "links_ok n a ns fl \<longleftrightarrow> length a = 2 ^ n \<and> length ns = 2 ^ n \<and> length fl = Suc n
     \<and> (\<forall>i < 2 ^ n. node_idx (ns ! i) = i)
     \<and> (\<forall>i < 2 ^ n. (\<forall>li \<le> n. a ! i \<noteq> int li) \<longrightarrow> prev (ns ! i) = None)
     \<and> (\<forall>li \<le> n. \<exists>xs t. distinct xs \<and> set xs = {i. i < 2 ^ n \<and> a ! i = int li}
          \<and> dll (\<lambda>i. prev (ns ! i)) (\<lambda>i. nxt (ns ! i)) (fl ! li) xs t)"

abbreviation blinks :: "'a buddy_data_scheme \<Rightarrow> bool" where
  "blinks s \<equiv> links_ok (num_pages_exp s) (arr s) (buddy_node_arr s) (free_blocks_list s)"

definition with_lists ::
  "int list \<Rightarrow> nat option list \<Rightarrow> buddy_node list \<Rightarrow> 'a buddy_data_scheme \<Rightarrow> 'a buddy_data_scheme" where
  "with_lists a fl ns s = s\<lparr>arr := a, free_blocks_list := fl, buddy_node_arr := ns\<rparr>"

definition relinked :: "'a buddy_data_scheme \<Rightarrow> int list \<Rightarrow> 'a buddy_data_scheme \<Rightarrow> bool" where
  "relinked s a s' \<longleftrightarrow>
     (\<exists>fl ns. s' = with_lists a fl ns s \<and> links_ok (num_pages_exp s) a ns fl)"

lemma links_okD:
  assumes "links_ok n a ns fl"
  shows "length a = 2 ^ n" "length ns = 2 ^ n" "length fl = Suc n"
    "\<And>i. i < 2 ^ n \<Longrightarrow> node_idx (ns ! i) = i"
    "\<And>i. i < 2 ^ n \<Longrightarrow> \<forall>li \<le> n. a ! i \<noteq> int li \<Longrightarrow> prev (ns ! i) = None"
  using assms by (auto simp: links_ok_def)

lemma links_ok_list:
  assumes "links_ok n a ns fl" "li \<le> n"
  obtains xs t where "distinct xs" "set xs = {i. i < 2 ^ n \<and> a ! i = int li}"
    "dll (\<lambda>i. prev (ns ! i)) (\<lambda>i. nxt (ns ! i)) (fl ! li) xs t"
  using assms unfolding links_ok_def by blast

section \<open>Normal form of states\<close>

lemma with_lists_simps [simp]:
  "arr (with_lists a fl ns s) = a"
  "free_blocks_list (with_lists a fl ns s) = fl"
  "buddy_node_arr (with_lists a fl ns s) = ns"
  "num_pages_exp (with_lists a fl ns s) = num_pages_exp s"
  "base (with_lists a fl ns s) = base s"
  "bend (with_lists a fl ns s) = bend s"
  "heap_ptr (with_lists a fl ns s) = heap_ptr s"
  "heap_start (with_lists a fl ns s) = heap_start s"
  "console (with_lists a fl ns s) = console s"
  "irq_nested_count (with_lists a fl ns s) = irq_nested_count s"
  "daif_masked (with_lists a fl ns s) = daif_masked s"
  "buddy_data.more (with_lists a fl ns s) = buddy_data.more s"
  "with_lists a fl ns (with_lists a' fl' ns' s) = with_lists a fl ns s"
  by (simp_all add: with_lists_def)

lemma with_lists_same [simp]: "with_lists (arr s) (free_blocks_list s) (buddy_node_arr s) s = s"
  by (simp add: with_lists_def)

lemma irq_ok_with_lists [simp]: "irq_ok (with_lists a fl ns s) = irq_ok s"
  by (simp add: irq_ok_def)

lemma buddy_fields_int [simp]:
  "arr (disable_int s) = arr s" "free_blocks_list (disable_int s) = free_blocks_list s"
  "buddy_node_arr (disable_int s) = buddy_node_arr s" "num_pages_exp (disable_int s) = num_pages_exp s"
  "bend (disable_int s) = bend s" "base (disable_int s) = base s"
  "arr (enable_int s) = arr s" "free_blocks_list (enable_int s) = free_blocks_list s"
  "buddy_node_arr (enable_int s) = buddy_node_arr s" "num_pages_exp (enable_int s) = num_pages_exp s"
  "bend (enable_int s) = bend s" "base (enable_int s) = base s"
  by (simp_all add: disable_int_def enable_int_def Let_def)

lemma buddy_fields_msg [simp]:
  "arr (print_msg m s) = arr s" "free_blocks_list (print_msg m s) = free_blocks_list s"
  "buddy_node_arr (print_msg m s) = buddy_node_arr s" "num_pages_exp (print_msg m s) = num_pages_exp s"
  "bend (print_msg m s) = bend s" "base (print_msg m s) = base s"
  by (simp_all add: print_msg_def)

lemma with_lists_enable [simp]:
  "enable_int (with_lists a fl ns s) = with_lists a fl ns (enable_int s)"
  by (simp add: with_lists_def enable_int_def Let_def)

lemma upd_node_with [simp]:
  "i < length ns \<Longrightarrow> upd_node i f (with_lists a fl ns s) = Some (with_lists a fl (ns[i := f (ns ! i)]) s)"
  by (simp add: upd_node_def with_lists_def)

lemma node_at_with [simp]: "i < length ns \<Longrightarrow> node_at i (with_lists a fl ns s) = Some (ns ! i)"
  by (simp add: node_at_def)

lemma set_arr_with [simp]:
  "i < length a \<Longrightarrow> set_arr i v (with_lists a fl ns s) = Some (with_lists (a[i := v]) fl ns s)"
  by (simp add: set_arr_def with_lists_def)

lemma set_head_with [simp]:
  "li < length fl \<Longrightarrow> set_head li h (with_lists a fl ns s) = Some (with_lists a (fl[li := h]) ns s)"
  by (simp add: set_head_def with_lists_def)

section \<open>Relinking\<close>

lemma relinkedD:
  assumes "relinked s a s'"
  shows "arr s' = a" "num_pages_exp s' = num_pages_exp s" "blinks s'" "irq_ok s' = irq_ok s"
    "bend s' = bend s" "base s' = base s" "console s' = console s"
    "irq_nested_count s' = irq_nested_count s" "daif_masked s' = daif_masked s"
    "buddy_data.more s' = buddy_data.more s" "heap_ptr s' = heap_ptr s"
  using assms by (auto simp: relinked_def)

lemma relinked_refl: "blinks s \<Longrightarrow> relinked s (arr s) s"
  unfolding relinked_def by (metis with_lists_same)

lemma relinked_trans [trans]: "relinked s a s1 \<Longrightarrow> relinked s1 b s2 \<Longrightarrow> relinked s b s2"
  by (fastforce simp: relinked_def)

lemma relinked_critical: "irq_ok s \<Longrightarrow> relinked (disable_int s) a s' \<Longrightarrow> relinked s a (enable_int s')"
  by (fastforce simp: relinked_def critical_section_id)

section \<open>Unlinking a block\<close>

lemma links_neighbours:
  assumes "links_ok n a ns fl" "idx < 2 ^ n" "a ! idx = int li" "li \<le> n"
  shows "prev (ns ! idx) = Some p \<Longrightarrow> p < 2 ^ n \<and> p \<noteq> idx \<and> a ! p = int li"
    "nxt (ns ! idx) = Some q \<Longrightarrow> q < 2 ^ n \<and> q \<noteq> idx \<and> a ! q = int li"
proof -
  obtain xs t where x: "distinct xs" "set xs = {i. i < 2 ^ n \<and> a ! i = int li}"
    "dll (\<lambda>i. prev (ns ! i)) (\<lambda>i. nxt (ns ! i)) (fl ! li) xs t"
    using links_ok_list [OF assms(1,4)] .
  have "idx \<in> set xs" using x(2) assms by simp
  then obtain ys zs where s: "xs = ys @ idx # zs" by (meson split_list)
  have "prev (ns ! idx) = (if ys = [] then None else Some (last ys))"
    using dll_nth_prev [OF x(3) [unfolded s]] .
  moreover have "ys \<noteq> [] \<Longrightarrow> last ys \<in> set xs - {idx}" using last_in_set [of ys] x(1) unfolding s by auto
  ultimately show "prev (ns ! idx) = Some p \<Longrightarrow> p < 2 ^ n \<and> p \<noteq> idx \<and> a ! p = int li"
    using x(2) by (auto split: if_splits)
  have "nxt (ns ! idx) = (if zs = [] then None else Some (hd zs))"
    using dll_nth_next [OF x(3) [unfolded s]] .
  moreover have "zs \<noteq> [] \<Longrightarrow> hd zs \<in> set xs - {idx}" using hd_in_set [of zs] x(1) unfolding s by auto
  ultimately show "nxt (ns ! idx) = Some q \<Longrightarrow> q < 2 ^ n \<and> q \<noteq> idx \<and> a ! q = int li"
    using x(2) by (auto split: if_splits)
qed

lemma links_unlink:
  assumes L: "links_ok n a ns fl" and i: "idx < 2 ^ n" "a ! idx = int li" "li \<le> n"
    and ns': "length ns' = 2 ^ n" "\<And>j. j < 2 ^ n \<Longrightarrow> node_idx (ns' ! j) = j"
      "\<And>j. j < 2 ^ n \<Longrightarrow> prev (ns' ! j) =
         (if j = idx then None else if nxt (ns ! idx) = Some j then prev (ns ! idx) else prev (ns ! j))"
      "\<And>j. j < 2 ^ n \<Longrightarrow> nxt (ns' ! j) =
         (if j = idx then None else if prev (ns ! idx) = Some j then nxt (ns ! idx) else nxt (ns ! j))"
    and fl': "fl' = (if fl ! li = Some idx then fl[li := nxt (ns ! idx)] else fl)"
  shows "links_ok n (a[idx := neg_exp li]) ns' fl'"
proof -
  let ?a = "a[idx := neg_exp li]" and ?P = "\<lambda>j. prev (ns ! j)" and ?X = "\<lambda>j. nxt (ns ! j)"
  note len = links_okD(1-3) [OF L]
  note nb = links_neighbours [OF L i]
  have a': "?a ! j = int k \<longleftrightarrow> j \<noteq> idx \<and> a ! j = int k" if "j < 2 ^ n" for j k
    using that i len by (cases "j = idx") auto
  have none: "prev (ns' ! j) = None" if j: "j < 2 ^ n" "\<forall>k \<le> n. ?a ! j \<noteq> int k" for j
  proof (cases "j = idx")
    case False
    then have "\<forall>k \<le> n. a ! j \<noteq> int k" using j a' by simp
    moreover from this have "nxt (ns ! idx) \<noteq> Some j" using nb(2) i(3) by blast
    ultimately show ?thesis using ns'(3) [OF j(1)] links_okD(5) [OF L j(1)] False by simp
  qed (use ns'(3) j in simp)
  have lists: "\<exists>xs t. distinct xs \<and> set xs = {j. j < 2 ^ n \<and> ?a ! j = int k}
      \<and> dll (\<lambda>j. prev (ns' ! j)) (\<lambda>j. nxt (ns' ! j)) (fl' ! k) xs t" if k: "k \<le> n" for k
  proof -
    obtain xs t where x: "distinct xs" "set xs = {j. j < 2 ^ n \<and> a ! j = int k}" "dll ?P ?X (fl ! k) xs t"
      using links_ok_list [OF L k] .
    show ?thesis
    proof (cases "k = li")
      case False
      have "dll (\<lambda>j. prev (ns' ! j)) (\<lambda>j. nxt (ns' ! j)) (fl ! k) xs t"
        using x(2,3) False i(2) nb ns'(3,4) by (subst dseg_frame [where P = ?P and X = ?X]) force+
      moreover have "fl' ! k = fl ! k" using False fl' by simp
      moreover have "set xs = {j. j < 2 ^ n \<and> ?a ! j = int k}" using x(2) a' i(2) False by auto
      ultimately show ?thesis using x(1) by metis
    next
      case True
      have "idx \<in> set xs" using x(2) i True by simp
      then obtain ys zs where s: "xs = ys @ idx # zs" by (meson split_list)
      let ?P' = "case ?X idx of None \<Rightarrow> ?P | Some b \<Rightarrow> ?P(b := ?P idx)"
      let ?X' = "case ?P idx of None \<Rightarrow> ?X | Some b \<Rightarrow> ?X(b := ?X idx)"
      have d: "dll ?P' ?X' (case ?P idx of None \<Rightarrow> ?X idx | Some b \<Rightarrow> fl ! k) (ys @ zs)
          (case ?X idx of None \<Rightarrow> ?P idx | Some b \<Rightarrow> t)"
        by (rule dll_remove) (use x s in simp_all)
      have st: "set (ys @ zs) = {j. j < 2 ^ n \<and> ?a ! j = int k}"
      proof -
        have "set (ys @ zs) = set xs - {idx}" using x(1) unfolding s by auto
        then show ?thesis using x(2) a' by auto
      qed
      have hd: "fl' ! k = (case ?P idx of None \<Rightarrow> ?X idx | Some b \<Rightarrow> fl ! k)"
        using dll_head_iff [OF x(3,1) \<open>idx \<in> set xs\<close>] fl' True len(3) i(3)
        by (auto split: option.splits)
      have "dll (\<lambda>j. prev (ns' ! j)) (\<lambda>j. nxt (ns' ! j)) (fl' ! k) (ys @ zs)
          (case ?X idx of None \<Rightarrow> ?P idx | Some b \<Rightarrow> t)"
        unfolding hd
      proof (subst dseg_frame [where P = ?P' and X = ?X'])
        fix j assume "j \<in> set (ys @ zs)"
        then have "j < 2 ^ n" "j \<noteq> idx" using st i a' by auto
        then show "prev (ns' ! j) = ?P' j \<and> nxt (ns' ! j) = ?X' j"
          using ns'(3,4) by (auto split: option.splits)
      qed (rule d)
      moreover have "distinct (ys @ zs)" using x(1) s by simp
      ultimately show ?thesis using st by blast
    qed
  qed
  show ?thesis
    unfolding links_ok_def using ns'(1,2) none lists len fl' by simp
qed

text \<open>The removal of a free block from its list.\<close>

lemma buddy_delete_free_block_ok:
  assumes "irq_ok s" "blinks s" "idx < 2 ^ num_pages_exp s" "li \<le> num_pages_exp s" "arr s ! idx = int li"
  shows "\<exists>s'. buddy_delete_free_block idx li s = Some s' \<and> relinked s ((arr s)[idx := neg_exp li]) s'"
proof -
  let ?n = "num_pages_exp s" and ?ns = "buddy_node_arr s" and ?fl = "free_blocks_list s"
  let ?p = "prev (?ns ! idx)" and ?q = "nxt (?ns ! idx)"
  note len = links_okD(1-3) [OF assms(2)]
  note nb = links_neighbours [OF assms(2,3,5,4)]
  define n1 where "n1 = (case ?p of None \<Rightarrow> ?ns | Some j \<Rightarrow> ?ns[j := (?ns ! j)\<lparr>nxt := ?q\<rparr>])"
  define n2 where "n2 = (case ?q of None \<Rightarrow> n1 | Some j \<Rightarrow> n1[j := (n1 ! j)\<lparr>prev := ?p\<rparr>])"
  define n3 where "n3 = n2[idx := (n2 ! idx)\<lparr>prev := None, nxt := None\<rparr>]"
  define fl' where "fl' = (if ?fl ! li = Some idx then ?fl[li := ?q] else ?fl)"
  have l: "length n1 = 2 ^ ?n" "length n2 = 2 ^ ?n" "length n3 = 2 ^ ?n"
    using len by (simp_all add: n1_def n2_def n3_def split: option.splits)
  have same: "n1 ! idx = ?ns ! idx" "n2 ! idx = ?ns ! idx"
    using nb by (auto simp: n1_def n2_def split: option.splits)
  let ?d = "disable_int s"
  have a: "?d = with_lists (arr s) ?fl ?ns ?d" using with_lists_same [of ?d] by simp
  have "buddy_delete_free_block idx li s = Some (with_lists ((arr s)[idx := neg_exp li]) fl' n3 s)"
  proof -
    have b1: "(case ?p of None \<Rightarrow> Some ?d | Some p \<Rightarrow> upd_node p (\<lambda>m. m\<lparr>nxt := ?q\<rparr>) ?d)
        = Some (with_lists (arr s) ?fl n1 ?d)"
      using nb(1) len a by (subst a, subst a) (simp add: n1_def split: option.splits)
    have b2: "(case ?q of None \<Rightarrow> Some (with_lists (arr s) ?fl n1 ?d)
        | Some j \<Rightarrow> upd_node j (\<lambda>m. m\<lparr>prev := ?p\<rparr>) (with_lists (arr s) ?fl n1 ?d))
        = Some (with_lists (arr s) ?fl n2 ?d)"
      using nb(2) l by (simp add: n2_def split: option.splits)
    have b0: "node_at idx ?d = Some (?ns ! idx)" using len assms(3) by (simp add: node_at_def)
    show ?thesis
      using assms len l same
      by (simp add: buddy_delete_free_block_def b0 b1 b2 fl'_def n3_def critical_section_id)
  qed
  moreover have "links_ok ?n ((arr s)[idx := neg_exp li]) n3 fl'"
    by (rule links_unlink [OF assms(2,3,5,4) l(3)])
      (use nb len assms(3) links_okD(4) [OF assms(2)] in
        \<open>auto simp: n1_def n2_def n3_def fl'_def nth_list_update split: option.splits\<close>)
  ultimately show ?thesis by (auto simp: relinked_def)
qed

section \<open>Linking a block\<close>

lemma links_link:
  assumes L: "links_ok n a ns fl" and i: "idx < 2 ^ n" "\<forall>k \<le> n. a ! idx \<noteq> int k" "li \<le> n"
    and ns': "length ns' = 2 ^ n" "\<And>j. j < 2 ^ n \<Longrightarrow> node_idx (ns' ! j) = j"
      "\<And>j. j < 2 ^ n \<Longrightarrow> prev (ns' ! j) = (if fl ! li = Some j then Some idx else prev (ns ! j))"
      "\<And>j. j < 2 ^ n \<Longrightarrow> nxt (ns' ! j) = (if j = idx then fl ! li else nxt (ns ! j))"
  shows "links_ok n (a[idx := int li]) ns' (fl[li := Some idx])"
proof -
  let ?a = "a[idx := int li]" and ?P = "\<lambda>j. prev (ns ! j)" and ?X = "\<lambda>j. nxt (ns ! j)"
  note len = links_okD(1-3) [OF L]
  have a': "?a ! j = int k \<longleftrightarrow> (if j = idx then k = li else a ! j = int k)" if "j < 2 ^ n" for j k
    using that i len by auto
  obtain ls lt where l: "distinct ls" "set ls = {j. j < 2 ^ n \<and> a ! j = int li}" "dll ?P ?X (fl ! li) ls lt"
    using links_ok_list [OF L i(3)] .
  have h: "j \<in> set ls" if "fl ! li = Some j" for j
    using dseg_first [OF l(3)] that by (auto split: if_splits)
  have none: "prev (ns' ! j) = None" if j: "j < 2 ^ n" "\<forall>k \<le> n. ?a ! j \<noteq> int k" for j
  proof -
    have "j \<noteq> idx" using j a' i(3) by auto
    then have "\<forall>k \<le> n. a ! j \<noteq> int k" using j a' by simp
    moreover from this have "fl ! li \<noteq> Some j" using h l(2) i(3) by auto
    ultimately show ?thesis using ns'(3) [OF j(1)] links_okD(5) [OF L j(1)] by simp
  qed
  have lists: "\<exists>xs t. distinct xs \<and> set xs = {j. j < 2 ^ n \<and> ?a ! j = int k}
      \<and> dll (\<lambda>j. prev (ns' ! j)) (\<lambda>j. nxt (ns' ! j)) (fl[li := Some idx] ! k) xs t" if k: "k \<le> n" for k
  proof (cases "k = li")
    case False
    obtain xs t where x: "distinct xs" "set xs = {j. j < 2 ^ n \<and> a ! j = int k}" "dll ?P ?X (fl ! k) xs t"
      using links_ok_list [OF L k] .
    have "dll (\<lambda>j. prev (ns' ! j)) (\<lambda>j. nxt (ns' ! j)) (fl ! k) xs t"
    proof (subst dseg_frame [where P = ?P and X = ?X])
      fix j assume j: "j \<in> set xs"
      then have "j \<notin> set ls" "j \<noteq> idx" "j < 2 ^ n" using x(2) l(2) False i(2) k by auto
      then show "prev (ns' ! j) = ?P j \<and> nxt (ns' ! j) = ?X j" using ns'(3,4) h by auto
    qed (rule x(3))
    moreover have "set xs = {j. j < 2 ^ n \<and> ?a ! j = int k}" using x(2) a' i(2) k False
      by (auto split: if_splits)
    ultimately show ?thesis using x(1) False by (metis nth_list_update_neq)
  next
    case True
    have new: "idx \<notin> set ls" using l(2) i by auto
    let ?P' = "case fl ! li of None \<Rightarrow> ?P | Some b \<Rightarrow> ?P(b := Some idx)"
    have "dll ?P' (?X(idx := fl ! li)) (Some idx) (idx # ls) (case fl ! li of None \<Rightarrow> Some idx | Some b \<Rightarrow> lt)"
      using dll_push_front [OF l(3) new l(1)] links_okD(5) [OF L i(1,2)] by simp
    note d = this
    have "dll (\<lambda>j. prev (ns' ! j)) (\<lambda>j. nxt (ns' ! j)) (Some idx) (idx # ls)
        (case fl ! li of None \<Rightarrow> Some idx | Some b \<Rightarrow> lt)"
    proof (subst dseg_frame [where P = ?P' and X = "?X(idx := fl ! li)"])
      fix j assume "j \<in> set (idx # ls)"
      then have "j < 2 ^ n" using l(2) i(1) by auto
      then show "prev (ns' ! j) = ?P' j \<and> nxt (ns' ! j) = (?X(idx := fl ! li)) j"
        using ns'(3,4) [of j] by (simp split: option.splits)
    qed (rule d)
    moreover have "set (idx # ls) = {j. j < 2 ^ n \<and> ?a ! j = int k}"
      using True l(2) a' i(1) by (auto split: if_splits)
    moreover have "distinct (idx # ls)" using l(1) new by simp
    moreover have "fl[li := Some idx] ! k = Some idx" using True len i(3) by simp
    ultimately show ?thesis by metis
  qed
  show ?thesis unfolding links_ok_def using ns'(1,2) none lists len by simp
qed

lemma buddy_insert_free_block_ok:
  assumes "irq_ok s" "blinks s" "idx < 2 ^ num_pages_exp s" "li \<le> num_pages_exp s"
    "\<forall>k \<le> num_pages_exp s. arr s ! idx \<noteq> int k"
  shows "\<exists>s'. buddy_insert_free_block idx li s = Some s' \<and> relinked s ((arr s)[idx := int li]) s'"
proof -
  let ?n = "num_pages_exp s" and ?ns = "buddy_node_arr s" and ?fl = "free_blocks_list s"
  note len = links_okD(1-3) [OF assms(2)]
  obtain ls lt where l: "set ls = {j. j < 2 ^ ?n \<and> arr s ! j = int li}"
    "dll (\<lambda>i. prev (?ns ! i)) (\<lambda>i. nxt (?ns ! i)) (?fl ! li) ls lt"
    using links_ok_list [OF assms(2,4)] .
  have h: "j < 2 ^ ?n \<and> j \<noteq> idx" if "?fl ! li = Some j" for j
    using dseg_first [OF l(2)] that l(1) assms(4,5) by (auto split: if_splits dest: hd_in_set)
  define n1 where "n1 = (case ?fl ! li of None \<Rightarrow> ?ns | Some j \<Rightarrow> ?ns[j := (?ns ! j)\<lparr>prev := Some idx\<rparr>])"
  define n2 where "n2 = n1[idx := (n1 ! idx)\<lparr>nxt := ?fl ! li\<rparr>]"
  have l': "length n1 = 2 ^ ?n" "length n2 = 2 ^ ?n"
    using len by (simp_all add: n1_def n2_def split: option.splits)
  let ?d = "disable_int s"
  have a: "?d = with_lists (arr s) ?fl ?ns ?d" using with_lists_same [of ?d] by simp
  have "buddy_insert_free_block idx li s
      = Some (with_lists ((arr s)[idx := int li]) (?fl[li := Some idx]) n2 s)"
  proof -
    have b1: "(if ?fl ! li \<noteq> None then (case ?fl ! li of None \<Rightarrow> None
         | Some h \<Rightarrow> upd_node h (\<lambda>m. m\<lparr>prev := Some idx\<rparr>) ?d) else Some ?d) = Some (with_lists (arr s) ?fl n1 ?d)"
      using h len by (subst a, subst a) (simp add: n1_def split: option.splits)
    show ?thesis
      using assms len l'
      by (simp add: buddy_insert_free_block_def buddy_list_empty_def b1 [simplified] n2_def critical_section_id)
  qed
  moreover have "links_ok ?n ((arr s)[idx := int li]) n2 (?fl[li := Some idx])"
    by (rule links_link [OF assms(2,3,5,4) l'(2)])
      (use h len assms(3) links_okD(4) [OF assms(2)] in
        \<open>auto simp: n1_def n2_def nth_list_update split: option.splits\<close>)
  ultimately show ?thesis by (auto simp: relinked_def)
qed

text \<open>Changing the mark of a page that is in no list, to another such mark.\<close>

lemma links_retag:
  assumes "links_ok n a ns fl" "idx < 2 ^ n" "\<forall>k \<le> n. a ! idx \<noteq> int k" "\<forall>k \<le> n. v \<noteq> int k"
  shows "links_ok n (a[idx := v]) ns fl"
proof -
  note len = links_okD(1) [OF assms(1)]
  have a': "k \<le> n \<Longrightarrow> a[idx := v] ! j = int k \<longleftrightarrow> a ! j = int k" if "j < 2 ^ n" for j k
    using that assms len by (cases "j = idx") auto
  have "{i. i < 2 ^ n \<and> a[idx := v] ! i = int li} = {i. i < 2 ^ n \<and> a ! i = int li}" if "li \<le> n" for li
    using that a' by auto
  then show ?thesis using assms(1) a' unfolding links_ok_def by simp
qed

lemma set_arr_ok:
  assumes "blinks s" "idx < 2 ^ num_pages_exp s"
    "\<forall>k \<le> num_pages_exp s. arr s ! idx \<noteq> int k" "\<forall>k \<le> num_pages_exp s. v \<noteq> int k"
  shows "\<exists>s'. set_arr idx v s = Some s' \<and> relinked s ((arr s)[idx := v]) s'"
proof -
  have "set_arr idx v s = Some (with_lists ((arr s)[idx := v]) (free_blocks_list s) (buddy_node_arr s) s)"
    using links_okD(1) [OF assms(1)] assms(2) by (simp add: set_arr_def with_lists_def)
  then show ?thesis using links_retag [OF assms] by (auto simp: relinked_def)
qed

end
