(* ===== verification/Buddy_Correct.thy ===== *)
theory Buddy_Correct
  imports Buddy_Links
begin

text \<open>
  Correctness of the buddy allocator of \<open>mem.c\<close>.  Each operation is first shown to refine an
  operation on the block map alone (\<open>cut_arr\<close>, \<open>merge_arr\<close>), with the free lists following; the
  properties then are statements about the block map.
\<close>

definition buddy_ok :: "'a buddy_data_scheme \<Rightarrow> bool" where
  "buddy_ok s \<longleftrightarrow> irq_ok s \<and> blinks s \<and> part_ok (num_pages_exp s) (arr s)
     \<and> coalesced (num_pages_exp s) (arr s) \<and> base s = 0 \<and> bend s = of_nat (2 ^ num_pages_exp s) * PAGE_SIZE"

section \<open>Refinement of the splitting and merging loops\<close>

lemma bump_mark:
  assumes "idx < length (arr s)"
  shows "(do { s \<leftarrow> set_arr idx (neg_exp (Suc e) + 1) s;
               if neg_exp (Suc e) + 1 = 0 then set_arr idx NEG_ZERO s else Some s })
         = set_arr idx (neg_exp e) s"
  using assms by (simp add: set_arr_def neg_exp_def)

lemma buddy_cut_block_ok:
  "irq_ok s \<Longrightarrow> blinks s \<Longrightarrow> part_ok (num_pages_exp s) (arr s) \<Longrightarrow> is_head (arr s) idx \<Longrightarrow>
     arr s ! idx = neg_exp e \<Longrightarrow> e \<le> num_pages_exp s \<Longrightarrow>
     \<exists>s'. buddy_cut_block idx e req s = Some s' \<and> relinked s (cut_arr idx e (unat req) (arr s)) s'"
proof (induction e arbitrary: s)
  case 0
  then show ?case by (simp add: critical_section_id relinked_refl)
next
  case (Suc e)
  let ?n = "num_pages_exp s" and ?d = "disable_int s" and ?b = "idx + 2 ^ e"
  let ?a1 = "(arr s)[idx := neg_exp e]" and ?a2 = "(arr s)[idx := neg_exp e, ?b := int e]"
  have n: "?n \<le> 30" "length (arr s) = 2 ^ ?n" using part_okD [OF Suc.prems(3)] by auto
  have idx: "idx < 2 ^ ?n" using Suc.prems(4) n by (simp add: is_head_def)
  have "idx + 2 * 2 ^ e \<le> 2 ^ ?n" using block_fits [OF Suc.prems(3,4)] Suc.prems(5,6) n by simp
  moreover have "(0::nat) < 2 ^ e" by simp
  ultimately have b: "?b < 2 ^ ?n" by linarith
  have E: "arr s ! ?b = EMPTY"
    using interior_EMPTY [OF Suc.prems(3,4), of ?b] Suc.prems(5,6) n by simp
  show ?case
  proof (cases "2 ^ e < unat req")
    case True
    then show ?thesis using Suc.prems(1,2) by (simp add: critical_section_id relinked_refl)
  next
    case False
    obtain s1 where s1: "set_arr idx (neg_exp e) ?d = Some s1" "relinked ?d ?a1 s1"
      using set_arr_ok [of ?d idx "neg_exp e"] Suc.prems(2,5) idx by auto
    obtain s2 where s2: "buddy_insert_free_block ?b e s1 = Some s2" "relinked s1 ((arr s1)[?b := int e]) s2"
      using buddy_insert_free_block_ok [of s1 ?b e] relinkedD [OF s1(2)] Suc.prems(1,6) b E n by auto
    have r2: "relinked ?d ?a2 s2"
      using relinked_trans [OF s1(2) s2(2)] relinkedD(1) [OF s1(2)] by simp
    note f2 = relinkedD [OF r2]
    have p2: "part_ok ?n ?a2"
      using part_ok_split [OF Suc.prems(3,4), of e "neg_exp e" "int e"] Suc.prems n by simp
    have "is_head ?a2 idx" "?a2 ! idx = neg_exp e"
      using idx n by (simp_all add: is_head_def nth_list_update)
    then obtain s3 where s3: "buddy_cut_block idx e req s2 = Some s3"
      "relinked s2 (cut_arr idx e (unat req) ?a2) s3"
      using Suc.IH [of s2] f2 p2 Suc.prems(1,6) by auto
    have "relinked s (cut_arr idx e (unat req) ?a2) (enable_int s3)"
      using relinked_critical [OF Suc.prems(1) relinked_trans [OF r2 s3(2)]] .
    moreover have "buddy_cut_block idx (Suc e) req s = Some (enable_int s3)"
    proof -
      have "buddy_cut_block idx (Suc e) req s = do {
          s' \<leftarrow> (do { s' \<leftarrow> set_arr idx (neg_exp (Suc e) + 1) ?d;
               if neg_exp (Suc e) + 1 = 0 then set_arr idx NEG_ZERO s' else Some s' });
          s' \<leftarrow> buddy_insert_free_block ?b e s';
          s' \<leftarrow> buddy_cut_block idx e req s';
          Some (enable_int s') }"
        using False idx n Suc.prems(5) by (simp add: Let_def)
      then show ?thesis using bump_mark [of idx ?d e] idx n s1(1) s2(1) s3(1) by simp
    qed
    ultimately show ?thesis using False by simp
  qed
qed

text \<open>The sequence that replaces two free buddies by the block they form.\<close>

lemma join_blocks_ok:
  assumes irq: "irq_ok s" and L: "blinks s" and n: "num_pages_exp s \<le> 30"
    and xy: "{x, y} = {lo, lo + 2 ^ e}" and hi: "lo + 2 ^ e < 2 ^ num_pages_exp s" and e: "e < num_pages_exp s"
    and f: "arr s ! lo = int e" "arr s ! (lo + 2 ^ e) = int e"
  shows "\<exists>s1 s2 s3 s4. buddy_delete_free_block x e s = Some s1 \<and> buddy_delete_free_block y e s1 = Some s2
     \<and> buddy_insert_free_block lo (Suc e) s2 = Some s3 \<and> set_arr (lo + 2 ^ e) EMPTY s3 = Some s4
     \<and> relinked s ((arr s)[lo := int (Suc e), lo + 2 ^ e := EMPTY]) s4"
proof -
  let ?hi = "lo + 2 ^ e"
  note len = links_okD(1) [OF L]
  have b: "x < 2 ^ num_pages_exp s" "y < 2 ^ num_pages_exp s" "lo < 2 ^ num_pages_exp s" "x \<noteq> y"
    and v: "arr s ! x = int e" "arr s ! y = int e"
    using xy hi f by (auto simp: doubleton_eq_iff)
  obtain s1 where s1: "buddy_delete_free_block x e s = Some s1" "relinked s ((arr s)[x := neg_exp e]) s1"
    using buddy_delete_free_block_ok [of s x e] irq L b v e by auto
  note f1 = relinkedD [OF s1(2)]
  obtain s2 where s2: "buddy_delete_free_block y e s1 = Some s2" "relinked s1 ((arr s1)[y := neg_exp e]) s2"
    using buddy_delete_free_block_ok [of s1 y e] f1 irq b v e by auto
  have r2: "relinked s ((arr s)[x := neg_exp e, y := neg_exp e]) s2"
    using relinked_trans [OF s1(2) s2(2)] f1(1) by simp
  note f2 = relinkedD [OF r2]
  have used: "arr s2 ! lo = neg_exp e" "arr s2 ! ?hi = neg_exp e"
    using xy f2(1) b len by (auto simp: doubleton_eq_iff)
  obtain s3 where s3: "buddy_insert_free_block lo (Suc e) s2 = Some s3"
    "relinked s2 ((arr s2)[lo := int (Suc e)]) s3"
    using buddy_insert_free_block_ok [of s2 lo "Suc e"] f2 irq b e used by auto
  note f3 = relinkedD [OF s3(2)]
  have used3: "arr s3 ! ?hi = neg_exp e" using f3(1) used by simp
  obtain s4 where s4: "set_arr ?hi EMPTY s3 = Some s4" "relinked s3 ((arr s3)[?hi := EMPTY]) s4"
    using set_arr_ok [of s3 ?hi EMPTY] f3 f2 hi n used3 by auto
  have eq: "(arr s2)[lo := int (Suc e), ?hi := EMPTY] = (arr s)[lo := int (Suc e), ?hi := EMPTY]"
    using xy f2(1) b len
    by (intro nth_equalityI) (auto simp: nth_list_update doubleton_eq_iff simp del: of_nat_Suc)
  have "relinked s ((arr s)[lo := int (Suc e), ?hi := EMPTY]) s4"
    using relinked_trans [OF r2 relinked_trans [OF s3(2) s4(2)]] f3(1) eq by simp
  then show ?thesis using s1(1) s2(1) s3(1) s4(1) by blast
qed

lemma buddy_merge_block_ok:
  "irq_ok s \<Longrightarrow> blinks s \<Longrightarrow> part_ok (num_pages_exp s) (arr s) \<Longrightarrow> idx < 2 ^ num_pages_exp s \<Longrightarrow>
     e \<le> num_pages_exp s \<Longrightarrow> arr s ! idx = int e \<Longrightarrow>
     \<exists>s'. buddy_merge_block idx e s = Some s' \<and> relinked s (merge_arr (num_pages_exp s) idx e (arr s)) s'"
proof (induction "num_pages_exp s" idx e "arr s" arbitrary: s rule: merge_arr.induct)
  case (1 idx e s)
  let ?n = "num_pages_exp s" and ?d = "disable_int s"
  have n: "?n \<le> 30" "length (arr s) = 2 ^ ?n" using part_okD [OF 1(4)] by auto
  have h: "is_head (arr s) idx" using 1(5-7) n by (simp add: is_head_def)
  have al: "2 ^ e dvd idx" using part_okD(4) [OF 1(4) h] 1(7) by simp
  obtain b where b: "buddy_of idx e = Some b" using al by (cases rule: buddy_cases) auto
  show ?case
  proof (cases "e = ?n")
    case True
    then show ?thesis using 1(2,3)
      by (subst buddy_merge_block.simps) (simp add: Let_def critical_section_id relinked_refl merge_arr_stop)
  next
    case False
    then have en: "e < ?n" using 1(6) by simp
    obtain lo where lo: "2 ^ Suc e dvd lo" "lo < 2 ^ ?n" "min idx b = lo" "max idx b = lo + 2 ^ e"
      "{idx, b} = {lo, lo + 2 ^ e}" using merge_pair [OF al 1(5) b] .
    have "lo + 2 ^ Suc e \<le> 2 ^ ?n" using aligned_block_fits [OF lo(1,2)] en by simp
    moreover have "(0::nat) < 2 ^ e" by simp
    ultimately have hi: "lo + 2 ^ e < 2 ^ ?n" unfolding power_Suc by linarith
    then have b': "b < 2 ^ ?n" using lo(2,5) by (metis doubleton_eq_iff)
    have ne: "idx \<noteq> b" using lo(5) by (metis add_cancel_left_right doubleton_eq_iff power_eq_0_iff zero_neq_numeral)
    show ?thesis
    proof (cases "arr s ! b = int e")
      case False
      then show ?thesis using 1(2,3) b b' n en
        by (subst buddy_merge_block.simps)
          (simp add: Let_def critical_section_id relinked_refl merge_arr_stop)
    next
      case True
      let ?hi = "lo + 2 ^ e"
      let ?a = "(arr s)[lo := int (Suc e), ?hi := EMPTY]"
      have fr: "arr s ! lo = int e" "arr s ! ?hi = int e"
        using lo(5) 1(7) True by (metis doubleton_eq_iff)+
      obtain s1 s2 s3 s4 where st: "buddy_delete_free_block idx e ?d = Some s1"
        "buddy_delete_free_block b e s1 = Some s2" "buddy_insert_free_block lo (Suc e) s2 = Some s3"
        "set_arr ?hi EMPTY s3 = Some s4" and r4: "relinked ?d ?a s4"
        using join_blocks_ok [of ?d idx b lo e] 1(2,3) n lo(5) hi en fr by auto
      note f4 = relinkedD [OF r4]
      have j: "part_ok ?n ?a" "?a ! lo = int (Suc e)"
      proof -
        have "is_head (arr s) lo" "is_head (arr s) ?hi"
          using lo(2) hi n en fr by (simp_all add: is_head_def)
        then show "part_ok ?n ?a"
          using part_ok_join [OF 1(4), of lo e "int (Suc e)"] lo(1) en n fr by (simp del: of_nat_Suc)
        show "?a ! lo = int (Suc e)" using lo(2) n by simp
      qed
      have IH: "\<exists>s'. buddy_merge_block lo (Suc e) s4 = Some s'
          \<and> relinked s4 (merge_arr (num_pages_exp s4) lo (Suc e) (arr s4)) s'"
        by (rule 1(1) [OF _ b, of s4, unfolded lo(3,4)]) (use f4 j lo(2) en True 1(2) in simp_all)
      then obtain s5 where s5: "buddy_merge_block lo (Suc e) s4 = Some s5"
          "relinked s4 (merge_arr ?n lo (Suc e) ?a) s5" using f4 by auto
      have "relinked s (merge_arr ?n lo (Suc e) ?a) (enable_int s5)"
        using relinked_critical [OF 1(2) relinked_trans [OF r4 s5(2)]] .
      moreover have "merge_arr ?n lo (Suc e) ?a = merge_arr ?n idx e (arr s)"
        using merge_arr_go [OF en b True] lo(3,4) by simp
      moreover have "buddy_merge_block idx e s = Some (enable_int s5)"
        using b b' n en True st s5(1) lo(3,4)
        by (subst buddy_merge_block.simps) (simp add: Let_def)
      ultimately show ?thesis by simp
    qed
  qed
qed

section \<open>Allocation and release as operations on the block map\<close>

definition fits :: "u32 \<Rightarrow> nat option list \<Rightarrow> nat \<Rightarrow> bool" where
  "fits sz fl k \<longleftrightarrow> unat sz \<le> 2 ^ k \<and> fl ! k \<noteq> None"

definition found :: "u32 \<Rightarrow> nat \<Rightarrow> nat \<Rightarrow> nat option list \<Rightarrow> nat option \<Rightarrow> bool" where
  "found sz li n fl r \<longleftrightarrow>
     (case r of
        None \<Rightarrow> \<forall>k. li \<le> k \<and> k \<le> n \<longrightarrow> \<not> fits sz fl k
      | Some k \<Rightarrow> li \<le> k \<and> k \<le> n \<and> fits sz fl k \<and> (\<forall>j. li \<le> j \<and> j < k \<longrightarrow> \<not> fits sz fl j))"

lemma found_Suc:
  assumes "found sz (Suc li) n fl r" "\<not> fits sz fl li" shows "found sz li n fl r"
proof -
  have "li \<le> k \<longleftrightarrow> li = k \<or> Suc li \<le> k" for k by auto
  then show ?thesis using assms by (auto simp: found_def split: option.splits)
qed

lemma buddy_find_spec:
  "length (free_blocks_list s) = Suc (num_pages_exp s) \<Longrightarrow> li \<le> num_pages_exp s \<Longrightarrow>
     \<exists>r. buddy_find sz li s = Some r \<and> found sz li (num_pages_exp s) (free_blocks_list s) r"
proof (induction "num_pages_exp s - li" arbitrary: li)
  case 0
  then show ?case
    by (subst buddy_find.simps) (auto simp: buddy_list_empty_def fits_def found_def)
next
  case (Suc d)
  show ?case
  proof (cases "fits sz (free_blocks_list s) li")
    case True
    then show ?thesis using Suc.prems
      by (subst buddy_find.simps) (auto simp: buddy_list_empty_def fits_def found_def)
  next
    case False
    have li: "li < num_pages_exp s" and d: "d = num_pages_exp s - Suc li" using Suc.hyps(2) by auto
    obtain r where r: "buddy_find sz (Suc li) s = Some r"
      "found sz (Suc li) (num_pages_exp s) (free_blocks_list s) r"
      using Suc.hyps(1) [OF d Suc.prems(1)] li by auto
    have "buddy_find sz li s = Some r"
      using False Suc.prems li r
      by (subst buddy_find.simps) (auto simp: buddy_list_empty_def fits_def)
    then show ?thesis using r(2) False found_Suc by blast
  qed
qed

lemma head_free:
  assumes "blinks s" "k \<le> num_pages_exp s"
  shows "free_blocks_list s ! k = None \<longleftrightarrow> (\<nexists>i. free_at (arr s) i k)"
    "free_blocks_list s ! k = Some p \<Longrightarrow> free_at (arr s) p k"
proof -
  obtain xs t where x: "set xs = {i. i < 2 ^ num_pages_exp s \<and> arr s ! i = int k}"
    "dll (\<lambda>i. prev (buddy_node_arr s ! i)) (\<lambda>i. nxt (buddy_node_arr s ! i)) (free_blocks_list s ! k) xs t"
    using links_ok_list [OF assms] .
  have e: "free_at (arr s) i k \<longleftrightarrow> i \<in> set xs" for i
    using x(1) links_okD(1) [OF assms(1)] by (auto simp: free_at_def)
  show "free_blocks_list s ! k = None \<longleftrightarrow> (\<nexists>i. free_at (arr s) i k)"
    unfolding e using dseg_first [OF x(2)] by (cases xs) auto
  show "free_blocks_list s ! k = Some p \<Longrightarrow> free_at (arr s) p k"
    unfolding e using dseg_first [OF x(2)] by (cases xs) auto
qed

lemma free_at_exp_le:
  assumes "part_ok n a" "free_at a i k" "k \<le> 30" shows "k \<le> n"
  using part_okD(3) [OF assms(1), of i] assms by (simp add: free_at_def is_head_def)

lemma fits_iff:
  "blinks s \<Longrightarrow> k \<le> num_pages_exp s \<Longrightarrow>
     fits sz (free_blocks_list s) k \<longleftrightarrow> unat sz \<le> 2 ^ k \<and> (\<exists>i. free_at (arr s) i k)"
  using head_free(1) [of s k] by (auto simp: fits_def)

lemma buddy_malloc_cases:
  assumes ok: "buddy_ok s" and sz: "sz \<noteq> 0"
  obtains (none) "buddy_malloc sz s = Some (0, print_msg ''No enough space'' s)"
      "\<And>k i. k \<le> num_pages_exp s \<Longrightarrow> free_at (arr s) i k \<Longrightarrow> 2 ^ k < unat sz"
  | (some) i k s' where "buddy_malloc sz s = Some (of_nat i * PAGE_SIZE, s')"
      "free_at (arr s) i k" "k \<le> num_pages_exp s" "unat sz \<le> 2 ^ k"
      "\<And>j m. j < k \<Longrightarrow> free_at (arr s) m j \<Longrightarrow> 2 ^ j < unat sz"
      "relinked s (cut_arr i k (unat sz) ((arr s)[i := neg_exp k])) s'"
proof -
  let ?n = "num_pages_exp s" and ?d = "disable_int s"
  have irq: "irq_ok s" and L: "blinks s" and P: "part_ok ?n (arr s)" using ok by (auto simp: buddy_ok_def)
  note len = links_okD(1-3) [OF L] and n = part_okD(1) [OF P]
  obtain r where r: "buddy_find sz 0 ?d = Some r" and rc: "found sz 0 ?n (free_blocks_list s) r"
    using buddy_find_spec [of ?d 0 sz] len by auto
  show ?thesis
  proof (cases r)
    case None
    have "buddy_malloc sz s = Some (0, print_msg ''No enough space'' s)"
      using r None sz irq by (simp add: buddy_malloc_def Let_def critical_section_id)
    moreover have "2 ^ k < unat sz" if "k \<le> ?n" "free_at (arr s) i k" for k i
    proof -
      have "\<not> fits sz (free_blocks_list s) k" using rc None that(1) by (simp add: found_def)
      then show ?thesis using fits_iff [OF L that(1), of sz] that(2) not_le by metis
    qed
    ultimately show ?thesis by (rule none)
  next
    case (Some k)
    then have k: "k \<le> ?n" "fits sz (free_blocks_list s) k"
      and least: "\<forall>j < k. \<not> fits sz (free_blocks_list s) j"
      using rc by (auto simp: found_def)
    obtain i where i: "free_blocks_list s ! k = Some i" using k(2) by (auto simp: fits_def)
    then have fr: "free_at (arr s) i k" using head_free(2) [OF L k(1)] by simp
    then have ib: "i < 2 ^ ?n" "arr s ! i = int k" using len by (auto simp: free_at_def)
    let ?a = "(arr s)[i := neg_exp k]"
    obtain s1 where s1: "buddy_delete_free_block i k ?d = Some s1" "relinked ?d ?a s1"
      using buddy_delete_free_block_ok [of ?d i k] irq L ib k by auto
    note f1 = relinkedD [OF s1(2)]
    have "is_head (arr s) i" using ib len n k by (simp add: is_head_def)
    then have "part_ok ?n ?a" using part_ok_retag [OF P, of i "neg_exp k"] ib n k by simp
    moreover have "is_head ?a i" "?a ! i = neg_exp k" using ib len by (simp_all add: is_head_def)
    ultimately obtain s2 where s2: "buddy_cut_block i k sz s1 = Some s2"
      "relinked s1 (cut_arr i k (unat sz) ?a) s2"
      using buddy_cut_block_ok [of s1 i k sz] f1 irq k by auto
    have "relinked s (cut_arr i k (unat sz) ?a) (enable_int s2)"
      using relinked_critical [OF irq relinked_trans [OF s1(2) s2(2)]] .
    moreover have "buddy_malloc sz s = Some (of_nat i * PAGE_SIZE, enable_int s2)"
      using r Some sz i ib k len s1(1) s2(1) links_okD(4) [OF L ib(1)]
      by (simp add: buddy_malloc_def Let_def node_at_def)
    moreover have "2 ^ j < unat sz" if "j < k" "free_at (arr s) m j" for j m
    proof -
      have "\<not> fits sz (free_blocks_list s) j" using least that(1) by simp
      then show ?thesis using fits_iff [OF L, of j sz] k(1) that not_le by (metis less_imp_le order_trans)
    qed
    ultimately show ?thesis using some fr k by (auto simp: fits_def)
  qed
qed

lemma page_ptr:
  assumes "bend s = of_nat (2 ^ n) * PAGE_SIZE" "n \<le> 30"
  shows "ptr < bend s \<Longrightarrow> unat (ptr div PAGE_SIZE) < 2 ^ n"
    "i < 2 ^ n \<Longrightarrow> of_nat i * PAGE_SIZE < bend s"
    "i < 2 ^ n \<Longrightarrow> unat ((of_nat i * PAGE_SIZE) div PAGE_SIZE) = i"
    "i < 2 ^ n \<Longrightarrow> (of_nat i * PAGE_SIZE) AND (PAGE_SIZE - 1) = 0"
proof -
  have pw: "(2::nat) ^ n \<le> 2 ^ 30" using assms(2) by (intro power_increasing) auto
  have P: "unat PAGE_SIZE = 2 ^ 12" "PAGE_SIZE = 2 ^ 12" by (simp_all add: PAGE_SIZE_def)
  have ub: "unat (of_nat i * PAGE_SIZE) = i * 2 ^ 12" if "i \<le> 2 ^ 30" for i
  proof -
    have "unat (of_nat i :: u64) = i" using that by (intro unat_of_nat_small) simp
    then show ?thesis using that P(1) by (subst unat_mult_lem [THEN iffD1]) auto
  qed
  have be: "unat (bend s) = 2 ^ n * 2 ^ 12" using ub [of "2 ^ n"] pw assms(1) by simp
  show "unat (ptr div PAGE_SIZE) < 2 ^ n" if "ptr < bend s"
    using that be P by (simp add: word_less_nat_alt unat_div less_mult_imp_div_less)
  have i: "i < 2 ^ n \<Longrightarrow> unat (of_nat i * PAGE_SIZE) = i * 2 ^ 12" using ub [of i] pw by simp
  show "of_nat i * PAGE_SIZE < bend s" if "i < 2 ^ n" using that i be by (simp add: word_less_nat_alt)
  show "unat ((of_nat i * PAGE_SIZE) div PAGE_SIZE) = i" if "i < 2 ^ n"
    using that i P by (simp add: unat_div)
  show "(of_nat i * PAGE_SIZE) AND (PAGE_SIZE - 1) = 0" if "i < 2 ^ n"
  proof -
    have "of_nat i * PAGE_SIZE = push_bit 12 (of_nat i)" by (simp add: P push_bit_eq_mult)
    moreover have "PAGE_SIZE - 1 = mask 12" by (simp add: P mask_eq_exp_minus_1)
    ultimately show ?thesis by (simp add: take_bit_push_bit flip: take_bit_eq_mask)
  qed
qed

lemma neg_exp_list_idx: "e \<le> 30 \<Longrightarrow> (if neg_exp e = NEG_ZERO then 0 else nat (- neg_exp e)) = e"
  by (auto simp: neg_exp_def NEG_ZERO_def)

lemma buddy_free_used:
  assumes ok: "buddy_ok s" and u: "used_at (arr s) i e" and e: "e \<le> num_pages_exp s"
  shows "\<exists>s'. buddy_free (of_nat i * PAGE_SIZE) s = Some s'
           \<and> relinked s (merge_arr (num_pages_exp s) i e ((arr s)[i := int e])) s'"
proof -
  let ?n = "num_pages_exp s" and ?d = "disable_int s" and ?a = "(arr s)[i := int e]"
  have irq: "irq_ok s" and L: "blinks s" and P: "part_ok ?n (arr s)"
    and be: "bend s = of_nat (2 ^ ?n) * PAGE_SIZE" using ok by (auto simp: buddy_ok_def)
  have n: "?n \<le> 30" "length (arr s) = 2 ^ ?n" using part_okD [OF P] by auto
  have i: "i < 2 ^ ?n" "arr s ! i = neg_exp e" using u n by (auto simp: used_at_def)
  obtain s1 where s1: "buddy_insert_free_block i e ?d = Some s1" "relinked ?d ?a s1"
    using buddy_insert_free_block_ok [of ?d i e] irq L i e by auto
  note f1 = relinkedD [OF s1(2)]
  have "is_head (arr s) i" using i n by (simp add: is_head_def)
  then have "part_ok ?n ?a" using part_ok_retag [OF P, of i "int e"] i n e by simp
  then obtain s2 where s2: "buddy_merge_block i e s1 = Some s2" "relinked s1 (merge_arr ?n i e ?a) s2"
    using buddy_merge_block_ok [of s1 i e] f1 irq i n e by auto
  have "relinked s (merge_arr ?n i e ?a) (enable_int s2)"
    using relinked_critical [OF irq relinked_trans [OF s1(2) s2(2)]] .
  moreover have "buddy_free (of_nat i * PAGE_SIZE) s = Some (enable_int s2)"
    using page_ptr(2-4) [OF be n(1) i(1)] i n s1(1) s2(1) neg_exp_list_idx [of e] e
    by (simp add: buddy_free_def Let_def not_le not_less)
  ultimately show ?thesis by blast
qed

lemma buddy_ok_relinked:
  "buddy_ok s \<Longrightarrow> relinked s a s' \<Longrightarrow> part_ok (num_pages_exp s) a \<Longrightarrow> coalesced (num_pages_exp s) a \<Longrightarrow> buddy_ok s'"
  using relinkedD [of s a s'] by (simp add: buddy_ok_def)

end
