(* ===== verification/Buddy_Init.thy ===== *)
theory Buddy_Init
  imports Buddy_Correct
begin

text \<open>
  The startup allocator \<open>simple_malloc\<close> and the initialisation of the buddy allocator
  (\<open>mem.c\<close>): the loop that sizes the page array ends, the three tables fit into the startup heap,
  and the resulting state satisfies the allocator's invariant.
\<close>

section \<open>The startup allocator\<close>

definition heap_align :: "u64 \<Rightarrow> nat" where
  "heap_align sz =
     (if 8 dvd unat sz then 8 else if 4 dvd unat sz then 4 else if 2 dvd unat sz then 2 else 1)"

lemma heap_align_pos [simp]: "0 < heap_align sz" "heap_align sz \<le> 8"
  by (simp_all add: heap_align_def)

lemma unat_mod_small: "unat (x mod y) = unat x mod unat (y :: u64)"
  by (rule unat_mod)

lemma align_padding_spec:
  "unat (align_padding hp sz) < heap_align sz" "heap_align sz dvd unat hp + unat (align_padding hp sz)"
proof -
  have gen: "unat (if hp mod i \<noteq> 0 then i - hp mod i else 0) < unat i
      \<and> unat i dvd unat hp + unat (if hp mod i \<noteq> 0 then i - hp mod i else 0)" if "0 < unat i" for i :: u64
  proof (cases "hp mod i = 0")
    case True
    then have "unat hp mod unat i = 0" by (metis unat_mod unat_0)
    then show ?thesis using True that by auto
  next
    case False
    have le: "hp mod i < i" using that by (simp add: word_less_nat_alt unat_mod)
    have "unat hp mod unat i \<noteq> 0" using False by (metis unat_mod unat_eq_0)
    moreover have "unat (i - hp mod i) = unat i - unat hp mod unat i"
      using le by (simp add: unat_sub unat_mod)
    moreover have "unat i dvd unat hp + (unat i - unat hp mod unat i)"
    proof -
      have "unat hp + (unat i - unat hp mod unat i) = unat i * (unat hp div unat i) + unat i"
        using mult_div_mod_eq [of "unat i" "unat hp"] mod_less_divisor [OF that, of "unat hp"] by linarith
      then show ?thesis by simp
    qed
    ultimately show ?thesis using False that by auto
  qed
  have z: "sz mod i = 0 \<longleftrightarrow> unat i dvd unat sz" for i :: u64
    by (metis dvd_eq_mod_eq_0 unat_eq_0 unat_mod)
  have "align_padding hp sz = (let i = of_nat (heap_align sz) in if hp mod i \<noteq> 0 then i - hp mod i else 0)"
    by (simp add: align_padding_def heap_align_def z Let_def)
  moreover have "unat (of_nat (heap_align sz) :: u64) = heap_align sz" by (simp add: heap_align_def)
  ultimately show "unat (align_padding hp sz) < heap_align sz"
    "heap_align sz dvd unat hp + unat (align_padding hp sz)"
    using gen [of "of_nat (heap_align sz)"] by (auto simp: Let_def)
qed

text \<open>
  What \<open>simple_malloc\<close> does when the addresses involved do not wrap: it takes the next aligned chunk
  if the heap has room for it, and otherwise changes nothing and reports the failure.
\<close>

lemma simple_malloc_cases:
  assumes "unat (heap_ptr s) \<le> unat (heap_start s) + unat HEAP_SIZE"
    "unat (heap_start s) + unat HEAP_SIZE + unat sz + 8 < 2 ^ 64"
  defines "pad \<equiv> align_padding (heap_ptr s) sz"
  shows "if unat (heap_ptr s) + unat pad + unat sz \<le> unat (heap_start s) + unat HEAP_SIZE
         then simple_malloc sz s = (heap_ptr s + pad, s\<lparr>heap_ptr := heap_ptr s + (sz + pad)\<rparr>)
              \<and> unat (heap_ptr s + pad) = unat (heap_ptr s) + unat pad
              \<and> unat (heap_ptr s + (sz + pad)) = unat (heap_ptr s) + unat pad + unat sz
         else simple_malloc sz s = (0, print_msg ''Allocation failed'' s)"
proof -
  have p: "unat pad < 8" using align_padding_spec(1) [of "heap_ptr s" sz] heap_align_pos(2) [of sz]
    unfolding pad_def by linarith
  have nw: "unat (x + y) = unat x + unat y" if "unat x + unat y < 2 ^ 64" for x y :: u64
    using that by (subst unat_add_lem [THEN iffD1]) auto
  have h: "unat (heap_start s + HEAP_SIZE) = unat (heap_start s) + unat HEAP_SIZE"
    using assms(2) by (intro nw) simp
  have sp: "unat (heap_ptr s + pad) = unat (heap_ptr s) + unat pad" using assms p by (intro nw) simp
  have s1: "unat (heap_ptr s + sz) = unat (heap_ptr s) + unat sz" using assms by (intro nw) simp
  have s2: "unat (heap_ptr s + sz + pad) = unat (heap_ptr s) + unat sz + unat pad"
    using assms p s1 by (subst nw) simp_all
  show ?thesis
    using sp s2 h by (auto simp: simple_malloc_def Let_def pad_def word_le_nat_alt add_ac)
qed

section \<open>Sizing the page array\<close>

lemma unat_pow2: "k < 64 \<Longrightarrow> unat ((2::u64) ^ k) = 2 ^ k"
  using unat_of_nat_small [of "2 ^ k", where 'a = 64] power_strict_increasing [of k 64 "2::nat"] by simp

lemma pages_exp_loop_spec:
  "unat lim \<le> 2 ^ 42 \<Longrightarrow> e \<le> 30 \<Longrightarrow> \<forall>d < e. 2 ^ (12 + d) < unat lim \<Longrightarrow>
     \<exists>n \<le> 30. pages_exp_loop lim (2 ^ (12 + e)) e = Some (2 ^ (12 + n), n)
       \<and> unat lim \<le> 2 ^ (12 + n) \<and> (\<forall>d < n. 2 ^ (12 + d) < unat lim)"
proof (induction "30 - e" arbitrary: e)
  case 0
  then have "\<not> 2 ^ (12 + e) < lim" by (simp add: word_less_nat_alt unat_pow2)
  then show ?case using 0 by (subst pages_exp_loop.simps) auto
next
  case (Suc k)
  show ?case
  proof (cases "2 ^ (12 + e) < lim")
    case False
    then show ?thesis using Suc.prems Suc.hyps(2)
      by (subst pages_exp_loop.simps) (auto simp: word_less_nat_alt unat_pow2 not_less)
  next
    case True
    have e: "e < 30" and k: "k = 30 - Suc e" using Suc.hyps(2) by auto
    have "2 ^ (12 + e) < unat lim" using True e unat_pow2 [of "12 + e"] by (simp add: word_less_nat_alt)
    then have "\<forall>d < Suc e. 2 ^ (12 + d) < unat lim" using Suc.prems(3) less_Suc_eq by auto
    then obtain n where n: "n \<le> 30" "pages_exp_loop lim (2 ^ (12 + Suc e)) (Suc e) = Some (2 ^ (12 + n), n)"
       "unat lim \<le> 2 ^ (12 + n)" "\<forall>d < n. 2 ^ (12 + d) < unat lim"
      using Suc.hyps(1) [OF k Suc.prems(1)] e by auto
    moreover have "push_bit 1 (2 ^ (12 + e)) = (2 :: u64) ^ (12 + Suc e)" by (simp add: push_bit_eq_mult power_add)
    then have "pages_exp_loop lim (2 ^ (12 + e)) e = pages_exp_loop lim (2 ^ (12 + Suc e)) (Suc e)"
      using True by (subst pages_exp_loop.simps) simp
    ultimately show ?thesis by auto
  qed
qed

section \<open>The initial state\<close>

text \<open>The block map right after \<open>buddy_init\<close>: one free block that is the whole memory.\<close>

lemma initial_map:
  assumes "n \<le> 30"
  defines "a \<equiv> (replicate (2 ^ n) EMPTY)[0 := int n]"
  shows "part_ok n a" "coalesced n a" "free_at a 0 n"
proof -
  have nth: "a ! i = (if i = 0 then int n else EMPTY)" if "i < 2 ^ n" for i
    using that by (simp add: a_def nth_list_update)
  have len: "length a = 2 ^ n" by (simp add: a_def)
  have h: "is_head a i \<longleftrightarrow> i = 0" for i
    using nth [of i] len assms(1) by (auto simp: is_head_def nth split: if_splits)
  have b: "bexp (a ! 0) = n" using nth [of 0] by simp
  have c: "covers a i j \<longleftrightarrow> i = 0 \<and> j < 2 ^ n" for i j unfolding covers_def h using b by auto
  show "part_ok n a" unfolding part_ok_def c h using assms(1) len b by auto
  show "free_at a 0 n" using nth [of 0] len by (simp add: free_at_def)
  show "coalesced n a" unfolding coalesced_def
  proof (intro allI impI notI)
    fix e i assume e: "e < n" "i < 2 ^ n" and f: "a ! i = int e \<and> a ! (i + 2 ^ e) = int e"
    have "a ! i = int n \<or> a ! i = EMPTY" unfolding nth [OF e(2)] by simp
    then show False using f e assms(1) by auto
  qed
qed

lemma initial_links:
  assumes "n \<le> 30"
  shows "links_ok n (replicate (2 ^ n) EMPTY)
           (map (\<lambda>i. \<lparr>node_idx = i, prev = None, nxt = None\<rparr>) [0..<2 ^ n]) (replicate (n + 1) None)"
  unfolding links_ok_def
proof (intro conjI allI impI)
  fix li assume "li \<le> n"
  then show "\<exists>xs t. distinct xs \<and> set xs = {i. i < 2 ^ n \<and> replicate (2 ^ n) EMPTY ! i = int li}
     \<and> dll (\<lambda>i. prev (map (\<lambda>i. \<lparr>node_idx = i, prev = None, nxt = None\<rparr>) [0..<2 ^ n] ! i))
         (\<lambda>i. nxt (map (\<lambda>i. \<lparr>node_idx = i, prev = None, nxt = None\<rparr>) [0..<2 ^ n] ! i))
         (replicate (n + 1) None ! li) xs t"
    using assms by (intro exI [of _ "[]"] exI [of _ None]) (auto simp del: replicate_Suc)
qed simp_all

text \<open>Smallest number of pages, as an exponent, that covers the addresses below \<open>lim\<close>.\<close>

definition pages_exp_of :: "u64 \<Rightarrow> nat \<Rightarrow> bool" where
  "pages_exp_of lim n \<longleftrightarrow> unat lim \<le> 2 ^ (12 + n) \<and> (\<forall>d < n. 2 ^ (12 + d) < unat lim)"

lemma pages_exp_of_unique: "pages_exp_of lim m \<Longrightarrow> pages_exp_of lim n \<Longrightarrow> m = n"
  unfolding pages_exp_of_def by (metis leD linorder_neqE_nat)

lemma pages_exp_loop_exact:
  assumes "pages_exp_of lim n" "n \<le> 30"
  shows "pages_exp_loop lim PAGE_SIZE 0 = Some (2 ^ (12 + n), n)"
proof -
  have "(2::nat) ^ (12 + n) \<le> 2 ^ 42" using assms(2) by (intro power_increasing) auto
  then have "unat lim \<le> 2 ^ 42" using assms(1) by (simp add: pages_exp_of_def)
  then obtain m where "pages_exp_loop lim (2 ^ (12 + 0)) 0 = Some (2 ^ (12 + m), m)" "pages_exp_of lim m"
    using pages_exp_loop_spec [of lim 0] by (auto simp: pages_exp_of_def)
  then show ?thesis using pages_exp_of_unique [OF assms(1)] by (auto simp: PAGE_SIZE_def)
qed

text \<open>A request for which the startup heap has room, in the form \<open>buddy_init\<close> needs three times.\<close>

lemma simple_malloc_room:
  assumes "unat (heap_start s) + unat HEAP_SIZE + 2 ^ 40 \<le> 2 ^ 64" "0 < unat (heap_ptr s)" "unat sz \<le> 2 ^ 39"
    "unat (heap_ptr s) + unat sz + 7 \<le> unat (heap_start s) + unat HEAP_SIZE"
  shows "\<exists>p h. simple_malloc sz s = (p, s\<lparr>heap_ptr := h\<rparr>) \<and> p \<noteq> 0
           \<and> unat (heap_ptr s) \<le> unat h \<and> unat h \<le> unat (heap_ptr s) + unat sz + 7"
proof -
  let ?pad = "align_padding (heap_ptr s) sz"
  have pad: "unat ?pad \<le> 7"
    using align_padding_spec(1) [of "heap_ptr s" sz] heap_align_pos(2) [of sz] by linarith
  have le: "unat (heap_ptr s) \<le> unat (heap_start s) + unat HEAP_SIZE"
    "unat (heap_start s) + unat HEAP_SIZE + unat sz + 8 < 2 ^ 64"
    using assms by simp_all
  have r: "unat (heap_ptr s) + unat ?pad + unat sz \<le> unat (heap_start s) + unat HEAP_SIZE"
    using assms(4) pad by linarith
  have "simple_malloc sz s = (heap_ptr s + ?pad, s\<lparr>heap_ptr := heap_ptr s + (sz + ?pad)\<rparr>)"
    and p: "unat (heap_ptr s + ?pad) = unat (heap_ptr s) + unat ?pad"
    and h: "unat (heap_ptr s + (sz + ?pad)) = unat (heap_ptr s) + unat ?pad + unat sz"
    using simple_malloc_cases [OF le] r by simp_all
  moreover have "unat (heap_ptr s + ?pad) \<noteq> 0" unfolding p using assms(2) by simp
  then have "heap_ptr s + ?pad \<noteq> 0" by (metis unat_0)
  ultimately show ?thesis using pad by (intro exI conjI) (assumption | simp)+
qed

lemma table_sizes:
  assumes "n \<le> 22"
  shows "unat (push_bit n 1 * 24 :: u64) = 24 * 2 ^ n" "unat (push_bit n 1 * 4 :: u64) = 4 * 2 ^ n"
    "unat ((of_nat n + 1) * 8 :: u64) = 8 * (n + 1)" "(2::nat) ^ n \<le> 2 ^ 22"
proof -
  show p: "(2::nat) ^ n \<le> 2 ^ 22" using assms by (intro power_increasing) auto
  have "push_bit n 1 * 24 = (of_nat (24 * 2 ^ n) :: u64)" "push_bit n 1 * 4 = (of_nat (4 * 2 ^ n) :: u64)"
    "(of_nat n + 1) * 8 = (of_nat (8 * (n + 1)) :: u64)" by (simp_all add: push_bit_eq_mult)
  moreover have "24 * 2 ^ n < (2::nat) ^ LENGTH(64)" "4 * 2 ^ n < (2::nat) ^ LENGTH(64)"
    "8 * (n + 1) < 2 ^ LENGTH(64)" using p assms by simp_all
  ultimately show "unat (push_bit n 1 * 24 :: u64) = 24 * 2 ^ n" "unat (push_bit n 1 * 4 :: u64) = 4 * 2 ^ n"
    "unat ((of_nat n + 1) * 8 :: u64) = 8 * (n + 1)"
    using unat_of_nat_small [where 'a = 64] by metis+
qed

lemma buddy_init_state:
  assumes irq: "irq_ok s" and n: "pages_exp_of lim n" "n \<le> 22"
    and h: "unat (heap_start s) + unat HEAP_SIZE + 2 ^ 40 \<le> 2 ^ 64" "0 < unat (heap_ptr s)"
      "unat (heap_ptr s) + 28 * 2 ^ n + 8 * (n + 1) + 21 \<le> unat (heap_start s) + unat HEAP_SIZE"
  shows "\<exists>s'. buddy_init lim s = Some s' \<and> buddy_ok s' \<and> num_pages_exp s' = n
           \<and> arr s' = (replicate (2 ^ n) EMPTY)[0 := int n]
           \<and> unat (heap_ptr s') \<le> unat (heap_ptr s) + 28 * 2 ^ n + 8 * (n + 1) + 21"
proof -
  note sz = table_sizes [OF n(2)]
  let ?nodes = "map (\<lambda>i. \<lparr>node_idx = i, prev = None, nxt = None\<rparr>) [0..<2 ^ n]"
  define s0 where "s0 = s\<lparr>base := 0, num_pages_exp := n, bend := 2 ^ (12 + n)\<rparr>"
  obtain p1 h1 where m1: "simple_malloc (push_bit n 1 * 24) s0 = (p1, s0\<lparr>heap_ptr := h1\<rparr>)" "p1 \<noteq> 0"
    "unat (heap_ptr s) \<le> unat h1" "unat h1 \<le> unat (heap_ptr s) + 24 * 2 ^ n + 7"
    using simple_malloc_room [of s0 "push_bit n 1 * 24"] h sz by (auto simp: s0_def)
  define s1 where "s1 = s0\<lparr>heap_ptr := h1, buddy_node_arr := ?nodes\<rparr>"
  obtain p2 h2 where m2: "simple_malloc (push_bit n 1 * 4) s1 = (p2, s1\<lparr>heap_ptr := h2\<rparr>)" "p2 \<noteq> 0"
    "unat h1 \<le> unat h2" "unat h2 \<le> unat h1 + 4 * 2 ^ n + 7"
    using simple_malloc_room [of s1 "push_bit n 1 * 4"] h sz m1(3,4) by (auto simp: s1_def s0_def)
  define s2 where "s2 = s1\<lparr>heap_ptr := h2, arr := replicate (2 ^ n) EMPTY\<rparr>"
  obtain p3 h3 where m3: "simple_malloc ((of_nat n + 1) * 8) s2 = (p3, s2\<lparr>heap_ptr := h3\<rparr>)" "p3 \<noteq> 0"
    "unat h2 \<le> unat h3" "unat h3 \<le> unat h2 + 8 * (n + 1) + 7"
    using simple_malloc_room [of s2 "(of_nat n + 1) * 8"] h sz m1(3,4) m2(3,4) n(2)
    by (auto simp: s2_def s1_def s0_def)
  define s3 where "s3 = s2\<lparr>heap_ptr := h3, free_blocks_list := replicate (n + 1) None\<rparr>"
  have f: "num_pages_exp s3 = n" "arr s3 = replicate (2 ^ n) EMPTY" "irq_ok s3" "blinks s3" "base s3 = 0"
    "bend s3 = 2 ^ (12 + n)" "heap_ptr s3 = h3"
    using irq initial_links [of n] n(2)
    by (simp_all add: s3_def s2_def s1_def s0_def irq_ok_def)
  obtain s' where s': "buddy_insert_free_block 0 n s3 = Some s'"
    "relinked s3 ((replicate (2 ^ n) EMPTY)[0 := int n]) s'"
    using buddy_insert_free_block_ok [of s3 0 n] f n(2) by auto
  have "buddy_init lim s = Some s'"
    using pages_exp_loop_exact [OF n(1)] n(2) m1 m2 m3 s'(1) [unfolded s3_def]
    by (simp add: buddy_init_def Let_def s0_def [symmetric] s1_def [symmetric] s2_def [symmetric])
  moreover have "buddy_ok s'"
    using relinkedD [OF s'(2)] f initial_map [of n] n(2)
    by (simp add: buddy_ok_def PAGE_SIZE_def power_add)
  ultimately show ?thesis using relinkedD [OF s'(2)] f m1(4) m2(4) m3(4) by simp
qed

end
