(* ===== verification/Reserve.thy ===== *)
theory Reserve
  imports Buddy_Correct
begin

text \<open>
  Reserving memory regions (\<open>memory_reserve\<close> and \<open>buddy_clear_block\<close> of \<open>mem.c\<close>): the smallest
  aligned block around the region is carved out of the free block that contains it, or assembled
  from the blocks it contains.
\<close>

section \<open>Model\<close>

fun buddy_clear_block :: "nat \<Rightarrow> nat \<Rightarrow> 'a buddy_data_scheme \<Rightarrow> 'a buddy_data_scheme option" where
  "buddy_clear_block idx e s =
     (if idx mod 2 ^ e \<noteq> 0 then Some (print_msg ''The index is not aligned with the block size'' s)
      else do {
        v \<leftarrow> get_at (arr s) idx;
        if int e \<le> v then Some s
        else if v \<noteq> NEG_ZERO \<and> v \<le> - int e \<or> v = NEG_ZERO \<and> e = 0
        then buddy_insert_free_block idx e s
        else (case e of
            0 \<Rightarrow> None
          | Suc d \<Rightarrow> do {
              let buddy_idx = idx + 2 ^ d;
              s \<leftarrow> buddy_clear_block idx d s;
              s \<leftarrow> buddy_clear_block buddy_idx d s;
              s \<leftarrow> buddy_delete_free_block idx d s;
              s \<leftarrow> buddy_delete_free_block buddy_idx d s;
              s \<leftarrow> buddy_insert_free_block idx e s;
              set_arr buddy_idx EMPTY s
            })
      })"

declare buddy_clear_block.simps [simp del]

text \<open>The search for the smallest aligned block that covers the region.\<close>

partial_function (option) reserve_block :: "u64 \<Rightarrow> u64 \<Rightarrow> u64 \<Rightarrow> nat \<Rightarrow> (u64 \<times> nat) option" where
  "reserve_block st en i reserve_len_exp =
     (if i < en - st then reserve_block st en (push_bit 1 i) (reserve_len_exp + 1)
      else let block_start = st AND NOT (i - 1) in
        if block_start + i < en then reserve_block st en (push_bit 1 i) (reserve_len_exp + 1)
        else Some (block_start, reserve_len_exp))"

definition lowbit :: "nat \<Rightarrow> nat" where
  "lowbit p = nat (int p AND - int p)"

partial_function (option) find_parent :: "nat \<Rightarrow> 'a buddy_data_scheme \<Rightarrow> nat option" where
  "find_parent parent_idx s = do {
     v \<leftarrow> get_at (arr s) parent_idx;
     if v = EMPTY then find_parent (parent_idx - lowbit parent_idx) s else Some parent_idx
   }"

fun reserve_split ::
  "nat \<Rightarrow> nat \<Rightarrow> nat \<Rightarrow> nat \<Rightarrow> 'a buddy_data_scheme \<Rightarrow> 'a buddy_data_scheme option" where
  "reserve_split 0 reserve_len_exp idx parent_idx s = Some s"
| "reserve_split (Suc i) reserve_len_exp idx parent_idx s =
     (if Suc i \<le> reserve_len_exp then Some s
      else do {
        let idx1 = parent_idx;
        let idx2 = parent_idx + 2 ^ i;
        s \<leftarrow> buddy_delete_free_block parent_idx (Suc i) s;
        s \<leftarrow> buddy_insert_free_block idx1 i s;
        s \<leftarrow> buddy_insert_free_block idx2 i s;
        reserve_split i reserve_len_exp idx (if idx < idx2 then idx1 else idx2) s
      })"

definition memory_reserve :: "u64 \<Rightarrow> u64 \<Rightarrow> 'a buddy_data_scheme \<Rightarrow> 'a buddy_data_scheme option" where
  "memory_reserve st en s = do {
     (reserve_start, e) \<leftarrow> reserve_block st en PAGE_SIZE 0;
     let idx = unat (reserve_start div PAGE_SIZE);
     parent_idx \<leftarrow> find_parent idx s;
     v \<leftarrow> get_at (arr s) parent_idx;
     if v \<le> - int e \<and> v \<noteq> NEG_ZERO then Some s
     else if int e \<le> v then do {
       s \<leftarrow> reserve_split (nat v) e idx parent_idx s;
       buddy_delete_free_block idx e s
     }
     else do {
       s \<leftarrow> buddy_clear_block idx e s;
       buddy_delete_free_block idx e s
     }
   }"

section \<open>Finding the block that contains a page\<close>

lemma and_minus_even: "(2 * k) AND - (2 * k) = 2 * (k AND - k)" for k :: int
  using push_bit_and [of 1 k "- k"] by (simp add: push_bit_eq_mult mult.commute)

lemma and_minus_odd: "odd k \<Longrightarrow> k AND - k = 1" for k :: int
proof -
  assume "odd k"
  then obtain m where m: "k = 2 * m + 1" by (rule oddE)
  have "- k = 2 * (NOT m) + 1" by (simp add: m not_int_def)
  then show ?thesis unfolding m by (subst and_int_rec) (simp add: m)
qed

lemma lowbit_spec:
  assumes "0 < p"
  shows "\<exists>t. lowbit p = 2 ^ t \<and> 2 ^ t dvd p"
proof -
  have "\<exists>t. int p AND - int p = 2 ^ t \<and> 2 ^ t dvd p \<and> \<not> 2 ^ Suc t dvd p" using assms
  proof (induction p rule: less_induct)
    case (less p)
    show ?case
    proof (cases "even p")
      case True
      then obtain q where q: "p = 2 * q" by (rule evenE)
      then obtain t where t: "int q AND - int q = 2 ^ t" "2 ^ t dvd q" "\<not> 2 ^ Suc t dvd q"
        using less.IH [of q] less.prems by auto
      then show ?thesis using and_minus_even [of "int q"] q
        by (intro exI [of _ "Suc t"]) auto
    next
      case False
      then show ?thesis using and_minus_odd [of "int p"] by (intro exI [of _ 0]) auto
    qed
  qed
  then show ?thesis by (auto simp: lowbit_def nat_power_eq)
qed

lemma lowbit_in_block:
  assumes "2 ^ k dvd h" "h < j" "j < h + 2 ^ k"
  shows "0 < lowbit j" "h \<le> j - lowbit j" "lowbit j \<le> j"
proof -
  obtain t where t: "lowbit j = 2 ^ t" "2 ^ t dvd j" using lowbit_spec [of j] assms(2) by auto
  have "t < k"
  proof (rule ccontr)
    assume "\<not> t < k"
    then have "(2::nat) ^ k dvd 2 ^ t" by (intro le_imp_power_dvd) simp
    then have "2 ^ k dvd j" using t(2) dvd_trans by blast
    then have "2 ^ k dvd j - h" using assms(1) by (simp add: dvd_diff_nat)
    then show False using assms(2,3) by (auto dest!: dvd_imp_le)
  qed
  then have "(2::nat) ^ t dvd 2 ^ k" by (intro le_imp_power_dvd) simp
  then have "2 ^ t dvd h" using assms(1) dvd_trans by blast
  then have "2 ^ t dvd j - h" using t(2) by (simp add: dvd_diff_nat)
  then have "2 ^ t \<le> j - h" using assms(2) by (simp add: dvd_imp_le)
  then show "0 < lowbit j" "h \<le> j - lowbit j" "lowbit j \<le> j" using t(1) assms(2) by auto
qed

text \<open>Clearing low bits from a page number reaches the head of its block.\<close>

lemma find_parent_ok:
  assumes P: "part_ok n (arr s)"
  shows "covers (arr s) h j \<Longrightarrow> j < 2 ^ n \<Longrightarrow> find_parent j s = Some h"
proof (induction j rule: less_induct)
  case (less j)
  have h: "is_head (arr s) h" "h \<le> j" "j < h + 2 ^ bexp (arr s ! h)" using less.prems(1) by (auto simp: covers_def)
  have len: "length (arr s) = 2 ^ n" using part_okD(2) [OF P] .
  show ?case
  proof (cases "arr s ! j = EMPTY")
    case False
    then have "covers (arr s) j j" using less.prems(2) len by (simp add: covers_def is_head_def)
    then have "h = j" using covers_unique [OF P less.prems(1)] less.prems(2) by simp
    then show ?thesis using False less.prems(2) len by (subst find_parent.simps) simp
  next
    case True
    then have "h < j" using h(1,2) by (cases "h = j") (auto simp: is_head_def)
    note l = lowbit_in_block [OF part_okD(4) [OF P h(1)] this h(3)]
    have "covers (arr s) h (j - lowbit j)" using h l by (auto simp: covers_def)
    then have "find_parent (j - lowbit j) s = Some h" using less.IH [of "j - lowbit j"] l less.prems(2) by simp
    then show ?thesis using True less.prems(2) len by (subst find_parent.simps) simp
  qed
qed

section \<open>Finding the block to reserve\<close>

text \<open>The \<open>2 ^ (12 + e)\<close>-byte aligned block around \<open>st\<close> reaches \<open>en\<close>.\<close>

definition block_holds :: "u64 \<Rightarrow> u64 \<Rightarrow> nat \<Rightarrow> bool" where
  "block_holds st en e \<longleftrightarrow> unat en \<le> unat st div 2 ^ (12 + e) * 2 ^ (12 + e) + 2 ^ (12 + e)"

lemma reserve_block_step:
  assumes "unat st \<le> unat en" "unat en \<le> 2 ^ 42" "e \<le> 30"
  shows "reserve_block st en (2 ^ (12 + e)) e =
     (if block_holds st en e then Some (st AND NOT (2 ^ (12 + e) - 1), e)
      else reserve_block st en (2 ^ (12 + Suc e)) (Suc e))"
proof -
  let ?i = "2 ^ (12 + e) :: u64" and ?b = "st AND NOT (2 ^ (12 + e) - 1)"
  have i: "unat ?i = 2 ^ (12 + e)" using unat_of_nat_small [of "2 ^ (12 + e)", where 'a = 64]
      power_strict_increasing [of "12 + e" 64 "2::nat"] assms(3) by simp
  have ib: "(2::nat) ^ (12 + e) \<le> 2 ^ 42" using assms(3) by (intro power_increasing) auto
  have b: "unat ?b = unat st div 2 ^ (12 + e) * 2 ^ (12 + e)" using assms(3) by (intro align_down_unat) simp
  have b_le: "unat ?b \<le> unat st" unfolding b by simp
  have be: "unat (?b + ?i) = unat ?b + 2 ^ (12 + e)"
    using b_le assms ib i by (subst unat_add_lem [THEN iffD1]) auto
  have sz: "unat (en - st) = unat en - unat st" using assms(1) by (simp add: unat_sub word_le_nat_alt)
  have dbl: "push_bit 1 ?i = 2 ^ (12 + Suc e)" by (simp add: push_bit_eq_mult power_add)
  have "block_holds st en e \<longleftrightarrow> \<not> ?b + ?i < en" by (simp add: block_holds_def word_less_nat_alt be b not_less)
  moreover have "?i < en - st \<Longrightarrow> \<not> block_holds st en e"
    using b_le assms(1) unfolding block_holds_def b [symmetric] by (simp add: word_less_nat_alt i sz)
  ultimately show ?thesis by (subst reserve_block.simps, unfold dbl) (auto simp: Let_def)
qed

lemma reserve_block_ok:
  assumes "unat st \<le> unat en" "unat st < 2 ^ (12 + n)" "unat en \<le> 2 ^ (12 + n)" "n \<le> 30"
  shows "e \<le> n \<Longrightarrow> \<forall>d < e. \<not> block_holds st en d \<Longrightarrow>
     \<exists>r \<le> n. reserve_block st en (2 ^ (12 + e)) e = Some (st AND NOT (2 ^ (12 + r) - 1), r)
       \<and> block_holds st en r \<and> (\<forall>d < r. \<not> block_holds st en d)"
proof (induction "n - e" arbitrary: e)
  case 0
  then have "e = n" by simp
  have "(2::nat) ^ (12 + n) \<le> 2 ^ 42" using assms(4) by (intro power_increasing) auto
  then have en: "unat en \<le> 2 ^ 42" using assms(3) by simp
  moreover have "block_holds st en n" using assms(2,3) by (simp add: block_holds_def)
  ultimately show ?case using reserve_block_step [OF assms(1) en, of n] 0 assms(4) \<open>e = n\<close> by auto
next
  case (Suc k)
  have "(2::nat) ^ (12 + n) \<le> 2 ^ 42" using assms(4) by (intro power_increasing) auto
  then have en: "unat en \<le> 2 ^ 42" using assms(3) by simp
  note st = reserve_block_step [OF assms(1) en, of e]
  show ?case
  proof (cases "block_holds st en e")
    case True
    then show ?thesis using st Suc.prems assms(4) by auto
  next
    case False
    then have "\<forall>d < Suc e. \<not> block_holds st en d" using Suc.prems(2) less_Suc_eq by auto
    then show ?thesis using Suc.hyps(1) [of "Suc e"] Suc.hyps(2) Suc.prems(1) st False assms(4) by auto
  qed
qed

section \<open>Carving the block out of a larger free block\<close>

lemma split_coalesced:
  assumes P: "part_ok n a" and h: "is_head a p" "bexp (a ! p) = Suc i"
    and C: "coalesced n (a[p := neg_exp (Suc i)])" and xy: "{x, y} = {p, p + 2 ^ i}"
  shows "coalesced n (a[x := neg_exp i, y := int i])"
  unfolding coalesced_def
proof (intro allI impI notI)
  let ?a = "a[x := neg_exp i, y := int i]"
  fix d j assume d: "d < n" "j < 2 ^ n" "2 ^ Suc d dvd j" and f: "?a ! j = int d \<and> ?a ! (j + 2 ^ d) = int d"
  have al: "2 ^ Suc i dvd p" using part_okD(4) [OF P h(1)] h(2) by simp
  have len: "length a = 2 ^ n" using part_okD(2) [OF P] .
  have "p + 2 * 2 ^ i \<le> 2 ^ n" using block_fits [OF P h(1)] h(2) by simp
  moreover have "(0::nat) < 2 ^ i" by simp
  ultimately have pb: "p < length a" "p + 2 ^ i < length a" unfolding len by linarith+
  have nd: "\<not> 2 ^ Suc i dvd p + 2 ^ i"
  proof
    assume "2 ^ Suc i dvd p + 2 ^ i"
    then have "(2::nat) ^ Suc i dvd 2 ^ i" using al dvd_add_right_iff by blast
    then show False by (simp add: power_dvd_imp_le)
  qed
  have xne: "x \<noteq> y" "x < length a" "y < length a" using xy pb by (auto simp: doubleton_eq_iff)
  have nx: "j \<noteq> x" "j + 2 ^ d \<noteq> x" using f xne by auto
  have "j = y \<or> j + 2 ^ d = y"
  proof (rule ccontr)
    assume "\<not> ?thesis"
    then have "j \<noteq> p" "j + 2 ^ d \<noteq> p" and "a ! j = int d" "a ! (j + 2 ^ d) = int d"
      using nx f xy by (auto simp: doubleton_eq_iff)
    then show False using C d unfolding coalesced_def by (metis nth_list_update_neq)
  qed
  then have "d = i" using f xne by auto
  from \<open>j = y \<or> j + 2 ^ d = y\<close> show False
  proof
    assume "j = y"
    then show False using xy nd d(3) nx \<open>d = i\<close> by (auto simp: doubleton_eq_iff)
  next
    assume j: "j + 2 ^ d = y"
    then have "y = p" using xy nx \<open>d = i\<close> by (auto simp: doubleton_eq_iff)
    then have "2 ^ Suc i dvd j + 2 ^ i" using al j \<open>d = i\<close> by simp
    then have "(2::nat) ^ Suc i dvd 2 ^ i" using d(3) \<open>d = i\<close> dvd_add_right_iff by blast
    then show False by (simp add: power_dvd_imp_le)
  qed
qed

text \<open>What the carving loop leaves behind: the wanted block, free, and nothing newly in use.\<close>

definition carved :: "nat \<Rightarrow> int list \<Rightarrow> nat \<Rightarrow> nat \<Rightarrow> int list \<Rightarrow> bool" where
  "carved n a idx e a' \<longleftrightarrow> part_ok n a' \<and> free_at a' idx e \<and> coalesced n (a'[idx := neg_exp e])
     \<and> (\<forall>j d. used_at a' j d = used_at a j d)"

lemma aligned_in_half:
  fixes idx p :: nat
  assumes "2 ^ e dvd idx" "2 ^ Suc i dvd p" "e \<le> i" "p \<le> idx" "idx + 2 ^ e \<le> p + 2 ^ Suc i"
  shows "if idx < p + 2 ^ i then idx + 2 ^ e \<le> p + 2 ^ i else p + 2 ^ i \<le> idx"
proof -
  have "(2::nat) ^ i dvd 2 ^ Suc i" by (intro le_imp_power_dvd) simp
  then have "2 ^ i dvd p" using assms(2) dvd_trans by blast
  moreover have "(0::nat) < 2 ^ e" by simp
  then have "p < idx + 2 ^ e" using assms(4) by linarith
  ultimately show ?thesis
    using dvd_pow2_interval_disjoint [of e idx i p] assms by auto
qed

lemma reserve_split_ok:
  "irq_ok s \<Longrightarrow> blinks s \<Longrightarrow> part_ok (num_pages_exp s) (arr s) \<Longrightarrow> free_at (arr s) p i \<Longrightarrow>
     i \<le> num_pages_exp s \<Longrightarrow> coalesced (num_pages_exp s) ((arr s)[p := neg_exp i]) \<Longrightarrow>
     e \<le> i \<Longrightarrow> 2 ^ e dvd idx \<Longrightarrow> p \<le> idx \<Longrightarrow> idx + 2 ^ e \<le> p + 2 ^ i \<Longrightarrow>
     \<exists>s' a'. reserve_split i e idx p s = Some s' \<and> relinked s a' s' \<and> carved (num_pages_exp s) (arr s) idx e a'"
proof (induction i arbitrary: s p)
  case 0
  then have "e = 0" "idx = p" by auto
  then show ?case using 0 relinked_refl [of s] by (auto simp: carved_def)
next
  case (Suc i)
  let ?n = "num_pages_exp s" and ?q = "p + 2 ^ i"
  have n: "?n \<le> 30" "length (arr s) = 2 ^ ?n" using part_okD [OF Suc.prems(3)] by auto
  have p: "p < 2 ^ ?n" "arr s ! p = int (Suc i)" using Suc.prems(4) n by (auto simp: free_at_def)
  have h: "is_head (arr s) p" "bexp (arr s ! p) = Suc i"
    using p n Suc.prems(5) by (simp_all add: is_head_def bexp_int del: of_nat_Suc)
  have al: "2 ^ Suc i dvd p" using part_okD(4) [OF Suc.prems(3) h(1)] h(2) by simp
  show ?case
  proof (cases "Suc i \<le> e")
    case True
    then have "e = Suc i" using Suc.prems(7) by simp
    moreover have "idx = p" using Suc.prems(9,10) \<open>e = Suc i\<close> by simp
    ultimately show ?thesis using Suc.prems relinked_refl [of s] by (auto simp: carved_def)
  next
    case False
    have "p + 2 * 2 ^ i \<le> 2 ^ ?n" using block_fits [OF Suc.prems(3) h(1)] h(2) by simp
    moreover have "(0::nat) < 2 ^ i" by simp
    ultimately have q: "?q < 2 ^ ?n" by linarith
    have E: "arr s ! ?q = EMPTY" using interior_EMPTY [OF Suc.prems(3) h(1), of ?q] h(2) by simp
    obtain s1 where s1: "buddy_delete_free_block p (Suc i) s = Some s1"
      "relinked s ((arr s)[p := neg_exp (Suc i)]) s1"
      using buddy_delete_free_block_ok [of s p "Suc i"] Suc.prems p by auto
    note f1 = relinkedD [OF s1(2)]
    obtain s2 where s2: "buddy_insert_free_block p i s1 = Some s2" "relinked s1 ((arr s1)[p := int i]) s2"
      using buddy_insert_free_block_ok [of s1 p i] f1 Suc.prems(1,5) p n by auto
    have r2: "relinked s ((arr s)[p := int i]) s2" using relinked_trans [OF s1(2) s2(2)] f1(1) by simp
    note f2 = relinkedD [OF r2]
    obtain s3 where s3: "buddy_insert_free_block ?q i s2 = Some s3" "relinked s2 ((arr s2)[?q := int i]) s3"
      using buddy_insert_free_block_ok [of s2 ?q i] f2 Suc.prems(1,5) q n E by auto
    let ?a = "(arr s)[p := int i, ?q := int i]"
    have r3: "relinked s ?a s3" using relinked_trans [OF r2 s3(2)] f2(1) by simp
    note f3 = relinkedD [OF r3]
    have P3: "part_ok ?n ?a"
      using part_ok_split [OF Suc.prems(3) h(1), of i "int i" "int i"] h(2) n Suc.prems(5) by simp
    define p' where "p' = (if idx < ?q then p else ?q)"
    define q' where "q' = (if idx < ?q then ?q else p)"
    have pq: "{p', q'} = {p, ?q}" by (auto simp: p'_def q'_def)
    have "coalesced ?n ((arr s)[p' := neg_exp i, q' := int i])"
      using split_coalesced [OF Suc.prems(3) h Suc.prems(6) pq] .
    moreover have "(arr s)[p' := neg_exp i, q' := int i] = ?a[p' := neg_exp i]"
      using p q n by (intro nth_equalityI) (auto simp: p'_def q'_def nth_list_update)
    ultimately have C3: "coalesced ?n (?a[p' := neg_exp i])" by simp
    have fr: "free_at ?a p' i" using p q n by (auto simp: p'_def free_at_def nth_list_update)
    have half: "p' \<le> idx" "idx + 2 ^ e \<le> p' + 2 ^ i"
      using aligned_in_half [OF Suc.prems(8) al _ Suc.prems(9,10)] False Suc.prems(9,10)
      by (auto simp: p'_def split: if_splits)
    obtain s4 a' where s4: "reserve_split i e idx p' s3 = Some s4" "relinked s3 a' s4" "carved ?n ?a idx e a'"
      using Suc.IH [of s3 p'] f3 P3 C3 fr half Suc.prems(1,5,8) False by auto
    have "used_at ?a j d = used_at (arr s) j d" for j d
      using p q E n by (auto simp: used_at_def nth_list_update simp del: of_nat_Suc)
    then have "carved ?n (arr s) idx e a'" using s4(3) by (simp add: carved_def)
    moreover have "reserve_split (Suc i) e idx p s = Some s4"
      using False s1(1) s2(1) s3(1) s4(1) by (simp add: Let_def p'_def)
    ultimately show ?thesis using relinked_trans [OF r3 s4(2)] by blast
  qed
qed

section \<open>Assembling the block from smaller ones\<close>

lemma second_half_head:
  assumes P: "part_ok n a" and i: "idx + 2 ^ Suc d \<le> 2 ^ n" "2 ^ Suc d dvd idx"
    and h: "is_head a idx" "bexp (a ! idx) \<le> d"
  shows "is_head a (idx + 2 ^ d)" "bexp (a ! (idx + 2 ^ d)) \<le> d"
proof -
  let ?b = "idx + 2 ^ d"
  have b: "?b < 2 ^ n"
  proof -
    have "(0::nat) < 2 ^ d" by simp
    then show ?thesis using i(1) unfolding power_Suc by linarith
  qed
  have bd: "2 ^ d dvd ?b" "\<not> 2 ^ Suc d dvd ?b"
  proof -
    have "(2::nat) ^ d dvd 2 ^ Suc d" by (intro le_imp_power_dvd) simp
    then have "2 ^ d dvd idx" using i(2) dvd_trans by blast
    then show "2 ^ d dvd ?b" by simp
    show "\<not> 2 ^ Suc d dvd ?b"
    proof
      assume "2 ^ Suc d dvd ?b"
      then have "(2::nat) ^ Suc d dvd 2 ^ d" using i(2) dvd_add_right_iff by blast
      then show False by (simp add: power_dvd_imp_le)
    qed
  qed
  obtain c where c: "covers a c ?b" using part_okD(5) [OF P b] by blast
  let ?k = "bexp (a ! c)"
  have hc: "is_head a c" "c \<le> ?b" "?b < c + 2 ^ ?k" and ac: "2 ^ ?k dvd c"
    using c part_okD(4) [OF P] by (auto simp: covers_def)
  have kd: "?k \<le> d"
  proof (rule ccontr)
    assume "\<not> ?k \<le> d"
    have "(0::nat) < 2 ^ d" by simp
    then have "c < idx + 2 ^ Suc d" using hc(2) unfolding power_Suc by linarith
    then have "idx < c + 2 ^ ?k" "c \<le> idx"
      using \<open>\<not> ?k \<le> d\<close> dvd_pow2_interval_disjoint [of "Suc d" idx ?k c] i(2) ac hc by auto
    then have "covers a c idx" using hc(1) by (simp add: covers_def)
    then have "c = idx" using covers_unique [OF P _ head_covers_self [OF h(1)]] i(1) b by simp
    then show False using \<open>\<not> ?k \<le> d\<close> h(2) by simp
  qed
  have "(0::nat) < 2 ^ d" by simp
  then have "c < ?b + 2 ^ d" using hc(2) by linarith
  then have "?b \<le> c" using dvd_pow2_interval_disjoint [of ?k c d ?b] ac bd(1) kd hc by auto
  then have "c = ?b" using hc(2) by simp
  then show "is_head a ?b" "bexp (a ! ?b) \<le> d" using hc(1) kd by auto
qed

definition cleared :: "nat \<Rightarrow> int list \<Rightarrow> nat \<Rightarrow> nat \<Rightarrow> int list \<Rightarrow> bool" where
  "cleared n a idx e a' \<longleftrightarrow> part_ok n a' \<and> free_at a' idx e
     \<and> (\<forall>j < 2 ^ n. j < idx \<or> idx + 2 ^ e \<le> j \<longrightarrow> a' ! j = a ! j)"

lemma buddy_clear_block_ok:
  "irq_ok s \<Longrightarrow> blinks s \<Longrightarrow> part_ok (num_pages_exp s) (arr s) \<Longrightarrow>
     idx + 2 ^ e \<le> 2 ^ num_pages_exp s \<Longrightarrow> 2 ^ e dvd idx \<Longrightarrow> is_head (arr s) idx \<Longrightarrow> bexp (arr s ! idx) \<le> e \<Longrightarrow>
     \<exists>s' a'. buddy_clear_block idx e s = Some s' \<and> relinked s a' s' \<and> cleared (num_pages_exp s) (arr s) idx e a'"
proof (induction e arbitrary: s idx)
  case 0
  let ?n = "num_pages_exp s"
  have n: "?n \<le> 30" "length (arr s) = 2 ^ ?n" using part_okD [OF 0(3)] by auto
  have idx: "idx < 2 ^ ?n" using 0(4) by simp
  show ?case
  proof (cases "0 \<le> arr s ! idx")
    case True
    then have "arr s ! idx = int 0" using nonneg_is_int [OF True] 0(7) by simp
    then show ?thesis using 0 n idx relinked_refl [of s]
      by (subst buddy_clear_block.simps) (auto simp: cleared_def free_at_def)
  next
    case False
    then have v: "arr s ! idx = neg_exp 0" using neg_is_neg_exp [of "arr s ! idx"] 0(7) by simp
    obtain s' where s': "buddy_insert_free_block idx 0 s = Some s'" "relinked s ((arr s)[idx := int 0]) s'"
      using buddy_insert_free_block_ok [of s idx 0] 0 idx v by auto
    have "part_ok ?n ((arr s)[idx := int 0])" using part_ok_retag [OF 0(3,6), of "int 0"] v n
      by (simp add: bexp_def EMPTY_def NEG_ZERO_def neg_exp_def)
    then have "cleared ?n (arr s) idx 0 ((arr s)[idx := int 0])"
      using idx n by (auto simp: cleared_def free_at_def)
    moreover have "buddy_clear_block idx 0 s = Some s'"
      using v s'(1) idx n by (subst buddy_clear_block.simps) (simp add: neg_exp_def NEG_ZERO_def)
    ultimately show ?thesis using s'(2) by blast
  qed
next
  case (Suc d)
  let ?n = "num_pages_exp s" and ?b = "idx + 2 ^ d"
  have n: "?n \<le> 30" "length (arr s) = 2 ^ ?n" using part_okD [OF Suc.prems(3)] by auto
  have en: "Suc d \<le> ?n"
    using Suc.prems(4) by (metis add_leD2 numeral_le_iff power_le_imp_le_exp semiring_norm(69) one_less_numeral_iff semiring_norm(76))
  have idx: "idx < 2 ^ ?n" using Suc.prems(6) n by (simp add: is_head_def)
  have al: "idx mod 2 ^ Suc d = 0" using Suc.prems(5) by simp
  consider (big_free) "arr s ! idx = int (Suc d)" | (big_used) "arr s ! idx = neg_exp (Suc d)"
    | (small) "bexp (arr s ! idx) \<le> d" "\<not> int (Suc d) \<le> arr s ! idx"
        "\<not> (arr s ! idx \<noteq> NEG_ZERO \<and> arr s ! idx \<le> - int (Suc d))"
  proof (cases "bexp (arr s ! idx) = Suc d")
    case True
    then show ?thesis
      using nonneg_is_int [of "arr s ! idx"] neg_is_neg_exp [of "arr s ! idx"] en n that(1,2)
      by (cases "0 \<le> arr s ! idx") auto
  next
    case False
    then have k: "bexp (arr s ! idx) \<le> d" using Suc.prems(7) by simp
    then show ?thesis using that(3) by (auto simp: bexp_def NEG_ZERO_def split: if_splits)
  qed
  then show ?case
  proof cases
    case big_free
    then show ?thesis using Suc.prems n idx relinked_refl [of s] al
      by (subst buddy_clear_block.simps) (auto simp: cleared_def free_at_def)
  next
    case big_used
    obtain s' where s': "buddy_insert_free_block idx (Suc d) s = Some s'"
      "relinked s ((arr s)[idx := int (Suc d)]) s'"
      using buddy_insert_free_block_ok [of s idx "Suc d"] Suc.prems idx big_used en by auto
    have "part_ok ?n ((arr s)[idx := int (Suc d)])"
      using part_ok_retag [OF Suc.prems(3,6), of "int (Suc d)"] big_used n en by (simp del: of_nat_Suc)
    then have "cleared ?n (arr s) idx (Suc d) ((arr s)[idx := int (Suc d)])"
      using idx n by (auto simp: cleared_def free_at_def simp del: power_Suc dest: pow2_above)
    moreover have "buddy_clear_block idx (Suc d) s = Some s'"
      using big_used s'(1) idx n al en by (subst buddy_clear_block.simps) (simp add: neg_exp_def NEG_ZERO_def)
    ultimately show ?thesis using s'(2) by blast
  next
    case small
    have "(2::nat) ^ d dvd 2 ^ Suc d" by (intro le_imp_power_dvd) simp
    then have "2 ^ d dvd idx" using Suc.prems(5) dvd_trans by blast
    then have ad: "2 ^ d dvd idx" "2 ^ d dvd ?b" by simp_all
    have fit: "idx + 2 ^ d \<le> 2 ^ ?n" "?b + 2 ^ d \<le> 2 ^ ?n" using Suc.prems(4) by auto
    obtain s1 a1 where s1: "buddy_clear_block idx d s = Some s1" "relinked s a1 s1" "cleared ?n (arr s) idx d a1"
      using Suc.IH [OF Suc.prems(1-3) fit(1) ad(1) Suc.prems(6) small(1)] by blast
    note f1 = relinkedD [OF s1(2)]
    have len1: "length a1 = 2 ^ ?n" "part_ok ?n a1" and v1: "free_at a1 idx d"
      and o1: "\<And>j. j < 2 ^ ?n \<Longrightarrow> j < idx \<or> ?b \<le> j \<Longrightarrow> a1 ! j = arr s ! j"
      using s1(3) part_okD(2) by (auto simp: cleared_def)
    have "is_head a1 idx" "bexp (a1 ! idx) \<le> d" using v1 n en by (auto simp: free_at_def is_head_def)
    note hb = second_half_head [OF len1(2) Suc.prems(4,5) this]
    obtain s2 a2 where s2: "buddy_clear_block ?b d s1 = Some s2" "relinked s1 a2 s2" "cleared ?n a1 ?b d a2"
      using Suc.IH [of s1 ?b] f1 Suc.prems(1) len1 fit(2) ad(2) hb by auto
    have r2: "relinked s a2 s2" using relinked_trans [OF s1(2) s2(2)] .
    note f2 = relinkedD [OF r2]
    have P2: "part_ok ?n a2" and v2: "free_at a2 ?b d"
      and o2: "\<And>j. j < 2 ^ ?n \<Longrightarrow> j < ?b \<or> ?b + 2 ^ d \<le> j \<Longrightarrow> a2 ! j = a1 ! j"
      using s2(3) by (auto simp: cleared_def)
    have v2': "a2 ! idx = int d" "a2 ! ?b = int d" "length a2 = 2 ^ ?n"
      using v1 v2 o2 [of idx] idx part_okD(2) [OF P2] by (auto simp: free_at_def)
    have b: "?b < 2 ^ ?n" using hb(1) len1 by (simp add: is_head_def)
    obtain s3 s4 s5 s6 where st: "buddy_delete_free_block idx d s2 = Some s3"
      "buddy_delete_free_block ?b d s3 = Some s4" "buddy_insert_free_block idx (Suc d) s4 = Some s5"
      "set_arr ?b EMPTY s5 = Some s6" and r6: "relinked s2 ((arr s2)[idx := int (Suc d), ?b := EMPTY]) s6"
      using join_blocks_ok [of s2 idx ?b idx d] f2 Suc.prems(1) n en b v2' by auto
    let ?a = "a2[idx := int (Suc d), ?b := EMPTY]"
    have "is_head a2 idx" "is_head a2 ?b" using v2' idx b n en by (simp_all add: is_head_def)
    then have "part_ok ?n ?a"
      using part_ok_join [OF P2, of idx d "int (Suc d)"] v2' Suc.prems(5) en n by (simp del: of_nat_Suc)
    moreover have "?a ! j = arr s ! j" if "j < 2 ^ ?n" "j < idx \<or> idx + 2 ^ Suc d \<le> j" for j
    proof -
      have "j \<noteq> idx" "j \<noteq> ?b" using that(2) pow2_above [of idx "Suc d" j] pow2_above [of ?b d j] by auto
      then show ?thesis using that o1 [of j] o2 [of j] by auto
    qed
    ultimately have "cleared ?n (arr s) idx (Suc d) ?a"
      using v2'(3) idx by (simp add: cleared_def free_at_def)
    moreover have "relinked s ?a s6" using relinked_trans [OF r2 r6] f2(1) by simp
    moreover have "buddy_clear_block idx (Suc d) s = Some s6"
      using small(2,3) al idx n s1(1) s2(1) st by (subst buddy_clear_block.simps) (auto simp: Let_def)
    ultimately show ?thesis by blast
  qed
qed

section \<open>The whole reservation\<close>

lemma used_at_exp: "part_ok n a \<Longrightarrow> used_at a i d \<Longrightarrow> d \<le> n \<Longrightarrow> is_head a i \<and> bexp (a ! i) = d \<and> d \<le> 30"
  using part_okD(1) by (fastforce simp: used_at_def is_head_def)

lemma reserve_carved:
  assumes "carved n a idx e a'" "e \<le> n"
  defines "a'' \<equiv> a'[idx := neg_exp e]"
  shows "part_ok n a''" "coalesced n a''"
    "page_used n a'' pg \<longleftrightarrow> page_used n a pg \<or> idx \<le> pg \<and> pg < idx + 2 ^ e"
proof -
  have P: "part_ok n a'" and f: "free_at a' idx e" and u: "\<And>j d. used_at a' j d = used_at a j d"
    using assms(1) by (auto simp: carved_def)
  have n: "n \<le> 30" using part_okD(1) [OF P] .
  have i: "is_head a' idx" "a' ! idx = int e" using f assms(2) n by (simp_all add: free_at_def is_head_def)
  show "part_ok n a''" unfolding a''_def
    using part_ok_retag [OF P i(1), of "neg_exp e"] i(2) assms(2) n by simp
  show "coalesced n a''" using assms(1) by (simp add: carved_def a''_def)
  have "used_at a'' j d \<longleftrightarrow> used_at a j d \<or> j = idx \<and> d = e" if "d \<le> n" for j d
    using f that assms(2) n neg_exp_inj [of e d] unfolding u [symmetric]
    by (cases "j = idx") (auto simp: a''_def used_at_def free_at_def)
  then show "page_used n a'' pg \<longleftrightarrow> page_used n a pg \<or> idx \<le> pg \<and> pg < idx + 2 ^ e"
    using assms(2) unfolding page_used_def by metis
qed

lemma reserve_cleared:
  assumes P: "part_ok n a" and C: "coalesced n a" and h: "is_head a idx" "bexp (a ! idx) \<le> e"
    and al: "2 ^ e dvd idx" and c: "cleared n a idx e a'" and e: "e \<le> n" and pg: "pg < 2 ^ n"
  defines "a'' \<equiv> a'[idx := neg_exp e]"
  shows "part_ok n a''" "coalesced n a''"
    "page_used n a'' pg \<longleftrightarrow> page_used n a pg \<or> idx \<le> pg \<and> pg < idx + 2 ^ e"
proof -
  let ?R = "{idx..<idx + 2 ^ e}"
  have P': "part_ok n a'" and f: "free_at a' idx e" and o: "\<And>j. j < 2 ^ n \<Longrightarrow> j \<notin> ?R \<Longrightarrow> a' ! j = a ! j"
    using c by (auto simp: cleared_def)
  have n: "n \<le> 30" "length a' = 2 ^ n" "length a = 2 ^ n" using part_okD P P' by auto
  have idx: "idx < 2 ^ n" "a' ! idx = int e" using f n by (auto simp: free_at_def)
  have h': "is_head a' idx" using idx n e by (simp add: is_head_def)
  have E: "a'' ! j = EMPTY" if "j \<in> ?R" "j \<noteq> idx" for j
    using interior_EMPTY [OF P' h', of j] that idx by (simp add: a''_def)
  have o': "a'' ! j = a ! j" if "j < 2 ^ n" "j \<notin> ?R" for j
  proof -
    have "idx \<in> ?R" by simp
    then have "j \<noteq> idx" using that(2) by blast
    then show ?thesis using o [OF that] by (simp add: a''_def)
  qed
  have i'': "a'' ! idx = neg_exp e" using idx n by (simp add: a''_def)
  show "part_ok n a''" unfolding a''_def
    using part_ok_retag [OF P' h', of "neg_exp e"] idx e n by simp
  show "coalesced n a''" unfolding coalesced_def
  proof (intro allI impI notI)
    fix d j assume d: "d < n" "j < 2 ^ n" "2 ^ Suc d dvd j" and g: "a'' ! j = int d \<and> a'' ! (j + 2 ^ d) = int d"
    have "j + 2 ^ Suc d \<le> 2 ^ n" using aligned_block_fits [OF d(3,2)] d(1) by simp
    moreover have "(0::nat) < 2 ^ d" by simp
    ultimately have "j + 2 ^ d < 2 ^ n" unfolding power_Suc by linarith
    moreover have "k \<notin> ?R" if "a'' ! k = int d" for k
      using that E [of k] i'' d(1) n(1) by (cases "k = idx") auto
    ultimately have "a ! j = int d \<and> a ! (j + 2 ^ d) = int d" using o' d(2) g by metis
    then show False using C d unfolding coalesced_def by blast
  qed
  have out: "used_at a'' j d = used_at a j d" if "j \<notin> ?R" for j d
    using o' [of j] that n by (auto simp: used_at_def a''_def)
  have into: "j \<in> ?R \<Longrightarrow> used_at a'' j d \<Longrightarrow> d \<le> n \<Longrightarrow> j = idx \<and> d = e" for j d
    using E [of j] i'' neg_exp_inj [of e d] e n(1) by (cases "j = idx") (auto simp: used_at_def)
  have inner: "pg \<in> ?R" if "j \<in> ?R" "used_at a j d" "d \<le> n" "j \<le> pg" "pg < j + 2 ^ d" for j d
  proof -
    note u = used_at_exp [OF P that(2,3)]
    have jd: "2 ^ d dvd j" using part_okD(4) [OF P, of j] u by auto
    show ?thesis
    proof (cases "d \<le> e")
      case True
      then show ?thesis using dvd_pow2_interval_disjoint [OF jd al] that by auto
    next
      case False
      have "idx < j + 2 ^ d" using that(1) by (simp add: pow2_between)
      then have "j \<le> idx" using dvd_pow2_interval_disjoint [OF al jd] that(1) False by auto
      then have "j = idx" using that(1) by simp
      then show ?thesis using False u h(2) by simp
    qed
  qed
  have own: "used_at a'' idx e" using i'' idx n by (simp add: used_at_def a''_def)
  show "page_used n a'' pg \<longleftrightarrow> page_used n a pg \<or> idx \<le> pg \<and> pg < idx + 2 ^ e"
  proof
    assume "page_used n a'' pg"
    then obtain j d where j: "d \<le> n" "used_at a'' j d" "j \<le> pg" "pg < j + 2 ^ d" by (auto simp: page_used_def)
    show "page_used n a pg \<or> idx \<le> pg \<and> pg < idx + 2 ^ e"
      using j into [of j d] out [of j d] unfolding page_used_def by blast
  next
    assume "page_used n a pg \<or> idx \<le> pg \<and> pg < idx + 2 ^ e"
    then show "page_used n a'' pg"
    proof
      assume "page_used n a pg"
      then obtain j d where j: "d \<le> n" "used_at a j d" "j \<le> pg" "pg < j + 2 ^ d" by (auto simp: page_used_def)
      then show ?thesis using inner [of j d] out [of j d] own e unfolding page_used_def by fastforce
    qed (use own e in \<open>auto simp: page_used_def\<close>)
  qed
qed

lemma reserve_idx:
  assumes "e \<le> 30"
  shows "unat ((st AND NOT (2 ^ (12 + e) - 1)) div PAGE_SIZE) = unat st div 2 ^ (12 + e) * 2 ^ e"
proof -
  have "unat (st AND NOT (2 ^ (12 + e) - 1)) = unat st div 2 ^ (12 + e) * 2 ^ (12 + e)"
    using assms by (intro align_down_unat) simp
  also have "\<dots> = 2 ^ 12 * (unat st div 2 ^ (12 + e) * 2 ^ e)" by (simp add: power_add)
  finally show ?thesis by (simp add: unat_div PAGE_SIZE_def)
qed

text \<open>The three cases of \<open>memory_reserve\<close>, for the block \<open>[idx, idx + 2 ^ e)\<close> it has chosen.\<close>

lemma memory_reserve_block:
  assumes ok: "buddy_ok s" and e: "e \<le> num_pages_exp s" and al: "2 ^ e dvd idx" and ib: "idx < 2 ^ num_pages_exp s"
    and rb: "reserve_block st en PAGE_SIZE 0 = Some (rs, e)" "unat (rs div PAGE_SIZE) = idx"
    and nf: "\<not> (e = 0 \<and> free_at (arr s) idx 0)"
  shows "\<exists>s'. memory_reserve st en s = Some s' \<and> buddy_ok s' \<and> num_pages_exp s' = num_pages_exp s
    \<and> (\<forall>pg < 2 ^ num_pages_exp s. page_used (num_pages_exp s) (arr s') pg
         \<longleftrightarrow> page_used (num_pages_exp s) (arr s) pg \<or> idx \<le> pg \<and> pg < idx + 2 ^ e)"
proof -
  let ?n = "num_pages_exp s"
  have irq: "irq_ok s" and L: "blinks s" and P: "part_ok ?n (arr s)" and C: "coalesced ?n (arr s)"
    using ok by (auto simp: buddy_ok_def)
  have n: "?n \<le> 30" "length (arr s) = 2 ^ ?n" using part_okD [OF P] by auto
  obtain p where p: "covers (arr s) p idx" using part_okD(5) [OF P ib] by blast
  let ?v = "arr s ! p" and ?k = "bexp (arr s ! p)"
  have hp: "is_head (arr s) p" "p \<le> idx" "idx < p + 2 ^ ?k" using p by (auto simp: covers_def)
  have pb: "p < 2 ^ ?n" using hp(2) ib by simp
  have kn: "?k \<le> ?n" and pal: "2 ^ ?k dvd p" using part_okD(3,4) [OF P hp(1)] by auto
  have fp: "find_parent idx s = Some p" using find_parent_ok [OF P p ib] .
  have larger: "idx + 2 ^ e \<le> p + 2 ^ ?k" if "e \<le> ?k"
    using dvd_pow2_interval_disjoint [OF al pal that] hp by (simp add: pow2_between)
  have smaller: "p = idx" if "?k \<le> e"
    using dvd_pow2_interval_disjoint [OF pal al that] hp by (simp add: pow2_between)
  have fit: "idx + 2 ^ e \<le> 2 ^ ?n" using aligned_block_fits [OF al ib e] .
  have mr: "memory_reserve st en s =
      (if ?v \<le> - int e \<and> ?v \<noteq> NEG_ZERO then Some s
       else if int e \<le> ?v then do { s \<leftarrow> reserve_split (nat ?v) e idx p s; buddy_delete_free_block idx e s }
       else do { s \<leftarrow> buddy_clear_block idx e s; buddy_delete_free_block idx e s })"
    using rb fp pb n by (simp add: memory_reserve_def Let_def)
  consider (inside) "?v \<le> - int e" "?v \<noteq> NEG_ZERO" | (carve) "int e \<le> ?v" "\<not> (?v \<le> - int e \<and> ?v \<noteq> NEG_ZERO)"
    | (clear) "\<not> int e \<le> ?v" "\<not> (?v \<le> - int e \<and> ?v \<noteq> NEG_ZERO)" by blast
  then show ?thesis
  proof cases
    case inside
    have "?v < 0"
    proof (rule ccontr)
      assume "\<not> ?v < 0"
      then have "?v = int 0" "e = 0" using inside(1) by auto
      then show False using nf smaller pb n by (simp add: free_at_def bexp_def NEG_ZERO_def)
    qed
    then have u: "used_at (arr s) p ?k" "e \<le> ?k"
      using neg_is_neg_exp [of ?v] kn n pb inside by (auto simp: used_at_def bexp_def)
    have "page_used ?n (arr s) pg" if "idx \<le> pg" "pg < idx + 2 ^ e" for pg
      using u kn that hp(2) larger unfolding page_used_def by (metis order_less_le_trans order_trans)
    then show ?thesis using mr inside ok by auto
  next
    case carve
    then have v: "?v = int ?k" "e \<le> ?k" using nonneg_is_int [of ?v] by auto
    have fr: "free_at (arr s) p ?k" using v(1) pb n by (simp add: free_at_def)
    have "coalesced ?n ((arr s)[p := neg_exp ?k])" using coalesced_mark_used [OF C] pb n by simp
    then obtain s1 a1 where s1: "reserve_split ?k e idx p s = Some s1" "relinked s a1 s1" "carved ?n (arr s) idx e a1"
      using reserve_split_ok [OF irq L P fr kn _ v(2) al hp(2) larger [OF v(2)]] by blast
    note f1 = relinkedD [OF s1(2)]
    have i1: "a1 ! idx = int e" using s1(3) by (simp add: carved_def free_at_def)
    obtain s2 where s2: "buddy_delete_free_block idx e s1 = Some s2" "relinked s1 (a1[idx := neg_exp e]) s2"
      using buddy_delete_free_block_ok [of s1 idx e] f1 irq ib e i1 by auto
    note r = relinked_trans [OF s1(2) s2(2)]
    have "memory_reserve st en s = Some s2"
      unfolding mr using carve v(1) s1(1) s2(1) by (metis (no_types, lifting) bind.bind_lunit nat_int)
    then show ?thesis
      using buddy_ok_relinked [OF ok r] reserve_carved [OF s1(3) e] relinkedD(1,2) [OF r] by auto
  next
    case clear
    have ke: "?k \<le> e" using clear by (auto simp: bexp_def split: if_splits)
    then have pi: "p = idx" by (rule smaller)
    obtain s1 a1 where s1: "buddy_clear_block idx e s = Some s1" "relinked s a1 s1" "cleared ?n (arr s) idx e a1"
      using buddy_clear_block_ok [OF irq L P fit al] hp(1) ke unfolding pi by blast
    note f1 = relinkedD [OF s1(2)]
    have i1: "a1 ! idx = int e" using s1(3) by (simp add: cleared_def free_at_def)
    obtain s2 where s2: "buddy_delete_free_block idx e s1 = Some s2" "relinked s1 (a1[idx := neg_exp e]) s2"
      using buddy_delete_free_block_ok [of s1 idx e] f1 irq ib e i1 by auto
    note r = relinked_trans [OF s1(2) s2(2)]
    have "memory_reserve st en s = Some s2" unfolding mr using clear s1(1) s2(1) pi by auto
    then show ?thesis
      using buddy_ok_relinked [OF ok r] relinkedD(1,2) [OF r]
        reserve_cleared [OF P C hp(1) [unfolded pi] ke [unfolded pi] al s1(3) e] ib by auto
  qed
qed

end
