(* ===== verification/Buddy_Props.thy ===== *)
theory Buddy_Props
  imports Buddy_Init Reserve
begin

text \<open>
  The properties of the buddy allocator and of the startup allocator of \<open>mem.c\<close>, each with an
  instance on a small memory.
\<close>

section \<open>Sample states\<close>

text \<open>A memory of \<open>2 ^ n\<close> pages that is one free block, and one that is one used block.\<close>

definition sample_nodes :: "nat \<Rightarrow> buddy_node list" where
  "sample_nodes n = map (\<lambda>i. \<lparr>node_idx = i, prev = None, nxt = None\<rparr>) [0..<2 ^ n]"

definition one_free :: "nat \<Rightarrow> buddy_data" where
  "one_free n = \<lparr>irq_nested_count = 0, daif_masked = False, console = [],
     heap_start = 0, heap_ptr = 0, base = 0, bend = of_nat (2 ^ n) * PAGE_SIZE, num_pages_exp = n,
     arr = (replicate (2 ^ n) EMPTY)[0 := int n],
     free_blocks_list = (replicate (n + 1) None)[n := Some 0], buddy_node_arr = sample_nodes n\<rparr>"

definition one_used :: "nat \<Rightarrow> buddy_data" where
  "one_used n = \<lparr>irq_nested_count = 0, daif_masked = False, console = [],
     heap_start = 0, heap_ptr = 0, base = 0, bend = of_nat (2 ^ n) * PAGE_SIZE, num_pages_exp = n,
     arr = (replicate (2 ^ n) EMPTY)[0 := neg_exp n],
     free_blocks_list = replicate (n + 1) None, buddy_node_arr = sample_nodes n\<rparr>"

lemma sample_nodes_nth [simp]:
  "i < 2 ^ n \<Longrightarrow> sample_nodes n ! i = \<lparr>node_idx = i, prev = None, nxt = None\<rparr>"
  "length (sample_nodes n) = 2 ^ n"
  by (simp_all add: sample_nodes_def)

lemma sample_links: "n \<le> 30 \<Longrightarrow> links_ok n (replicate (2 ^ n) EMPTY) (sample_nodes n) (replicate (n + 1) None)"
  using initial_links [of n] by (simp add: sample_nodes_def)

lemma one_free_ok: "n \<le> 30 \<Longrightarrow> buddy_ok (one_free n)"
proof -
  assume n: "n \<le> 30"
  have "links_ok n ((replicate (2 ^ n) EMPTY)[0 := int n]) (sample_nodes n) ((replicate (n + 1) None)[n := Some 0])"
    by (rule links_link [OF sample_links [OF n]]) (use n in \<open>simp_all del: replicate_Suc Suc_eq_plus1_left\<close>)
  then show ?thesis using initial_map(1,2) [OF n]
    by (simp add: buddy_ok_def one_free_def irq_ok_def)
qed

lemma one_used_map:
  assumes "n \<le> 30"
  shows "part_ok n ((replicate (2 ^ n) EMPTY)[0 := neg_exp n])"
    "coalesced n ((replicate (2 ^ n) EMPTY)[0 := neg_exp n])"
proof -
  let ?f = "(replicate (2 ^ n) EMPTY)[0 := int n]" and ?u = "(replicate (2 ^ n) EMPTY)[0 := neg_exp n]"
  have h: "is_head ?f 0" "?f ! 0 = int n" using assms by (simp_all add: is_head_def)
  have eq: "?u = ?f[0 := neg_exp n]" by simp
  show "part_ok n ?u" unfolding eq
    using part_ok_retag [OF initial_map(1) [OF assms] h(1), of "neg_exp n"] h assms by simp
  show "coalesced n ?u" unfolding coalesced_def
  proof (intro allI impI notI)
    fix e i assume e: "e < n" "i < 2 ^ n" and f: "?u ! i = int e \<and> ?u ! (i + 2 ^ e) = int e"
    have "?u ! i = neg_exp n \<or> ?u ! i = EMPTY" using e(2) by (cases "i = 0") simp_all
    then show False using f e assms by auto
  qed
qed

lemma one_used_ok: "n \<le> 30 \<Longrightarrow> buddy_ok (one_used n)"
proof -
  assume n: "n \<le> 30"
  have "links_ok n ((replicate (2 ^ n) EMPTY)[0 := neg_exp n]) (sample_nodes n) (replicate (n + 1) None)"
    by (rule links_retag [OF sample_links [OF n]]) (use n in simp_all)
  then show ?thesis using one_used_map [OF n]
    by (simp add: buddy_ok_def one_used_def irq_ok_def)
qed

section \<open>Allocation\<close>

lemma cut_block_facts:
  assumes "buddy_ok s" "free_at (arr s) i k" "k \<le> num_pages_exp s" "unat sz \<le> 2 ^ k"
  defines "a \<equiv> cut_arr i k (unat sz) ((arr s)[i := neg_exp k])" and "e \<equiv> cut_exp k (unat sz)"
  shows "part_ok (num_pages_exp s) a" "coalesced (num_pages_exp s) a" "used_at a i e" "e \<le> k"
    "j \<noteq> i \<Longrightarrow> used_at a j d = used_at (arr s) j d"
proof -
  let ?n = "num_pages_exp s" and ?u = "(arr s)[i := neg_exp k]"
  have P: "part_ok ?n (arr s)" and C: "coalesced ?n (arr s)" using assms(1) by (auto simp: buddy_ok_def)
  have n: "?n \<le> 30" "length (arr s) = 2 ^ ?n" using part_okD [OF P] by auto
  have i: "i < 2 ^ ?n" "arr s ! i = int k" using assms(2) n by (auto simp: free_at_def)
  have h: "is_head (arr s) i" "is_head ?u i" "?u ! i = neg_exp k" using i n assms(3) by (simp_all add: is_head_def)
  have pu: "part_ok ?n ?u" using part_ok_retag [OF P h(1), of "neg_exp k"] i n assms(3) by simp
  have "coalesced ?n ?u" using coalesced_mark_used [OF C] i n by simp
  then show "coalesced ?n a" unfolding a_def using cut_arr_coalesced [OF pu _ h(2,3) assms(3)] by simp
  show "part_ok ?n a" "e \<le> k" unfolding a_def e_def using cut_arr_part [OF pu h(2,3) assms(3)] cut_exp_le by auto
  show "used_at a i e" unfolding a_def e_def using cut_arr_part [OF pu h(2,3) assms(3)] i n by (simp add: used_at_def)
  show "used_at a j d = used_at (arr s) j d" if "j \<noteq> i"
  proof (cases "j < 2 ^ ?n")
    case True
    have E: "i < j \<and> j < i + 2 ^ k \<Longrightarrow> arr s ! j = EMPTY"
      using interior_EMPTY [OF P h(1)] i(2) by simp
    have "a ! j = ?u ! j \<or> (i < j \<and> j < i + 2 ^ k \<and> 0 \<le> a ! j)"
      unfolding a_def using cut_arr_other [of j i ?u k] that True n by simp
    then have "a ! j = arr s ! j \<or> (0 \<le> a ! j \<and> arr s ! j = EMPTY)" using that E by auto
    then show ?thesis using True n by (auto simp: used_at_def a_def)
  qed (use n in \<open>auto simp: used_at_def a_def\<close>)
qed

lemma used_disjoint:
  assumes "part_ok n a" "used_at a i d" "used_at a j e" "d \<le> n" "e \<le> n" "i \<noteq> j"
  shows "{i..<i + 2 ^ d} \<inter> {j..<j + 2 ^ e} = {}"
  using blocks_disjoint [OF assms(1), of i j] assms part_okD(1) [OF assms(1)]
  by (simp add: used_at_def is_head_def)

lemma buddy_malloc_block:
  assumes "buddy_ok s" "sz \<noteq> 0" "free_at (arr s) m k" "k \<le> num_pages_exp s" "unat sz \<le> 2 ^ k"
  shows "\<exists>i e s'. buddy_malloc sz s = Some (of_nat i * PAGE_SIZE, s') \<and> buddy_ok s'
     \<and> used_at (arr s') i e \<and> 2 ^ e dvd i \<and> unat sz \<le> 2 ^ e \<and> (e = 0 \<or> 2 ^ (e - 1) < unat sz)
     \<and> (\<exists>k. free_at (arr s) i k \<and> e \<le> k \<and> k \<le> num_pages_exp s)
     \<and> (\<forall>j d. used_at (arr s) j d \<and> d \<le> num_pages_exp s \<longrightarrow> {j..<j + 2 ^ d} \<inter> {i..<i + 2 ^ e} = {})
     \<and> (\<forall>j d. j \<noteq> i \<longrightarrow> used_at (arr s') j d = used_at (arr s) j d)
     \<and> relinked s (arr s') s'"
  using assms(1,2)
proof (cases rule: buddy_malloc_cases)
  case none
  then show ?thesis using assms(3-5) by (meson leD)
next
  case (some i k s')
  let ?e = "cut_exp k (unat sz)"
  note r = relinkedD [OF some(6)]
  note c = cut_block_facts [OF assms(1) some(2,3,4)]
  have "\<not> used_at (arr s) i d" for d using some(2) by (simp add: used_at_def free_at_def)
  then have "{j..<j + 2 ^ d} \<inter> {i..<i + 2 ^ ?e} = {}"
    if "used_at (arr s) j d" "d \<le> num_pages_exp s" for j d
    using used_disjoint [OF c(1) _ c(3), of j d] c(4,5) that some(3) by (metis order_trans)
  moreover have "2 ^ ?e dvd i"
  proof -
    have "is_head (arr s') i" "bexp (arr s' ! i) = ?e"
      using c(3,4) some(3) r(1) part_okD(1) [OF c(1)] by (simp_all add: used_at_def is_head_def)
    then show ?thesis using part_okD(4) [OF c(1), of i] r(1) by simp
  qed
  ultimately show ?thesis
    using some(1-3,6) r(1) c buddy_ok_relinked [OF assms(1) some(6) c(1,2)]
      cut_exp_enough [OF some(4)] cut_exp_tight [of k "unat sz"]
    by (intro exI [of _ i] exI [of _ ?e] exI [of _ s']) auto
qed

text \<open>
  C1: a request for \<open>sz\<close> pages succeeds whenever some free block is large enough.  The
  block handed out starts at the returned address, was the front of a free block, is the smallest
  power of two that holds the request, and shares no page with any block already in use; no other block's
  use changes, interrupts are left as they were and the allocator's invariant is kept.
\<close>

theorem buddy_malloc_correct:
  assumes "buddy_ok s" "sz \<noteq> 0" "free_at (arr s) m k" "k \<le> num_pages_exp s" "unat sz \<le> 2 ^ k"
  shows "\<exists>i e s'. buddy_malloc sz s = Some (of_nat i * PAGE_SIZE, s') \<and> buddy_ok s'
     \<and> used_at (arr s') i e \<and> 2 ^ e dvd i \<and> unat sz \<le> 2 ^ e \<and> (e = 0 \<or> 2 ^ (e - 1) < unat sz)
     \<and> (\<exists>k. free_at (arr s) i k \<and> e \<le> k \<and> k \<le> num_pages_exp s)
     \<and> (\<forall>j d. used_at (arr s) j d \<and> d \<le> num_pages_exp s \<longrightarrow> {j..<j + 2 ^ d} \<inter> {i..<i + 2 ^ e} = {})
     \<and> (\<forall>j d. j \<noteq> i \<longrightarrow> used_at (arr s') j d = used_at (arr s) j d)
     \<and> irq_nested_count s' = irq_nested_count s \<and> daif_masked s' = daif_masked s \<and> console s' = console s"
proof -
  obtain i e s' where b: "buddy_malloc sz s = Some (of_nat i * PAGE_SIZE, s')" "buddy_ok s'"
    "used_at (arr s') i e" "2 ^ e dvd i" "unat sz \<le> 2 ^ e" "e = 0 \<or> 2 ^ (e - 1) < unat sz"
    "\<exists>k. free_at (arr s) i k \<and> e \<le> k \<and> k \<le> num_pages_exp s"
    "\<forall>j d. used_at (arr s) j d \<and> d \<le> num_pages_exp s \<longrightarrow> {j..<j + 2 ^ d} \<inter> {i..<i + 2 ^ e} = {}"
    "\<forall>j d. j \<noteq> i \<longrightarrow> used_at (arr s') j d = used_at (arr s) j d" "relinked s (arr s') s'"
    using buddy_malloc_block [OF assms] by blast
  then show ?thesis using relinkedD [OF b(10)] by (intro exI [of _ i] exI [of _ e] exI [of _ s']) simp
qed

theorem buddy_malloc_correct_witness:
  "buddy_ok (one_free 3) \<and>
   (\<exists>i e s'. buddy_malloc 3 (one_free 3) = Some (of_nat i * PAGE_SIZE, s') \<and> used_at (arr s') i e \<and> 3 \<le> (2::nat) ^ e)"
  using buddy_malloc_correct [of "one_free 3" 3 0 3] one_free_ok [of 3]
  by (auto simp: one_free_def free_at_def)

text \<open>
  C21: a request is refused only when it is for zero pages or no free block is large enough; then
  the null pointer is returned and nothing but the message on the console changes.
\<close>

theorem buddy_malloc_refused:
  assumes "buddy_ok s"
    "sz = 0 \<or> (\<forall>m k. free_at (arr s) m k \<and> k \<le> num_pages_exp s \<longrightarrow> 2 ^ k < unat sz)"
  shows "buddy_malloc sz s = Some (0, if sz = 0 then s else print_msg ''No enough space'' s)"
proof (cases "sz = 0")
  case True
  then show ?thesis using assms(1) by (simp add: buddy_malloc_def Let_def critical_section_id buddy_ok_def)
next
  case False
  from assms(1) False show ?thesis
  proof (cases rule: buddy_malloc_cases)
    case (some i k s')
    then show ?thesis using assms(2) False by (meson leD)
  qed (use False in simp)
qed

theorem buddy_malloc_refused_witness:
  "buddy_ok (one_used 3) \<and> buddy_malloc 1 (one_used 3) = Some (0, print_msg ''No enough space'' (one_used 3))"
proof -
  have a: "arr (one_used 3) = [-3, EMPTY, EMPTY, EMPTY, EMPTY, EMPTY, EMPTY, EMPTY]"
    by (simp add: one_used_def neg_exp_def numeral_eq_Suc)
  have "\<not> (free_at (arr (one_used 3)) m k \<and> k \<le> 3)" for m k
    by (auto simp: free_at_def a EMPTY_def less_Suc_eq nth_Cons split: nat.splits)
  moreover have "num_pages_exp (one_used 3) = 3" by (simp add: one_used_def)
  ultimately show ?thesis using buddy_malloc_refused [of "one_used 3" 1] one_used_ok [of 3] by simp
qed

section \<open>Release\<close>

lemma buddy_free_block:
  assumes "buddy_ok s" "used_at (arr s) i e" "e \<le> num_pages_exp s"
  shows "\<exists>s'. buddy_free (of_nat i * PAGE_SIZE) s = Some s' \<and> buddy_ok s'
     \<and> (\<forall>j d. used_at (arr s') j d \<longleftrightarrow> j \<noteq> i \<and> used_at (arr s) j d)
     \<and> (\<exists>h k. free_at (arr s') h k \<and> h \<le> i \<and> i + 2 ^ e \<le> h + 2 ^ k)
     \<and> relinked s (arr s') s'"
proof -
  let ?n = "num_pages_exp s" and ?a = "(arr s)[i := int e]"
  have P: "part_ok ?n (arr s)" and C: "coalesced ?n (arr s)" using assms(1) by (auto simp: buddy_ok_def)
  have n: "?n \<le> 30" "length (arr s) = 2 ^ ?n" using part_okD [OF P] by auto
  have i: "i < 2 ^ ?n" "arr s ! i = neg_exp e" using assms(2) n by (auto simp: used_at_def)
  have h: "is_head (arr s) i" using i n by (simp add: is_head_def)
  have pa: "part_ok ?n ?a" using part_ok_retag [OF P h, of "int e"] i n assms(3) by simp
  have cb: "coalesced_but i e ?n ?a" using coalesced_but_release [OF C] i n by simp
  have v: "?a ! i = int e" using i n by simp
  note m = merge_arr_ok [OF pa i(1) assms(3) v cb]
  obtain s' where s': "buddy_free (of_nat i * PAGE_SIZE) s = Some s'" "relinked s (merge_arr ?n i e ?a) s'"
    using buddy_free_used [OF assms] by blast
  note r = relinkedD [OF s'(2)]
  have "used_at (arr s') j d \<longleftrightarrow> j \<noteq> i \<and> used_at (arr s) j d" for j d
  proof (cases "j < 2 ^ ?n")
    case True
    then have eq: "?a ! j < 0 \<or> arr s' ! j < 0 \<Longrightarrow> arr s' ! j = ?a ! j" unfolding r(1) using m by blast
    show ?thesis
    proof (cases "j = i")
      case True
      then show ?thesis using eq v by (auto simp: used_at_def)
    next
      case False
      then show ?thesis using eq r(1) True n by (auto simp: used_at_def)
    qed
  qed (use r(1) n in \<open>auto simp: used_at_def\<close>)
  moreover have "buddy_ok s'" using buddy_ok_relinked [OF assms(1) s'(2)] m by blast
  ultimately show ?thesis using s' r(1) merge_arr_holds [OF pa i(1) assms(3) v] by auto
qed

text \<open>
  C2: releasing a block in use succeeds, makes exactly that block unused, leaves its pages inside one
  free block that has been merged with every free buddy, and keeps the allocator's invariant.
\<close>

theorem buddy_free_correct:
  assumes "buddy_ok s" "used_at (arr s) i e" "e \<le> num_pages_exp s"
  shows "\<exists>s'. buddy_free (of_nat i * PAGE_SIZE) s = Some s' \<and> buddy_ok s'
     \<and> (\<forall>j d. used_at (arr s') j d \<longleftrightarrow> j \<noteq> i \<and> used_at (arr s) j d)
     \<and> (\<exists>h k. free_at (arr s') h k \<and> h \<le> i \<and> i + 2 ^ e \<le> h + 2 ^ k)
     \<and> irq_nested_count s' = irq_nested_count s \<and> daif_masked s' = daif_masked s \<and> console s' = console s"
proof -
  obtain s' where s': "buddy_free (of_nat i * PAGE_SIZE) s = Some s'" "buddy_ok s'"
    "\<forall>j d. used_at (arr s') j d \<longleftrightarrow> j \<noteq> i \<and> used_at (arr s) j d"
    "\<exists>h k. free_at (arr s') h k \<and> h \<le> i \<and> i + 2 ^ e \<le> h + 2 ^ k" "relinked s (arr s') s'"
    using buddy_free_block [OF assms] by blast
  then show ?thesis using relinkedD [OF s'(5)] by auto
qed

theorem buddy_free_correct_witness:
  "buddy_ok (one_used 3) \<and> used_at (arr (one_used 3)) 0 3
   \<and> (\<exists>s'. buddy_free 0 (one_used 3) = Some s' \<and> buddy_ok s' \<and> (\<forall>j d. \<not> used_at (arr s') j d))"
proof -
  have a: "arr (one_used 3) = [-3, EMPTY, EMPTY, EMPTY, EMPTY, EMPTY, EMPTY, EMPTY]"
    and n: "num_pages_exp (one_used 3) = 3"
    by (simp_all add: one_used_def neg_exp_def numeral_eq_Suc)
  have u: "used_at (arr (one_used 3)) 0 3" by (simp add: used_at_def a neg_exp_def)
  have "\<not> (j \<noteq> 0 \<and> used_at (arr (one_used 3)) j d)" for j d
    by (auto simp: used_at_def a less_Suc_eq nth_Cons split: nat.splits)
  then show ?thesis using buddy_free_correct [of "one_used 3" 0 3] one_used_ok [of 3] u n by auto
qed

text \<open>
  C22: a pointer that is outside the memory, not page aligned, or not the start of a block in use is
  rejected with a message and no other effect.  A page in the middle of a block is reported as \<open>not in
  use\<close>: the branch with the message \<open>Not start of a block\<close> is never taken.
\<close>

theorem buddy_free_rejects:
  assumes "buddy_ok s"
    "bend s \<le> ptr \<or> ptr AND (PAGE_SIZE - 1) \<noteq> 0 \<or> (\<forall>e. \<not> used_at (arr s) (unat (ptr div PAGE_SIZE)) e)"
  shows "buddy_free ptr s = Some (print_msg
     (if bend s \<le> ptr \<or> ptr AND (PAGE_SIZE - 1) \<noteq> 0 then ''Invalid pointer'' else ''The page is not in use'') s)"
proof (cases "bend s \<le> ptr \<or> ptr AND (PAGE_SIZE - 1) \<noteq> 0")
  case True
  then show ?thesis using assms(1) by (auto simp: buddy_free_def Let_def critical_section_id buddy_ok_def)
next
  case False
  let ?n = "num_pages_exp s" and ?i = "unat (ptr div PAGE_SIZE)"
  have P: "part_ok ?n (arr s)" and be: "bend s = of_nat (2 ^ ?n) * PAGE_SIZE" and irq: "irq_ok s"
    using assms(1) by (auto simp: buddy_ok_def)
  have n: "?n \<le> 30" "length (arr s) = 2 ^ ?n" using part_okD [OF P] by auto
  have i: "?i < 2 ^ ?n" using page_ptr(1) [OF be n(1)] False by (simp add: not_le)
  have "0 \<le> arr s ! ?i"
  proof (rule ccontr)
    assume neg: "\<not> 0 \<le> arr s ! ?i"
    then have "arr s ! ?i \<noteq> EMPTY" by auto
    then have "is_head (arr s) ?i" using i n by (simp add: is_head_def)
    then have "bexp (arr s ! ?i) \<le> 30" using part_okD(3) [OF P] n(1) order_trans by blast
    then have "used_at (arr s) ?i (bexp (arr s ! ?i))"
      using neg neg_is_neg_exp i n by (simp add: used_at_def)
    then show False using assms(2) False by blast
  qed
  then show ?thesis using False i n irq by (simp add: buddy_free_def Let_def critical_section_id)
qed

theorem buddy_free_rejects_witness:
  "buddy_ok (one_used 3) \<and> buddy_free 0x1000 (one_used 3) = Some (print_msg ''The page is not in use'' (one_used 3))"
proof -
  have a: "arr (one_used 3) = [-3, EMPTY, EMPTY, EMPTY, EMPTY, EMPTY, EMPTY, EMPTY]"
    and b: "bend (one_used 3) = 0x8000"
    by (simp_all add: one_used_def neg_exp_def numeral_eq_Suc PAGE_SIZE_def)
  have "\<not> used_at (arr (one_used 3)) (unat ((0x1000 :: u64) div PAGE_SIZE)) e" for e
    by (simp add: used_at_def a PAGE_SIZE_def)
  then show ?thesis
    using buddy_free_rejects [of "one_used 3" "0x1000"] one_used_ok [of 3] b by (simp add: PAGE_SIZE_def)
qed

section \<open>Round trip, initialisation\<close>

text \<open>
  Allocating and releasing at once restores the block map exactly.  All the splits made
  for the allocation are undone by the merges of the release.
\<close>

theorem buddy_malloc_free_roundtrip:
  assumes "buddy_ok s" "sz \<noteq> 0" "free_at (arr s) m k" "k \<le> num_pages_exp s" "unat sz \<le> 2 ^ k"
  shows "\<exists>p s1 s2. buddy_malloc sz s = Some (p, s1) \<and> buddy_free p s1 = Some s2
     \<and> arr s2 = arr s \<and> buddy_ok s2"
  using assms(1,2)
proof (cases rule: buddy_malloc_cases)
  case none
  then show ?thesis using assms(3-5) by (meson leD)
next
  case (some i k s1)
  let ?n = "num_pages_exp s" and ?u = "(arr s)[i := neg_exp k]" and ?e = "cut_exp k (unat sz)"
  let ?c = "cut_arr i k (unat sz) ?u"
  have P: "part_ok ?n (arr s)" and C: "coalesced ?n (arr s)" using assms(1) by (auto simp: buddy_ok_def)
  have n: "?n \<le> 30" "length (arr s) = 2 ^ ?n" using part_okD [OF P] by auto
  have i: "i < 2 ^ ?n" "arr s ! i = int k" using some(2) n by (auto simp: free_at_def)
  have h: "is_head (arr s) i" "is_head ?u i" "?u ! i = neg_exp k" using i n some(3) by (simp_all add: is_head_def)
  have pu: "part_ok ?n ?u" using part_ok_retag [OF P h(1), of "neg_exp k"] i n some(3) by simp
  note r = relinkedD [OF some(6)]
  note c = cut_block_facts [OF assms(1) some(2,3,4)]
  have ok1: "buddy_ok s1" using buddy_ok_relinked [OF assms(1) some(6) c(1,2)] .
  obtain s2 where s2: "buddy_free (of_nat i * PAGE_SIZE) s1 = Some s2"
    "relinked s1 (merge_arr ?n i ?e (?c[i := int ?e])) s2"
    using buddy_free_used [OF ok1, of i ?e] r c(3,4) some(3) by auto
  have "merge_arr ?n i ?e (?c[i := int ?e]) = merge_arr ?n i k (?u[i := int k])"
    using merge_cut [OF pu h(2,3) some(3)] .
  also have "?u[i := int k] = arr s" using i(2) by (metis list_update_id list_update_overwrite)
  also have "merge_arr ?n i k (arr s) = arr s" using merge_arr_id [OF P C some(2,3)] .
  finally have a: "arr s2 = arr s" using relinkedD(1) [OF s2(2)] by simp
  moreover have "buddy_ok s2"
    using buddy_ok_relinked [OF ok1 s2(2)] P C a r(2) relinkedD(1) [OF s2(2)] by simp
  ultimately show ?thesis using some(1) s2(1) by blast
qed

theorem buddy_malloc_free_roundtrip_witness:
  "buddy_ok (one_free 3) \<and>
   (\<exists>p s1 s2. buddy_malloc 3 (one_free 3) = Some (p, s1) \<and> buddy_free p s1 = Some s2 \<and> arr s2 = arr (one_free 3))"
  using buddy_malloc_free_roundtrip [of "one_free 3" 3 0 3] one_free_ok [of 3]
  by (auto simp: one_free_def free_at_def)

text \<open>
  C23: initialisation ends, fits its three tables into the startup heap, and leaves one free block
  that is the smallest power-of-two number of pages covering the memory, with the
  allocator's invariant established.
\<close>

theorem buddy_init_correct:
  assumes "irq_ok s" "pages_exp_of usable_end n" "n \<le> 22"
    "unat (heap_start s) + unat HEAP_SIZE + 2 ^ 40 \<le> 2 ^ 64" "0 < unat (heap_ptr s)"
    "unat (heap_ptr s) + 28 * 2 ^ n + 8 * (n + 1) + 21 \<le> unat (heap_start s) + unat HEAP_SIZE"
  shows "\<exists>s'. buddy_init usable_end s = Some s' \<and> buddy_ok s' \<and> num_pages_exp s' = n
     \<and> free_at (arr s') 0 n \<and> (\<forall>i e. \<not> used_at (arr s') i e)
     \<and> unat (heap_ptr s') \<le> unat (heap_start s) + unat HEAP_SIZE"
proof -
  obtain s' where s': "buddy_init usable_end s = Some s'" "buddy_ok s'" "num_pages_exp s' = n"
    "arr s' = (replicate (2 ^ n) EMPTY)[0 := int n]"
    "unat (heap_ptr s') \<le> unat (heap_ptr s) + 28 * 2 ^ n + 8 * (n + 1) + 21"
    using buddy_init_state [OF assms] by blast
  have "\<not> used_at (arr s') i e" for i e
    unfolding s'(4) by (cases "i = 0") (auto simp: used_at_def)
  then show ?thesis using s' initial_map(3) [of n] assms(3,6) by auto
qed

definition boot_state :: buddy_data where
  "boot_state = \<lparr>irq_nested_count = 0, daif_masked = False, console = [],
     heap_start = 0xffff000010000000, heap_ptr = 0xffff000010000000, base = 0, bend = 0, num_pages_exp = 0,
     arr = [], free_blocks_list = [], buddy_node_arr = []\<rparr>"

theorem buddy_init_correct_witness:
  "pages_exp_of 0x3c000000 18 \<and>
   (\<exists>s'. buddy_init 0x3c000000 boot_state = Some s' \<and> buddy_ok s' \<and> num_pages_exp s' = 18 \<and> free_at (arr s') 0 18)"
proof -
  have "2 ^ (12 + d) < (0x3c000000 :: nat)" if "d < 18" for d
  proof -
    have "(2::nat) ^ (12 + d) \<le> 2 ^ 29" using that by (intro power_increasing) auto
    then show ?thesis by simp
  qed
  then have "pages_exp_of 0x3c000000 18" by (simp add: pages_exp_of_def)
  then show ?thesis
    using buddy_init_correct [of boot_state "0x3c000000" 18]
    by (simp add: boot_state_def irq_ok_def HEAP_SIZE_def) blast
qed



section \<open>Reserved regions\<close>



text \<open>
  C25: the excluded case.  A page that is a free block on its own is not reserved: the
  test for \<open>covered by another reserved block\<close> also accepts the mark 0 of such a page, and the
  page stays free for the next allocation.
\<close>

theorem memory_reserve_skips_single_free_page:
  assumes "buddy_ok s" "free_at (arr s) pg 0" "pg < 2 ^ num_pages_exp s"
  shows "memory_reserve (of_nat pg * PAGE_SIZE) (of_nat (pg + 1) * PAGE_SIZE) s = Some s"
proof -
  let ?n = "num_pages_exp s" and ?st = "of_nat pg * PAGE_SIZE :: u64" and ?en = "of_nat (pg + 1) * PAGE_SIZE :: u64"
  have P: "part_ok ?n (arr s)" using assms(1) by (auto simp: buddy_ok_def)
  have n: "?n \<le> 30" "length (arr s) = 2 ^ ?n" using part_okD [OF P] by auto
  have "(2::nat) ^ ?n \<le> 2 ^ 30" using n by (intro power_increasing) auto
  then have pg: "pg + 1 \<le> 2 ^ 30" using assms(3) by simp
  have w: "unat (of_nat i * PAGE_SIZE :: u64) = i * 4096" if "i \<le> 2 ^ 30" for i
  proof -
    have "of_nat i * PAGE_SIZE = (of_nat (i * 4096) :: u64)" by (simp add: PAGE_SIZE_def)
    moreover have "i * 4096 < 2 ^ LENGTH(64)" using that by simp
    ultimately show ?thesis using unat_of_nat_small [of "i * 4096", where 'a = 64] by metis
  qed
  have u: "unat ?st = pg * 4096" "unat ?en = pg * 4096 + 4096" using w [of pg] w [of "pg + 1"] pg by simp_all
  have hold: "block_holds ?st ?en 0" unfolding block_holds_def u by simp
  have "reserve_block ?st ?en (2 ^ (12 + 0)) 0 = Some (?st AND NOT (2 ^ (12 + 0) - 1), 0)"
    using reserve_block_step [of ?st ?en 0] hold u pg by simp
  then have rb: "reserve_block ?st ?en PAGE_SIZE 0 = Some (?st AND NOT (2 ^ (12 + 0) - 1), 0)"
    by (simp add: PAGE_SIZE_def)
  have i: "unat ((?st AND NOT (2 ^ (12 + 0) - 1)) div PAGE_SIZE) = pg" using reserve_idx [of 0 ?st] u by simp
  have v: "arr s ! pg = 0" using assms(2) by (simp add: free_at_def)
  have "find_parent pg s = Some pg"
    using v assms(3) n by (subst find_parent.simps) (simp add: EMPTY_def)
  then show ?thesis using rb i v assms(3) n by (simp add: memory_reserve_def Let_def NEG_ZERO_def)
qed

theorem memory_reserve_skips_single_free_page_witness:
  "buddy_ok (one_free 0) \<and> memory_reserve 0 0x1000 (one_free 0) = Some (one_free 0)"
proof -
  have "free_at (arr (one_free 0)) 0 0" "num_pages_exp (one_free 0) = 0" by (simp_all add: one_free_def free_at_def)
  then show ?thesis
    using memory_reserve_skips_single_free_page [of "one_free 0" 0] one_free_ok [of 0] by (simp add: PAGE_SIZE_def)
qed

end
