(* ===== verification/Page_Ref.thy ===== *)
theory Page_Ref
  imports Buddy_Props
begin

text \<open>
  Reference counts and write permissions of user pages (the last part of \<open>mem.c\<close>), on top of the
  buddy allocator.  The counters are 16-bit words and wrap like the C \<open>uint16_t\<close>.
\<close>

section \<open>Model\<close>

record page =
  ref_count :: u16
  w_permission :: u8

record page_data = buddy_data +
  usr_pages :: "page list"

text \<open>
  \<open>page_ref_init\<close>: the table comes from the startup heap and is cleared.  A page entry is four bytes
  long: a two-byte counter, the permission byte and one byte of padding.
\<close>

definition page_ref_init :: "'a page_data_scheme \<Rightarrow> 'a page_data_scheme option" where
  "page_ref_init s =
     (let (p, s) = simple_malloc (push_bit (num_pages_exp s) 1 * 4) s in
      if p = 0 then None
      else Some (s\<lparr>usr_pages := replicate (2 ^ num_pages_exp s) \<lparr>ref_count = 0, w_permission = 0\<rparr>\<rparr>))"

definition upd_page :: "nat \<Rightarrow> (page \<Rightarrow> page) \<Rightarrow> 'a page_data_scheme \<Rightarrow> 'a page_data_scheme option" where
  "upd_page i f s = do {
     p \<leftarrow> get_at (usr_pages s) i;
     ps \<leftarrow> set_at (usr_pages s) i (f p);
     Some (s\<lparr>usr_pages := ps\<rparr>)
   }"

definition set_w_permission :: "u64 \<Rightarrow> bool \<Rightarrow> 'a page_data_scheme \<Rightarrow> 'a page_data_scheme option" where
  "set_w_permission ptr w s = do {
     let s = disable_int s;
     let idx = unat (ptr div PAGE_SIZE);
     if ptr mod PAGE_SIZE \<noteq> 0 then Some (enable_int (print_msg ''Not start of a page'' s))
     else do {
       s \<leftarrow> upd_page idx (\<lambda>p. p\<lparr>w_permission := (if w then 1 else 0)\<rparr>) s;
       Some (enable_int s)
     }
   }"

definition get_w_permission :: "u64 \<Rightarrow> 'a page_data_scheme \<Rightarrow> (bool \<times> 'a page_data_scheme) option" where
  "get_w_permission ptr s = do {
     let s = disable_int s;
     let idx = unat (ptr div PAGE_SIZE);
     if ptr mod PAGE_SIZE \<noteq> 0 then Some (False, enable_int (print_msg ''Not start of a page'' s))
     else do {
       p \<leftarrow> get_at (usr_pages s) idx;
       Some (w_permission p \<noteq> 0, enable_int s)
     }
   }"

definition get_ref_count :: "u64 \<Rightarrow> 'a page_data_scheme \<Rightarrow> (u16 \<times> 'a page_data_scheme) option" where
  "get_ref_count ptr s = do {
     let s = disable_int s;
     let idx = unat (ptr div PAGE_SIZE);
     if ptr mod PAGE_SIZE \<noteq> 0 then Some (- 1, enable_int (print_msg ''Not start of a page'' s))
     else do {
       p \<leftarrow> get_at (usr_pages s) idx;
       Some (ref_count p, enable_int s)
     }
   }"

definition ref_page :: "u64 \<Rightarrow> 'a page_data_scheme \<Rightarrow> 'a page_data_scheme option" where
  "ref_page ptr s = do {
     let s = disable_int s;
     let idx = unat (ptr div PAGE_SIZE);
     if ptr mod PAGE_SIZE \<noteq> 0 then Some (enable_int (print_msg ''Not start of a page'' s))
     else do {
       s \<leftarrow> upd_page idx (\<lambda>p. p\<lparr>ref_count := ref_count p + 1\<rparr>) s;
       Some (enable_int s)
     }
   }"

definition deref_page :: "u64 \<Rightarrow> 'a page_data_scheme \<Rightarrow> 'a page_data_scheme option" where
  "deref_page ptr s = do {
     let s = disable_int s;
     let idx = unat (ptr div PAGE_SIZE);
     if ptr mod PAGE_SIZE \<noteq> 0 then Some (enable_int (print_msg ''Not start of a page'' s))
     else do {
       p \<leftarrow> get_at (usr_pages s) idx;
       s \<leftarrow> (if 0 < ref_count p then do {
              s \<leftarrow> upd_page idx (\<lambda>p. p\<lparr>ref_count := ref_count p - 1\<rparr>) s;
              if ref_count p - 1 = 0 then do {
                s \<leftarrow> upd_page idx (\<lambda>p. p\<lparr>w_permission := 0\<rparr>) s;
                v \<leftarrow> get_at (arr s) idx;
                if v < 0 \<or> v = NEG_ZERO then buddy_free ptr s else Some s
              } else Some s
            } else Some s);
       Some (enable_int s)
     }
   }"

section \<open>Invariant\<close>

text \<open>
  Every page has an entry, and only referenced pages are writable.
\<close>

definition pages_ok :: "'a page_data_scheme \<Rightarrow> bool" where
  "pages_ok s \<longleftrightarrow> buddy_ok s \<and> length (usr_pages s) = 2 ^ num_pages_exp s
     \<and> (\<forall>i < 2 ^ num_pages_exp s. ref_count (usr_pages s ! i) = 0 \<longrightarrow> w_permission (usr_pages s ! i) = 0)"

lemma page_fields_int [simp]:
  "usr_pages (disable_int s) = usr_pages s" "usr_pages (enable_int s) = usr_pages s"
  "usr_pages (print_msg m s) = usr_pages s"
  by (simp_all add: disable_int_def enable_int_def print_msg_def Let_def)

lemma usr_pages_relinked: "relinked s a s' \<Longrightarrow> usr_pages s' = usr_pages s"
  by (auto simp: relinked_def with_lists_def)

lemma buddy_ok_usr_pages [simp]: "buddy_ok (s\<lparr>usr_pages := ps\<rparr>) = buddy_ok s"
  by (simp add: buddy_ok_def irq_ok_def)

lemma enable_disable_usr [simp]:
  "irq_ok s \<Longrightarrow> enable_int ((disable_int s)\<lparr>usr_pages := ps\<rparr>) = s\<lparr>usr_pages := ps\<rparr>"
  by (cases s) (auto simp: irq_ok_def enable_int_def disable_int_def Let_def)

lemma page_aligned:
  assumes "i < 2 ^ n" "n \<le> 30"
  shows "of_nat i * PAGE_SIZE mod PAGE_SIZE = 0" "unat (of_nat i * PAGE_SIZE div PAGE_SIZE) = i"
proof -
  have "(2::nat) ^ n \<le> 2 ^ 30" using assms(2) by (intro power_increasing) auto
  then have "unat (of_nat i * PAGE_SIZE :: u64) = i * 4096"
  proof -
    have "of_nat i * PAGE_SIZE = (of_nat (i * 4096) :: u64)" by (simp add: PAGE_SIZE_def)
    moreover have "i * 4096 < 2 ^ LENGTH(64)" using assms(1) \<open>(2::nat) ^ n \<le> 2 ^ 30\<close> by simp
    ultimately show ?thesis using unat_of_nat_small [of "i * 4096", where 'a = 64] by metis
  qed
  then have "unat (of_nat i * PAGE_SIZE mod PAGE_SIZE :: u64) = 0"
    "unat (of_nat i * PAGE_SIZE div PAGE_SIZE :: u64) = i"
    by (simp_all add: unat_mod unat_div PAGE_SIZE_def)
  then show "of_nat i * PAGE_SIZE mod PAGE_SIZE = 0" "unat (of_nat i * PAGE_SIZE div PAGE_SIZE) = i"
    by (simp_all add: unat_eq_0)
qed

section \<open>Properties\<close>

lemma buddy_ok_disable [simp]: "buddy_ok s \<Longrightarrow> buddy_ok (disable_int s)"
  by (simp add: buddy_ok_def)

lemma upd_page_Some [simp]:
  "i < length (usr_pages s) \<Longrightarrow> upd_page i f s = Some (s\<lparr>usr_pages := (usr_pages s)[i := f (usr_pages s ! i)]\<rparr>)"
  by (simp add: upd_page_def)

lemma arr_usr_pages [simp]:
  "arr (s\<lparr>usr_pages := ps\<rparr>) = arr s" "num_pages_exp (s\<lparr>usr_pages := ps\<rparr>) = num_pages_exp s"
  by simp_all

text \<open>
  C29: dropping a reference to a page that heads a block in use decrements its counter and
  nothing else, unless it was the last reference: then the page loses its write permission and
  the block, and no other, is released to the buddy allocator.
\<close>

theorem deref_page_releases_last:
  assumes "pages_ok s" "used_at (arr s) i e" "e \<le> num_pages_exp s" "0 < ref_count (usr_pages s ! i)"
  shows "\<exists>s'. deref_page (of_nat i * PAGE_SIZE) s = Some s' \<and> pages_ok s'
     \<and> usr_pages s' = (usr_pages s)[i := (if ref_count (usr_pages s ! i) = 1 then \<lparr>ref_count = 0, w_permission = 0\<rparr>
          else (usr_pages s ! i)\<lparr>ref_count := ref_count (usr_pages s ! i) - 1\<rparr>)]
     \<and> (\<forall>j d. used_at (arr s') j d \<longleftrightarrow> used_at (arr s) j d \<and> \<not> (j = i \<and> ref_count (usr_pages s ! i) = 1))"
proof -
  let ?n = "num_pages_exp s" and ?p = "usr_pages s ! i" and ?d = "disable_int s" and ?ptr = "of_nat i * PAGE_SIZE :: u64"
  have ok: "buddy_ok s" and len: "length (usr_pages s) = 2 ^ ?n"
    and w: "\<And>j. j < 2 ^ ?n \<Longrightarrow> ref_count (usr_pages s ! j) = 0 \<Longrightarrow> w_permission (usr_pages s ! j) = 0"
    using assms(1) by (auto simp: pages_ok_def)
  have irq: "irq_ok s" and n: "?n \<le> 30" "length (arr s) = 2 ^ ?n"
    using ok part_okD by (auto simp: buddy_ok_def)
  have i: "i < 2 ^ ?n" "arr s ! i = neg_exp e" using assms(2) n by (auto simp: used_at_def)
  note al = page_aligned [OF i(1) n(1)]
  show ?thesis
  proof (cases "ref_count ?p = 1")
    case False
    let ?ps = "(usr_pages s)[i := ?p\<lparr>ref_count := ref_count ?p - 1\<rparr>]"
    have "ref_count ?p - 1 \<noteq> 0" using False by auto
    then have "deref_page ?ptr s = Some (s\<lparr>usr_pages := ?ps\<rparr>)"
      using al i(1) len assms(4) irq by (simp add: deref_page_def Let_def)
    moreover have "pages_ok (s\<lparr>usr_pages := ?ps\<rparr>)"
      using ok len w i(1) \<open>ref_count ?p - 1 \<noteq> 0\<close> by (auto simp: pages_ok_def nth_list_update)
    ultimately show ?thesis using False by auto
  next
    case True
    let ?ps = "(usr_pages s)[i := \<lparr>ref_count = 0, w_permission = 0\<rparr>]"
    let ?s = "?d\<lparr>usr_pages := ?ps\<rparr>"
    obtain s1 where s1: "buddy_free ?ptr ?s = Some s1" "buddy_ok s1" "relinked ?s (arr s1) s1"
      "\<forall>j d. used_at (arr s1) j d \<longleftrightarrow> j \<noteq> i \<and> used_at (arr s) j d"
      using buddy_free_block [of ?s i e] ok assms(2,3) by auto
    have p: "?p\<lparr>ref_count := 0, w_permission := 0\<rparr> = \<lparr>ref_count = 0, w_permission = 0\<rparr>" by (cases ?p) simp
    have "deref_page ?ptr s = Some (enable_int s1)"
      using al i n len True s1(1) by (simp add: deref_page_def Let_def p)
    moreover have "usr_pages s1 = ?ps" using usr_pages_relinked [OF s1(3)] by simp
    moreover have "buddy_ok (enable_int s1)"
    proof -
      have "daif_masked s1" "num_pages_exp s1 = ?n" using relinkedD [OF s1(3)] by simp_all
      then show ?thesis using s1(2) by (simp add: buddy_ok_def)
    qed
    moreover have "num_pages_exp s1 = ?n" using relinkedD(2) [OF s1(3)] by simp
    ultimately have "pages_ok (enable_int s1)"
      using len w i(1) by (auto simp: pages_ok_def nth_list_update)
    then show ?thesis
      using \<open>deref_page ?ptr s = Some (enable_int s1)\<close> \<open>usr_pages s1 = ?ps\<close> s1(4) True by auto
  qed
qed

lemma buddy_ok_truncate: "buddy_ok (buddy_data.truncate s) = buddy_ok s"
  by (simp add: buddy_ok_def irq_ok_def buddy_data.defs)

definition one_ref :: page_data where
  "one_ref = \<lparr>irq_nested_count = 0, daif_masked = False, console = [],
     heap_start = 0, heap_ptr = 0, base = 0, bend = of_nat (2 ^ 3) * PAGE_SIZE, num_pages_exp = 3,
     arr = (replicate (2 ^ 3) EMPTY)[0 := neg_exp 3],
     free_blocks_list = replicate (3 + 1) None, buddy_node_arr = sample_nodes 3,
     usr_pages = (replicate (2 ^ 3) \<lparr>ref_count = 0, w_permission = 0\<rparr>)[0 := \<lparr>ref_count = 1, w_permission = 1\<rparr>]\<rparr>"

theorem deref_page_releases_last_witness:
  "pages_ok one_ref \<and> (\<exists>s'. deref_page 0 one_ref = Some s' \<and> pages_ok s' \<and> \<not> used_at (arr s') 0 3)"
proof -
  have "buddy_data.truncate one_ref = one_used 3" by (simp add: one_ref_def one_used_def buddy_data.defs)
  then have "buddy_ok one_ref" using one_used_ok [of 3] buddy_ok_truncate [of one_ref] by simp
  then have "pages_ok one_ref"
    by (auto simp: pages_ok_def one_ref_def nth_list_update)
  moreover have "used_at (arr one_ref) 0 3" "num_pages_exp one_ref = 3" "ref_count (usr_pages one_ref ! 0) = 1"
    by (simp_all add: one_ref_def used_at_def)
  ultimately show ?thesis using deref_page_releases_last [of one_ref 0 3] by auto
qed

end
