(* ===== verification/Dyn_Alloc.thy ===== *)
theory Dyn_Alloc
  imports Page_Ref
begin

text \<open>
  The dynamic allocator of \<open>mem.c\<close> (\<open>malloc\<close>, \<open>calloc\<close>, \<open>free\<close>): eight pools of pages cut
  into chunks of 16 to 2048 bytes, on top of the buddy allocator.  A pointer to
  \<open>dynamic_node_arr[i]\<close> is the index \<open>i\<close>.

  The chunk bitmaps are tested and set with \<open>1 << n\<close> on a 32-bit \<open>int\<close> although \<open>n\<close> runs to 63.  The
  model gives the shift the meaning of the AArch64 instruction the compiler
  emits: the amount is taken modulo 32, and the result is sign-extended to the 64 bits of the bitmap.
\<close>

section \<open>State\<close>

definition MIN_POOL_SIZE_EXP :: nat where "MIN_POOL_SIZE_EXP = 4"
definition MAX_POOL_SIZE_EXP :: nat where "MAX_POOL_SIZE_EXP = 11"
definition BITMAP_ARR :: nat where "BITMAP_ARR = 4"
definition V_KERNEL_SPACE :: u64 where "V_KERNEL_SPACE = 0xffff000000000000"

definition p2v_trans_kernel :: "u64 \<Rightarrow> u64" where "p2v_trans_kernel a = a + V_KERNEL_SPACE"
definition v2p_trans_kernel :: "u64 \<Rightarrow> u64" where "v2p_trans_kernel a = a - V_KERNEL_SPACE"

record dynamic_node =
  addr :: u64
  chunk_size :: u64
  chunk_sum :: int
  bitmap :: "u64 list"
  cur_idx :: int
  dnext :: "nat option"

record dyn_data = page_data +
  mem_pool :: "nat option list"
  dynamic_node_arr :: "dynamic_node list"

definition dyn_at :: "nat \<Rightarrow> 'a dyn_data_scheme \<Rightarrow> dynamic_node option" where
  "dyn_at i s = get_at (dynamic_node_arr s) i"

definition upd_dyn ::
  "nat \<Rightarrow> (dynamic_node \<Rightarrow> dynamic_node) \<Rightarrow> 'a dyn_data_scheme \<Rightarrow> 'a dyn_data_scheme option" where
  "upd_dyn i f s = do {
     d \<leftarrow> get_at (dynamic_node_arr s) i;
     ds \<leftarrow> set_at (dynamic_node_arr s) i (f d);
     Some (s\<lparr>dynamic_node_arr := ds\<rparr>)
   }"

definition set_pool :: "nat \<Rightarrow> nat option \<Rightarrow> 'a dyn_data_scheme \<Rightarrow> 'a dyn_data_scheme option" where
  "set_pool k h s = do { ps \<leftarrow> set_at (mem_pool s) k h; Some (s\<lparr>mem_pool := ps\<rparr>) }"

text \<open>\<open>1 << n\<close> as the machine computes it.\<close>

definition shl_int :: "nat \<Rightarrow> u64" where
  "shl_int n = signed_take_bit 31 (push_bit (n mod 32) 1)"

section \<open>Operations\<close>

definition fresh_dyn_node :: "nat \<Rightarrow> dynamic_node" where
  "fresh_dyn_node i = \<lparr>addr = PAGE_SIZE * of_nat i, chunk_size = PAGE_SIZE, chunk_sum = 0,
     bitmap = replicate BITMAP_ARR 0, cur_idx = - 1, dnext = None\<rparr>"

definition dynamic_allocator_init :: "'a dyn_data_scheme \<Rightarrow> 'a dyn_data_scheme option" where
  "dynamic_allocator_init s =
     (let s = s\<lparr>mem_pool := replicate (MAX_POOL_SIZE_EXP - MIN_POOL_SIZE_EXP + 1) None\<rparr>;
          (p, s) = simple_malloc (push_bit (num_pages_exp s) 1 * 72) s
      in if p = 0 then None
         else Some (s\<lparr>dynamic_node_arr := map fresh_dyn_node [0..<2 ^ num_pages_exp s]\<rparr>))"

text \<open>The smallest exponent whose power of two holds \<open>sz\<close> bytes.\<close>

partial_function (option) size_exp_loop :: "u64 \<Rightarrow> u64 \<Rightarrow> nat \<Rightarrow> nat option" where
  "size_exp_loop sz i e = (if i < sz then size_exp_loop sz (push_bit 1 i) (e + 1) else Some e)"

text \<open>
  The search for a free chunk in one page, starting behind the chunk allocated last;
  \<open>Some None\<close>: all chunks are taken.
\<close>

partial_function (option) chunk_scan :: "dynamic_node \<Rightarrow> nat \<Rightarrow> nat \<Rightarrow> nat option option" where
  "chunk_scan d num_chunks i = do {
     w \<leftarrow> get_at (bitmap d) (i div 64);
     if w AND shl_int (i mod 64) \<noteq> 0
     then (if int i = cur_idx d then Some None else chunk_scan d num_chunks ((i + 1) mod num_chunks))
     else Some (Some i)
   }"

definition take_chunk :: "nat \<Rightarrow> dynamic_node \<Rightarrow> dynamic_node option" where
  "take_chunk i d = do {
     w \<leftarrow> get_at (bitmap d) (i div 64);
     bs \<leftarrow> set_at (bitmap d) (i div 64) (w OR shl_int (i mod 64));
     Some (d\<lparr>chunk_sum := chunk_sum d + int (i + 1), bitmap := bs, cur_idx := int i\<rparr>)
   }"

text \<open>
  The walk through the pages of one pool: either a chunk has been taken and its address is the
  result, or the last page of the pool is returned.
\<close>

partial_function (option) pool_scan ::
  "nat \<Rightarrow> nat option \<Rightarrow> nat option \<Rightarrow> 'a dyn_data_scheme \<Rightarrow> ((u64 \<times> 'a dyn_data_scheme) + nat option) option" where
  "pool_scan e prv cur s =
     (case cur of
        None \<Rightarrow> Some (Inr prv)
      | Some c \<Rightarrow> do {
          d \<leftarrow> dyn_at c s;
          let num_chunks = 4096 div 2 ^ e;
          found \<leftarrow> chunk_scan d num_chunks (nat ((cur_idx d + 1) mod int num_chunks));
          (case found of
             Some i \<Rightarrow> do {
               d' \<leftarrow> take_chunk i d;
               s \<leftarrow> upd_dyn c (\<lambda>_. d') s;
               Some (Inl (addr d' + of_nat i * chunk_size d', s))
             }
           | None \<Rightarrow> pool_scan e (Some c) (dnext d) s)
        })"

text \<open>The page that a pool gets when all its chunks are taken.\<close>

definition pool_grow :: "nat \<Rightarrow> nat option \<Rightarrow> 'a dyn_data_scheme \<Rightarrow> (u64 \<times> 'a dyn_data_scheme) option" where
  "pool_grow e prv s = do {
     (a, s) \<leftarrow> buddy_malloc 1 s;
     let i = unat (a div PAGE_SIZE);
     s \<leftarrow> (case prv of
         None \<Rightarrow> set_pool (e - MIN_POOL_SIZE_EXP) (Some i) s
       | Some p \<Rightarrow> upd_dyn p (\<lambda>d. d\<lparr>dnext := Some i\<rparr>) s);
     s \<leftarrow> upd_dyn i (\<lambda>d. d\<lparr>addr := p2v_trans_kernel a, chunk_size := push_bit e 1,
              chunk_sum := chunk_sum d + 1, bitmap := (bitmap d)[0 := (bitmap d ! 0) OR 1], cur_idx := 0\<rparr>) s;
     d \<leftarrow> dyn_at i s;
     Some (addr d, enable_int s)
   }"

definition malloc :: "u64 \<Rightarrow> 'a dyn_data_scheme \<Rightarrow> (u64 \<times> 'a dyn_data_scheme) option" where
  "malloc sz s =
     (let s = disable_int s in
      if sz = 0 then Some (0, enable_int s)
      else if PAGE_SIZE \<le> sz then do {
        (ret, s) \<leftarrow> buddy_malloc (ucast ((sz - 1) div PAGE_SIZE + 1)) s;
        Some (p2v_trans_kernel ret, enable_int s)
      }
      else do {
        e \<leftarrow> size_exp_loop sz 1 0;
        if MAX_POOL_SIZE_EXP < e then do {
          (ret, s) \<leftarrow> buddy_malloc 1 s;
          Some (p2v_trans_kernel ret, enable_int s)
        }
        else do {
          let e = max e MIN_POOL_SIZE_EXP;
          cur \<leftarrow> get_at (mem_pool s) (e - MIN_POOL_SIZE_EXP);
          r \<leftarrow> pool_scan e None cur s;
          (case r of
             Inl (p, s) \<Rightarrow> Some (p, enable_int s)
           | Inr prv \<Rightarrow> pool_grow e prv s)
        }
      })"

text \<open>The walk to the predecessor of a page in its pool.\<close>

partial_function (option) pool_find ::
  "nat \<Rightarrow> nat option \<Rightarrow> nat option \<Rightarrow> 'a dyn_data_scheme \<Rightarrow> nat option option" where
  "pool_find target prv cur s =
     (case cur of
        None \<Rightarrow> None
      | Some c \<Rightarrow> if c = target then Some prv
                  else do { d \<leftarrow> dyn_at c s; pool_find target (Some c) (dnext d) s })"

partial_function (option) log2_loop :: "u64 \<Rightarrow> int \<Rightarrow> int option" where
  "log2_loop sz e = (if 0 < sz then log2_loop (drop_bit 1 sz) (e + 1) else Some e)"

text \<open>The release of a pool page none of whose chunks is in use any more.\<close>

definition pool_shrink :: "nat \<Rightarrow> 'a dyn_data_scheme \<Rightarrow> 'a dyn_data_scheme option" where
  "pool_shrink page_idx s = do {
     d \<leftarrow> dyn_at page_idx s;
     e \<leftarrow> log2_loop (chunk_size d) (- 1);
     k \<leftarrow> (if e < int MIN_POOL_SIZE_EXP then None else Some (nat e - MIN_POOL_SIZE_EXP));
     h \<leftarrow> get_at (mem_pool s) k;
     prv \<leftarrow> pool_find page_idx None h s;
     s \<leftarrow> (case prv of
         None \<Rightarrow> set_pool k (dnext d) s
       | Some p \<Rightarrow> upd_dyn p (\<lambda>x. x\<lparr>dnext := dnext d\<rparr>) s);
     s \<leftarrow> upd_dyn page_idx (\<lambda>x. x\<lparr>chunk_size := PAGE_SIZE, chunk_sum := 0, dnext := None,
            bitmap := replicate BITMAP_ARR 0\<rparr>) s;
     s \<leftarrow> buddy_free (v2p_trans_kernel (addr d)) s;
     upd_dyn page_idx (\<lambda>x. x\<lparr>addr := of_nat page_idx * PAGE_SIZE\<rparr>) s
   }"

definition free :: "u64 \<Rightarrow> 'a dyn_data_scheme \<Rightarrow> 'a dyn_data_scheme option" where
  "free vptr s =
     (let s = disable_int s; ptr = v2p_trans_kernel vptr; page_idx = unat (ptr div PAGE_SIZE) in
      if bend s \<le> ptr then Some (print_msg ''Invalid pointer'' (enable_int s))
      else do {
        d \<leftarrow> dyn_at page_idx s;
        if chunk_size d = PAGE_SIZE then do { s \<leftarrow> buddy_free ptr s; Some (enable_int s) }
        else do {
          let chunk_idx = unat ((vptr - addr d) div chunk_size d);
          w \<leftarrow> get_at (bitmap d) (chunk_idx div 64);
          if w AND shl_int (chunk_idx mod 64) = 0
          then Some (print_msg ''The chunk is not in use'' (enable_int s))
          else do {
            bs \<leftarrow> set_at (bitmap d) (chunk_idx div 64) (w AND NOT (shl_int (chunk_idx mod 64)));
            let d = d\<lparr>chunk_sum := chunk_sum d - int (chunk_idx + 1), bitmap := bs\<rparr>;
            s \<leftarrow> upd_dyn page_idx (\<lambda>_. d) s;
            s \<leftarrow> (if chunk_sum d = 0 then pool_shrink page_idx s else Some s);
            Some (enable_int s)
          }
        }
      })"

end
