(* ===== verification/Dyn_Correct.thy ===== *)
theory Dyn_Correct
  imports Dyn_Alloc
begin

text \<open>
  Correctness of the dynamic allocator of \<open>mem.c\<close>: chunks handed out never overlap what is live,
  and releasing a live chunk or block makes exactly it available again.
\<close>

section \<open>Chunk bitmaps\<close>

text \<open>
  Because of the 32-bit shift, chunks \<open>c\<close> and \<open>c + 32\<close> of one bitmap word share their mark.  The class of
  a chunk is what a mark stands for; the allocator never has two chunks of one class live in a page.
\<close>

definition slotw :: "u64 \<Rightarrow> nat \<Rightarrow> bool" where
  "slotw w r \<longleftrightarrow> w AND shl_int r \<noteq> 0"

definition cls :: "nat \<Rightarrow> nat \<times> nat" where
  "cls c = (c div 64, c mod 32)"

definition slot :: "dynamic_node \<Rightarrow> nat \<Rightarrow> bool" where
  "slot d c \<longleftrightarrow> slotw (bitmap d ! (c div 64)) (c mod 64)"

lemma bit_shl_int: "bit (shl_int r) j \<longleftrightarrow> j < 64 \<and> min j 31 = r mod 32"
  unfolding shl_int_def by (auto simp: bit_signed_take_bit_iff bit_push_bit_iff bit_1_iff bit_exp_iff min.commute)

lemma slotw_iff: "slotw w r \<longleftrightarrow> (\<exists>j < 64. min j 31 = r mod 32 \<and> bit w j)"
proof -
  have "slotw w r \<longleftrightarrow> (\<exists>j. bit (w AND shl_int r) j)"
    unfolding slotw_def by (metis bit_0_eq bit_eq_iff bot_apply bot_bool_def)
  then show ?thesis by (auto simp: bit_and_iff bit_shl_int)
qed

lemma mod_32_in_range: "r mod 32 < 64" "min (r mod 32) 31 = r mod 32" for r :: nat
  by (simp_all add: min_def)

lemma slotw_or: "slotw (w OR shl_int r) q \<longleftrightarrow> slotw w q \<or> q mod 32 = r mod 32"
  unfolding slotw_iff bit_or_iff bit_shl_int using mod_32_in_range [of r] by metis

lemma slotw_and_not: "slotw (w AND NOT (shl_int r)) q \<longleftrightarrow> slotw w q \<and> q mod 32 \<noteq> r mod 32"
  unfolding slotw_iff by (auto simp: bit_and_iff bit_not_iff bit_shl_int)

lemma slotw_0 [simp]: "\<not> slotw 0 q"
  by (simp add: slotw_def)

lemma shl_int_0: "shl_int 0 = 1"
  by (rule bit_eqI) (auto simp: bit_shl_int bit_1_iff min_def split: if_splits)

lemma cls_mod: "c mod 64 mod 32 = c mod 32" for c :: nat
  by (simp add: mod_mod_cancel)

lemma slot_take:
  assumes "length (bitmap d) = 4" "i < 256" "c < 256"
    "take_chunk i d = Some d'"
  shows "slot d' c \<longleftrightarrow> slot d c \<or> cls c = cls i" "length (bitmap d') = 4"
  using assms by (auto simp: take_chunk_def slot_def cls_def slotw_or cls_mod nth_list_update bind_eq_Some_conv split: if_splits)

lemma slot_drop:
  assumes "length (bitmap d) = 4" "i < 256" "c < 256"
  shows "slot (d\<lparr>chunk_sum := n, bitmap := (bitmap d)[i div 64 := (bitmap d ! (i div 64)) AND NOT (shl_int (i mod 64))]\<rparr>) c
     \<longleftrightarrow> slot d c \<and> cls c \<noteq> cls i"
  using assms by (auto simp: slot_def cls_def slotw_and_not cls_mod nth_list_update)

section \<open>One page of a pool\<close>

text \<open>Pool \<open>k\<close> has chunks of \<open>2 ^ (k + 4)\<close> bytes, \<open>2 ^ (8 - k)\<close> of them in a page.\<close>

definition page_ptr_v :: "nat \<Rightarrow> u64" where
  "page_ptr_v i = p2v_trans_kernel (of_nat i * PAGE_SIZE)"

definition node_ok :: "nat \<Rightarrow> nat \<Rightarrow> nat set \<Rightarrow> dynamic_node \<Rightarrow> bool" where
  "node_ok k i C d \<longleftrightarrow> addr d = page_ptr_v i \<and> chunk_size d = 2 ^ (k + 4) \<and> length (bitmap d) = 4
     \<and> C \<subseteq> {..<2 ^ (8 - k)} \<and> C \<noteq> {} \<and> inj_on cls C \<and> (\<forall>c < 256. slot d c \<longleftrightarrow> cls c \<in> cls ` C)
     \<and> chunk_sum d = int (\<Sum>c\<in>C. c + 1) \<and> 0 \<le> cur_idx d \<and> cur_idx d < 2 ^ (8 - k)"

definition idle_node :: "dynamic_node \<Rightarrow> bool" where
  "idle_node d \<longleftrightarrow> chunk_size d = PAGE_SIZE \<and> chunk_sum d = 0 \<and> dnext d = None \<and> bitmap d = replicate 4 0"

lemma pow_8_le: "(2::nat) ^ (8 - k) \<le> 256" "(0::nat) < 2 ^ (8 - k)"
  using power_increasing [of "8 - k" 8 "2::nat"] by simp_all

lemma chunk_scan_step:
  assumes "length (bitmap d) = 4" "i < 256"
  shows "chunk_scan d n i =
     (if slot d i then (if int i = cur_idx d then Some None else chunk_scan d n ((i + 1) mod n)) else Some (Some i))"
proof -
  have "i div 64 < length (bitmap d)" using assms by simp
  then show ?thesis by (subst chunk_scan.simps) (simp add: slot_def slotw_def)
qed

lemma cyc_dist: "i < n \<Longrightarrow> c < n \<Longrightarrow> (c + n - i) mod n = (if i \<le> c then c - i else c + n - i)" for c :: nat
  by (cases "i \<le> c") (auto simp: le_mod_geq)

lemma chunk_scan_ok:
  assumes "length (bitmap d) = 4" "n \<le> 256" "0 \<le> cur_idx d" "cur_idx d < int n"
  shows "i < n \<Longrightarrow> \<exists>r. chunk_scan d n i = Some r \<and> (\<forall>j. r = Some j \<longrightarrow> j < n \<and> \<not> slot d j)"
proof (induction "(nat (cur_idx d) + n - i) mod n" arbitrary: i)
  case 0
  have "nat (cur_idx d) < n" using assms(3,4) by linarith
  then have "int i = cur_idx d" using cyc_dist [OF 0(2), of "nat (cur_idx d)"] 0 assms(3)
    by (auto split: if_splits)
  then show ?case using chunk_scan_step [OF assms(1), of i n] 0(2) assms(2) by auto
next
  case (Suc m)
  have c: "nat (cur_idx d) < n" using assms(3,4) by linarith
  have i': "(i + 1) mod n < n" using Suc.prems by simp
  have "m = (nat (cur_idx d) + n - (i + 1) mod n) mod n"
    using cyc_dist [OF Suc.prems c] cyc_dist [OF i' c] Suc.hyps(2) Suc.prems c
    by (cases "i + 1 = n") (auto split: if_splits, arith)
  then obtain r where r: "chunk_scan d n ((i + 1) mod n) = Some r" "\<forall>j. r = Some j \<longrightarrow> j < n \<and> \<not> slot d j"
    using Suc.hyps(1) i' by blast
  then show ?case using chunk_scan_step [OF assms(1), of i n] Suc.prems assms(2) by auto
qed

lemma take_chunk_ok:
  assumes N: "node_ok k i C d" and c: "c < 2 ^ (8 - k)" "\<not> slot d c"
  shows "\<exists>d'. take_chunk c d = Some d' \<and> node_ok k i (insert c C) d' \<and> c \<notin> C \<and> dnext d' = dnext d
     \<and> addr d' = addr d \<and> chunk_size d' = chunk_size d"
proof -
  have b: "length (bitmap d) = 4" "c < 256" using N c(1) pow_8_le(1) [of k] by (auto simp: node_ok_def)
  then have "c div 64 < length (bitmap d)" by simp
  then obtain d' where d': "take_chunk c d = Some d'" "chunk_sum d' = chunk_sum d + int (c + 1)" "dnext d' = dnext d"
    "addr d' = addr d" "chunk_size d' = chunk_size d" "cur_idx d' = int c"
    by (auto simp: take_chunk_def)
  have fin: "finite C" using N finite_subset by (auto simp: node_ok_def)
  have s: "\<And>x. x < 256 \<Longrightarrow> slot d x \<longleftrightarrow> cls x \<in> cls ` C" and inj: "inj_on cls C" using N by (auto simp: node_ok_def)
  then have nc: "cls c \<notin> cls ` C" using c(2) b(2) by blast
  then have "c \<notin> C" by blast
  moreover have "node_ok k i (insert c C) d'"
    using N c(1) d' slot_take(1) [OF b(1,2) _ d'(1)] slot_take(2) [OF b(1,2,2) d'(1)] s nc inj \<open>c \<notin> C\<close> fin
    by (auto simp: node_ok_def)
  ultimately show ?thesis using d' by blast
qed

lemma drop_chunk_ok:
  assumes N: "node_ok k i C d" and c: "c \<in> C"
  defines "d' \<equiv> d\<lparr>chunk_sum := chunk_sum d - int (c + 1), bitmap := (bitmap d)[c div 64 := (bitmap d ! (c div 64)) AND NOT (shl_int (c mod 64))]\<rparr>"
  shows "slot d c" "chunk_sum d' = 0 \<longleftrightarrow> C = {c}" "C \<noteq> {c} \<Longrightarrow> node_ok k i (C - {c}) d'"
proof -
  have C: "C \<subseteq> {..<2 ^ (8 - k)}" "inj_on cls C" "\<And>x. x < 256 \<Longrightarrow> slot d x \<longleftrightarrow> cls x \<in> cls ` C"
    "length (bitmap d) = 4" "chunk_sum d = int (\<Sum>c\<in>C. c + 1)" using N by (auto simp: node_ok_def)
  have c256: "c < 256" using c C(1) pow_8_le(1) [of k] by force
  then show "slot d c" using C(3) c by blast
  have fin: "finite C" using C(1) finite_subset by blast
  have sm: "chunk_sum d' = int (\<Sum>x\<in>C - {c}. x + 1)"
  proof -
    have "(\<Sum>x\<in>C. x + 1) = (c + 1) + (\<Sum>x\<in>C - {c}. x + 1)" by (rule sum.remove [OF fin c])
    then show ?thesis unfolding d'_def using C(5) by (simp only: dynamic_node.simps) simp
  qed
  show "chunk_sum d' = 0 \<longleftrightarrow> C = {c}"
  proof
    assume "chunk_sum d' = 0"
    then have "(\<Sum>x\<in>C - {c}. x + 1) = 0" using sm of_nat_eq_0_iff by metis
    then have "C - {c} = {}" using fin by (auto simp del: sum.insert_remove simp: sum_eq_0_iff)
    then show "C = {c}" using c by blast
  qed (simp add: sm)
  have "cls ` (C - {c}) = cls ` C - {cls c}" using C(2) c by (auto simp: inj_on_def)
  then have "slot d' x \<longleftrightarrow> cls x \<in> cls ` (C - {c})" if "x < 256" for x
    using slot_drop [OF C(4) c256 that] C(3) [OF that] by (auto simp: d'_def)
  moreover have "addr d' = addr d" "chunk_size d' = chunk_size d" "cur_idx d' = cur_idx d" "length (bitmap d') = 4"
    using C(4) by (auto simp: d'_def)
  ultimately show "node_ok k i (C - {c}) d'" if "C \<noteq> {c}"
    using N that c sm inj_on_subset [OF C(2), of "C - {c}"] by (auto simp: node_ok_def)
qed

lemma first_chunk_ok:
  assumes "idle_node d" "k < 8"
  shows "node_ok k i {0} (d\<lparr>addr := page_ptr_v i, chunk_size := push_bit (k + 4) 1,
     chunk_sum := chunk_sum d + 1, bitmap := (bitmap d)[0 := (bitmap d ! 0) OR 1], cur_idx := 0\<rparr>)"
proof -
  have "slot (d\<lparr>addr := page_ptr_v i, chunk_size := push_bit (k + 4) 1,
     chunk_sum := chunk_sum d + 1, bitmap := (bitmap d)[0 := (bitmap d ! 0) OR 1], cur_idx := 0\<rparr>) c \<longleftrightarrow> cls c = cls 0" if "c < 256" for c
    using assms(1) that slotw_or [of 0 0 "c mod 64"]
    by (auto simp: slot_def idle_node_def cls_def shl_int_0 cls_mod nth_list_update nth_replicate)
  then show ?thesis using assms pow_8_le [of k] by (auto simp: node_ok_def idle_node_def push_bit_eq_mult)
qed

section \<open>The pools\<close>

fun sll :: "(nat \<Rightarrow> nat option) \<Rightarrow> nat option \<Rightarrow> nat list \<Rightarrow> bool" where
  "sll X h [] \<longleftrightarrow> h = None"
| "sll X h (a # as) \<longleftrightarrow> h = Some a \<and> sll X (X a) as"

lemma sll_frame: "(\<And>a. a \<in> set xs \<Longrightarrow> X' a = X a) \<Longrightarrow> sll X' h xs = sll X h xs"
  by (induction xs arbitrary: h) auto

lemma sll_head: "sll X h xs \<Longrightarrow> h = (if xs = [] then None else Some (hd xs))"
  by (cases xs) auto

lemma sll_suffix: "sll X h (ys @ zs) \<Longrightarrow> \<exists>h'. sll X h' zs"
  by (induction ys arbitrary: h) auto

lemma sll_next: "sll X h (ys @ a # zs) \<Longrightarrow> X a = (if zs = [] then None else Some (hd zs))"
  by (induction ys arbitrary: h) (auto dest: sll_head)

lemma sll_upd [simp]: "a \<notin> set xs \<Longrightarrow> sll (X(a := v)) h xs = sll X h xs"
  by (rule sll_frame) auto

lemma sll_snoc:
  "sll X h xs \<Longrightarrow> distinct xs \<Longrightarrow> i \<notin> set xs \<Longrightarrow> X i = None \<Longrightarrow> xs \<noteq> [] \<Longrightarrow>
     sll (X(last xs := Some i)) h (xs @ [i])"
proof (induction xs arbitrary: h)
  case (Cons a xs)
  then show ?case by (cases "xs = []") auto
qed simp

lemma sll_remove:
  "sll X h (ys @ a # zs) \<Longrightarrow> distinct (ys @ a # zs) \<Longrightarrow> ys \<noteq> [] \<Longrightarrow>
     sll (X(last ys := X a)) h (ys @ zs)"
proof (induction ys arbitrary: h)
  case (Cons b ys)
  show ?case
  proof (cases "ys = []")
    case True
    then have "b \<notin> set zs" "sll X (X a) zs" "h = Some b" "X b = Some a" using Cons.prems by auto
    then have "sll (X(b := X a)) (X a) zs" by simp
    then show ?thesis using True \<open>h = Some b\<close> by (simp add: fun_upd_def)
  next
    case False
    then show ?thesis using Cons by auto
  qed
qed simp

text \<open>
  The allocator's invariant, with the ghost components \<open>PL\<close> (the pages of each pool) and \<open>C\<close> (the live
  chunks of each pool page).
\<close>

definition dyn_rel :: "(nat \<Rightarrow> nat list) \<Rightarrow> (nat \<Rightarrow> nat set) \<Rightarrow> 'a dyn_data_scheme \<Rightarrow> bool" where
  "dyn_rel PL C s \<longleftrightarrow> buddy_ok s \<and> length (mem_pool s) = 8
     \<and> length (dynamic_node_arr s) = 2 ^ num_pages_exp s
     \<and> (\<forall>k < 8. distinct (PL k) \<and> sll (\<lambda>i. dnext (dynamic_node_arr s ! i)) (mem_pool s ! k) (PL k))
     \<and> (\<forall>k < 8. \<forall>i \<in> set (PL k). used_at (arr s) i 0 \<and> node_ok k i (C i) (dynamic_node_arr s ! i))
     \<and> (\<forall>k < 8. \<forall>l < 8. k \<noteq> l \<longrightarrow> set (PL k) \<inter> set (PL l) = {})
     \<and> (\<forall>i < 2 ^ num_pages_exp s. (\<forall>k < 8. i \<notin> set (PL k)) \<longrightarrow> idle_node (dynamic_node_arr s ! i))"

definition pooled :: "(nat \<Rightarrow> nat list) \<Rightarrow> nat set" where
  "pooled PL = (\<Union>k<8. set (PL k))"

lemma dyn_relD:
  assumes "dyn_rel PL C s"
  shows "buddy_ok s" "length (mem_pool s) = 8" "length (dynamic_node_arr s) = 2 ^ num_pages_exp s"
    "\<And>k. k < 8 \<Longrightarrow> distinct (PL k)"
    "\<And>k. k < 8 \<Longrightarrow> sll (\<lambda>i. dnext (dynamic_node_arr s ! i)) (mem_pool s ! k) (PL k)"
    "\<And>k i. k < 8 \<Longrightarrow> i \<in> set (PL k) \<Longrightarrow> used_at (arr s) i 0"
    "\<And>k i. k < 8 \<Longrightarrow> i \<in> set (PL k) \<Longrightarrow> node_ok k i (C i) (dynamic_node_arr s ! i)"
    "\<And>k l. k < 8 \<Longrightarrow> l < 8 \<Longrightarrow> k \<noteq> l \<Longrightarrow> set (PL k) \<inter> set (PL l) = {}"
    "\<And>i. i < 2 ^ num_pages_exp s \<Longrightarrow> i \<notin> pooled PL \<Longrightarrow> idle_node (dynamic_node_arr s ! i)"
    "\<And>k i. k < 8 \<Longrightarrow> i \<in> set (PL k) \<Longrightarrow> i < 2 ^ num_pages_exp s"
  using assms
proof -
  show "i < 2 ^ num_pages_exp s" if "k < 8" "i \<in> set (PL k)" for k i
  proof -
    have "used_at (arr s) i 0" "part_ok (num_pages_exp s) (arr s)" using assms that by (auto simp: dyn_rel_def buddy_ok_def)
    then show ?thesis using part_okD(2) by (fastforce simp: used_at_def)
  qed
qed (use assms in \<open>auto simp: dyn_rel_def pooled_def\<close>)

lemma dyn_fields [simp]:
  "dyn_at i (s\<lparr>dynamic_node_arr := ds\<rparr>) = get_at ds i"
  "mem_pool (disable_int s) = mem_pool s" "mem_pool (enable_int s) = mem_pool s"
  "dynamic_node_arr (disable_int s) = dynamic_node_arr s" "dynamic_node_arr (enable_int s) = dynamic_node_arr s"
  "mem_pool (print_msg m s) = mem_pool s" "dynamic_node_arr (print_msg m s) = dynamic_node_arr s"
  by (simp_all add: dyn_at_def disable_int_def enable_int_def print_msg_def Let_def)

lemma upd_dyn_Some [simp]:
  "i < length (dynamic_node_arr s) \<Longrightarrow>
     upd_dyn i f s = Some (s\<lparr>dynamic_node_arr := (dynamic_node_arr s)[i := f (dynamic_node_arr s ! i)]\<rparr>)"
  by (simp add: upd_dyn_def)

lemma dyn_at_Some [simp]: "i < length (dynamic_node_arr s) \<Longrightarrow> dyn_at i s = Some (dynamic_node_arr s ! i)"
  by (simp add: dyn_at_def)

lemma set_pool_Some [simp]: "k < length (mem_pool s) \<Longrightarrow> set_pool k h s = Some (s\<lparr>mem_pool := (mem_pool s)[k := h]\<rparr>)"
  by (simp add: set_pool_def)

text \<open>The walk through a pool: a chunk is taken in one of its pages, or its last page is found.\<close>

lemma pool_scan_ok:
  assumes R: "dyn_rel PL C s" and k: "k < 8"
  shows "PL k = ys @ zs \<Longrightarrow> cur = (if zs = [] then None else Some (hd zs)) \<Longrightarrow>
     prv = (if ys = [] then None else Some (last ys)) \<Longrightarrow>
     (\<exists>i c d'. i \<in> set zs \<and> c < 2 ^ (8 - k) \<and> c \<notin> C i \<and> node_ok k i (insert c (C i)) d'
        \<and> dnext d' = dnext (dynamic_node_arr s ! i)
        \<and> pool_scan (k + 4) prv cur s =
            Some (Inl (page_ptr_v i + of_nat c * 2 ^ (k + 4), s\<lparr>dynamic_node_arr := (dynamic_node_arr s)[i := d']\<rparr>)))
     \<or> pool_scan (k + 4) prv cur s = Some (Inr (if PL k = [] then None else Some (last (PL k))))"
proof (induction zs arbitrary: ys cur prv)
  case Nil
  then show ?case by (subst pool_scan.simps) simp
next
  case (Cons i zs)
  let ?d = "dynamic_node_arr s ! i"
  have i: "i \<in> set (PL k)" "i < 2 ^ num_pages_exp s" using Cons.prems(1) dyn_relD(10) [OF R k] by auto
  have N: "node_ok k i (C i) ?d" using dyn_relD(7) [OF R k i(1)] .
  have nx: "dnext ?d = (if zs = [] then None else Some (hd zs))"
    using sll_next [of "\<lambda>i. dnext (dynamic_node_arr s ! i)" "mem_pool s ! k" ys i zs] dyn_relD(5) [OF R k] Cons.prems(1) by simp
  have num: "4096 div 2 ^ (k + 4) = (2::nat) ^ (8 - k)"
  proof -
    have "(4096::nat) = 2 ^ (8 - k) * 2 ^ (k + 4)" using k by (simp flip: power_add)
    then show ?thesis by (metis nonzero_mult_div_cancel_right power_not_zero zero_neq_numeral)
  qed
  have cur: "length (bitmap ?d) = 4" "0 \<le> cur_idx ?d" "cur_idx ?d < int (2 ^ (8 - k))"
    using N by (auto simp: node_ok_def)
  let ?i0 = "nat ((cur_idx ?d + 1) mod int (2 ^ (8 - k)))"
  have "?i0 < 2 ^ (8 - k)"
    using pos_mod_bound [of "int (2 ^ (8 - k))" "cur_idx ?d + 1"] by (simp add: nat_less_iff)
  then obtain r where r: "chunk_scan ?d (2 ^ (8 - k)) ?i0 = Some r" "\<forall>j. r = Some j \<longrightarrow> j < 2 ^ (8 - k) \<and> \<not> slot ?d j"
    using chunk_scan_ok [OF cur(1) pow_8_le(1) cur(2,3)] by blast
  have step: "pool_scan (k + 4) prv cur s = (case r of
       Some c \<Rightarrow> do { d' \<leftarrow> take_chunk c ?d; s \<leftarrow> upd_dyn i (\<lambda>_. d') s;
          Some (Inl (addr d' + of_nat c * chunk_size d', s)) }
     | None \<Rightarrow> pool_scan (k + 4) (Some i) (dnext ?d) s)"
    using Cons.prems(2) r(1) i(2) dyn_relD(3) [OF R] num by (subst pool_scan.simps) (simp split: option.split)
  show ?case
  proof (cases r)
    case None
    then have eq: "pool_scan (k + 4) prv cur s = pool_scan (k + 4) (Some i) (dnext ?d) s" using step by simp
    have "PL k = (ys @ [i]) @ zs" "Some i = (if ys @ [i] = [] then None else Some (last (ys @ [i])))"
      using Cons.prems(1) by simp_all
    then show ?thesis using Cons.IH [OF _ nx] unfolding eq list.set by blast
  next
    case (Some c)
    then have c: "c < 2 ^ (8 - k)" "\<not> slot ?d c" using r(2) by auto
    obtain d' where d': "take_chunk c ?d = Some d'" "node_ok k i (insert c (C i)) d'" "c \<notin> C i"
      "dnext d' = dnext ?d" "addr d' = addr ?d" "chunk_size d' = chunk_size ?d"
      using take_chunk_ok [OF N c] by blast
    have "addr d' + of_nat c * chunk_size d' = page_ptr_v i + of_nat c * 2 ^ (k + 4)"
      using d'(2) by (simp add: node_ok_def)
    then have "pool_scan (k + 4) prv cur s =
       Some (Inl (page_ptr_v i + of_nat c * 2 ^ (k + 4), s\<lparr>dynamic_node_arr := (dynamic_node_arr s)[i := d']\<rparr>))"
      using step Some d'(1) i(2) dyn_relD(3) [OF R] by simp
    then show ?thesis using c(1) d'(2-4) by (intro disjI1 exI [of _ i] exI [of _ c] exI [of _ d']) simp
  qed
qed

end
