(* ===== verification/Dyn_Malloc.thy ===== *)
theory Dyn_Malloc
  imports Dyn_Correct
begin

text \<open>
  The byte ranges that \<open>malloc\<close> has handed out, that they never overlap, and that every request the
  free memory can serve adds one fresh range.
\<close>

section \<open>What is live\<close>

text \<open>
  The byte ranges handed out, as pairs of a physical start and a length: the live chunks of the pool
  pages, and the blocks in use that are not pool pages.
\<close>

definition chunk_range :: "nat \<Rightarrow> nat \<Rightarrow> nat \<Rightarrow> nat \<times> nat" where
  "chunk_range k i c = (i * 4096 + c * 2 ^ (k + 4), 2 ^ (k + 4))"

definition block_range :: "nat \<Rightarrow> nat \<Rightarrow> nat \<times> nat" where
  "block_range i e = (i * 4096, 2 ^ e * 4096)"

definition live_ranges :: "(nat \<Rightarrow> nat list) \<Rightarrow> (nat \<Rightarrow> nat set) \<Rightarrow> 'a dyn_data_scheme \<Rightarrow> (nat \<times> nat) set" where
  "live_ranges PL C s =
     {chunk_range k i c | k i c. k < 8 \<and> i \<in> set (PL k) \<and> c \<in> C i}
     \<union> {block_range i e | i e. used_at (arr s) i e \<and> e \<le> num_pages_exp s \<and> i \<notin> pooled PL}"

definition dyn_live :: "'a dyn_data_scheme \<Rightarrow> (nat \<times> nat) set \<Rightarrow> bool" where
  "dyn_live s L \<longleftrightarrow> (\<exists>PL C. dyn_rel PL C s \<and> L = live_ranges PL C s)"

definition range_of :: "nat \<times> nat \<Rightarrow> nat set" where
  "range_of x = {fst x..<fst x + snd x}"

lemma dyn_pages:
  assumes "dyn_rel PL C s"
  shows "num_pages_exp s \<le> 30" "part_ok (num_pages_exp s) (arr s)" "length (arr s) = 2 ^ num_pages_exp s"
  using dyn_relD(1) [OF assms] part_okD by (auto simp: buddy_ok_def)

lemma live_range_cases:
  assumes "x \<in> live_ranges PL C s"
  obtains (chunk) k i c where "k < 8" "i \<in> set (PL k)" "c \<in> C i" "x = chunk_range k i c"
    | (block) i e where "used_at (arr s) i e" "e \<le> num_pages_exp s" "i \<notin> pooled PL" "x = block_range i e"
  using assms by (auto simp: live_ranges_def)

lemma pages_of_chunks: "k < 8 \<Longrightarrow> 2 ^ (8 - k) * 2 ^ (k + 4) = (4096::nat)"
  by (simp flip: power_add)

lemma chunk_in_page:
  assumes "k < 8" "c < 2 ^ (8 - k)"
  shows "c * 2 ^ (k + 4) + 2 ^ (k + 4) \<le> (4096::nat)"
proof -
  have "(c + 1) * 2 ^ (k + 4) \<le> 2 ^ (8 - k) * (2::nat) ^ (k + 4)" using assms(2) by (intro mult_le_mono1) simp
  then show ?thesis using pages_of_chunks [OF assms(1)] by (simp add: algebra_simps)
qed

text \<open>Every live range lies in one block in use; it is the whole block, or a chunk of a pool page.\<close>

lemma live_block_kind:
  assumes R: "dyn_rel PL C s" and "x \<in> live_ranges PL C s"
  shows "\<exists>i e. used_at (arr s) i e \<and> e \<le> num_pages_exp s \<and> i * 4096 \<le> fst x \<and> fst x + snd x \<le> (i + 2 ^ e) * 4096
     \<and> (i \<in> pooled PL \<longrightarrow> (\<exists>k c. k < 8 \<and> i \<in> set (PL k) \<and> x = chunk_range k i c))
     \<and> (i \<notin> pooled PL \<longrightarrow> x = block_range i e)"
  using assms(2)
proof (cases rule: live_range_cases)
  case (chunk k i c)
  have "c < 2 ^ (8 - k)" using dyn_relD(7) [OF R chunk(1,2)] chunk(3) by (auto simp: node_ok_def)
  then have "c * 2 ^ (k + 4) + 2 ^ (k + 4) \<le> (4096::nat)" by (rule chunk_in_page [OF chunk(1)])
  then have "i * 4096 \<le> fst x" "fst x + snd x \<le> (i + 2 ^ 0) * 4096" using chunk(4) by (auto simp: chunk_range_def)
  moreover have "i \<in> pooled PL" using chunk(1,2) by (auto simp: pooled_def)
  ultimately show ?thesis using dyn_relD(6) [OF R chunk(1,2)] chunk by (intro exI [of _ i] exI [of _ 0]) blast
next
  case (block i e)
  then show ?thesis by (intro exI [of _ i] exI [of _ e]) (simp add: block_range_def algebra_simps)
qed

lemma live_disjoint_pages:
  assumes R: "dyn_rel PL C s" and u: "used_at (arr s) i d" "used_at (arr s) j e" "d \<le> num_pages_exp s" "e \<le> num_pages_exp s" "i \<noteq> j"
    and x: "i * 4096 \<le> fst x" "fst x + snd x \<le> (i + 2 ^ d) * 4096"
    and y: "j * 4096 \<le> fst y" "fst y + snd y \<le> (j + 2 ^ e) * 4096"
  shows "range_of x \<inter> range_of y = {}"
proof -
  have "{i..<i + 2 ^ d} \<inter> {j..<j + 2 ^ e} = {}"
    using used_disjoint [OF _ u(1-5)] dyn_relD(1) [OF R] by (simp add: buddy_ok_def)
  then have "i + 2 ^ d \<le> j \<or> j + 2 ^ e \<le> i" by (auto simp: ivl_disj_un)
  then have "(i + 2 ^ d) * 4096 \<le> j * 4096 \<or> (j + 2 ^ e) * 4096 \<le> i * 4096"
    by (metis mult_le_mono1)
  then show ?thesis using x y by (auto simp: range_of_def)
qed

lemma live_disjoint:
  assumes R: "dyn_rel PL C s" and xy: "x \<in> live_ranges PL C s" "y \<in> live_ranges PL C s" "x \<noteq> y"
  shows "range_of x \<inter> range_of y = {}"
proof -
  have same: "range_of x \<inter> range_of y = {}"
    if "k < 8" "i \<in> set (PL k)" "l < 8" "i \<in> set (PL l)" "x = chunk_range k i c"
      "y = chunk_range l i d" for k l i c d
  proof -
    have "k = l" using dyn_relD(8) [OF R that(1,3)] that(2,4) by blast
    then have "c < d \<or> d < c" using that xy(3) by (metis linorder_neqE_nat)
    then have "(c + 1) * 2 ^ (k + 4) \<le> d * 2 ^ (k + 4) \<or> (d + 1) * 2 ^ (k + 4) \<le> c * (2::nat) ^ (k + 4)"
      by (metis Suc_eq_plus1 Suc_leI mult_le_mono1)
    then show ?thesis using that(5,6) \<open>k = l\<close> by (auto simp: range_of_def chunk_range_def algebra_simps)
  qed
  obtain i d where x: "used_at (arr s) i d" "d \<le> num_pages_exp s" "i * 4096 \<le> fst x" "fst x + snd x \<le> (i + 2 ^ d) * 4096"
    "i \<in> pooled PL \<longrightarrow> (\<exists>k c. k < 8 \<and> i \<in> set (PL k) \<and> x = chunk_range k i c)"
    "i \<notin> pooled PL \<longrightarrow> x = block_range i d"
    using live_block_kind [OF R xy(1)] by blast
  obtain j e where y: "used_at (arr s) j e" "e \<le> num_pages_exp s" "j * 4096 \<le> fst y" "fst y + snd y \<le> (j + 2 ^ e) * 4096"
    "j \<in> pooled PL \<longrightarrow> (\<exists>k c. k < 8 \<and> j \<in> set (PL k) \<and> y = chunk_range k j c)"
    "j \<notin> pooled PL \<longrightarrow> y = block_range j e"
    using live_block_kind [OF R xy(2)] by blast
  show ?thesis
  proof (cases "i = j")
    case True
    have "d = e" using x(1,2) y(1,2) True dyn_pages(1) [OF R] neg_exp_inj [of d e] by (simp add: used_at_def)
    then have "i \<in> pooled PL" using x(6) y(6) True xy(3) by auto
    then show ?thesis using x(5) y(5) True same by blast
  next
    case False
    then show ?thesis using live_disjoint_pages [OF R x(1) y(1) x(2) y(2) _ x(3,4) y(3,4)] by blast
  qed
qed

section \<open>Invariant under the elementary updates\<close>

lemma dyn_rel_int [simp]: "dyn_rel PL C s \<Longrightarrow> dyn_rel PL C (disable_int s)"
  "live_ranges PL C (disable_int s) = live_ranges PL C s"
  by (simp_all add: dyn_rel_def live_ranges_def)

lemma dyn_rel_enable:
  assumes "dyn_rel PL C s" "daif_masked s"
  shows "dyn_rel PL C (enable_int s)" "live_ranges PL C (enable_int s) = live_ranges PL C s"
  using assms by (simp_all add: dyn_rel_def live_ranges_def buddy_ok_def)

text \<open>What the allocator leaves alone: the interrupt state, the console, the amount of memory, and every component above it.\<close>

definition outside :: "'a dyn_data_scheme \<Rightarrow> 'a dyn_data_scheme \<Rightarrow> bool" where
  "outside s s' \<longleftrightarrow> irq_nested_count s' = irq_nested_count s \<and> daif_masked s' = daif_masked s \<and> console s' = console s
     \<and> usr_pages s' = usr_pages s \<and> num_pages_exp s' = num_pages_exp s \<and> dyn_data.more s' = dyn_data.more s"

lemma outsideD:
  assumes "outside s s'"
  shows "irq_nested_count s' = irq_nested_count s" "daif_masked s' = daif_masked s" "console s' = console s"
    "usr_pages s' = usr_pages s" "dyn_data.more s' = dyn_data.more s" "num_pages_exp s' = num_pages_exp s"
  using assms by (auto simp: outside_def)

lemma outside_relinked: "relinked s a s' \<Longrightarrow> outside s s'"
  by (auto simp: relinked_def with_lists_def outside_def)

lemma outside_upd [simp]:
  "outside s (s'\<lparr>dynamic_node_arr := ds\<rparr>) = outside s s'" "outside s (s'\<lparr>mem_pool := ps\<rparr>) = outside s s'"
  "outside (s\<lparr>dynamic_node_arr := ds\<rparr>) s' = outside s s'" "outside (s\<lparr>mem_pool := ps\<rparr>) s' = outside s s'"
  "outside s s"
  by (auto simp: outside_def)

lemma outside_critical: "irq_ok s \<Longrightarrow> outside (disable_int s) s' \<Longrightarrow> outside s (enable_int s')"
  by (auto simp: outside_def irq_ok_def enable_int_def disable_int_def Let_def)

lemma dyn_rel_node:
  assumes R: "dyn_rel PL C s" and k: "k < 8" "i \<in> set (PL k)"
    and d: "node_ok k i D d" "dnext d = dnext (dynamic_node_arr s ! i)"
  shows "dyn_rel PL (C(i := D)) (s\<lparr>dynamic_node_arr := (dynamic_node_arr s)[i := d]\<rparr>)"
proof -
  let ?ds = "(dynamic_node_arr s)[i := d]"
  have i: "i < length (dynamic_node_arr s)" using dyn_relD(3,10) [OF R] k by simp
  have X: "(\<lambda>j. dnext (?ds ! j)) = (\<lambda>j. dnext (dynamic_node_arr s ! j))"
    using d(2) i by (auto simp: nth_list_update)
  have "node_ok l j ((C(i := D)) j) (?ds ! j)" if "l < 8" "j \<in> set (PL l)" for l j
  proof (cases "j = i")
    case True
    then have "l = k" using dyn_relD(8) [OF R that(1) k(1)] that(2) k(2) by blast
    then show ?thesis using True d(1) i by simp
  qed (use dyn_relD(7) [OF R that] in simp)
  moreover have "idle_node (?ds ! j)" if "j < 2 ^ num_pages_exp s" "\<forall>k < 8. j \<notin> set (PL k)" for j
    using dyn_relD(9) [OF R that(1)] that(2) k by (cases "j = i") (auto simp: pooled_def)
  moreover have "buddy_ok (s\<lparr>dynamic_node_arr := ?ds\<rparr>)" using dyn_relD(1) [OF R] by (simp add: buddy_ok_def irq_ok_def)
  ultimately show ?thesis using dyn_relD [OF R] X by (simp add: dyn_rel_def)
qed

text \<open>
  How the live ranges follow the ghost components: one more chunk in a page, and one more page in
  a pool (with one chunk), which the buddy allocator has just handed out.
\<close>

lemma live_rangesI:
  "k < 8 \<Longrightarrow> i \<in> set (PL k) \<Longrightarrow> c \<in> C i \<Longrightarrow> chunk_range k i c \<in> live_ranges PL C s"
  "used_at (arr s) i e \<Longrightarrow> e \<le> num_pages_exp s \<Longrightarrow> i \<notin> pooled PL \<Longrightarrow> block_range i e \<in> live_ranges PL C s"
  by (auto simp: live_ranges_def)

lemma pool_unique: "dyn_rel PL C s \<Longrightarrow> k < 8 \<Longrightarrow> l < 8 \<Longrightarrow> i \<in> set (PL k) \<Longrightarrow> i \<in> set (PL l) \<Longrightarrow> l = k"
  using dyn_relD(8) by blast

lemma live_ranges_chunk:
  assumes R: "dyn_rel PL C s" and k: "k < 8" "i \<in> set (PL k)"
  shows "live_ranges PL (C(i := insert c (C i))) s = insert (chunk_range k i c) (live_ranges PL C s)"
proof (intro set_eqI iffI)
  fix x assume "x \<in> live_ranges PL (C(i := insert c (C i))) s"
  then show "x \<in> insert (chunk_range k i c) (live_ranges PL C s)"
  proof (cases rule: live_range_cases)
    case (chunk l j d)
    show ?thesis
    proof (cases "j = i \<and> d = c")
      case True
      then show ?thesis using chunk pool_unique [OF R k(1) chunk(1) k(2)] by simp
    next
      case False
      then have "d \<in> C j" using chunk(3) by (auto split: if_splits)
      then show ?thesis using chunk live_rangesI(1) by blast
    qed
  qed (use live_rangesI(2) in blast)
next
  fix x assume "x \<in> insert (chunk_range k i c) (live_ranges PL C s)"
  then consider "x = chunk_range k i c" | "x \<in> live_ranges PL C s" by blast
  then show "x \<in> live_ranges PL (C(i := insert c (C i))) s"
  proof cases
    case 1
    then show ?thesis using live_rangesI(1) [of k i PL c "C(i := insert c (C i))"] k by simp
  next
    case 2
    then show ?thesis
    proof (cases rule: live_range_cases)
      case (chunk l j d)
      then have "d \<in> (C(i := insert c (C i))) j" by auto
      then show ?thesis using chunk live_rangesI(1) by blast
    qed (use live_rangesI(2) in blast)
  qed
qed

lemma live_ranges_page:
  assumes k: "k < 8" and i: "i \<notin> pooled PL" "used_at (arr s') i 0" "\<And>e. \<not> used_at (arr s) i e"
    and u: "\<And>j e. j \<noteq> i \<Longrightarrow> used_at (arr s') j e = used_at (arr s) j e" and n: "num_pages_exp s' = num_pages_exp s"
    and PL': "\<And>l. set (PL' l) = set (PL l) \<union> (if l = k then {i} else {})"
  shows "live_ranges PL' (C(i := {c})) s' = insert (chunk_range k i c) (live_ranges PL C s)"
proof (intro set_eqI iffI)
  have p: "pooled PL' = insert i (pooled PL)" using k PL' by (auto simp: pooled_def split: if_splits)
  {
    fix x assume "x \<in> live_ranges PL' (C(i := {c})) s'"
    then show "x \<in> insert (chunk_range k i c) (live_ranges PL C s)"
    proof (cases rule: live_range_cases)
      case (chunk l j d)
      show ?thesis
      proof (cases "j = i")
        case True
        then have "l = k" using chunk(1,2) i(1) PL' by (auto simp: pooled_def split: if_splits)
        then show ?thesis using chunk True by simp
      next
        case False
        then have "j \<in> set (PL l)" "d \<in> C j" using chunk(2,3) PL' by (auto split: if_splits)
        then show ?thesis using chunk(1,4) live_rangesI(1) by blast
      qed
    next
      case (block j e)
      then show ?thesis using live_rangesI(2) [of s j e] u [of j e] n p by auto
    qed
  next
    fix x assume "x \<in> insert (chunk_range k i c) (live_ranges PL C s)"
    then consider "x = chunk_range k i c" | "x \<in> live_ranges PL C s" by blast
    then show "x \<in> live_ranges PL' (C(i := {c})) s'"
    proof cases
      case 1
      then show ?thesis using live_rangesI(1) [of k i PL' c "C(i := {c})"] k PL' by simp
    next
      case 2
      then show ?thesis
      proof (cases rule: live_range_cases)
        case (chunk l j d)
        then have "j \<noteq> i" using i(1) by (auto simp: pooled_def)
        then show ?thesis using chunk live_rangesI(1) [of l j PL' d "C(i := {c})"] PL' by simp
      next
        case (block j e)
        then have "j \<noteq> i" using i(3) by blast
        then show ?thesis using block live_rangesI(2) [of s' j e PL'] u [of j e] n p by simp
      qed
    qed
  }
qed

lemma chunk_range_inj:
  assumes "k < 8" "c < 2 ^ (8 - k)" "l < 8" "d < 2 ^ (8 - l)"
  shows "chunk_range k i c = chunk_range l j d \<longleftrightarrow> k = l \<and> i = j \<and> c = d"
proof
  assume eq: "chunk_range k i c = chunk_range l j d"
  then have "k = l" by (simp add: chunk_range_def)
  have "(0::nat) < 2 ^ (k + 4)" by simp
  then have c: "c * 2 ^ (k + 4) < 4096" "d * 2 ^ (k + 4) < 4096"
    using chunk_in_page [OF assms(1,2)] chunk_in_page [OF assms(3,4), folded \<open>k = l\<close>] by linarith+
  have "(i * 4096 + c * 2 ^ (k + 4)) div 4096 = (j * 4096 + d * 2 ^ (k + 4)) div (4096::nat)"
    "(i * 4096 + c * 2 ^ (k + 4)) mod 4096 = (j * 4096 + d * 2 ^ (k + 4)) mod (4096::nat)"
    using eq \<open>k = l\<close> by (simp_all add: chunk_range_def)
  then show "k = l \<and> i = j \<and> c = d" using c \<open>k = l\<close> by simp
qed simp

lemma node_ok_dnext [simp]: "node_ok k i D (d\<lparr>dnext := v\<rparr>) = node_ok k i D d"
  by (simp add: node_ok_def slot_def)

lemma dyn_relinked: "relinked s a s' \<Longrightarrow> mem_pool s' = mem_pool s \<and> dynamic_node_arr s' = dynamic_node_arr s"
  by (auto simp: relinked_def with_lists_def)

text \<open>Page \<open>i\<close> enters or leaves pool \<open>k\<close>; at most one other pool page is linked anew.\<close>

lemma dyn_rel_change:
  assumes R: "dyn_rel PL C s" and k: "k < 8"
    and s': "buddy_ok s'" "num_pages_exp s' = num_pages_exp s" "length (mem_pool s') = 8"
      "length (dynamic_node_arr s') = length (dynamic_node_arr s)"
    and sll: "\<And>l. l < 8 \<Longrightarrow> distinct (PL' l) \<and> sll (\<lambda>j. dnext (dynamic_node_arr s' ! j)) (mem_pool s' ! l) (PL' l)"
    and nd: "\<And>j. j \<noteq> i \<Longrightarrow> \<exists>v. dynamic_node_arr s' ! j = dynamic_node_arr s ! j
        \<or> j \<in> pooled PL \<and> dynamic_node_arr s' ! j = (dynamic_node_arr s ! j)\<lparr>dnext := v\<rparr>"
    and u: "\<And>j e. j \<noteq> i \<Longrightarrow> used_at (arr s') j e = used_at (arr s) j e"
    and PL': "\<And>l. l < 8 \<Longrightarrow> set (PL' l) - {i} = set (PL l) - {i}" "\<And>l. l < 8 \<Longrightarrow> i \<in> set (PL' l) \<Longrightarrow> l = k"
    and i: "i \<in> set (PL' k) \<Longrightarrow> used_at (arr s') i 0 \<and> node_ok k i D (dynamic_node_arr s' ! i)"
      "i \<notin> set (PL' k) \<Longrightarrow> idle_node (dynamic_node_arr s' ! i)"
  shows "dyn_rel PL' (C(i := D)) s'"
  unfolding dyn_rel_def
proof (intro conjI allI impI ballI)
  show "length (dynamic_node_arr s') = 2 ^ num_pages_exp s'" using s' dyn_relD(3) [OF R] by simp
  fix l :: nat assume l: "l < 8"
  show "distinct (PL' l)" "sll (\<lambda>j. dnext (dynamic_node_arr s' ! j)) (mem_pool s' ! l) (PL' l)" using sll [OF l] by auto
  have old: "j \<in> set (PL l)" if "j \<in> set (PL' l)" "j \<noteq> i" for j using PL'(1) [OF l] that by blast
  {
    fix j assume j: "j \<in> set (PL' l)"
    show "used_at (arr s') j 0"
      using j i(1) PL'(2) [OF l] u [of j 0] dyn_relD(6) [OF R l old] by (cases "j = i") auto
    show "node_ok l j ((C(i := D)) j) (dynamic_node_arr s' ! j)"
    proof (cases "j = i")
      case False
      then have "node_ok l j (C j) (dynamic_node_arr s ! j)" using dyn_relD(7) [OF R l old] j by blast
      then show ?thesis using nd [OF False] False by auto
    qed (use j i(1) PL'(2) [OF l] in auto)
  }
  fix m assume m: "m < (8::nat)" "l \<noteq> m"
  have "set (PL l) \<inter> set (PL m) = {}" using dyn_relD(8) [OF R l m] .
  then show "set (PL' l) \<inter> set (PL' m) = {}" using PL' [OF l] PL' [OF m(1)] m(2) by blast
next
  fix j assume j: "j < 2 ^ num_pages_exp s'" "\<forall>k < 8. j \<notin> set (PL' k)"
  show "idle_node (dynamic_node_arr s' ! j)"
  proof (cases "j = i")
    case False
    then have "j \<notin> pooled PL" using PL'(1) j(2) by (fastforce simp: pooled_def)
    then show ?thesis using dyn_relD(9) [OF R] nd [OF False] j(1) s'(2) by auto
  qed (use i(2) j(2) k in auto)
qed (use s' in auto)

section \<open>Allocation\<close>

lemma ptr_chunk: "page_ptr_v i + of_nat c * 2 ^ (k + 4) = p2v_trans_kernel (of_nat (fst (chunk_range k i c)))"
  by (simp add: page_ptr_v_def p2v_trans_kernel_def chunk_range_def PAGE_SIZE_def algebra_simps)

lemma chunk_not_block: "k < 8 \<Longrightarrow> chunk_range k i c \<noteq> block_range j e"
proof
  assume "k < 8" "chunk_range k i c = block_range j e"
  then have "(2::nat) ^ (k + 4) = 2 ^ (e + 12)" by (simp add: chunk_range_def block_range_def power_add)
  then show False using \<open>k < 8\<close> power_inject_exp [of "2::nat" "k + 4" "e + 12"] by simp
qed

lemma live_range_fresh:
  assumes R: "dyn_rel PL C s" and k: "k < 8" "c < 2 ^ (8 - k)" and "i \<in> pooled PL \<longrightarrow> c \<notin> C i"
  shows "chunk_range k i c \<notin> live_ranges PL C s"
proof
  assume "chunk_range k i c \<in> live_ranges PL C s"
  then show False
  proof (cases rule: live_range_cases)
    case (chunk l j d)
    have "d < 2 ^ (8 - l)" using dyn_relD(7) [OF R chunk(1,2)] chunk(3) by (auto simp: node_ok_def)
    then have "k = l \<and> i = j \<and> c = d" using chunk(4) chunk_range_inj [OF k chunk(1)] by blast
    then show False using assms(4) chunk by (auto simp: pooled_def)
  next
    case (block j e)
    then show False using chunk_not_block [OF k(1)] by blast
  qed
qed

lemma dyn_rel_grow:
  assumes R: "dyn_rel PL C s" and k: "k < 8" and s1: "relinked s (arr s1) s1" "buddy_ok s1"
    and i: "used_at (arr s1) i 0" "\<And>e. \<not> used_at (arr s) i e"
    and u: "\<And>j e. j \<noteq> i \<Longrightarrow> used_at (arr s1) j e = used_at (arr s) j e"
    and d: "node_ok k i {0} d" "dnext d = None"
  defines "ds \<equiv> (if PL k = [] then dynamic_node_arr s
      else (dynamic_node_arr s)[last (PL k) := (dynamic_node_arr s ! last (PL k))\<lparr>dnext := Some i\<rparr>])[i := d]"
    and "ps \<equiv> if PL k = [] then (mem_pool s)[k := Some i] else mem_pool s"
  shows "dyn_rel (PL(k := PL k @ [i])) (C(i := {0})) (s1\<lparr>mem_pool := ps, dynamic_node_arr := ds\<rparr>)"
proof -
  have n: "num_pages_exp s1 = num_pages_exp s" "i < 2 ^ num_pages_exp s"
    using relinkedD(2) [OF s1(1)] i(1) s1(2) part_okD(2) by (auto simp: buddy_ok_def used_at_def)
  have np: "i \<notin> set (PL l)" if "l < 8" for l using dyn_relD(6) [OF R that] i(2) by blast
  have len: "length (dynamic_node_arr s) = 2 ^ num_pages_exp s" "length (mem_pool s) = 8" using dyn_relD [OF R] by auto
  have dsi: "ds ! i = d" "length ds = 2 ^ num_pages_exp s" using n len by (auto simp: ds_def)
  have lst: "PL k \<noteq> [] \<Longrightarrow> last (PL k) \<in> set (PL k)" by simp
  have dsj: "ds ! j = dynamic_node_arr s ! j
     \<or> j \<in> set (PL k) \<and> ds ! j = (dynamic_node_arr s ! j)\<lparr>dnext := Some i\<rparr>" if "j \<noteq> i" for j
    using that lst dyn_relD(10) [OF R k] len(1) by (auto simp: ds_def nth_list_update)
  have X: "dnext (ds ! j) = dnext (dynamic_node_arr s ! j)" if "j \<noteq> i" "PL k = [] \<or> j \<noteq> last (PL k)" for j
    using that by (auto simp: ds_def)
  have "sll (\<lambda>j. dnext (ds ! j)) (ps ! k) (PL k @ [i])"
  proof (cases "PL k = []")
    case True
    then show ?thesis using k len(2) dsi d(2) by (simp add: ps_def)
  next
    case False
    let ?X = "\<lambda>j. dnext (if j = i then d else dynamic_node_arr s ! j)"
    have "sll ?X (mem_pool s ! k) (PL k)"
      using dyn_relD(5) [OF R k] np [OF k] sll_frame [of "PL k" ?X "\<lambda>j. dnext (dynamic_node_arr s ! j)"] by fastforce
    then have "sll (?X(last (PL k) := Some i)) (mem_pool s ! k) (PL k @ [i])"
      using dyn_relD(4) [OF R k] np [OF k] d(2) False by (intro sll_snoc) auto
    moreover have "(\<lambda>j. dnext (ds ! j)) = ?X(last (PL k) := Some i)"
    proof
      fix j
      have "last (PL k) < length (dynamic_node_arr s)" "last (PL k) \<noteq> i"
        using lst [OF False] dyn_relD(10) [OF R k] len(1) np [OF k] by auto
      then show "dnext (ds ! j) = (?X(last (PL k) := Some i)) j"
        using False dsi(1) by (cases "j = i") (auto simp: ds_def nth_list_update)
    qed
    ultimately show ?thesis using False by (simp add: ps_def)
  qed
  moreover have "sll (\<lambda>j. dnext (ds ! j)) (ps ! l) (PL l)" if "l < 8" "l \<noteq> k" for l
  proof -
    have "dnext (ds ! j) = dnext (dynamic_node_arr s ! j)" if j: "j \<in> set (PL l)" for j
      using X [of j] j np [OF \<open>l < 8\<close>] dyn_relD(8) [OF R \<open>l < 8\<close> k \<open>l \<noteq> k\<close>] lst by (metis disjoint_iff)
    then have "sll (\<lambda>j. dnext (ds ! j)) (mem_pool s ! l) (PL l)"
      by (rule sll_frame [THEN iffD2, OF _ dyn_relD(5) [OF R \<open>l < 8\<close>]])
    then show ?thesis using that by (simp add: ps_def)
  qed
  ultimately have sll: "distinct ((PL(k := PL k @ [i])) l) \<and> sll (\<lambda>j. dnext (ds ! j)) (ps ! l) ((PL(k := PL k @ [i])) l)"
    if "l < 8" for l
    using that dyn_relD(4) [OF R that] np [OF that] by auto
  have nd: "\<exists>v. ds ! j = dynamic_node_arr s ! j \<or> j \<in> pooled PL \<and> ds ! j = (dynamic_node_arr s ! j)\<lparr>dnext := v\<rparr>"
    if "j \<noteq> i" for j
    using dsj [OF that] k unfolding pooled_def by blast
  show ?thesis
    by (rule dyn_rel_change [OF R k, where i = i])
      (use s1(2) n len dsi i(1) d(1) u np k sll nd in \<open>auto simp: buddy_ok_def irq_ok_def ps_def split: if_splits\<close>)
qed

lemma pool_grow_ok:
  assumes R: "dyn_rel PL C s" and k: "k < 8" and m: "daif_masked s" "free_at (arr s) m j" "j \<le> num_pages_exp s"
  shows "\<exists>i s'. pool_grow (k + 4) (if PL k = [] then None else Some (last (PL k))) s = Some (page_ptr_v i, enable_int s')
     \<and> (\<exists>PL' C'. dyn_rel PL' C' (enable_int s') \<and> live_ranges PL' C' (enable_int s') = insert (chunk_range k i 0) (live_ranges PL C s))
     \<and> chunk_range k i 0 \<notin> live_ranges PL C s \<and> outside s s'"
proof -
  obtain i e s1 where b: "buddy_malloc 1 s = Some (of_nat i * PAGE_SIZE, s1)" "buddy_ok s1" "used_at (arr s1) i e"
    "\<exists>k. free_at (arr s) i k" "\<And>j e. j \<noteq> i \<Longrightarrow> used_at (arr s1) j e = used_at (arr s) j e" "relinked s (arr s1) s1"
    "e = 0 \<or> 2 ^ (e - 1) < unat (1 :: u32)"
    using buddy_malloc_block [OF dyn_relD(1) [OF R], of 1 m j] m by (simp, blast)
  have u0: "used_at (arr s1) i 0" using b(3,7) by simp
  have nu: "\<not> used_at (arr s) i e" for e using b(4) by (auto simp: used_at_def free_at_def)
  note P = dyn_pages [OF R]
  have len: "length (dynamic_node_arr s) = 2 ^ num_pages_exp s" "length (mem_pool s) = 8" using dyn_relD [OF R] by auto
  have i: "i < 2 ^ num_pages_exp s" using b(4) P by (auto simp: free_at_def)
  have np: "i \<notin> pooled PL" using dyn_relD(6) [OF R] nu by (auto simp: pooled_def)
  have s1: "mem_pool s1 = mem_pool s" "dynamic_node_arr s1 = dynamic_node_arr s" "num_pages_exp s1 = num_pages_exp s" "daif_masked s1"
    using dyn_relinked [OF b(6)] relinkedD [OF b(6)] m(1) by auto
  have idl: "idle_node (dynamic_node_arr s ! i)" using dyn_relD(9) [OF R i np] .
  let ?d = "(dynamic_node_arr s ! i)\<lparr>addr := page_ptr_v i, chunk_size := push_bit (k + 4) 1, chunk_sum := chunk_sum (dynamic_node_arr s ! i) + 1,
     bitmap := (bitmap (dynamic_node_arr s ! i))[0 := (bitmap (dynamic_node_arr s ! i) ! 0) OR 1], cur_idx := 0\<rparr>"
  let ?s = "s1\<lparr>mem_pool := (if PL k = [] then (mem_pool s)[k := Some i] else mem_pool s),
     dynamic_node_arr := (if PL k = [] then dynamic_node_arr s
      else (dynamic_node_arr s)[last (PL k) := (dynamic_node_arr s ! last (PL k))\<lparr>dnext := Some i\<rparr>])[i := ?d]\<rparr>"
  have d: "node_ok k i {0} ?d" "dnext ?d = None" using first_chunk_ok [OF idl k] idl by (auto simp: idle_node_def)
  have R': "dyn_rel (PL(k := PL k @ [i])) (C(i := {0})) ?s"
    by (rule dyn_rel_grow [OF R k b(6,2) u0 nu b(5) d])
  have lst: "last (PL k) < 2 ^ num_pages_exp s \<and> last (PL k) \<noteq> i" if "PL k \<noteq> []"
    using dyn_relD(10) [OF R k last_in_set [OF that]] last_in_set [OF that] np k by (auto simp: pooled_def)
  have same: "s1\<lparr>mem_pool := mem_pool s\<rparr> = s1" using s1(1) by (cases s1) simp
  have "pool_grow (k + 4) (if PL k = [] then None else Some (last (PL k))) s = Some (page_ptr_v i, enable_int ?s)"
    using b(1) page_aligned(2) [OF i P(1)] s1 len i k lst
    by (simp add: pool_grow_def MIN_POOL_SIZE_EXP_def page_ptr_v_def same)
  moreover have "dyn_rel (PL(k := PL k @ [i])) (C(i := {0})) (enable_int ?s)"
    "live_ranges (PL(k := PL k @ [i])) (C(i := {0})) (enable_int ?s) = live_ranges (PL(k := PL k @ [i])) (C(i := {0})) ?s"
    using dyn_rel_enable [OF R'] s1(4) by auto
  moreover have "live_ranges (PL(k := PL k @ [i])) (C(i := {0})) ?s = insert (chunk_range k i 0) (live_ranges PL C s)"
    by (rule live_ranges_page [OF k np]) (use u0 b(5) nu s1(3) in auto)
  moreover have "chunk_range k i 0 \<notin> live_ranges PL C s"
    using live_range_fresh [OF R k, of 0 i] np by simp
  moreover have "outside s ?s" using outside_relinked [OF b(6)] by simp
  ultimately show ?thesis by metis
qed

lemma size_exp_loop_ok:
  assumes "0 < unat sz" "unat sz \<le> 4096"
  shows "e \<le> 12 \<Longrightarrow> (e = 0 \<or> 2 ^ (e - 1) < unat sz) \<Longrightarrow>
     \<exists>r \<le> 12. size_exp_loop sz (2 ^ e) e = Some r \<and> unat sz \<le> 2 ^ r \<and> (r = 0 \<or> 2 ^ (r - 1) < unat sz)"
proof (induction "12 - e" arbitrary: e)
  case 0
  then have e: "e = 12" by simp
  have "\<not> (2 ^ 12 :: u64) < sz" using assms(2) by (simp add: word_less_nat_alt)
  then show ?case using 0 e assms(2) by (subst size_exp_loop.simps) simp
next
  case (Suc n)
  have u: "unat (2 ^ e :: u64) = 2 ^ e" using Suc.hyps(2) by (intro unat_pow2) simp
  show ?case
  proof (cases "2 ^ e < unat sz")
    case True
    then have "size_exp_loop sz (2 ^ e) e = size_exp_loop sz (2 ^ (e + 1)) (e + 1)"
      by (subst size_exp_loop.simps) (simp add: word_less_nat_alt u push_bit_eq_mult mult.commute)
    then show ?thesis using Suc.hyps(1) [of "e + 1"] Suc.hyps(2) True by simp
  next
    case False
    then show ?thesis using Suc.prems by (subst size_exp_loop.simps) (simp add: word_less_nat_alt u)
  qed
qed

lemma malloc_block:
  assumes R: "dyn_rel PL C s" and m: "daif_masked s" "free_at (arr s) m j" "j \<le> num_pages_exp s" "n \<noteq> 0" "unat n \<le> 2 ^ j"
  shows "\<exists>i e s1. buddy_malloc n s = Some (of_nat i * PAGE_SIZE, s1) \<and> unat n \<le> 2 ^ e \<and> (e = 0 \<or> 2 ^ (e - 1) < unat n)
     \<and> dyn_rel PL C (enable_int s1) \<and> live_ranges PL C (enable_int s1) = insert (block_range i e) (live_ranges PL C s)
     \<and> block_range i e \<notin> live_ranges PL C s \<and> outside s s1"
proof -
  obtain i e s1 where b: "buddy_malloc n s = Some (of_nat i * PAGE_SIZE, s1)" "buddy_ok s1" "used_at (arr s1) i e"
    "\<exists>k. free_at (arr s) i k \<and> e \<le> k \<and> k \<le> num_pages_exp s"
    "\<And>j e. j \<noteq> i \<Longrightarrow> used_at (arr s1) j e = used_at (arr s) j e" "relinked s (arr s1) s1"
    "unat n \<le> 2 ^ e" "e = 0 \<or> 2 ^ (e - 1) < unat n"
    using buddy_malloc_block [OF dyn_relD(1) [OF R] m(4,2,3,5)] by blast
  have nu: "\<not> used_at (arr s) i e" for e using b(4) by (auto simp: used_at_def free_at_def)
  have s1: "mem_pool s1 = mem_pool s" "dynamic_node_arr s1 = dynamic_node_arr s" "num_pages_exp s1 = num_pages_exp s" "daif_masked s1"
    using dyn_relinked [OF b(6)] relinkedD [OF b(6)] m(1) by auto
  have np: "i \<notin> set (PL l)" if "l < 8" for l using dyn_relD(6) [OF R that] nu by blast
  have n30: "num_pages_exp s \<le> 30" "i < 2 ^ num_pages_exp s" "e \<le> num_pages_exp s"
    using dyn_pages [OF R] b(4) by (auto simp: free_at_def)
  have npp: "i \<notin> pooled PL" using np by (auto simp: pooled_def)
  have "dyn_rel PL (C(i := C i)) s1"
    by (rule dyn_rel_change [OF R, of 0])
      (use b(2,5) s1 dyn_relD(2-5) [OF R] np dyn_relD(9) [OF R n30(2) npp] in auto)
  then have R1: "dyn_rel PL C s1" by simp
  have u: "used_at (arr s1) j d \<longleftrightarrow> used_at (arr s) j d \<or> j = i \<and> d = e" if "d \<le> num_pages_exp s" for j d
    using b(3,5) nu that n30 neg_exp_inj [of d e] by (cases "j = i") (auto simp: used_at_def)
  have "live_ranges PL C s1 = insert (block_range i e) (live_ranges PL C s)"
  proof -
    have "used_at (arr s1) j d \<and> d \<le> num_pages_exp s1 \<and> j \<notin> pooled PL \<longleftrightarrow>
       (used_at (arr s) j d \<and> d \<le> num_pages_exp s \<and> j \<notin> pooled PL) \<or> (j = i \<and> d = e)" for j d
      using u npp n30(3) s1(3) by auto
    then show ?thesis unfolding live_ranges_def by auto
  qed
  moreover have "block_range i e \<notin> live_ranges PL C s"
  proof
    assume "block_range i e \<in> live_ranges PL C s"
    then show False
    proof (cases rule: live_range_cases)
      case (block j d)
      then show False using nu by (auto simp: block_range_def)
    qed (use chunk_not_block in metis)
  qed
  ultimately show ?thesis using b(1,7,8) dyn_rel_enable [OF R1 s1(4)] outside_relinked [OF b(6)] by auto
qed

lemma ucast_of_nat_u32: "ucast (of_nat n :: u64) = (of_nat n :: u32)"
  by (simp add: unsigned_of_nat word_of_nat_eq_iff)

lemma page_count:
  assumes "4096 \<le> unat sz" "unat sz \<le> 2 ^ j * 4096" "j \<le> 30"
  defines "n \<equiv> ucast ((sz - 1) div PAGE_SIZE + 1) :: u32"
  shows "n \<noteq> 0" "unat n \<le> 2 ^ j" "unat sz \<le> unat n * 4096" "(unat n - 1) * 4096 < unat sz"
proof -
  let ?q = "(unat sz - 1) div 4096"
  have pw: "(2::nat) ^ j \<le> 2 ^ 30" using assms(3) by (intro power_increasing) auto
  have q: "?q < 2 ^ j" using assms(1,2) by (intro less_mult_imp_div_less) linarith
  have "sz \<noteq> 0" using assms(1) by auto
  then have "unat (sz - 1) = unat sz - 1" by (metis unat_minus_one)
  then have "unat ((sz - 1) div PAGE_SIZE) = ?q" by (simp add: unat_div PAGE_SIZE_def)
  then have "(sz - 1) div PAGE_SIZE = of_nat ?q" by (metis of_nat_unat ucast_id)
  then have "(sz - 1) div PAGE_SIZE + 1 = of_nat (?q + 1)" by simp
  then have "n = of_nat (?q + 1)" unfolding n_def by (simp only: ucast_of_nat_u32)
  then have u: "unat n = ?q + 1" using q pw unat_of_nat_small [of "?q + 1", where 'a = 32] by simp
  show "unat n \<le> 2 ^ j" using u q by simp
  show "n \<noteq> 0" using u by auto
  have "unat sz - 1 = ?q * 4096 + (unat sz - 1) mod 4096" by simp
  moreover have "(unat sz - 1) mod 4096 < 4096" by simp
  ultimately show "unat sz \<le> unat n * 4096" "(unat n - 1) * 4096 < unat sz" using u assms(1) by simp_all
qed

lemma malloc_pool:
  assumes R: "dyn_rel PL C s" and k: "k < 8" and m: "daif_masked s" "free_at (arr s) m j" "j \<le> num_pages_exp s"
  shows "\<exists>r i c PL' C' s'. pool_scan (k + 4) None (mem_pool s ! k) s = Some r
     \<and> (case r of Inl (p, s) \<Rightarrow> Some (p, enable_int s) | Inr prv \<Rightarrow> pool_grow (k + 4) prv s)
         = Some (p2v_trans_kernel (of_nat (fst (chunk_range k i c))), enable_int s')
     \<and> dyn_rel PL' C' (enable_int s') \<and> live_ranges PL' C' (enable_int s') = insert (chunk_range k i c) (live_ranges PL C s)
     \<and> chunk_range k i c \<notin> live_ranges PL C s \<and> outside s s'"
proof -
  have cur: "mem_pool s ! k = (if PL k = [] then None else Some (hd (PL k)))" using sll_head [OF dyn_relD(5) [OF R k]] .
  consider (hit) i c d where "i \<in> set (PL k)" "c < 2 ^ (8 - k)" "c \<notin> C i" "node_ok k i (insert c (C i)) d"
      "dnext d = dnext (dynamic_node_arr s ! i)"
      "pool_scan (k + 4) None (mem_pool s ! k) s =
          Some (Inl (page_ptr_v i + of_nat c * 2 ^ (k + 4), s\<lparr>dynamic_node_arr := (dynamic_node_arr s)[i := d]\<rparr>))"
    | (full) "pool_scan (k + 4) None (mem_pool s ! k) s = Some (Inr (if PL k = [] then None else Some (last (PL k))))"
    using pool_scan_ok [OF R k, of "[]" "PL k" "mem_pool s ! k" None] cur by auto
  then show ?thesis
  proof cases
    case hit
    let ?s = "s\<lparr>dynamic_node_arr := (dynamic_node_arr s)[i := d]\<rparr>"
    have R': "dyn_rel PL (C(i := insert c (C i))) ?s" by (rule dyn_rel_node [OF R k hit(1,4,5)])
    have "live_ranges PL (C(i := insert c (C i))) ?s = insert (chunk_range k i c) (live_ranges PL C s)"
      using live_ranges_chunk [OF R k hit(1), of c] by (simp add: live_ranges_def)
    moreover have "chunk_range k i c \<notin> live_ranges PL C s" by (rule live_range_fresh [OF R k hit(2)]) (use hit(3) in simp)
    ultimately show ?thesis using hit(6) dyn_rel_enable [OF R'] m(1) ptr_chunk [of i c k]
      by (intro exI [of _ "Inl (page_ptr_v i + of_nat c * 2 ^ (k + 4), ?s)"] exI [of _ i] exI [of _ c] exI [of _ PL]
          exI [of _ "C(i := insert c (C i))"] exI [of _ ?s]) simp
  next
    case full
    obtain i s' PL' C' where "pool_grow (k + 4) (if PL k = [] then None else Some (last (PL k))) s = Some (page_ptr_v i, enable_int s')"
      "dyn_rel PL' C' (enable_int s')" "live_ranges PL' C' (enable_int s') = insert (chunk_range k i 0) (live_ranges PL C s)"
      "chunk_range k i 0 \<notin> live_ranges PL C s" "outside s s'"
      using pool_grow_ok [OF R k m] by blast
    moreover have "page_ptr_v i = p2v_trans_kernel (of_nat (fst (chunk_range k i 0)))" using ptr_chunk [of i 0 k] by simp
    ultimately show ?thesis using full by (metis sum.case(2))
  qed
qed

lemma malloc_whole:
  assumes R: "dyn_rel PL C s" and m: "daif_masked s" "free_at (arr s) m j" "j \<le> num_pages_exp s"
    and n: "n \<noteq> 0" "unat n \<le> 2 ^ j" "unat sz \<le> unat n * 4096" "(unat n - 1) * 4096 < unat sz" "2048 < unat sz"
  shows "\<exists>x s'. (do { (ret, s) \<leftarrow> buddy_malloc n s; Some (p2v_trans_kernel ret, enable_int s) })
        = Some (p2v_trans_kernel (of_nat (fst x)), enable_int s') \<and> x \<notin> live_ranges PL C s
        \<and> dyn_live (enable_int s') (insert x (live_ranges PL C s)) \<and> outside s s'
        \<and> unat sz \<le> snd x \<and> (snd x = 16 \<or> snd x < 2 * unat sz)"
proof -
  obtain i e s1 where b: "buddy_malloc n s = Some (of_nat i * PAGE_SIZE, s1)" "unat n \<le> 2 ^ e" "e = 0 \<or> 2 ^ (e - 1) < unat n"
    "dyn_rel PL C (enable_int s1)" "live_ranges PL C (enable_int s1) = insert (block_range i e) (live_ranges PL C s)"
    "block_range i e \<notin> live_ranges PL C s" "outside s s1"
    using malloc_block [OF R m n(1,2)] by metis
  have "2 ^ e * 4096 < 2 * unat sz"
  proof (cases e)
    case (Suc d)
    then have "2 ^ d \<le> unat n - 1" using b(3) by simp
    then have "2 ^ d * 4096 \<le> (unat n - 1) * 4096" by (rule mult_le_mono1)
    then show ?thesis using n(4) Suc by simp
  qed (use n(5) in simp)
  moreover have "unat sz \<le> 2 ^ e * 4096" using n(3) b(2) mult_le_mono1 order_trans by blast
  moreover have "of_nat i * PAGE_SIZE = of_nat (fst (block_range i e))" by (simp add: block_range_def PAGE_SIZE_def)
  moreover have "dyn_live (enable_int s1) (insert (block_range i e) (live_ranges PL C s))"
    using b(4,5) unfolding dyn_live_def by metis
  ultimately show ?thesis using b
    by (intro exI [of _ "block_range i e"] exI [of _ s1]) (simp add: block_range_def)
qed

text \<open>The size class of a small request.\<close>

lemma pool_class:
  assumes "unat sz \<le> 2 ^ e" "e = 0 \<or> 2 ^ (e - 1) < unat sz" "max e 4 = k + 4"
  shows "unat sz \<le> 2 ^ (k + 4)" "(2::nat) ^ (k + 4) = 16 \<or> 2 ^ (k + 4) < 2 * unat sz"
proof -
  have "(2::nat) ^ e \<le> 2 ^ (k + 4)" using assms(3) by (intro power_increasing) simp_all
  then show "unat sz \<le> 2 ^ (k + 4)" using assms(1) by linarith
  show "(2::nat) ^ (k + 4) = 16 \<or> 2 ^ (k + 4) < 2 * unat sz"
  proof (cases "e \<le> 4")
    case False
    then have "k + 4 = Suc (e - 1)" using assms(3) by simp
    then show ?thesis using assms(2) False by (simp only: power_Suc) simp
  qed (use assms(3) in simp)
qed

text \<open>Every request that the free memory can serve is served.\<close>

lemma malloc_serves:
  assumes L: "dyn_live s L" and "sz \<noteq> 0" and j: "free_at (arr s) m j" "j \<le> num_pages_exp s" "unat sz \<le> 2 ^ j * 4096"
  shows "\<exists>x s'. malloc sz s = Some (p2v_trans_kernel (of_nat (fst x)), s') \<and> x \<notin> L \<and> dyn_live s' (insert x L)
     \<and> unat sz \<le> snd x \<and> (snd x = 16 \<or> snd x < 2 * unat sz) \<and> outside s s'"
proof -
  obtain PL C where R: "dyn_rel PL C s" and L: "L = live_ranges PL C s" using L by (auto simp: dyn_live_def)
  let ?s = "disable_int s"
  have Rd: "dyn_rel PL C ?s" and Ld: "live_ranges PL C ?s = L" and md: "daif_masked ?s" using R L by simp_all
  have jd: "free_at (arr ?s) m j" "j \<le> num_pages_exp ?s" using j by simp_all
  have live: "dyn_live s' (insert x L)" if "dyn_rel PL' C' s'" "live_ranges PL' C' s' = insert x L" for PL' C' s' x
    using that unfolding dyn_live_def by metis
  have pos: "0 < unat sz" using assms(2) by (simp add: unat_gt_0)
  have P: "PAGE_SIZE \<le> sz \<longleftrightarrow> 4096 \<le> unat sz" by (simp add: PAGE_SIZE_def word_le_nat_alt)
  have crit: "outside s (enable_int s')" if "outside ?s s'" for s'
    using outside_critical [OF _ that] dyn_relD(1) [OF R] by (simp add: buddy_ok_def)
  have whole: "\<exists>x s'. (do { (ret, s) \<leftarrow> buddy_malloc n ?s; Some (p2v_trans_kernel ret, enable_int s) })
      = Some (p2v_trans_kernel (of_nat (fst x)), s') \<and> x \<notin> L \<and> dyn_live s' (insert x L)
      \<and> unat sz \<le> snd x \<and> (snd x = 16 \<or> snd x < 2 * unat sz) \<and> outside s s'"
    if "n \<noteq> 0" "unat n \<le> 2 ^ j" "unat sz \<le> unat n * 4096" "(unat n - 1) * 4096 < unat sz" "2048 < unat sz" for n
    using malloc_whole [OF Rd md jd that] crit unfolding Ld by blast
  show ?thesis
  proof (cases "4096 \<le> unat sz")
    case True
    then show ?thesis
      using whole [OF page_count [OF True j(3)]] dyn_pages(1) [OF R] j(2) P assms(2) by (simp add: malloc_def Let_def)
  next
    case False
    obtain e where e: "e \<le> 12" "size_exp_loop sz 1 0 = Some e" "unat sz \<le> 2 ^ e" "e = 0 \<or> 2 ^ (e - 1) < unat sz"
      using size_exp_loop_ok [of sz 0] pos False by auto
    show ?thesis
    proof (cases "11 < e")
      case True
      then have "e = 12" using e(1) by simp
      then have "\<exists>x s'. (do { (ret, s) \<leftarrow> buddy_malloc 1 ?s; Some (p2v_trans_kernel ret, enable_int s) })
        = Some (p2v_trans_kernel (of_nat (fst x)), s') \<and> x \<notin> L \<and> dyn_live s' (insert x L)
        \<and> unat sz \<le> snd x \<and> (snd x = 16 \<or> snd x < 2 * unat sz) \<and> outside s s'"
        using e(3,4) by (intro whole) simp_all
      then show ?thesis using True e(2) False P assms(2) by (simp add: malloc_def Let_def MAX_POOL_SIZE_EXP_def)
    next
      case e11: False
      define k where "k = max e 4 - 4"
      have k: "k < 8" "max e 4 = k + 4" using e11 by (auto simp: k_def)
      obtain r i c PL' C' s' where r: "pool_scan (k + 4) None (mem_pool s ! k) ?s = Some r"
        "(case r of Inl (p, s) \<Rightarrow> Some (p, enable_int s) | Inr prv \<Rightarrow> pool_grow (k + 4) prv ?s)
           = Some (p2v_trans_kernel (of_nat (fst (chunk_range k i c))), enable_int s')"
        "dyn_rel PL' C' (enable_int s')" "live_ranges PL' C' (enable_int s') = insert (chunk_range k i c) L"
        "chunk_range k i c \<notin> L" "outside ?s s'"
        using malloc_pool [OF Rd k(1) md jd] Ld by auto
      have "malloc sz s = Some (p2v_trans_kernel (of_nat (fst (chunk_range k i c))), enable_int s')"
        using r(1,2) e(2) e11 False P assms(2) k dyn_relD(2) [OF R]
        by (simp add: malloc_def Let_def MAX_POOL_SIZE_EXP_def MIN_POOL_SIZE_EXP_def)
      moreover note pool_class [OF e(3,4) k(2)]
      ultimately show ?thesis using r(5) live [OF r(3,4)] crit [OF r(6)]
        by (intro exI [of _ "chunk_range k i c"] exI [of _ "enable_int s'"]) (simp add: chunk_range_def)
    qed
  qed
qed

end
