(* ===== verification/Dyn_Props.thy ===== *)
theory Dyn_Props
  imports Dyn_Malloc
begin

text \<open>
  Release with \<open>free\<close>, the allocator interface that the rest of the kernel relies on, and the
  properties of the dynamic allocator.
\<close>

section \<open>Release\<close>

lemma v2p_p2v [simp]: "v2p_trans_kernel (p2v_trans_kernel a) = a"
  by (simp add: v2p_trans_kernel_def p2v_trans_kernel_def)

lemma phys_addr:
  assumes "dyn_rel PL C s" "p < 2 ^ num_pages_exp s * 4096"
  shows "unat (of_nat p :: u64) = p" "\<not> bend s \<le> of_nat p" "unat ((of_nat p :: u64) div PAGE_SIZE) = p div 4096"
proof -
  have n: "num_pages_exp s \<le> 30" and b: "bend s = of_nat (2 ^ num_pages_exp s) * PAGE_SIZE"
    using dyn_pages(1) [OF assms(1)] dyn_relD(1) [OF assms(1)] by (auto simp: buddy_ok_def)
  have "(2::nat) ^ num_pages_exp s \<le> 2 ^ 30" using n by (intro power_increasing) auto
  then show u: "unat (of_nat p :: u64) = p" using assms(2) by (intro unat_of_nat_small) simp
  then show "unat ((of_nat p :: u64) div PAGE_SIZE) = p div 4096" by (simp add: unat_div PAGE_SIZE_def)
  have "bend s = of_nat (2 ^ num_pages_exp s * 4096)" using b by (simp add: PAGE_SIZE_def)
  then have "unat (bend s) = 2 ^ num_pages_exp s * 4096"
    using \<open>(2::nat) ^ num_pages_exp s \<le> 2 ^ 30\<close> unat_of_nat_small [of "2 ^ num_pages_exp s * 4096", where 'a = 64] by simp
  then show "\<not> bend s \<le> of_nat p" using u assms(2) by (simp add: word_le_nat_alt)
qed

lemma buddy_ok_dyn [simp]:
  "buddy_ok (s\<lparr>mem_pool := ps\<rparr>) = buddy_ok s" "buddy_ok (s\<lparr>dynamic_node_arr := ds\<rparr>) = buddy_ok s"
  by (simp_all add: buddy_ok_def irq_ok_def)

lemma log2_loop_pow: "n < 64 \<Longrightarrow> log2_loop (2 ^ n) e = Some (e + int n + 1)"
proof (induction n arbitrary: e)
  case 0
  then show ?case by (subst log2_loop.simps, simp, subst log2_loop.simps) simp
next
  case (Suc n)
  have "drop_bit 1 (2 ^ Suc n :: u64) = 2 ^ n" using Suc.prems
    by (intro bit_eqI) (auto simp add: bit_drop_bit_eq bit_exp_iff simp del: power_Suc)
  moreover have "(0 :: u64) < 2 ^ Suc n" using unat_pow2 [of "Suc n"] Suc.prems
    by (simp add: word_less_nat_alt del: power_Suc)
  ultimately show ?case using Suc by (subst log2_loop.simps) simp
qed

lemma pool_find_ok:
  assumes "\<And>j. j \<in> set (ys @ i # zs) \<Longrightarrow> j < length (dynamic_node_arr s)" "i \<notin> set ys"
  shows "sll (\<lambda>j. dnext (dynamic_node_arr s ! j)) h (ys @ i # zs) \<Longrightarrow>
     pool_find i prv h s = Some (if ys = [] then prv else Some (last ys))"
  using assms
proof (induction ys arbitrary: h prv)
  case Nil
  then show ?case by (subst pool_find.simps) simp
next
  case (Cons y ys)
  then have "pool_find i prv h s = pool_find i (Some y) (dnext (dynamic_node_arr s ! y)) s"
    by (subst pool_find.simps) simp
  moreover have "\<dots> = Some (if ys = [] then Some y else Some (last ys))"
    using Cons.prems by (intro Cons.IH) auto
  ultimately show ?case by simp
qed

text \<open>A whole block.\<close>

lemma free_block:
  assumes R: "dyn_rel PL C s" and i: "used_at (arr s) i e" "e \<le> num_pages_exp s" "i \<notin> pooled PL" and m: "daif_masked s"
  shows "\<exists>s'. buddy_free (of_nat i * PAGE_SIZE) s = Some s' \<and> dyn_rel PL C (enable_int s')
     \<and> live_ranges PL C (enable_int s') = live_ranges PL C s - {block_range i e} \<and> outside s s'"
proof -
  obtain s' where s': "buddy_free (of_nat i * PAGE_SIZE) s = Some s'" "buddy_ok s'"
    "\<And>j d. used_at (arr s') j d \<longleftrightarrow> j \<noteq> i \<and> used_at (arr s) j d" "relinked s (arr s') s'"
    using buddy_free_block [OF dyn_relD(1) [OF R] i(1,2)] by blast
  have f: "mem_pool s' = mem_pool s" "dynamic_node_arr s' = dynamic_node_arr s" "num_pages_exp s' = num_pages_exp s" "daif_masked s'"
    using dyn_relinked [OF s'(4)] relinkedD [OF s'(4)] m by auto
  have n: "i < 2 ^ num_pages_exp s" "num_pages_exp s \<le> 30" using i(1) dyn_pages [OF R] by (auto simp: used_at_def)
  have np: "\<And>l. l < 8 \<Longrightarrow> i \<notin> set (PL l)" using i(3) by (auto simp: pooled_def)
  have "dyn_rel PL (C(i := C i)) s'"
    by (rule dyn_rel_change [OF R, of 0])
      (use s'(2,3) f dyn_relD(2-5) [OF R] np dyn_relD(9) [OF R n(1) i(3)] in auto)
  then have R': "dyn_rel PL C s'" by simp
  have "live_ranges PL C s = insert (block_range i e) (live_ranges PL C s')"
  proof -
    have "used_at (arr s) j d \<and> d \<le> num_pages_exp s \<and> j \<notin> pooled PL \<longleftrightarrow>
       (used_at (arr s') j d \<and> d \<le> num_pages_exp s' \<and> j \<notin> pooled PL) \<or> (j = i \<and> d = e)" for j d
      using s'(3) f(3) i n neg_exp_inj [of d e] by (auto simp: used_at_def)
    then show ?thesis unfolding live_ranges_def by auto
  qed
  moreover have "block_range i e \<notin> live_ranges PL C s'"
  proof
    assume "block_range i e \<in> live_ranges PL C s'"
    then show False
    proof (cases rule: live_range_cases)
      case (block j d)
      then show False using s'(3) by (auto simp: block_range_def)
    qed (use chunk_not_block in metis)
  qed
  ultimately show ?thesis using s'(1) dyn_rel_enable [OF R' f(4)] outside_relinked [OF s'(4)] by auto
qed

text \<open>A pool page that has lost its last chunk.\<close>

lemma dyn_rel_shrink:
  assumes R: "dyn_rel PL C s" and k: "k < 8" "PL k = ys @ i # zs" and s': "buddy_ok s'" "num_pages_exp s' = num_pages_exp s"
    and u: "\<And>j d. used_at (arr s') j d \<longleftrightarrow> j \<noteq> i \<and> used_at (arr s) j d"
    and ps: "mem_pool s' = (if ys = [] then (mem_pool s)[k := dnext (dynamic_node_arr s ! i)] else mem_pool s)"
    and ds: "dynamic_node_arr s' = (if ys = [] then dynamic_node_arr s
      else (dynamic_node_arr s)[last ys := (dynamic_node_arr s ! last ys)\<lparr>dnext := dnext (dynamic_node_arr s ! i)\<rparr>])[i := d]"
    and d: "idle_node d"
  shows "dyn_rel (PL(k := ys @ zs)) C s'"
proof -
  let ?X = "\<lambda>j. dnext (dynamic_node_arr s ! j)"
  have len: "length (dynamic_node_arr s) = 2 ^ num_pages_exp s" "length (mem_pool s) = 8" using dyn_relD [OF R] by auto
  have dist: "distinct (ys @ i # zs)" and sll: "sll ?X (mem_pool s ! k) (ys @ i # zs)"
    using dyn_relD(4,5) [OF R k(1)] k(2) by auto
  have i: "i < 2 ^ num_pages_exp s" "i \<in> set (PL k)" using dyn_relD(10) [OF R k(1), of i] k(2) by auto
  have lst: "last ys \<in> set (PL k)" "last ys < length (dynamic_node_arr s)" "last ys \<noteq> i" if "ys \<noteq> []"
    using dyn_relD(10) [OF R k(1), of "last ys"] len last_in_set [OF that] k(2) dist by auto
  have X: "dnext (dynamic_node_arr s' ! j) = (if ys \<noteq> [] \<and> j = last ys then ?X i else ?X j)" if "j \<noteq> i" for j
    using that lst by (auto simp: ds nth_list_update)
  have main: "sll (\<lambda>j. dnext (dynamic_node_arr s' ! j)) (mem_pool s' ! k) (ys @ zs)"
  proof (cases "ys = []")
    case True
    then have "sll ?X (mem_pool s' ! k) zs" using sll k(1) len(2) ps by simp
    then show ?thesis using True X dist sll_frame [of zs "\<lambda>j. dnext (dynamic_node_arr s' ! j)" ?X] by fastforce
  next
    case False
    have "sll (?X(last ys := ?X i)) (mem_pool s ! k) (ys @ zs)" by (rule sll_remove [OF sll dist False])
    moreover have "dnext (dynamic_node_arr s' ! j) = (?X(last ys := ?X i)) j" if "j \<in> set (ys @ zs)" for j
      using X [of j] that dist False by (cases "j = i") auto
    ultimately show ?thesis using sll_frame [of "ys @ zs" "\<lambda>j. dnext (dynamic_node_arr s' ! j)" "?X(last ys := ?X i)"] False ps
      by auto
  qed
  have other: "sll (\<lambda>j. dnext (dynamic_node_arr s' ! j)) (mem_pool s' ! l) (PL l)" if "l < 8" "l \<noteq> k" for l
  proof -
    have "j \<noteq> i" "ys \<noteq> [] \<longrightarrow> j \<noteq> last ys" if j: "j \<in> set (PL l)" for j
      using dyn_relD(8) [OF R \<open>l < 8\<close> k(1) \<open>l \<noteq> k\<close>] j i(2) lst(1) by blast+
    then have "sll (\<lambda>j. dnext (dynamic_node_arr s' ! j)) (mem_pool s ! l) (PL l)"
      using X by (intro sll_frame [THEN iffD2, OF _ dyn_relD(5) [OF R \<open>l < 8\<close>]]) auto
    then show ?thesis using that ps by simp
  qed
  have np: "i \<notin> set (PL l)" if "l < 8" "l \<noteq> k" for l using dyn_relD(8) [OF R that(1) k(1) that(2)] i(2) by blast
  have pk: "j \<in> pooled PL" if "j \<in> set (PL k)" for j using that k(1) by (auto simp: pooled_def)
  have nd: "\<exists>v. dynamic_node_arr s' ! j = dynamic_node_arr s ! j
      \<or> j \<in> pooled PL \<and> dynamic_node_arr s' ! j = (dynamic_node_arr s ! j)\<lparr>dnext := v\<rparr>" if "j \<noteq> i" for j
    using that lst pk by (cases "ys \<noteq> [] \<and> j = last ys") (auto simp: ds)
  have "dyn_rel (PL(k := ys @ zs)) (C(i := C i)) s'"
    by (rule dyn_rel_change [OF R k(1), where i = i])
      (use s' len ps ds main other dist dyn_relD(4) [OF R] nd u np k(2) i d in \<open>auto split: if_splits\<close>)
  then show ?thesis by simp
qed

lemma pool_shrink_ok:
  assumes R: "dyn_rel PL C s" and k: "k < 8" "i \<in> set (PL k)" and c: "C i = {c}" and m: "daif_masked s"
    and d: "chunk_size d = 2 ^ (k + 4)" "dnext d = dnext (dynamic_node_arr s ! i)" "addr d = page_ptr_v i"
  shows "\<exists>PL' s'. pool_shrink i (s\<lparr>dynamic_node_arr := (dynamic_node_arr s)[i := d]\<rparr>) = Some s'
     \<and> dyn_rel PL' C (enable_int s') \<and> live_ranges PL' C (enable_int s') = live_ranges PL C s - {chunk_range k i c}
     \<and> outside s s'"
proof -
  obtain ys zs where yz: "PL k = ys @ i # zs" using split_list [OF k(2)] by blast
  let ?s0 = "s\<lparr>dynamic_node_arr := (dynamic_node_arr s)[i := d]\<rparr>"
  let ?nx = "dnext (dynamic_node_arr s ! i)"
  let ?z = "d\<lparr>chunk_size := PAGE_SIZE, chunk_sum := 0, dnext := None, bitmap := replicate BITMAP_ARR 0\<rparr>"
  let ?base = "if ys = [] then dynamic_node_arr s else (dynamic_node_arr s)[last ys := (dynamic_node_arr s ! last ys)\<lparr>dnext := ?nx\<rparr>]"
  let ?s1 = "s\<lparr>mem_pool := (if ys = [] then (mem_pool s)[k := ?nx] else mem_pool s), dynamic_node_arr := ?base[i := ?z]\<rparr>"
  have len: "length (dynamic_node_arr s) = 2 ^ num_pages_exp s" "length (mem_pool s) = 8" using dyn_relD [OF R] by auto
  have dist: "distinct (ys @ i # zs)" and sll: "sll (\<lambda>j. dnext (dynamic_node_arr s ! j)) (mem_pool s ! k) (ys @ i # zs)"
    using dyn_relD(4,5) [OF R k(1)] yz by auto
  have lt: "j < 2 ^ num_pages_exp s" if "j \<in> set (ys @ i # zs)" for j using dyn_relD(10) [OF R k(1), of j] that yz by auto
  have i: "i < 2 ^ num_pages_exp s" using lt by simp
  have lst: "last ys < 2 ^ num_pages_exp s" "last ys \<noteq> i" if "ys \<noteq> []"
    using lt [of "last ys"] last_in_set [OF that] dist by auto
  have "sll (\<lambda>j. dnext (dynamic_node_arr ?s0 ! j)) (mem_pool s ! k) (ys @ i # zs)"
    using sll sll_frame [of "ys @ i # zs" "\<lambda>j. dnext (dynamic_node_arr ?s0 ! j)" "\<lambda>j. dnext (dynamic_node_arr s ! j)"] d(2) i len(1)
    by (auto simp: nth_list_update)
  then have fnd: "pool_find i None (mem_pool s ! k) ?s0 = Some (if ys = [] then None else Some (last ys))"
    using pool_find_ok [of ys i zs ?s0 "mem_pool s ! k" None] lt len(1) dist by simp
  obtain s2 where s2: "buddy_free (of_nat i * PAGE_SIZE) ?s1 = Some s2" "buddy_ok s2" "relinked ?s1 (arr s2) s2"
    "\<And>j d. used_at (arr s2) j d \<longleftrightarrow> j \<noteq> i \<and> used_at (arr s) j d"
    using buddy_free_block [of ?s1 i 0] dyn_relD(1) [OF R] dyn_relD(6) [OF R k] by auto
  have f: "mem_pool s2 = mem_pool ?s1" "dynamic_node_arr s2 = ?base[i := ?z]" "num_pages_exp s2 = num_pages_exp s" "daif_masked s2"
    using dyn_relinked [OF s2(3)] relinkedD [OF s2(3)] m by auto
  let ?s3 = "s2\<lparr>dynamic_node_arr := ?base[i := ?z\<lparr>addr := of_nat i * PAGE_SIZE\<rparr>]\<rparr>"
  have nk: "nat (4 + int k) - 4 = k" "\<not> 4 + int k < 4" by simp_all
  have same: "s\<lparr>mem_pool := mem_pool s\<rparr> = s" by (cases s) simp
  have swap: "(dynamic_node_arr s)[i := d, last ys := x] = (dynamic_node_arr s)[last ys := x, i := d]" if "ys \<noteq> []" for x
    using lst(2) [OF that] by (simp add: list_update_swap)
  have l2: "log2_loop (2 ^ (k + 4)) (- 1) = Some (4 + int k)" using log2_loop_pow [of "k + 4" "- 1"] k(1) by simp
  have "pool_shrink i ?s0 = Some ?s3"
  proof (cases "ys = []")
    case True
    then show ?thesis using i len k(1) d fnd s2(1) f
      by (simp add: pool_shrink_def MIN_POOL_SIZE_EXP_def page_ptr_v_def nk l2)
  next
    case False
    then show ?thesis using i len k(1) d fnd s2(1) f lst
      by (simp add: pool_shrink_def MIN_POOL_SIZE_EXP_def page_ptr_v_def nk l2 same swap)
  qed
  moreover have R3: "dyn_rel (PL(k := ys @ zs)) C ?s3"
    by (rule dyn_rel_shrink [OF R k(1) yz]) (use s2(2,4) f in \<open>auto simp: idle_node_def BITMAP_ARR_def\<close>)
  moreover have np: "i \<notin> pooled (PL(k := ys @ zs))"
    using dyn_relD(8) [OF R _ k(1)] k(2) dist by (auto simp: pooled_def split: if_splits)
  moreover have "live_ranges PL (C(i := {c})) s = insert (chunk_range k i c) (live_ranges (PL(k := ys @ zs)) C ?s3)"
    by (rule live_ranges_page [OF k(1) np]) (use dyn_relD(6) [OF R k] s2(4) f(3) yz in auto)
  moreover have "C(i := {c}) = C" using c by (simp add: fun_upd_idem)
  moreover have "c < 2 ^ (8 - k)" using dyn_relD(7) [OF R k] c by (auto simp: node_ok_def)
  moreover have "outside s ?s3" using outside_relinked [OF s2(3)] by simp
  ultimately show ?thesis
    using dyn_rel_enable [OF R3] f(4) live_range_fresh [OF R3 k(1), of c i]
    by (intro exI [of _ "PL(k := ys @ zs)"] exI [of _ ?s3]) auto
qed

lemma chunk_ptr:
  assumes "c < 2 ^ (8 - k)" "k < 8"
  shows "unat ((p2v_trans_kernel (of_nat (fst (chunk_range k i c))) - page_ptr_v i) div 2 ^ (k + 4)) = c"
proof -
  have "p2v_trans_kernel (of_nat (fst (chunk_range k i c))) - page_ptr_v i = of_nat (c * 2 ^ (k + 4))"
    using ptr_chunk [of i c k, symmetric] by simp
  moreover have "c * 2 ^ (k + 4) + 2 ^ (k + 4) \<le> (4096::nat)" by (rule chunk_in_page [OF assms(2,1)])
  then have "unat (of_nat (c * 2 ^ (k + 4)) :: u64) = c * 2 ^ (k + 4)" by (intro unat_of_nat_small) simp
  moreover have "unat (2 ^ (k + 4) :: u64) = 2 ^ (k + 4)" using assms(2) by (intro unat_pow2) simp
  ultimately show ?thesis by (simp only: unat_div) simp
qed

lemma free_serves:
  assumes L: "dyn_live s L" and x: "x \<in> L"
  shows "\<exists>s'. free (p2v_trans_kernel (of_nat (fst x))) s = Some s' \<and> dyn_live s' (L - {x}) \<and> outside s s'"
proof -
  obtain PL C where R: "dyn_rel PL C s" and L: "L = live_ranges PL C s" using L by (auto simp: dyn_live_def)
  let ?s = "disable_int s"
  have Rd: "dyn_rel PL C ?s" and Ld: "live_ranges PL C ?s = L" and md: "daif_masked ?s" using R L by simp_all
  have crit: "outside s (enable_int s')" if "outside ?s s'" for s'
    using outside_critical [OF _ that] dyn_relD(1) [OF R] by (simp add: buddy_ok_def)
  have len: "length (dynamic_node_arr s) = 2 ^ num_pages_exp s" using dyn_relD(3) [OF R] .
  from x [unfolded L] show ?thesis
  proof (cases rule: live_range_cases)
    case (block i e)
    have i: "i < 2 ^ num_pages_exp s" using block(1) dyn_pages [OF R] by (auto simp: used_at_def)
    have "i * 4096 < 2 ^ num_pages_exp s * 4096" using i by simp
    note p = phys_addr [OF R this]
    have eq: "(of_nat (fst x) :: u64) = of_nat i * PAGE_SIZE" "(of_nat (i * 4096) :: u64) = of_nat i * PAGE_SIZE"
      using block(4) by (simp_all add: block_range_def PAGE_SIZE_def)
    obtain s' where s': "buddy_free (of_nat i * PAGE_SIZE) ?s = Some s'" "dyn_rel PL C (enable_int s')"
      "live_ranges PL C (enable_int s') = live_ranges PL C ?s - {block_range i e}" "outside ?s s'"
      using free_block [OF Rd _ _ block(3) md] block(1,2) by auto
    have "chunk_size (dynamic_node_arr s ! i) = PAGE_SIZE" using dyn_relD(9) [OF R i block(3)] by (simp add: idle_node_def)
    then have "free (p2v_trans_kernel (of_nat (fst x))) s = Some (enable_int s')"
      using p eq s'(1) i len by (simp add: free_def Let_def)
    then show ?thesis using s'(2,3) Ld block(4) crit [OF s'(4)] unfolding dyn_live_def by metis
  next
    case (chunk k i c)
    let ?d = "dynamic_node_arr s ! i"
    let ?d' = "?d\<lparr>chunk_sum := chunk_sum ?d - int (c + 1), bitmap := (bitmap ?d)[c div 64 := (bitmap ?d ! (c div 64)) AND NOT (shl_int (c mod 64))]\<rparr>"
    have N: "node_ok k i (C i) ?d" using dyn_relD(7) [OF R chunk(1,2)] .
    then have c: "c < 2 ^ (8 - k)" and bm: "length (bitmap ?d) = 4" and d: "chunk_size ?d = 2 ^ (k + 4)" "addr ?d = page_ptr_v i"
      using chunk(3) by (auto simp: node_ok_def)
    have i: "i < 2 ^ num_pages_exp s" using dyn_relD(10) [OF R chunk(1,2)] .
    have "(0::nat) < 2 ^ (k + 4)" by simp
    then have "fst x < i * 4096 + 4096" "i * 4096 \<le> fst x"
      using chunk_in_page [OF chunk(1) c] unfolding chunk(4) chunk_range_def fst_conv by linarith+
    then have dv: "fst x div 4096 = i" and "fst x < (i + 1) * 4096" by auto
    then have "fst x < 2 ^ num_pages_exp s * 4096"
      using i mult_le_mono1 [of "i + 1" "2 ^ num_pages_exp s" 4096] by linarith
    note p = phys_addr [OF R this]
    have ps: "(2::u64) ^ (k + 4) \<noteq> PAGE_SIZE"
    proof
      assume "(2::u64) ^ (k + 4) = PAGE_SIZE"
      then have "unat ((2::u64) ^ (k + 4)) = 4096" by (simp add: PAGE_SIZE_def)
      then have "(2::nat) ^ (k + 4) = 2 ^ 12" using unat_pow2 [of "k + 4"] chunk(1) by simp
      then show False using chunk(1) power_inject_exp [of "2::nat" "k + 4" 12] by simp
    qed
    have c4: "c div 64 < 4" using c pow_8_le(1) [of k] by auto
    note dc = drop_chunk_ok [OF N chunk(3)]
    have s0: "bitmap ?d ! (c div 64) AND shl_int (c mod 64) \<noteq> 0" using dc(1) by (simp add: slot_def slotw_def)
    have cp: "unat ((p2v_trans_kernel (of_nat (fst x)) - page_ptr_v i) div 2 ^ (k + 4)) = c"
      using chunk_ptr [OF c chunk(1), of i] chunk(4) by simp
    let ?t = "?s\<lparr>dynamic_node_arr := (dynamic_node_arr s)[i := ?d']\<rparr>"
    have fr: "free (p2v_trans_kernel (of_nat (fst x))) s =
        do { s \<leftarrow> (if chunk_sum ?d' = 0 then pool_shrink i ?t else Some ?t); Some (enable_int s) }"
      using p dv i len d ps bm c4 s0 cp by (simp add: free_def Let_def)
    show ?thesis
    proof (cases "C i = {c}")
      case True
      obtain PL' s' where s': "pool_shrink i ?t = Some s'" "dyn_rel PL' C (enable_int s')"
        "live_ranges PL' C (enable_int s') = L - {x}" "outside ?s s'"
        using pool_shrink_ok [OF Rd chunk(1,2) True md, of ?d'] d Ld chunk(4) by auto
      have "dyn_live (enable_int s') (L - {x})" unfolding dyn_live_def using s'(2,3) by (intro exI [of _ PL'] exI [of _ C]) simp
      then show ?thesis unfolding fr using s'(1) crit [OF s'(4)] dc(2) True by (simp only: if_True option.simps bind.bind_lunit) simp
    next
      case False
      let ?C = "C(i := C i - {c})"
      have R': "dyn_rel PL ?C ?t" using dyn_rel_node [OF Rd chunk(1,2) dc(3) [OF False]] by simp
      have "insert c (C i - {c}) = C i" using chunk(3) by blast
      then have "L = insert (chunk_range k i c) (live_ranges PL ?C ?t)"
        using live_ranges_chunk [OF R' chunk(1,2), of c] Ld by (simp add: live_ranges_def)
      moreover have "chunk_range k i c \<notin> live_ranges PL ?C ?t" by (rule live_range_fresh [OF R' chunk(1) c]) simp
      ultimately have "live_ranges PL ?C (enable_int ?t) = L - {x}" using dyn_rel_enable(2) [OF R'] md chunk(4) by auto
      moreover have "dyn_rel PL ?C (enable_int ?t)" using dyn_rel_enable(1) [OF R'] md by simp
      ultimately have "dyn_live (enable_int ?t) (L - {x})" unfolding dyn_live_def by metis
      then show ?thesis using fr dc(2) False crit [of ?t] by auto
    qed
  qed
qed

section \<open>Interface\<close>

text \<open>
  What the rest of the kernel relies on: \<open>live s L\<close> says that \<open>L\<close> are the ranges handed out in state \<open>s\<close>,
  \<open>room s n\<close> that a request for \<open>n\<close> bytes can be served, \<open>ptr x\<close> is the pointer to a range, and \<open>keeps s s'\<close> that the
  state outside the allocator is the same.
\<close>

locale allocator =
  fixes alloc :: "u64 \<Rightarrow> 's \<Rightarrow> (u64 \<times> 's) option"
    and release :: "u64 \<Rightarrow> 's \<Rightarrow> 's option"
    and live :: "'s \<Rightarrow> (nat \<times> nat) set \<Rightarrow> bool"
    and room :: "'s \<Rightarrow> nat \<Rightarrow> bool"
    and ptr :: "nat \<times> nat \<Rightarrow> u64"
    and keeps :: "'s \<Rightarrow> 's \<Rightarrow> bool"
  assumes alloc_law: "live s L \<Longrightarrow> sz \<noteq> 0 \<Longrightarrow> room s (unat sz) \<Longrightarrow>
      \<exists>x s'. alloc sz s = Some (ptr x, s') \<and> x \<notin> L \<and> live s' (insert x L) \<and> unat sz \<le> snd x
        \<and> snd x \<le> max 16 (2 * unat sz) \<and> keeps s s'"
    and release_law: "live s L \<Longrightarrow> x \<in> L \<Longrightarrow> \<exists>s'. release (ptr x) s = Some s' \<and> live s' (L - {x}) \<and> keeps s s'"
    and apart_law: "live s L \<Longrightarrow> x \<in> L \<Longrightarrow> y \<in> L \<Longrightarrow> x \<noteq> y \<Longrightarrow> range_of x \<inter> range_of y = {}"
begin

lemma alloc_apart:
  assumes "live s L" "sz \<noteq> 0" "room s (unat sz)"
  shows "\<exists>x s'. alloc sz s = Some (ptr x, s') \<and> x \<notin> L \<and> live s' (insert x L) \<and> unat sz \<le> snd x
     \<and> snd x \<le> max 16 (2 * unat sz) \<and> keeps s s' \<and> (\<forall>y \<in> L. range_of x \<inter> range_of y = {})"
  using alloc_law [OF assms] apart_law by (metis insertCI)

lemma alloc_release:
  assumes "live s L" "sz \<noteq> 0" "room s (unat sz)"
  shows "\<exists>p s1 s2. alloc sz s = Some (p, s1) \<and> release p s1 = Some s2 \<and> live s2 L"
proof -
  obtain x s1 where a: "alloc sz s = Some (ptr x, s1)" "x \<notin> L" "live s1 (insert x L)" using alloc_law [OF assms] by blast
  then have "insert x L - {x} = L" by blast
  then show ?thesis using release_law [OF a(3), of x] a(1) by auto
qed

text \<open>Any part of what is live can be released, in any order.\<close>

lemma release_any_order:
  "live s L \<Longrightarrow> distinct xs \<Longrightarrow> set xs \<subseteq> L \<Longrightarrow>
     \<exists>s'. fold (\<lambda>x r. Option.bind r (release (ptr x))) xs (Some s) = Some s' \<and> live s' (L - set xs)"
proof (induction xs arbitrary: s L)
  case (Cons x xs)
  obtain s1 where s1: "release (ptr x) s = Some s1" "live s1 (L - {x})" using release_law [OF Cons.prems(1), of x] Cons.prems(3) by auto
  have "\<exists>s'. fold (\<lambda>x r. Option.bind r (release (ptr x))) xs (Some s1) = Some s' \<and> live s' (L - {x} - set xs)"
    using Cons.prems by (intro Cons.IH [OF s1(2)]) auto
  moreover have "L - {x} - set xs = L - set (x # xs)" by auto
  ultimately show ?case using s1(1) by simp
qed auto

end

definition has_room :: "'a dyn_data_scheme \<Rightarrow> nat \<Rightarrow> bool" where
  "has_room s n \<longleftrightarrow> (\<exists>i < length (arr s). \<exists>e \<le> num_pages_exp s. free_at (arr s) i e \<and> n \<le> 2 ^ e * 4096)"

definition kptr :: "nat \<times> nat \<Rightarrow> u64" where
  "kptr x = p2v_trans_kernel (of_nat (fst x))"

interpretation heap: allocator malloc free dyn_live has_room kptr outside
proof
  show "\<exists>x s'. malloc sz s = Some (kptr x, s') \<and> x \<notin> L \<and> dyn_live s' (insert x L) \<and> unat sz \<le> snd x
      \<and> snd x \<le> max 16 (2 * unat sz) \<and> outside s s'"
    if L: "dyn_live s L" and sz: "sz \<noteq> 0" and room: "has_room s (unat sz)" for sz L and s :: "'a dyn_data_scheme"
  proof -
    obtain i e where "free_at (arr s) i e" "e \<le> num_pages_exp s" "unat sz \<le> 2 ^ e * 4096"
      using room unfolding has_room_def by blast
    then obtain x s' where x: "malloc sz s = Some (kptr x, s')" "x \<notin> L" "dyn_live s' (insert x L)" "unat sz \<le> snd x"
      "snd x = 16 \<or> snd x < 2 * unat sz" "outside s s'"
      using malloc_serves [OF L sz] unfolding kptr_def by blast
    have "snd x \<le> max 16 (2 * unat sz)" using x(5) by linarith
    then show ?thesis using x by blast
  qed
  show "\<exists>s'. free (kptr x) s = Some s' \<and> dyn_live s' (L - {x}) \<and> outside s s'" if "dyn_live s L" "x \<in> L" for x L and s :: "'a dyn_data_scheme"
    using free_serves [OF that] by (simp add: kptr_def)
  show "range_of x \<inter> range_of y = {}" if "dyn_live s L" "x \<in> L" "y \<in> L" "x \<noteq> y" for x y L and s :: "'a dyn_data_scheme"
    using that(1) live_disjoint that(2-4) unfolding dyn_live_def by metis
qed

section \<open>Initial state\<close>

lemma dyn_rel_fresh:
  assumes "buddy_ok s" "mem_pool s = replicate 8 None" "dynamic_node_arr s = map fresh_dyn_node [0..<2 ^ num_pages_exp s]"
  shows "dyn_rel (\<lambda>_. []) C s"
  using assms by (auto simp: dyn_rel_def idle_node_def fresh_dyn_node_def BITMAP_ARR_def)

lemma live_ranges_fresh:
  "live_ranges (\<lambda>_. []) C s = {block_range i e | i e. used_at (arr s) i e \<and> e \<le> num_pages_exp s}"
  by (simp add: live_ranges_def pooled_def)

text \<open>A memory of eight pages right after initialisation.\<close>

definition fresh_heap :: dyn_data where
  "fresh_heap = \<lparr>irq_nested_count = 0, daif_masked = False, console = [],
     heap_start = 0, heap_ptr = 0, base = 0, bend = of_nat (2 ^ 3) * PAGE_SIZE, num_pages_exp = 3,
     arr = (replicate (2 ^ 3) EMPTY)[0 := 3],
     free_blocks_list = (replicate (3 + 1) None)[3 := Some 0], buddy_node_arr = sample_nodes 3,
     usr_pages = [], mem_pool = replicate 8 None, dynamic_node_arr = map fresh_dyn_node [0..<2 ^ 3]\<rparr>"

lemma fresh_heap_unused: "\<not> used_at (arr fresh_heap) i e"
  by (auto simp: used_at_def fresh_heap_def nth_list_update nth_replicate neg_exp_def NEG_ZERO_def EMPTY_def split: if_splits)

lemma fresh_heap_ok: "dyn_live fresh_heap {}" "free_at (arr fresh_heap) 0 3" "num_pages_exp fresh_heap = 3"
proof -
  have "buddy_data.truncate fresh_heap = one_free 3" by (simp add: fresh_heap_def one_free_def buddy_data.defs)
  then have "buddy_ok fresh_heap" using one_free_ok [of 3] buddy_ok_truncate [of fresh_heap] by simp
  then have "dyn_rel (\<lambda>_. []) (\<lambda>_. {}) fresh_heap" by (rule dyn_rel_fresh) (simp_all add: fresh_heap_def)
  moreover note fresh_heap_unused
  ultimately show "dyn_live fresh_heap {}" using live_ranges_fresh [of "\<lambda>_. {}" fresh_heap]
    unfolding dyn_live_def by (intro exI [of _ "\<lambda>_. []"] exI [of _ "\<lambda>_. {}"]) auto
  show "free_at (arr fresh_heap) 0 3" "num_pages_exp fresh_heap = 3" by (simp_all add: fresh_heap_def free_at_def)
qed

section \<open>Properties\<close>

text \<open>
  C3: every request for at least one byte that some free block of pages could hold is served; the
  range returned is large enough and at most twice as large (or 16 bytes), it overlaps nothing that
  is live, the live ranges afterwards are the old ones and this one, and the state outside the allocator is
  the same.
\<close>

theorem malloc_correct:
  assumes "dyn_live s L" "sz \<noteq> 0" "free_at (arr s) m j" "j \<le> num_pages_exp s" "unat sz \<le> 2 ^ j * 4096"
  shows "\<exists>x s'. malloc sz s = Some (kptr x, s') \<and> dyn_live s' (insert x L)
     \<and> x \<notin> L \<and> (\<forall>y \<in> L. range_of x \<inter> range_of y = {}) \<and> unat sz \<le> snd x \<and> (snd x = 16 \<or> snd x < 2 * unat sz)
     \<and> outside s s'"
proof -
  obtain x s' where x: "malloc sz s = Some (kptr x, s')" "x \<notin> L" "dyn_live s' (insert x L)"
    "unat sz \<le> snd x" "snd x = 16 \<or> snd x < 2 * unat sz" "outside s s'"
    using malloc_serves [OF assms] unfolding kptr_def by blast
  moreover have "\<forall>y \<in> L. range_of x \<inter> range_of y = {}" using heap.apart_law [OF x(3)] x(2) by (metis insertCI)
  ultimately show ?thesis by blast
qed

theorem malloc_correct_witness:
  "dyn_live fresh_heap {} \<and> (\<exists>x s'. malloc 100 fresh_heap = Some (kptr x, s') \<and> dyn_live s' {x} \<and> 100 \<le> snd x)"
  using malloc_correct [of fresh_heap "{}" 100 0 3] fresh_heap_ok by auto

text \<open>
  C4: releasing a live range, whether a chunk or a block of pages, makes exactly that range unused and leaves the
  state outside the allocator alone.
\<close>

theorem free_correct:
  assumes "dyn_live s L" "x \<in> L"
  shows "\<exists>s'. free (kptr x) s = Some s' \<and> dyn_live s' (L - {x}) \<and> outside s s'"
  by (rule heap.release_law [OF assms])

theorem free_correct_witness:
  "\<exists>x s1 s2. malloc 100 fresh_heap = Some (kptr x, s1) \<and> dyn_live s1 {x} \<and> free (kptr x) s1 = Some s2 \<and> dyn_live s2 {}"
proof -
  obtain x s1 where "malloc 100 fresh_heap = Some (kptr x, s1)" "dyn_live s1 {x}"
    using malloc_serves [of fresh_heap "{}" 100 0 3] fresh_heap_ok unfolding kptr_def by auto
  moreover have "{x} - {x} = {}" by simp
  ultimately show ?thesis using free_correct [of s1 "{x}" x] by (metis singletonI)
qed



text \<open>
  C27: initialisation ends, whatever blocks are in use, with exactly these blocks live and every pool empty.
\<close>

theorem dynamic_allocator_init_correct:
  assumes "buddy_ok s" "unat (heap_start s) + unat HEAP_SIZE + 2 ^ 40 \<le> 2 ^ 64" "0 < unat (heap_ptr s)"
    "unat (heap_ptr s) + 2 ^ num_pages_exp s * 72 + 7 \<le> unat (heap_start s) + unat HEAP_SIZE"
  shows "\<exists>s'. dynamic_allocator_init s = Some s' \<and> mem_pool s' = replicate 8 None \<and> arr s' = arr s
     \<and> dyn_live s' {block_range i e | i e. used_at (arr s) i e \<and> e \<le> num_pages_exp s}"
proof -
  let ?n = "num_pages_exp s" and ?s = "s\<lparr>mem_pool := replicate 8 None\<rparr>"
  have n: "?n \<le> 30" using assms(1) part_okD(1) by (auto simp: buddy_ok_def)
  have pw: "(2::nat) ^ ?n \<le> 2 ^ 30" using n by (intro power_increasing) auto
  have "push_bit ?n 1 * 72 = (of_nat (2 ^ ?n * 72) :: u64)" by (simp add: push_bit_eq_mult)
  then have sz: "unat (push_bit ?n 1 * 72 :: u64) = 2 ^ ?n * 72"
    using unat_of_nat_small [of "2 ^ ?n * 72", where 'a = 64] pw by simp
  obtain p h where m: "simple_malloc (push_bit ?n 1 * 72) ?s = (p, ?s\<lparr>heap_ptr := h\<rparr>)" "p \<noteq> 0"
    using simple_malloc_room [of ?s "push_bit ?n 1 * 72"] sz pw assms by auto
  let ?t = "?s\<lparr>heap_ptr := h, dynamic_node_arr := map fresh_dyn_node [0..<2 ^ ?n]\<rparr>"
  have "dynamic_allocator_init s = Some ?t"
    using m by (simp add: dynamic_allocator_init_def Let_def MAX_POOL_SIZE_EXP_def MIN_POOL_SIZE_EXP_def)
  moreover have "dyn_rel (\<lambda>_. []) (\<lambda>_. {}) ?t"
    using assms(1) by (intro dyn_rel_fresh) (simp_all add: buddy_ok_def irq_ok_def)
  then have "dyn_live ?t (live_ranges (\<lambda>_. []) (\<lambda>_. {}) ?t)" unfolding dyn_live_def by blast
  ultimately show ?thesis by (simp add: live_ranges_fresh)
qed

theorem dynamic_allocator_init_correct_witness:
  "\<exists>s'. dynamic_allocator_init (fresh_heap\<lparr>heap_ptr := 8\<rparr>) = Some s' \<and> dyn_live s' {}"
proof -
  have "dyn_rel PL C fresh_heap \<Longrightarrow> buddy_ok (fresh_heap\<lparr>heap_ptr := 8\<rparr>)" for PL C
    using dyn_relD(1) [of PL C fresh_heap] by (simp add: buddy_ok_def irq_ok_def)
  then have "buddy_ok (fresh_heap\<lparr>heap_ptr := 8\<rparr>)" using fresh_heap_ok(1) unfolding dyn_live_def by blast
  moreover have "\<not> used_at (arr fresh_heap) i e" for i e by (rule fresh_heap_unused)
  ultimately show ?thesis
    using dynamic_allocator_init_correct [of "fresh_heap\<lparr>heap_ptr := 8\<rparr>"] by (auto simp: fresh_heap_def HEAP_SIZE_def)
qed



end
