(* ===== verification/Kernel_List.thy ===== *)
theory Kernel_List
  imports Dyn_Props
begin

text \<open>
  The generic doubly linked list of \<open>list.c\<close> and \<open>list.h\<close>.  Its nodes live in memory from the dynamic
  allocator: \<open>list_nodes\<close> maps the address of every node that is allocated to its contents, and a node that is
  released is removed from the map, so an access to it is undefined.  The list header (\<open>struct list\<close>) is passed
  and returned as a value.
\<close>

section \<open>Model\<close>

record node =
  n_ptr :: u64
  n_prev :: "u64 option"
  n_next :: "u64 option"

record klist =
  head :: "u64 option"
  tail :: "u64 option"

record list_data = dyn_data +
  list_nodes :: "u64 \<rightharpoonup> node"

definition list_empty :: "klist \<Rightarrow> bool" where
  "list_empty l \<longleftrightarrow> head l = None"

definition list_top :: "klist \<Rightarrow> 'a list_data_scheme \<Rightarrow> u64 option" where
  "list_top l s = (case head l of None \<Rightarrow> Some 0 | Some h \<Rightarrow> map_option n_ptr (list_nodes s h))"

definition upd_lnode :: "u64 \<Rightarrow> (node \<Rightarrow> node) \<Rightarrow> 'a list_data_scheme \<Rightarrow> 'a list_data_scheme option" where
  "upd_lnode p f s = do { n \<leftarrow> list_nodes s p; Some (s\<lparr>list_nodes := (list_nodes s)(p \<mapsto> f n)\<rparr>) }"

text \<open>\<open>calloc(1, sizeof(struct node))\<close> and \<open>free\<close> of a node.\<close>

definition calloc_node :: "'a list_data_scheme \<Rightarrow> (u64 \<times> 'a list_data_scheme) option" where
  "calloc_node s = do {
     (p, s) \<leftarrow> malloc 24 s;
     if p = 0 then None
     else Some (p, s\<lparr>list_nodes := (list_nodes s)(p \<mapsto> \<lparr>n_ptr = 0, n_prev = None, n_next = None\<rparr>)\<rparr>)
   }"

definition free_node :: "u64 \<Rightarrow> 'a list_data_scheme \<Rightarrow> 'a list_data_scheme option" where
  "free_node p s = do { s \<leftarrow> free p s; Some (s\<lparr>list_nodes := (list_nodes s)(p := None)\<rparr>) }"

definition list_push :: "klist \<Rightarrow> u64 \<Rightarrow> 'a list_data_scheme \<Rightarrow> (klist \<times> 'a list_data_scheme) option" where
  "list_push l v s = do {
     let s = disable_int s;
     (tmp, s) \<leftarrow> calloc_node s;
     s \<leftarrow> upd_lnode tmp (\<lambda>n. n\<lparr>n_ptr := v\<rparr>) s;
     (l, s) \<leftarrow> (case tail l of
         Some t \<Rightarrow> do {
           s \<leftarrow> upd_lnode t (\<lambda>n. n\<lparr>n_next := Some tmp\<rparr>) s;
           s \<leftarrow> upd_lnode tmp (\<lambda>n. n\<lparr>n_prev := Some t\<rparr>) s;
           Some (l, s)
         }
       | None \<Rightarrow> Some (l\<lparr>head := Some tmp\<rparr>, s));
     Some (l\<lparr>tail := Some tmp\<rparr>, enable_int s)
   }"

definition list_pop :: "klist \<Rightarrow> 'a list_data_scheme \<Rightarrow> (u64 \<times> klist \<times> 'a list_data_scheme) option" where
  "list_pop l s =
     (let s = disable_int s in
      case head l of
        None \<Rightarrow> Some (0, l, enable_int s)
      | Some h \<Rightarrow> do {
          n \<leftarrow> list_nodes s h;
          let l = l\<lparr>head := n_next n\<rparr>;
          (l, s) \<leftarrow> (case head l of
              Some h' \<Rightarrow> do { s \<leftarrow> upd_lnode h' (\<lambda>n. n\<lparr>n_prev := None\<rparr>) s; Some (l, s) }
            | None \<Rightarrow> Some (l\<lparr>tail := None\<rparr>, s));
          s \<leftarrow> free_node h s;
          Some (n_ptr n, l, enable_int s)
        })"

text \<open>Taking a node out of its list, as \<open>list_delete\<close> and \<open>list_rm_and_process\<close> both do.\<close>

definition list_unlink :: "u64 \<Rightarrow> klist \<Rightarrow> 'a list_data_scheme \<Rightarrow> (klist \<times> 'a list_data_scheme) option" where
  "list_unlink tmp l s = do {
     n \<leftarrow> list_nodes s tmp;
     (l, s) \<leftarrow> (case n_prev n of
         Some p \<Rightarrow> do { s \<leftarrow> upd_lnode p (\<lambda>m. m\<lparr>n_next := n_next n\<rparr>) s; Some (l, s) }
       | None \<Rightarrow> Some (l\<lparr>head := n_next n\<rparr>, s));
     n \<leftarrow> list_nodes s tmp;
     (case n_next n of
         Some q \<Rightarrow> do { s \<leftarrow> upd_lnode q (\<lambda>m. m\<lparr>n_prev := n_prev n\<rparr>) s; Some (l, s) }
       | None \<Rightarrow> Some (l\<lparr>tail := n_prev n\<rparr>, s))
   }"

partial_function (option) list_delete_loop ::
  "u64 option \<Rightarrow> klist \<Rightarrow> u64 \<Rightarrow> 'a list_data_scheme \<Rightarrow> (u64 \<times> klist \<times> 'a list_data_scheme) option" where
  "list_delete_loop cur l v s =
     (case cur of
        None \<Rightarrow> Some (0, l, s)
      | Some tmp \<Rightarrow> do {
          n \<leftarrow> list_nodes s tmp;
          if n_ptr n = v then do {
            (l, s) \<leftarrow> list_unlink tmp l s;
            n \<leftarrow> list_nodes s tmp;
            s \<leftarrow> free_node tmp s;
            Some (n_ptr n, l, s)
          }
          else list_delete_loop (n_next n) l v s
        })"

definition list_delete :: "klist \<Rightarrow> u64 \<Rightarrow> 'a list_data_scheme \<Rightarrow> (u64 \<times> klist \<times> 'a list_data_scheme) option" where
  "list_delete l v s = do {
     let s = disable_int s;
     (ret, l, s) \<leftarrow> list_delete_loop (head l) l v s;
     let s = enable_int s;
     Some (ret, l, if ret = 0 then print_msg ''Node not found'' s else s)
   }"

partial_function (option) list_find_loop :: "u64 option \<Rightarrow> (u64 \<Rightarrow> bool option) \<Rightarrow> 'a list_data_scheme \<Rightarrow> u64 option" where
  "list_find_loop cur match s =
     (case cur of
        None \<Rightarrow> Some 0
      | Some tmp \<Rightarrow> do {
          n \<leftarrow> list_nodes s tmp;
          b \<leftarrow> match (n_ptr n);
          if b then Some (n_ptr n) else list_find_loop (n_next n) match s
        })"

definition list_find :: "klist \<Rightarrow> (u64 \<Rightarrow> bool option) \<Rightarrow> 'a list_data_scheme \<Rightarrow> (u64 \<times> 'a list_data_scheme) option" where
  "list_find l match s = do {
     let s = disable_int s;
     ret \<leftarrow> list_find_loop (head l) match s;
     Some (ret, enable_int s)
   }"

partial_function (option) list_rm_loop ::
  "u64 option \<Rightarrow> klist \<Rightarrow> (u64 \<Rightarrow> 'a list_data_scheme \<Rightarrow> bool option) \<Rightarrow> (u64 \<Rightarrow> 'a list_data_scheme \<Rightarrow> 'a list_data_scheme option) \<Rightarrow>
     'a list_data_scheme \<Rightarrow> (klist \<times> 'a list_data_scheme) option" where
  "list_rm_loop cur l match opr s =
     (case cur of
        None \<Rightarrow> Some (l, s)
      | Some tmp \<Rightarrow> do {
          n \<leftarrow> list_nodes s tmp;
          let nxt = n_next n;
          b \<leftarrow> match (n_ptr n) s;
          (if b then do {
             s \<leftarrow> opr (n_ptr n) s;
             (l, s) \<leftarrow> list_unlink tmp l s;
             s \<leftarrow> free_node tmp s;
             list_rm_loop nxt l match opr s
           }
           else list_rm_loop nxt l match opr s)
        })"

definition list_rm_and_process ::
  "klist \<Rightarrow> (u64 \<Rightarrow> 'a list_data_scheme \<Rightarrow> bool option) \<Rightarrow> (u64 \<Rightarrow> 'a list_data_scheme \<Rightarrow> 'a list_data_scheme option) \<Rightarrow>
     'a list_data_scheme \<Rightarrow> (klist \<times> 'a list_data_scheme) option" where
  "list_rm_and_process l match opr s = do {
     (l, s) \<leftarrow> list_rm_loop (head l) l match opr (disable_int s);
     Some (l, enable_int s)
   }"

partial_function (option) list_copy_loop ::
  "u64 option \<Rightarrow> klist \<Rightarrow> 'a list_data_scheme \<Rightarrow> (klist \<times> 'a list_data_scheme) option" where
  "list_copy_loop cur dst s =
     (case cur of
        None \<Rightarrow> Some (dst, s)
      | Some tmp \<Rightarrow> do {
          n \<leftarrow> list_nodes s tmp;
          (dst, s) \<leftarrow> list_push dst (n_ptr n) s;
          n \<leftarrow> list_nodes s tmp;
          list_copy_loop (n_next n) dst s
        })"

definition list_copy :: "klist \<Rightarrow> klist \<Rightarrow> 'a list_data_scheme \<Rightarrow> (klist \<times> 'a list_data_scheme) option" where
  "list_copy dst src s = do {
     (dst, s) \<leftarrow> list_copy_loop (head src) dst (disable_int s);
     Some (dst, enable_int s)
   }"

end
