(* ===== verification/Vmem.thy ===== *)
theory Vmem
  imports Kernel_List
begin

text \<open>
  Page tables (\<open>vmem.c\<close>): address translation, mapping, copying for \<open>fork\<close>, the update of one entry for
  copy-on-write, and release.  \<open>pt_mem\<close> holds the words of the page tables by their physical addresses: reading a word
  that was never written, or whose page has been released, is undefined.  Table pages come from \<open>malloc\<close> and go back with
  \<open>free\<close>.  Blocks that the code uses as arrays of bytes lie in \<open>ram\<close>, by their kernel addresses; \<open>ram_ok\<close> tells which addresses
  have been handed out as such a block, and an access to any other address is undefined.  A table level is a number: \<open>PTE\<close> 0, \<open>PMD\<close> 1, \<open>PUD\<close> 2, \<open>PGD\<close> 3.
\<close>

section \<open>State and constants\<close>

record vm_data = list_data +
  pt_mem :: "u64 \<rightharpoonup> u64"
  ttbr0_el1 :: u64
  ttbr1_el1 :: u64
  usable_end :: u64
  ram :: "u64 \<Rightarrow> u8"
  ram_ok :: "u64 \<Rightarrow> bool"

definition NUM_PT_ENTRIES :: nat where "NUM_PT_ENTRIES = 512"
definition NUM_PT_LEVEL :: nat where "NUM_PT_LEVEL = 4"
definition TABLE_ADDR_MASK :: u64 where "TABLE_ADDR_MASK = 0xfffffffff000"
definition PD_ACCESS :: u64 where "PD_ACCESS = push_bit 10 1"
definition PD_RDONLY :: u64 where "PD_RDONLY = push_bit 7 1"
definition PD_USER_ACCESS :: u64 where "PD_USER_ACCESS = push_bit 6 1"
definition PD_TABLE :: u64 where "PD_TABLE = 3"
definition PD_BLOCK :: u64 where "PD_BLOCK = 1"
definition PD_PAGE :: u64 where "PD_PAGE = 3"
definition PD_NX_EL0 :: u64 where "PD_NX_EL0 = push_bit 54 1"
definition MAIR_IDX_DEVICE_nGnRnE :: u64 where "MAIR_IDX_DEVICE_nGnRnE = 0"
definition MAIR_IDX_NORMAL_NOCACHE :: u64 where "MAIR_IDX_NORMAL_NOCACHE = 1"
definition MMIO_START :: u64 where "MMIO_START = 0x3f000000"
definition PUD_ADDR :: u64 where "PUD_ADDR = 0x101000"

text \<open>The index of a page in the table of a level (the macro \<open>IDX\<close>).\<close>

definition IDX :: "u64 \<Rightarrow> nat \<Rightarrow> u64" where
  "IDX page_idx level = drop_bit (9 * level) (page_idx AND push_bit (9 * level) 0x1ff)"

definition pt_read :: "u64 \<Rightarrow> 'a vm_data_scheme \<Rightarrow> u64 option" where
  "pt_read a s = pt_mem s a"

definition pt_write :: "u64 \<Rightarrow> u64 \<Rightarrow> 'a vm_data_scheme \<Rightarrow> 'a vm_data_scheme" where
  "pt_write a v s = s\<lparr>pt_mem := (pt_mem s)(a \<mapsto> v)\<rparr>"

text \<open>The word addresses of the table at \<open>a\<close>; a cleared table, and a released one.\<close>

definition entry_at :: "u64 \<Rightarrow> u64 \<Rightarrow> u64" where
  "entry_at a i = a + 8 * i"

definition words_of :: "u64 \<Rightarrow> u64 set" where
  "words_of a = entry_at a ` of_nat ` {..<NUM_PT_ENTRIES}"

definition pt_clear :: "u64 \<Rightarrow> 'a vm_data_scheme \<Rightarrow> 'a vm_data_scheme" where
  "pt_clear a s = s\<lparr>pt_mem := (\<lambda>x. if x \<in> words_of a then Some 0 else pt_mem s x)\<rparr>"

definition pt_drop :: "u64 \<Rightarrow> 'a vm_data_scheme \<Rightarrow> 'a vm_data_scheme" where
  "pt_drop a s = s\<lparr>pt_mem := (\<lambda>x. if x \<in> words_of a then None else pt_mem s x)\<rparr>"

section \<open>Memory as bytes\<close>

definition rd8 :: "u64 \<Rightarrow> 'a vm_data_scheme \<Rightarrow> u8 option" where
  "rd8 a s = (if ram_ok s a then Some (ram s a) else None)"

definition wr8 :: "u64 \<Rightarrow> u8 \<Rightarrow> 'a vm_data_scheme \<Rightarrow> 'a vm_data_scheme option" where
  "wr8 a v s = (if ram_ok s a then Some (s\<lparr>ram := (ram s)(a := v)\<rparr>) else None)"

fun memcpy_ram :: "u64 \<Rightarrow> u64 \<Rightarrow> nat \<Rightarrow> 'a vm_data_scheme \<Rightarrow> 'a vm_data_scheme option" where
  "memcpy_ram d r 0 s = Some s"
| "memcpy_ram d r (Suc n) s = do { c \<leftarrow> rd8 r s; s \<leftarrow> wr8 d c s; memcpy_ram (d + 1) (r + 1) n s }"

definition bytes_at :: "u64 \<Rightarrow> nat \<Rightarrow> 'a vm_data_scheme \<Rightarrow> u8 list" where
  "bytes_at a n s = map (\<lambda>i. ram s (a + of_nat i)) [0..<n]"

text \<open>A block of bytes.\<close>

definition malloc_bytes :: "u64 \<Rightarrow> 'a vm_data_scheme \<Rightarrow> (u64 \<times> 'a vm_data_scheme) option" where
  "malloc_bytes n s = do {
     (p, s) \<leftarrow> malloc n s;
     Some (p, if p = 0 then s else s\<lparr>ram_ok := (\<lambda>a. a - p < n \<or> ram_ok s a)\<rparr>)
   }"

section \<open>Translation\<close>

definition root_table :: "u64 \<Rightarrow> u64 \<Rightarrow> 'a vm_data_scheme \<Rightarrow> u64" where
  "root_table virtual_addr ttbr0 s =
     (if drop_bit 48 virtual_addr = 0xffff then ttbr1_el1 s
      else if ttbr0 \<noteq> 0 then ttbr0
      else ttbr0_el1 s)"

text \<open>
  The walk from level \<open>i\<close> on: the address of the entry that ends it, the entry, and the offset mask at that point;
  \<open>Some None\<close> is an invalid entry.  \<open>v2p_trans\<close> and \<open>replace_page_entry\<close> both contain this loop.
\<close>

function walk :: "nat \<Rightarrow> u64 \<Rightarrow> u64 \<Rightarrow> u64 \<Rightarrow> u64 \<Rightarrow> 'a vm_data_scheme \<Rightarrow> (u64 \<times> u64 \<times> u64) option option" where
  "walk i entry idx_mask offset_mask virtual_addr s =
     (let table_addr = entry AND TABLE_ADDR_MASK;
          idx = drop_bit (39 - i * 9) (virtual_addr AND idx_mask);
          entry_ptr = table_addr OR push_bit 3 idx
      in do {
        entry \<leftarrow> pt_read entry_ptr s;
        if entry AND 1 = 0 then Some None
        else if entry AND 2 = 0 \<or> 3 \<le> i then Some (Some (entry_ptr, entry, offset_mask))
        else walk (i + 1) entry (drop_bit 9 idx_mask) (drop_bit 9 offset_mask) virtual_addr s
      })"
  by pat_completeness auto
termination
  by (relation "measure (\<lambda>(i, _). 3 - i)") auto

declare walk.simps [simp del]

definition v2p_trans :: "u64 \<Rightarrow> u64 \<Rightarrow> 'a vm_data_scheme \<Rightarrow> u64 option" where
  "v2p_trans virtual_addr ttbr0 s = do {
     r \<leftarrow> walk 0 (root_table virtual_addr ttbr0 s) 0xff8000000000 0x7fffffffff virtual_addr s;
     Some (case r of
         None \<Rightarrow> 0
       | Some (p, entry, offset_mask) \<Rightarrow> (entry AND TABLE_ADDR_MASK) OR (virtual_addr AND offset_mask))
   }"

definition replace_page_entry :: "u64 \<Rightarrow> u64 \<Rightarrow> u64 \<Rightarrow> bool \<Rightarrow> 'a vm_data_scheme \<Rightarrow> 'a vm_data_scheme option" where
  "replace_page_entry ttbr0 virtual_addr new_addr w_perm s = do {
     r \<leftarrow> walk 0 (root_table virtual_addr ttbr0 s) 0xff8000000000 0x7fffffffff virtual_addr s;
     Some (case r of
         None \<Rightarrow> s
       | Some (p, entry, _) \<Rightarrow>
           (let entry = (if w_perm then entry AND NOT PD_RDONLY else entry OR PD_RDONLY);
                entry = entry AND NOT TABLE_ADDR_MASK;
                entry = entry OR (new_addr AND TABLE_ADDR_MASK)
            in pt_write p entry s))
   }"

section \<open>Table pages\<close>

definition new_table :: "'a vm_data_scheme \<Rightarrow> (u64 \<times> 'a vm_data_scheme) option" where
  "new_table s = do {
     (v, s) \<leftarrow> malloc PAGE_SIZE s;
     let a = v2p_trans_kernel v;
     Some (a, pt_clear a s)
   }"

definition init_ttbr :: "'a vm_data_scheme \<Rightarrow> (u64 \<times> 'a vm_data_scheme) option" where
  "init_ttbr s = new_table s"

text \<open>The identity map of the first gigabyte in blocks of 2MB.\<close>

definition finer_granu_paging :: "'a vm_data_scheme \<Rightarrow> 'a vm_data_scheme option" where
  "finer_granu_paging s = do {
     (v, s) \<leftarrow> malloc PAGE_SIZE s;
     let pmd = v2p_trans_kernel v;
     let s = fold (\<lambda>i s.
        let mair_idx = (if 0x200000 * of_nat i < MMIO_START then push_bit 2 MAIR_IDX_NORMAL_NOCACHE else push_bit 2 MAIR_IDX_DEVICE_nGnRnE)
        in pt_write (entry_at pmd (of_nat i)) ((0x200000 * of_nat i) OR PD_ACCESS OR mair_idx OR PD_BLOCK) s) [0..<NUM_PT_ENTRIES] s;
     Some (pt_write PUD_ADDR (pmd OR PD_TABLE) s)
   }"

text \<open>
  Mapping a range of pages.  \<open>table_addr\<close> is the array of the physical addresses of the current tables, by level; the first
  loop finds or makes them, the second fills the entries and starts new tables at the boundaries.
\<close>

definition table_step :: "u64 \<Rightarrow> nat \<Rightarrow> u64 list \<times> 'a vm_data_scheme \<Rightarrow> (u64 list \<times> 'a vm_data_scheme) option" where
  "table_step s_page_idx i = (\<lambda>(table_addr, s). do {
     let p = entry_at (table_addr ! (i + 1)) (IDX s_page_idx (i + 1));
     addr_entry \<leftarrow> pt_read p s;
     if addr_entry AND 1 \<noteq> 0 then Some (table_addr[i := addr_entry AND TABLE_ADDR_MASK], s)
     else do {
       (a, s) \<leftarrow> new_table s;
       Some (table_addr[i := a], pt_write p (a OR PD_TABLE) s)
     }
   })"

definition boundary_step :: "u64 \<Rightarrow> nat \<Rightarrow> u64 list \<times> 'a vm_data_scheme \<Rightarrow> (u64 list \<times> 'a vm_data_scheme) option" where
  "boundary_step s_page_idx i = (\<lambda>(table_addr, s).
     if IDX s_page_idx i \<noteq> 0 \<and> IDX (s_page_idx + 1) i = 0 then do {
       (a, s) \<leftarrow> new_table s;
       Some (table_addr[i := a], pt_write (entry_at (table_addr ! (i + 1)) (IDX (s_page_idx + 1) (i + 1))) (a OR PD_TABLE) s)
     }
     else Some (table_addr, s))"

partial_function (option) fill_loop ::
  "u64 list \<Rightarrow> u64 \<Rightarrow> u64 \<Rightarrow> nat \<Rightarrow> u64 \<Rightarrow> u64 \<Rightarrow> 'a vm_data_scheme \<Rightarrow> 'a vm_data_scheme option" where
  "fill_loop table_addr s_page_idx e_page_idx idx start_pa flags s =
     (if s_page_idx < e_page_idx then do {
        let pte_entry = (PAGE_SIZE * of_nat idx + start_pa) OR PD_USER_ACCESS OR push_bit 2 MAIR_IDX_NORMAL_NOCACHE OR PD_PAGE OR flags;
        let s = pt_write (entry_at (table_addr ! 0) (IDX s_page_idx 0)) pte_entry s;
        if s_page_idx + 1 = e_page_idx then Some s
        else do {
          r \<leftarrow> boundary_step s_page_idx 2 (table_addr, s);
          r \<leftarrow> boundary_step s_page_idx 1 r;
          r \<leftarrow> boundary_step s_page_idx 0 r;
          fill_loop (fst r) (s_page_idx + 1) e_page_idx (idx + 1) start_pa flags (snd r)
        }
      }
      else Some s)"

definition fill_page_table :: "u64 \<Rightarrow> u64 \<Rightarrow> u64 \<Rightarrow> u64 \<Rightarrow> u64 \<Rightarrow> 'a vm_data_scheme \<Rightarrow> 'a vm_data_scheme option" where
  "fill_page_table pgd_addr s_page_idx e_page_idx start_pa flags s = do {
     r \<leftarrow> table_step s_page_idx 2 ([0, 0, 0, v2p_trans_kernel pgd_addr], s);
     r \<leftarrow> table_step s_page_idx 1 r;
     r \<leftarrow> table_step s_page_idx 0 r;
     fill_loop (fst r) s_page_idx e_page_idx 0 start_pa flags (snd r)
   }"

text \<open>Release of a table and everything below it.\<close>

fun free_page_table :: "nat \<Rightarrow> u64 \<Rightarrow> 'a vm_data_scheme \<Rightarrow> 'a vm_data_scheme option" where
  "free_page_table level table_addr s = do {
     s \<leftarrow> (case level of
         0 \<Rightarrow> Some s
       | Suc lower \<Rightarrow>
           fold (\<lambda>i r. Option.bind r (\<lambda>s. do {
             e \<leftarrow> pt_read (entry_at table_addr (of_nat i)) s;
             if e AND PD_TABLE \<noteq> 0 then free_page_table lower (e AND TABLE_ADDR_MASK) s else Some s
           })) [0..<NUM_PT_ENTRIES] (Some s));
     s \<leftarrow> free (p2v_trans_kernel table_addr) s;
     Some (pt_drop table_addr s)
   }"

text \<open>One entry that is not a table: the page becomes read-only, its write permission is remembered, and the entry is copied.\<close>

definition fork_entry :: "u64 \<Rightarrow> u64 \<Rightarrow> nat \<Rightarrow> u64 \<Rightarrow> 'a vm_data_scheme \<Rightarrow> 'a vm_data_scheme option" where
  "fork_entry dst_table_addr src_table_addr i e s = do {
     let page_addr = e AND TABLE_ADDR_MASK;
     (e, s) \<leftarrow> (if page_addr < usable_end s then do {
          s \<leftarrow> (if e AND PD_RDONLY = 0 then set_w_permission page_addr True s else Some s);
          Some (e OR PD_RDONLY, pt_write (entry_at src_table_addr (of_nat i)) (e OR PD_RDONLY) s)
        } else Some (e, s));
     Some (pt_write (entry_at dst_table_addr (of_nat i)) e s)
   }"

text \<open>The copy of the tables for a new process; both processes lose the write permission to the pages they share.\<close>

fun page_table_fork :: "nat \<Rightarrow> u64 \<Rightarrow> u64 \<Rightarrow> 'a vm_data_scheme \<Rightarrow> 'a vm_data_scheme option" where
  "page_table_fork level dst_table_addr src_table_addr s =
     fold (\<lambda>i r. Option.bind r (\<lambda>s. do {
       e \<leftarrow> pt_read (entry_at src_table_addr (of_nat i)) s;
       (case level of
          Suc lower \<Rightarrow>
            if e AND PD_TABLE \<noteq> 0 then do {
              (v, s) \<leftarrow> malloc PAGE_SIZE s;
              let nx = v2p_trans_kernel v;
              page_table_fork lower nx (e AND TABLE_ADDR_MASK) (pt_write (entry_at dst_table_addr (of_nat i)) (nx OR PD_TABLE) s)
            }
            else fork_entry dst_table_addr src_table_addr i e s
        | 0 \<Rightarrow> fork_entry dst_table_addr src_table_addr i e s)
     })) [0..<NUM_PT_ENTRIES] (Some s)"

end
