(* ===== verification/Process.thy ===== *)
theory Process
  imports Vmem
begin

text \<open>
  Threads, scheduling and signals: \<open>process.c\<close>, \<open>signal.c\<close>, the process part of \<open>syscall.c\<close>, and the
  register switching of \<open>thread.S\<close>.

  A pointer to a \<open>pcb_t\<close> is a 64-bit word and \<open>pcbs\<close> maps the pointers of the allocated ones to their contents.  \<open>callee\<close> holds the
  registers \<open>x19\<close> to \<open>x30\<close> and \<open>sp\<close> at the point of the call that is being modelled.  A function that can switch to another thread returns where the processor continues:
  \<open>None\<close> if the function returns to its caller, or the \<open>jump\<close> that \<open>eret\<close> takes.  The addresses of functions and labels, which the linker
  chooses, are given by \<open>code_at\<close>.
\<close>

section \<open>State\<close>

datatype stat = RUN | READY | WAIT | DEAD
datatype event = PROC | R | W
datatype sec = TEXT | HEAP | STACK | DEVICE

datatype label = L_idle | L_exit | L__exit | L_sigreturn | L__sigreturn | L_switch_out | L_fork_out

record pcb_t =
  p_pid :: int
  p_args :: u64
  p_el :: int
  p_reg :: "u64 list"
  p_reg_backup :: "u64 list"
  p_sp_el0 :: u64
  p_sp_el0_backup :: u64
  p_pc :: u64
  p_stack :: "u64 list"
  p_state :: stat
  p_wait_q :: "event option"
  p_pstate :: u64
  p_code :: u64
  p_wait_data :: u64
  p_sig_handler :: "u64 list"
  p_signal_queue :: klist
  p_sections :: klist
  p_ttbr :: u64
  p_cur_dir :: u64
  p_fd_table :: "u64 list"
  p_fd_bitmap :: u16

record section_t =
  sec_type :: sec
  sec_base :: u64
  sec_size :: u64

record file_t =
  f_vnode :: u64
  f_pos :: u64
  f_fops :: u64
  f_flags :: u32
  f_ref_count :: int

record jump =
  j_pc :: u64
  j_pstate :: u64
  j_arg :: u64

record sched = vm_data +
  last_pid :: int
  pcb_table :: "u64 list"
  pcbs :: "u64 \<rightharpoonup> pcb_t"
  ready_queue :: klist
  dead_queue :: klist
  wait_queue :: "event \<Rightarrow> klist"
  tpidr_el1 :: u64
  sp_el0 :: u64
  callee :: "u64 list"
  signos :: "u64 \<rightharpoonup> int"
  sections :: "u64 \<rightharpoonup> section_t"
  files :: "u64 \<rightharpoonup> file_t"
  stack_mem :: "u64 \<rightharpoonup> u64"
  rootfs_root :: u64
  code_at :: "label \<Rightarrow> u64"

definition MAX_PROC :: int where "MAX_PROC = 1024"
definition STACK_EL0_SIZE :: u64 where "STACK_EL0_SIZE = push_bit 14 1"
definition STACK_EL1_SIZE :: u64 where "STACK_EL1_SIZE = push_bit 13 1"
definition NSIG :: nat where "NSIG = 64"
definition MAX_NUM_FD :: nat where "MAX_NUM_FD = 16"
definition NR_CALLEE_REGS :: nat where "NR_CALLEE_REGS = 13"
definition SIG_DFL :: u64 where "SIG_DFL = 0"
definition SIG_IGN :: u64 where "SIG_IGN = 1"
definition SIGKILL :: int where "SIGKILL = 9"
definition EL0_W_DAIF :: u64 where "EL0_W_DAIF = 0"
definition EL1H_W_DAIF :: u64 where "EL1H_W_DAIF = 5"

text \<open>Indices of \<open>x29\<close>, \<open>x30\<close> and \<open>sp\<close> in the saved registers, which start at \<open>x19\<close>.\<close>

definition FP :: nat where "FP = 29 - 19"
definition LR :: nat where "LR = 30 - 19"
definition SP :: nat where "SP = 31 - 19"

definition zero_list :: klist where
  "zero_list = \<lparr>head = None, tail = None\<rparr>"

text \<open>The memory of a \<open>pcb_t\<close> as \<open>calloc\<close> returns it; the constructor with the value 0 is \<open>RUN\<close>.\<close>

definition zero_pcb :: pcb_t where
  "zero_pcb = \<lparr>p_pid = 0, p_args = 0, p_el = 0, p_reg = replicate NR_CALLEE_REGS 0, p_reg_backup = replicate NR_CALLEE_REGS 0,
     p_sp_el0 = 0, p_sp_el0_backup = 0, p_pc = 0, p_stack = [0, 0], p_state = RUN, p_wait_q = None, p_pstate = 0, p_code = 0,
     p_wait_data = 0, p_sig_handler = replicate NSIG 0, p_signal_queue = zero_list, p_sections = zero_list, p_ttbr = 0,
     p_cur_dir = 0, p_fd_table = replicate MAX_NUM_FD 0, p_fd_bitmap = 0\<rparr>"

definition get_int :: "'a list \<Rightarrow> int \<Rightarrow> 'a option" where
  "get_int xs i = (if i < 0 then None else get_at xs (nat i))"

definition upd_pcb :: "u64 \<Rightarrow> (pcb_t \<Rightarrow> pcb_t) \<Rightarrow> 'a sched_scheme \<Rightarrow> 'a sched_scheme option" where
  "upd_pcb p f s = do { b \<leftarrow> pcbs s p; Some (s\<lparr>pcbs := (pcbs s)(p \<mapsto> f b)\<rparr>) }"

definition get_current :: "'a sched_scheme \<Rightarrow> u64" where
  "get_current s = tpidr_el1 s"

definition set_current :: "u64 \<Rightarrow> 'a sched_scheme \<Rightarrow> 'a sched_scheme" where
  "set_current p s = s\<lparr>tpidr_el1 := p\<rparr>"

section \<open>Registers\<close>

text \<open>\<open>save_regs\<close>: a null frame pointer, return address or stack pointer stands for the current value of the register.\<close>

definition save_regs :: "u64 \<Rightarrow> u64 \<Rightarrow> u64 \<Rightarrow> u64 \<Rightarrow> 'a sched_scheme \<Rightarrow> 'a sched_scheme option" where
  "save_regs p frame_ptr ret_addr stack_ptr s =
     (let c = callee s;
          x1 = (if frame_ptr \<noteq> 0 then frame_ptr else c ! FP);
          x2 = (if ret_addr \<noteq> 0 then ret_addr else c ! LR);
          x3 = (if stack_ptr \<noteq> 0 then stack_ptr else c ! SP)
      in upd_pcb p (\<lambda>b. b\<lparr>p_reg := take 10 c @ [x1, x2, x3]\<rparr>) s)"

definition load_regs :: "u64 \<Rightarrow> u64 \<Rightarrow> u64 \<Rightarrow> u64 \<Rightarrow> u64 \<Rightarrow> 'a sched_scheme \<Rightarrow> (jump \<times> 'a sched_scheme) option" where
  "load_regs p next_pc next_pstat next_args next_ttbr s = do {
     b \<leftarrow> pcbs s p;
     Some (\<lparr>j_pc = next_pc, j_pstate = next_pstat, j_arg = next_args\<rparr>, s\<lparr>callee := p_reg b, ttbr0_el1 := next_ttbr\<rparr>)
   }"

definition switch_to :: "u64 \<Rightarrow> u64 \<Rightarrow> u64 \<Rightarrow> u64 \<Rightarrow> u64 \<Rightarrow> u64 \<Rightarrow> 'a sched_scheme \<Rightarrow> (jump \<times> 'a sched_scheme) option" where
  "switch_to prv nx next_pc next_pstat next_args next_ttbr s = do {
     s \<leftarrow> upd_pcb prv (\<lambda>b. b\<lparr>p_reg := callee s\<rparr>) s;
     b \<leftarrow> pcbs s nx;
     Some (\<lparr>j_pc = next_pc, j_pstate = next_pstat, j_arg = next_args\<rparr>, s\<lparr>callee := p_reg b, ttbr0_el1 := next_ttbr\<rparr>)
   }"

section \<open>Queues\<close>

definition push_ready :: "u64 \<Rightarrow> 'a sched_scheme \<Rightarrow> 'a sched_scheme option" where
  "push_ready p s = do { (l, s) \<leftarrow> list_push (ready_queue s) p s; Some (s\<lparr>ready_queue := l\<rparr>) }"

definition push_dead :: "u64 \<Rightarrow> 'a sched_scheme \<Rightarrow> 'a sched_scheme option" where
  "push_dead p s = do { (l, s) \<leftarrow> list_push (dead_queue s) p s; Some (s\<lparr>dead_queue := l\<rparr>) }"

section \<open>Creating a thread\<close>

text \<open>The search for a free \<open>pid\<close>: \<open>Inl\<close> is the message that there is none.  The index is not reduced modulo the table size.\<close>

function pid_loop :: "int \<Rightarrow> 'a sched_scheme \<Rightarrow> (unit + int) option" where
  "pid_loop pid s =
     (case get_int (pcb_table s) pid of
        None \<Rightarrow> None
      | Some q \<Rightarrow>
          if q = 0 then Some (Inr pid)
          else if pid = last_pid s then Some (Inl ())
          else pid_loop (pid + 1) s)"
  by pat_completeness auto
termination
  by (relation "measure (\<lambda>(pid, s). nat (int (length (pcb_table s)) - pid))") (auto simp: get_int_def get_at_def split: if_splits)

declare pid_loop.simps [simp del]

definition calloc_pcb :: "'a sched_scheme \<Rightarrow> (u64 \<times> 'a sched_scheme) option" where
  "calloc_pcb s = do {
     (p, s) \<leftarrow> malloc 1008 s;
     if p = 0 then None else Some (p, s\<lparr>pcbs := (pcbs s)(p \<mapsto> zero_pcb)\<rparr>)
   }"

definition thread_create :: "u64 \<Rightarrow> u64 \<Rightarrow> 'a sched_scheme \<Rightarrow> (int \<times> 'a sched_scheme) option" where
  "thread_create func args s = do {
     let s = disable_int s;
     r \<leftarrow> pid_loop ((last_pid s + 1) mod MAX_PROC) s;
     (case r of
        Inl _ \<Rightarrow> Some (- 1, print_msg ''Cannot create more threads'' (enable_int s))
      | Inr pid \<Rightarrow> do {
          (pcb, s) \<leftarrow> calloc_pcb s;
          (stk, s) \<leftarrow> malloc STACK_EL1_SIZE s;
          let stk_top = stk + STACK_EL1_SIZE;
          s \<leftarrow> upd_pcb pcb (\<lambda>b. b\<lparr>p_pid := pid, p_pc := func, p_args := args, p_state := READY, p_el := 1,
                p_pstate := EL1H_W_DAIF, p_ttbr := ttbr1_el1 s, p_stack := (p_stack b)[1 := stk_top],
                p_reg := (p_reg b)[SP := stk_top, FP := stk_top, LR := code_at s L_exit],
                p_cur_dir := rootfs_root s, p_fd_bitmap := 0, p_fd_table := replicate MAX_NUM_FD 0,
                p_sig_handler := replicate NSIG SIG_DFL\<rparr>) s;
          t \<leftarrow> set_at (pcb_table s) (nat pid) pcb;
          s \<leftarrow> push_ready pcb (s\<lparr>pcb_table := t, last_pid := pid\<rparr>);
          Some (pid, enable_int s)
        })
   }"

section \<open>Switching\<close>

definition default_sig_handler :: "int \<Rightarrow> 'a sched_scheme \<Rightarrow> u64" where
  "default_sig_handler signo s = (if signo = SIGKILL then code_at s L_exit else 0)"

text \<open>The delivery of the first pending signal of \<open>nx\<close> (the second branch of \<open>switch_to_next\<close>).\<close>

definition deliver_signal :: "u64 \<Rightarrow> u64 \<Rightarrow> 'a sched_scheme \<Rightarrow> (jump \<times> 'a sched_scheme) option" where
  "deliver_signal prv nx s = do {
     n \<leftarrow> pcbs s nx;
     (signo_ptr, l, s) \<leftarrow> list_pop (p_signal_queue n) s;
     s \<leftarrow> upd_pcb nx (\<lambda>b. b\<lparr>p_signal_queue := l\<rparr>) s;
     signo \<leftarrow> signos s signo_ptr;
     handler \<leftarrow> get_int (p_sig_handler n) signo;
     s \<leftarrow> free signo_ptr s;
     let s = s\<lparr>signos := (signos s)(signo_ptr := None)\<rparr>;
     let frame_ptr = callee s ! FP;
     let stack_ptr = callee s ! SP;
     s \<leftarrow> upd_pcb nx (\<lambda>b. b\<lparr>p_reg_backup := p_reg b, p_sp_el0_backup := p_sp_el0 b\<rparr>) s;
     (if handler = SIG_DFL then do {
        let handler = default_sig_handler signo s;
        s \<leftarrow> save_regs prv frame_ptr (code_at s L_switch_out) stack_ptr s;
        s \<leftarrow> upd_pcb nx (\<lambda>b. b\<lparr>p_reg := (p_reg b)[LR := code_at s L_sigreturn]\<rparr>) s;
        let s = enable_int s;
        load_regs nx handler EL1H_W_DAIF 0 (p_ttbr n) s
      }
      else if handler = SIG_IGN then do {
        let s = enable_int s;
        switch_to prv nx (p_pc n) (p_pstate n) (p_args n) (p_ttbr n) s
      }
      else do {
        s \<leftarrow> save_regs prv frame_ptr (code_at s L_switch_out) stack_ptr s;
        s \<leftarrow> upd_pcb nx (\<lambda>b. b\<lparr>p_reg := (p_reg b)[LR := code_at s L__sigreturn]\<rparr>) s;
        let s = enable_int s;
        load_regs nx handler EL0_W_DAIF 0 (p_ttbr n) s
      })
   }"

text \<open>The rest of \<open>switch_to_next\<close>, once the next thread is known.\<close>

definition run_next :: "u64 \<Rightarrow> u64 \<Rightarrow> 'a sched_scheme \<Rightarrow> (jump \<times> 'a sched_scheme) option" where
  "run_next prv nx s = do {
     let s = disable_int s;
     s \<leftarrow> upd_pcb prv (\<lambda>b. b\<lparr>p_pc := code_at s L_switch_out\<rparr>) s;
     s \<leftarrow> upd_pcb nx (\<lambda>b. b\<lparr>p_state := RUN\<rparr>) s;
     let s = set_current nx s;
     n \<leftarrow> pcbs s nx;
     let s = (if p_el n = 0 then s\<lparr>sp_el0 := p_sp_el0 n\<rparr> else s);
     (if list_empty (p_signal_queue n) then do {
        let s = enable_int s;
        switch_to prv nx (p_pc n) (p_pstate n) (p_args n) (p_ttbr n) s
      }
      else deliver_signal prv nx s)
   }"

definition switch_to_next :: "u64 \<Rightarrow> 'a sched_scheme \<Rightarrow> (jump \<times> 'a sched_scheme) option" where
  "switch_to_next prv s = do {
     (nx, l, s) \<leftarrow> list_pop (ready_queue s) s;
     run_next prv nx (s\<lparr>ready_queue := l\<rparr>)
   }"

text \<open>What \<open>schedule\<close> and \<open>wait\<close> save of the thread that gives up the processor.\<close>

definition leave_cpu :: "u64 \<Rightarrow> 'a sched_scheme \<Rightarrow> 'a sched_scheme option" where
  "leave_cpu p s = upd_pcb p (\<lambda>b. (if p_el b = 0 then b\<lparr>p_sp_el0 := sp_el0 s\<rparr> else b)\<lparr>p_pstate := EL1H_W_DAIF\<rparr>) s"

definition schedule :: "'a sched_scheme \<Rightarrow> (jump option \<times> 'a sched_scheme) option" where
  "schedule s =
     (if list_empty (ready_queue s) then Some (None, s)
      else do {
        let s = disable_int s;
        let prv = get_current s;
        s \<leftarrow> upd_pcb prv (\<lambda>b. b\<lparr>p_state := READY\<rparr>) s;
        s \<leftarrow> push_ready prv s;
        s \<leftarrow> leave_cpu prv s;
        let s = enable_int s;
        (j, s) \<leftarrow> switch_to_next prv s;
        Some (Some j, s)
      })"

definition wait :: "event \<Rightarrow> u64 \<Rightarrow> 'a sched_scheme \<Rightarrow> (jump option \<times> 'a sched_scheme) option" where
  "wait e data s = do {
     let pcb = get_current s;
     let s = disable_int s;
     s \<leftarrow> upd_pcb pcb (\<lambda>b. b\<lparr>p_wait_data := data, p_state := WAIT, p_wait_q := Some e\<rparr>) s;
     (l, s) \<leftarrow> list_push (wait_queue s e) pcb s;
     let s = s\<lparr>wait_queue := (wait_queue s)(e := l)\<rparr>;
     s \<leftarrow> leave_cpu pcb s;
     let s = enable_int s;
     if list_empty (ready_queue s) then Some (None, s)
     else do { (j, s) \<leftarrow> switch_to_next pcb s; Some (Some j, s) }
   }"

definition wait_to_ready :: "u64 \<Rightarrow> 'a sched_scheme \<Rightarrow> 'a sched_scheme option" where
  "wait_to_ready p s = do {
     let s = disable_int s;
     s \<leftarrow> upd_pcb p (\<lambda>b. b\<lparr>p_wait_data := 0, p_state := READY, p_wait_q := None\<rparr>) s;
     s \<leftarrow> push_ready p s;
     Some (enable_int s)
   }"

section \<open>Ending a thread\<close>

definition getpid :: "'a sched_scheme \<Rightarrow> int option" where
  "getpid s = map_option p_pid (pcbs s (get_current s))"

text \<open>\<open>match_pid\<close>: the low half of the data that the thread waits for, as an \<open>int\<close>.\<close>

definition match_pid :: "int \<Rightarrow> u64 \<Rightarrow> 'a sched_scheme \<Rightarrow> bool option" where
  "match_pid pid p s = map_option (\<lambda>b. sint (ucast (p_wait_data b) :: u32) = pid) (pcbs s p)"

definition wake_waiters :: "int \<Rightarrow> 'a sched_scheme \<Rightarrow> 'a sched_scheme option" where
  "wake_waiters pid s = do {
     (l, s) \<leftarrow> list_rm_and_process (wait_queue s PROC) (match_pid pid) wait_to_ready s;
     Some (s\<lparr>wait_queue := (wait_queue s)(PROC := l)\<rparr>)
   }"

definition exit :: "'a sched_scheme \<Rightarrow> (jump option \<times> 'a sched_scheme) option" where
  "exit s = do {
     let pcb = get_current s;
     b \<leftarrow> pcbs s pcb;
     if p_state b = DEAD then Some (None, s)
     else do {
       let s = disable_int s;
       s \<leftarrow> upd_pcb pcb (\<lambda>b. b\<lparr>p_state := DEAD\<rparr>) s;
       s \<leftarrow> push_dead pcb s;
       s \<leftarrow> wake_waiters (p_pid b) s;
       let s = enable_int s;
       if list_empty (ready_queue s) then Some (None, s)
       else do { (j, s) \<leftarrow> switch_to_next pcb s; Some (Some j, s) }
     }
   }"

text \<open>The last three statements of the two branches that kill a thread which is not running.\<close>

definition kill_queued :: "u64 \<Rightarrow> 'a sched_scheme \<Rightarrow> 'a sched_scheme option" where
  "kill_queued p s = do {
     s \<leftarrow> upd_pcb p (\<lambda>b. b\<lparr>p_state := DEAD\<rparr>) s;
     s \<leftarrow> push_dead p s;
     b \<leftarrow> pcbs s p;
     wake_waiters (p_pid b) s
   }"

definition kill :: "int \<Rightarrow> 'a sched_scheme \<Rightarrow> (jump option \<times> 'a sched_scheme) option" where
  "kill pid s = do {
     p \<leftarrow> get_int (pcb_table s) pid;
     if p = 0 then Some (None, print_msg ''No such process'' s)
     else do {
       let s = disable_int s;
       b \<leftarrow> pcbs s p;
       (case p_state b of
          RUN \<Rightarrow> do {
            let s = enable_int s;
            (j, s) \<leftarrow> exit s;
            (case j of Some _ \<Rightarrow> Some (j, s) | None \<Rightarrow> Some (None, enable_int s))
          }
        | READY \<Rightarrow> do {
            (_, l, s) \<leftarrow> list_delete (ready_queue s) p s;
            s \<leftarrow> kill_queued p (s\<lparr>ready_queue := l\<rparr>);
            Some (None, enable_int s)
          }
        | WAIT \<Rightarrow> do {
            e \<leftarrow> p_wait_q b;
            (_, l, s) \<leftarrow> list_delete (wait_queue s e) p s;
            s \<leftarrow> kill_queued p (s\<lparr>wait_queue := (wait_queue s)(e := l)\<rparr>);
            Some (None, enable_int s)
          }
        | DEAD \<Rightarrow> Some (None, enable_int s))
     }
   }"

section \<open>Signals\<close>

definition signal :: "int \<Rightarrow> u64 \<Rightarrow> 'a sched_scheme \<Rightarrow> 'a sched_scheme option" where
  "signal signo handler s = do {
     b \<leftarrow> pcbs s (get_current s);
     if signo < 0 then None
     else do {
       hs \<leftarrow> set_at (p_sig_handler b) (nat signo) handler;
       upd_pcb (get_current s) (\<lambda>b. b\<lparr>p_sig_handler := hs\<rparr>) s
     }
   }"

definition signal_kill :: "int \<Rightarrow> int \<Rightarrow> 'a sched_scheme \<Rightarrow> 'a sched_scheme option" where
  "signal_kill pid signo s = do {
     p \<leftarrow> get_int (pcb_table s) pid;
     if p = 0 then Some (print_msg ''No such process'' s)
     else do {
       (signo_ptr, s) \<leftarrow> malloc 4 s;
       let s = s\<lparr>signos := (signos s)(signo_ptr \<mapsto> signo)\<rparr>;
       b \<leftarrow> pcbs s p;
       (l, s) \<leftarrow> list_push (p_signal_queue b) signo_ptr s;
       upd_pcb p (\<lambda>b. b\<lparr>p_signal_queue := l\<rparr>) s
     }
   }"

definition sigreturn :: "'a sched_scheme \<Rightarrow> (jump \<times> 'a sched_scheme) option" where
  "sigreturn s = do {
     let pcb = get_current s;
     s \<leftarrow> upd_pcb pcb (\<lambda>b. b\<lparr>p_reg := p_reg_backup b, p_sp_el0 := p_sp_el0_backup b\<rparr>) s;
     b \<leftarrow> pcbs s pcb;
     let s = s\<lparr>sp_el0 := p_sp_el0 b\<rparr>;
     load_regs pcb (p_pc b) (p_pstate b) (p_args b) (p_ttbr b) s
   }"

end
