(* ===== verification/Address_Space.thy ===== *)
theory Address_Space
  imports Process
begin

text \<open>
  The address spaces of processes: their sections (\<open>process.c\<close>), \<open>mmap\<close> (\<open>vmem.c\<close>), the duplication by \<open>fork\<close> (\<open>syscall.c\<close>),
  and the release of the dead ones by the idle thread (\<open>process.c\<close>).  \<open>stack_mem\<close> holds the words of the kernel stacks that have been written.
  The translation lookaside buffer is not modelled: \<open>invalidate_tlb\<close> has no effect on the state.
\<close>

section \<open>Sections\<close>

definition add_section :: "u64 \<Rightarrow> sec \<Rightarrow> u64 \<Rightarrow> u64 \<Rightarrow> 'a sched_scheme \<Rightarrow> 'a sched_scheme option" where
  "add_section pcb type start len s = do {
     (p, s) \<leftarrow> malloc 24 s;
     let s = s\<lparr>sections := (sections s)(p \<mapsto> \<lparr>sec_type = type, sec_base = start, sec_size = len\<rparr>)\<rparr>;
     b \<leftarrow> pcbs s pcb;
     (l, s) \<leftarrow> list_push (p_sections b) p s;
     upd_pcb pcb (\<lambda>b. b\<lparr>p_sections := l\<rparr>) s
   }"

definition in_section :: "u64 \<Rightarrow> u64 \<Rightarrow> 'a sched_scheme \<Rightarrow> bool option" where
  "in_section p a s = do {
     c \<leftarrow> sections s p;
     Some (sec_base c \<le> a \<and> a < sec_base c + sec_size c)
   }"

partial_function (option) deref_pages :: "u64 \<Rightarrow> u64 \<Rightarrow> u64 \<Rightarrow> 'a sched_scheme \<Rightarrow> 'a sched_scheme option" where
  "deref_pages start i sz s =
     (if i < sz then do { s \<leftarrow> deref_page (start + i) s; deref_pages start (i + PAGE_SIZE) sz s } else Some s)"

partial_function (option) free_sections :: "klist \<Rightarrow> u64 \<Rightarrow> 'a sched_scheme \<Rightarrow> (klist \<times> 'a sched_scheme) option" where
  "free_sections l ttbr s = do {
     (p, l, s) \<leftarrow> list_pop l s;
     if p = 0 then Some (l, s)
     else do {
       c \<leftarrow> sections s p;
       start \<leftarrow> v2p_trans (sec_base c) ttbr s;
       s \<leftarrow> deref_pages start 0 (sec_size c) s;
       free_sections l ttbr s
     }
   }"

section \<open>Mapping memory\<close>

definition PROT_NONE :: u32 where "PROT_NONE = 0"
definition PROT_WRITE :: u32 where "PROT_WRITE = 2"
definition PROT_EXEC :: u32 where "PROT_EXEC = 4"
definition MAP_POPULATE :: u32 where "MAP_POPULATE = 0x8000"

text \<open>The search for a run of unmapped pages.\<close>

partial_function (option) mmap_find :: "u64 \<Rightarrow> u64 \<Rightarrow> u64 \<Rightarrow> u64 \<Rightarrow> 'a sched_scheme \<Rightarrow> u64 option" where
  "mmap_find i continuous_pages num_pages a s =
     (if continuous_pages < num_pages then do {
        pa \<leftarrow> v2p_trans i 0 s;
        if pa \<noteq> 0 then mmap_find (i + PAGE_SIZE) 0 num_pages a s
        else mmap_find (i + PAGE_SIZE) (continuous_pages + 1) num_pages (if continuous_pages = 0 then i else a) s
      }
      else Some a)"

text \<open>The two loops that allocate and map the pages, in runs that get smaller.\<close>

partial_function (option) mmap_run ::
  "u64 \<Rightarrow> u64 \<Rightarrow> u64 \<Rightarrow> u64 \<Rightarrow> u64 \<Rightarrow> 'a sched_scheme \<Rightarrow> (u64 \<times> 'a sched_scheme) option" where
  "mmap_run ttbr pages s_page_idx e_page_idx pte_flags s =
     (if pages \<le> e_page_idx - s_page_idx then do {
        (address, s) \<leftarrow> malloc_bytes (pages * PAGE_SIZE) s;
        if address = 0 then Some (s_page_idx, s)
        else do {
          s \<leftarrow> fill_page_table (p2v_trans_kernel ttbr) s_page_idx (s_page_idx + pages) (v2p_trans_kernel address) pte_flags s;
          mmap_run ttbr pages (s_page_idx + pages) e_page_idx pte_flags s
        }
      }
      else Some (s_page_idx, s))"

partial_function (option) mmap_fill ::
  "u64 \<Rightarrow> u64 \<Rightarrow> u64 \<Rightarrow> u64 \<Rightarrow> u64 \<Rightarrow> 'a sched_scheme \<Rightarrow> (u64 \<times> 'a sched_scheme) option" where
  "mmap_fill ttbr pages s_page_idx e_page_idx pte_flags s =
     (if s_page_idx < e_page_idx \<and> 0 < pages then do {
        (s_page_idx, s) \<leftarrow> mmap_run ttbr pages s_page_idx e_page_idx pte_flags s;
        mmap_fill ttbr (drop_bit 1 pages) s_page_idx e_page_idx pte_flags s
      }
      else Some (s_page_idx, s))"

definition mmap :: "u64 \<Rightarrow> u64 \<Rightarrow> u32 \<Rightarrow> u32 \<Rightarrow> 'a sched_scheme \<Rightarrow> (u64 \<times> 'a sched_scheme) option" where
  "mmap a len prot flags s = do {
     let pcb = get_current s;
     let num_pages = len div PAGE_SIZE + (if 0 < len mod PAGE_SIZE then 1 else 0);
     let ttbr = ttbr0_el1 s;
     a \<leftarrow> mmap_find (a - a mod PAGE_SIZE) 0 num_pages a s;
     s \<leftarrow> add_section pcb HEAP a (num_pages * PAGE_SIZE) s;
     if flags AND MAP_POPULATE \<noteq> 0 then do {
       let pte_flags = PD_ACCESS;
       let s_page_idx = a div PAGE_SIZE;
       let e_page_idx = s_page_idx + num_pages;
       let pte_flags = (if prot AND PROT_NONE = 0 then pte_flags OR PD_USER_ACCESS else pte_flags);
       let pte_flags = (if prot AND PROT_EXEC = 0 then pte_flags OR PD_NX_EL0 else pte_flags);
       let pte_flags = (if prot AND PROT_WRITE = 0 then pte_flags OR PD_RDONLY else pte_flags);
       (s_page_idx, s) \<leftarrow> mmap_fill ttbr num_pages s_page_idx e_page_idx pte_flags s;
       if s_page_idx < e_page_idx then Some (0, print_msg ''No enough space'' s)
       else Some (a, s)
     }
     else Some (a, s)
   }"

section \<open>Duplication\<close>

partial_function (option) ref_pages :: "u64 \<Rightarrow> u64 \<Rightarrow> u64 \<Rightarrow> u64 \<Rightarrow> 'a sched_scheme \<Rightarrow> 'a sched_scheme option" where
  "ref_pages start i sz ttbr s =
     (if i < sz then do {
        p \<leftarrow> v2p_trans (start + i) ttbr s;
        s \<leftarrow> ref_page p s;
        ref_pages start (i + PAGE_SIZE) sz ttbr s
      }
      else Some s)"

partial_function (option) add_ref_loop :: "u64 option \<Rightarrow> u64 \<Rightarrow> 'a sched_scheme \<Rightarrow> 'a sched_scheme option" where
  "add_ref_loop tmp ttbr s =
     (case tmp of
        None \<Rightarrow> Some s
      | Some a \<Rightarrow> do {
          n \<leftarrow> list_nodes s a;
          c \<leftarrow> sections s (n_ptr n);
          s \<leftarrow> (if sec_type c \<noteq> DEVICE then ref_pages (sec_base c) 0 (sec_size c) ttbr s else Some s);
          n \<leftarrow> list_nodes s a;
          add_ref_loop (n_next n) ttbr s
        })"

definition add_ref_sections :: "klist \<Rightarrow> u64 \<Rightarrow> 'a sched_scheme \<Rightarrow> 'a sched_scheme option" where
  "add_ref_sections l ttbr s = add_ref_loop (head l) ttbr s"

text \<open>The open files are shared.\<close>

definition share_fd :: "u64 \<Rightarrow> u64 \<Rightarrow> nat \<Rightarrow> 'a sched_scheme \<Rightarrow> 'a sched_scheme option" where
  "share_fd pcb new_pcb i s = do {
     b \<leftarrow> pcbs s pcb;
     f \<leftarrow> get_at (p_fd_table b) i;
     if f = 0 then Some s
     else do {
       s \<leftarrow> upd_pcb new_pcb (\<lambda>b. b\<lparr>p_fd_table := (p_fd_table b)[i := f]\<rparr>) s;
       c \<leftarrow> files s f;
       Some (s\<lparr>files := (files s)(f \<mapsto> c\<lparr>f_ref_count := f_ref_count c + 1\<rparr>)\<rparr>)
     }
   }"

text \<open>The kernel stack is copied, word by word, and the saved frame pointers on the copy are moved.\<close>

definition copy_stack :: "u64 \<Rightarrow> u64 \<Rightarrow> (u64 \<rightharpoonup> u64) \<Rightarrow> (u64 \<rightharpoonup> u64)" where
  "copy_stack dst src m = fold (\<lambda>i m. m(dst + 8 * of_nat i := m (src + 8 * of_nat i))) [0..<unat (STACK_EL1_SIZE div 8)] m"

partial_function (option) fix_frames :: "u64 \<Rightarrow> u64 \<Rightarrow> u64 \<Rightarrow> 'a sched_scheme \<Rightarrow> 'a sched_scheme option" where
  "fix_frames tmp new_top old_top s =
     (if tmp < new_top then do {
        v \<leftarrow> stack_mem s tmp;
        let update_fp = new_top - (old_top - v);
        if update_fp \<le> tmp \<or> new_top < update_fp then Some s
        else fix_frames update_fp new_top old_top (s\<lparr>stack_mem := (stack_mem s)(tmp \<mapsto> update_fp)\<rparr>)
      }
      else Some s)"

definition fork_space :: "u64 \<Rightarrow> u64 \<Rightarrow> 'a sched_scheme \<Rightarrow> 'a sched_scheme option" where
  "fork_space pcb new_pcb s = do {
     b \<leftarrow> pcbs s pcb;
     s \<leftarrow> add_ref_sections (p_sections b) (p_ttbr b) s;
     n \<leftarrow> pcbs s new_pcb;
     (l, s) \<leftarrow> list_copy (p_sections n) (p_sections b) s;
     s \<leftarrow> upd_pcb new_pcb (\<lambda>n. n\<lparr>p_code := p_code b, p_sections := l\<rparr>) s;
     (ttbr, s) \<leftarrow> init_ttbr s;
     s \<leftarrow> upd_pcb new_pcb (\<lambda>n. n\<lparr>p_ttbr := ttbr\<rparr>) s;
     s \<leftarrow> page_table_fork 3 ttbr (p_ttbr b) s;
     upd_pcb new_pcb (\<lambda>n. n\<lparr>p_sp_el0 := sp_el0 s\<rparr>) s
   }"

definition fork_out :: "int \<Rightarrow> 'a sched_scheme \<Rightarrow> int option" where
  "fork_out new_pid s = do {
     pid \<leftarrow> getpid s;
     Some (if pid \<noteq> new_pid then new_pid else 0)
   }"

text \<open>\<open>ret_addr\<close> is the return address of \<open>fork\<close> itself.\<close>

definition fork :: "u64 \<Rightarrow> 'a sched_scheme \<Rightarrow> (int \<times> 'a sched_scheme) option" where
  "fork ret_addr s = do {
     let pcb = get_current s;
     let s = disable_int s;
     b \<leftarrow> pcbs s pcb;
     (new_pid, s) \<leftarrow> thread_create (code_at s L_fork_out) (p_args b) s;
     new_pcb \<leftarrow> get_int (pcb_table s) new_pid;
     s \<leftarrow> upd_pcb new_pcb (\<lambda>n. n\<lparr>p_el := p_el b, p_cur_dir := p_cur_dir b\<rparr>) s;
     s \<leftarrow> fold (\<lambda>i r. Option.bind r (share_fd pcb new_pcb i)) [0..<MAX_NUM_FD] (Some s);
     s \<leftarrow> upd_pcb new_pcb (\<lambda>n. n\<lparr>p_fd_bitmap := p_fd_bitmap b\<rparr>) s;
     s \<leftarrow> (if p_el b = 0 then fork_space pcb new_pcb s else Some s);
     n \<leftarrow> pcbs s new_pcb;
     let new_top = p_stack n ! 1;
     let old_top = p_stack b ! 1;
     let s = s\<lparr>stack_mem := copy_stack (new_top - STACK_EL1_SIZE) (old_top - STACK_EL1_SIZE) (stack_mem s)\<rparr>;
     s \<leftarrow> upd_pcb new_pcb (\<lambda>n. n\<lparr>p_sig_handler := p_sig_handler b\<rparr>) s;
     let frame_ptr = new_top - (old_top - callee s ! FP);
     let stack_ptr = new_top - (old_top - callee s ! SP);
     s \<leftarrow> fix_frames frame_ptr new_top old_top s;
     s \<leftarrow> save_regs new_pcb frame_ptr ret_addr stack_ptr s;
     let s = enable_int s;
     r \<leftarrow> fork_out new_pid s;
     Some (r, s)
   }"

section \<open>Release\<close>

definition drop_stack :: "u64 \<Rightarrow> (u64 \<rightharpoonup> u64) \<Rightarrow> (u64 \<rightharpoonup> u64)" where
  "drop_stack start m = (\<lambda>a. if a - start < STACK_EL1_SIZE then None else m a)"

definition kill_zombie :: "u64 \<Rightarrow> 'a sched_scheme \<Rightarrow> 'a sched_scheme option" where
  "kill_zombie p s = do {
     b \<leftarrow> pcbs s p;
     (l, s) \<leftarrow> free_sections (p_sections b) (p_ttbr b) s;
     s \<leftarrow> upd_pcb p (\<lambda>b. b\<lparr>p_sections := l\<rparr>) s;
     s \<leftarrow> (if p_el b = 0 then free_page_table 3 (p_ttbr b) s else Some s);
     let start = p_stack b ! 1 - STACK_EL1_SIZE;
     s \<leftarrow> free start s;
     let s = s\<lparr>stack_mem := drop_stack start (stack_mem s)\<rparr>;
     if p_pid b < 0 then None
     else do {
       t \<leftarrow> set_at (pcb_table s) (nat (p_pid b)) 0;
       s \<leftarrow> free p (s\<lparr>pcb_table := t\<rparr>);
       Some (s\<lparr>pcbs := (pcbs s)(p := None)\<rparr>)
     }
   }"

partial_function (option) kill_zombies :: "'a sched_scheme \<Rightarrow> 'a sched_scheme option" where
  "kill_zombies s = do {
     (p, l, s) \<leftarrow> list_pop (dead_queue s) s;
     let s = s\<lparr>dead_queue := l\<rparr>;
     if p = 0 then Some s
     else do { s \<leftarrow> kill_zombie p s; kill_zombies s }
   }"

text \<open>One turn of the loop of the idle thread.\<close>

definition idle_step :: "'a sched_scheme \<Rightarrow> (jump option \<times> 'a sched_scheme) option" where
  "idle_step s = do { s \<leftarrow> kill_zombies s; schedule s }"

end
