(* ===== verification/Mmio.thy ===== *)
theory Mmio
  imports Dyn_Alloc
begin

text \<open>
  Memory-mapped devices.  The hardware is not part of the program: a device is any reaction to reads and writes of 32-bit registers, given by what the next read of a
  register returns and by the device that is there after a read or a write.  The accesses of \<open>utils.h\<close> and the macros \<open>get\<close> and \<open>set\<close> of \<open>sd.h\<close> are
  steps of the device; empty delay loops have no effect.
\<close>

codatatype device = Device (dev_get: "u64 \<Rightarrow> u32 \<times> device") (dev_set: "u64 \<Rightarrow> u32 \<Rightarrow> device")

definition MMIO_BASE :: u64 where "MMIO_BASE = 0x3f000000 + V_KERNEL_SPACE"

definition get32 :: "u64 \<Rightarrow> device \<Rightarrow> u32 \<times> device" where
  "get32 a d = dev_get d a"

definition set32 :: "u64 \<Rightarrow> u32 \<Rightarrow> device \<Rightarrow> device" where
  "set32 a v d = dev_set d a v"

end
