(* ===== verification/Sd.thy ===== *)
theory Sd
  imports Mmio
begin

text \<open>
  The driver of the SD card, \<open>sd.c\<close>: every function is a sequence of steps of the device.  The polling loops that count down are recursive in their counter; the ones that do not
  are partial.  The words of a block are passed as a list; \<open>hcs\<close> is the variable \<open>is_hcs\<close>.
\<close>

section \<open>Registers and commands\<close>

definition GO_IDLE_STATE :: u32 where "GO_IDLE_STATE = 0"
definition ALL_SEND_CID :: u32 where "ALL_SEND_CID = 2"
definition SEND_RELATIVE_ADDR :: u32 where "SEND_RELATIVE_ADDR = 3"
definition SELECT_CARD :: u32 where "SELECT_CARD = 7"
definition SEND_IF_COND :: u32 where "SEND_IF_COND = 8"
definition VOLTAGE_CHECK_PATTERN :: u32 where "VOLTAGE_CHECK_PATTERN = 0x1aa"
definition STOP_TRANSMISSION :: u32 where "STOP_TRANSMISSION = 12"
definition SET_BLOCKLEN :: u32 where "SET_BLOCKLEN = 16"
definition READ_SINGLE_BLOCK :: u32 where "READ_SINGLE_BLOCK = 17"
definition WRITE_SINGLE_BLOCK :: u32 where "WRITE_SINGLE_BLOCK = 24"
definition SD_APP_OP_COND :: u32 where "SD_APP_OP_COND = 41"
definition SDCARD_3_3V :: u32 where "SDCARD_3_3V = push_bit 21 1"
definition SDCARD_ISHCS :: u32 where "SDCARD_ISHCS = push_bit 30 1"
definition SDCARD_READY :: u32 where "SDCARD_READY = push_bit 31 1"
definition APP_CMD :: u32 where "APP_CMD = 55"

definition GPIO_BASE :: u64 where "GPIO_BASE = MMIO_BASE + 0x200000"
definition GPIO_GPFSEL4 :: u64 where "GPIO_GPFSEL4 = GPIO_BASE + 0x10"
definition GPIO_GPFSEL5 :: u64 where "GPIO_GPFSEL5 = GPIO_BASE + 0x14"
definition GPIO_GPPUD :: u64 where "GPIO_GPPUD = GPIO_BASE + 0x94"
definition GPIO_GPPUDCLK1 :: u64 where "GPIO_GPPUDCLK1 = GPIO_BASE + 0x9c"

definition SDHOST_BASE :: u64 where "SDHOST_BASE = MMIO_BASE + 0x202000"
definition SDHOST_CMD :: u64 where "SDHOST_CMD = SDHOST_BASE + 0"
definition SDHOST_READ :: u32 where "SDHOST_READ = 0x40"
definition SDHOST_WRITE :: u32 where "SDHOST_WRITE = 0x80"
definition SDHOST_LONG_RESPONSE :: u32 where "SDHOST_LONG_RESPONSE = 0x200"
definition SDHOST_NO_REPONSE :: u32 where "SDHOST_NO_REPONSE = 0x400"
definition SDHOST_BUSY :: u32 where "SDHOST_BUSY = 0x800"
definition SDHOST_NEW_CMD :: u32 where "SDHOST_NEW_CMD = 0x8000"
definition SDHOST_ARG :: u64 where "SDHOST_ARG = SDHOST_BASE + 0x4"
definition SDHOST_TOUT :: u64 where "SDHOST_TOUT = SDHOST_BASE + 0x8"
definition SDHOST_TOUT_DEFAULT :: u32 where "SDHOST_TOUT_DEFAULT = 0xf00000"
definition SDHOST_CDIV :: u64 where "SDHOST_CDIV = SDHOST_BASE + 0xc"
definition SDHOST_CDIV_DEFAULT :: u32 where "SDHOST_CDIV_DEFAULT = 0x148"
definition SDHOST_RESP0 :: u64 where "SDHOST_RESP0 = SDHOST_BASE + 0x10"
definition SDHOST_HSTS :: u64 where "SDHOST_HSTS = SDHOST_BASE + 0x20"
definition SDHOST_HSTS_MASK :: u32 where "SDHOST_HSTS_MASK = 0x7f8"
definition SDHOST_HSTS_ERR_MASK :: u32 where "SDHOST_HSTS_ERR_MASK = 0xf8"
definition SDHOST_HSTS_DATA :: u32 where "SDHOST_HSTS_DATA = push_bit 0 1"
definition SDHOST_PWR :: u64 where "SDHOST_PWR = SDHOST_BASE + 0x30"
definition SDHOST_DBG :: u64 where "SDHOST_DBG = SDHOST_BASE + 0x34"
definition SDHOST_DBG_FSM_MASK :: u32 where "SDHOST_DBG_FSM_MASK = 0xf"
definition SDHOST_DBG_MASK :: u32 where "SDHOST_DBG_MASK = push_bit 14 0x1f OR push_bit 9 0x1f"
definition SDHOST_DBG_FIFO :: u32 where "SDHOST_DBG_FIFO = push_bit 14 0x4 OR push_bit 9 0x4"
definition SDHOST_CFG :: u64 where "SDHOST_CFG = SDHOST_BASE + 0x38"
definition SDHOST_CFG_DATA_EN :: u32 where "SDHOST_CFG_DATA_EN = push_bit 4 1"
definition SDHOST_CFG_SLOW :: u32 where "SDHOST_CFG_SLOW = push_bit 3 1"
definition SDHOST_CFG_INTBUS :: u32 where "SDHOST_CFG_INTBUS = push_bit 1 1"
definition SDHOST_SIZE :: u64 where "SDHOST_SIZE = SDHOST_BASE + 0x3c"
definition SDHOST_DATA :: u64 where "SDHOST_DATA = SDHOST_BASE + 0x40"
definition SDHOST_CNT :: u64 where "SDHOST_CNT = SDHOST_BASE + 0x50"

section \<open>Initialisation\<close>

definition pin_setup :: "device \<Rightarrow> device" where
  "pin_setup d =
     (let d = set32 GPIO_GPFSEL4 0x24000000 d;
          d = set32 GPIO_GPFSEL5 0x924 d;
          d = set32 GPIO_GPPUD 0 d;
          d = set32 GPIO_GPPUDCLK1 0xffffffff d
      in set32 GPIO_GPPUDCLK1 0 d)"

definition sdhost_setup :: "device \<Rightarrow> device" where
  "sdhost_setup d =
     (let d = set32 SDHOST_PWR 0 d;
          d = set32 SDHOST_CMD 0 d;
          d = set32 SDHOST_ARG 0 d;
          d = set32 SDHOST_TOUT SDHOST_TOUT_DEFAULT d;
          d = set32 SDHOST_CDIV 0 d;
          d = set32 SDHOST_HSTS SDHOST_HSTS_MASK d;
          d = set32 SDHOST_CFG 0 d;
          d = set32 SDHOST_CNT 0 d;
          d = set32 SDHOST_SIZE 0 d;
          (tmp, d) = get32 SDHOST_DBG d;
          tmp = tmp AND NOT SDHOST_DBG_MASK;
          tmp = tmp OR SDHOST_DBG_FIFO;
          d = set32 SDHOST_DBG tmp d;
          d = set32 SDHOST_PWR 1 d;
          d = set32 SDHOST_CFG (SDHOST_CFG_SLOW OR SDHOST_CFG_INTBUS OR SDHOST_CFG_DATA_EN) d
      in set32 SDHOST_CDIV SDHOST_CDIV_DEFAULT d)"

fun wait_sd_loop :: "nat \<Rightarrow> device \<Rightarrow> int \<times> device" where
  "wait_sd_loop 0 d = (- 1, d)"
| "wait_sd_loop (Suc cnt) d =
     (let (cmd, d) = get32 SDHOST_CMD d in
      if cmd AND SDHOST_NEW_CMD \<noteq> 0 then wait_sd_loop cnt d else (0, d))"

definition wait_sd :: "device \<Rightarrow> int \<times> device" where
  "wait_sd d = wait_sd_loop 1000000 d"

definition sd_cmd :: "u32 \<Rightarrow> u32 \<Rightarrow> device \<Rightarrow> int \<times> device" where
  "sd_cmd cmd arg d =
     (let d = set32 SDHOST_ARG arg d;
          d = set32 SDHOST_CMD (cmd OR SDHOST_NEW_CMD) d
      in wait_sd d)"

text \<open>The loop that waits until the card is ready, which returns the last response.\<close>

partial_function (option) op_cond_loop :: "device \<Rightarrow> (u32 \<times> device) option" where
  "op_cond_loop d =
     (let (r, d) = sd_cmd APP_CMD 0 d in
      if r = - 1 then op_cond_loop d
      else (let (_, d) = sd_cmd SD_APP_OP_COND (SDCARD_3_3V OR SDCARD_ISHCS) d;
                (tmp, d) = get32 SDHOST_RESP0 d
            in if tmp AND SDCARD_READY \<noteq> 0 then Some (tmp, d) else op_cond_loop d))"

text \<open>The result is the return value, and the new value of \<open>is_hcs\<close> if it is set.\<close>

definition sdcard_setup :: "device \<Rightarrow> (int \<times> u32 option \<times> device) option" where
  "sdcard_setup d =
     (let (_, d) = sd_cmd (GO_IDLE_STATE OR SDHOST_NO_REPONSE) 0 d;
          (_, d) = sd_cmd SEND_IF_COND VOLTAGE_CHECK_PATTERN d;
          (tmp, d) = get32 SDHOST_RESP0 d
      in if tmp \<noteq> VOLTAGE_CHECK_PATTERN then Some (- 1, None, d)
         else do {
           (tmp, d) \<leftarrow> op_cond_loop d;
           let hcs = tmp AND SDCARD_ISHCS;
           let (_, d) = sd_cmd (ALL_SEND_CID OR SDHOST_LONG_RESPONSE) 0 d;
           let (_, d) = sd_cmd SEND_RELATIVE_ADDR 0 d;
           let (tmp, d) = get32 SDHOST_RESP0 d;
           let (_, d) = sd_cmd SELECT_CARD tmp d;
           let (_, d) = sd_cmd SET_BLOCKLEN 512 d;
           Some (0, Some hcs, d)
         })"

definition sd_init :: "u32 \<Rightarrow> device \<Rightarrow> (u32 \<times> device) option" where
  "sd_init hcs d = do {
     (_, v, d) \<leftarrow> sdcard_setup (sdhost_setup (pin_setup d));
     Some (case v of None \<Rightarrow> hcs | Some h \<Rightarrow> h, d)
   }"

section \<open>Blocks\<close>

fun wait_fifo_loop :: "nat \<Rightarrow> device \<Rightarrow> int \<times> device" where
  "wait_fifo_loop 0 d = (- 1, d)"
| "wait_fifo_loop (Suc cnt) d =
     (let (hsts, d) = get32 SDHOST_HSTS d in
      if hsts AND SDHOST_HSTS_DATA = 0 then wait_fifo_loop cnt d else (0, d))"

definition wait_fifo :: "device \<Rightarrow> int \<times> device" where
  "wait_fifo d = wait_fifo_loop 1000000 d"

definition set_block :: "u32 \<Rightarrow> u32 \<Rightarrow> device \<Rightarrow> device" where
  "set_block sz cnt d = set32 SDHOST_CNT cnt (set32 SDHOST_SIZE sz d)"

partial_function (option) wait_finish :: "device \<Rightarrow> device option" where
  "wait_finish d =
     (let (dbg, d) = get32 SDHOST_DBG d in
      if dbg AND SDHOST_DBG_FSM_MASK \<noteq> SDHOST_HSTS_DATA then wait_finish d else Some d)"

fun read_words :: "nat \<Rightarrow> device \<Rightarrow> u32 list \<times> device" where
  "read_words 0 d = ([], d)"
| "read_words (Suc n) d =
     (let (_, d) = wait_fifo d;
          (w, d) = get32 SDHOST_DATA d;
          (ws, d) = read_words n d
      in (w # ws, d))"

fun write_words :: "u32 list \<Rightarrow> device \<Rightarrow> device" where
  "write_words [] d = d"
| "write_words (w # ws) d =
     (let (_, d) = wait_fifo d;
          d = set32 SDHOST_DATA w d
      in write_words ws d)"

text \<open>The end of a transfer: whether it succeeded, after the error is cleared if it did not.\<close>

definition transfer_status :: "device \<Rightarrow> bool \<times> device" where
  "transfer_status d =
     (let (hsts, d) = get32 SDHOST_HSTS d in
      if hsts AND SDHOST_HSTS_ERR_MASK \<noteq> 0
      then (let d = set32 SDHOST_HSTS SDHOST_HSTS_ERR_MASK d;
                (_, d) = sd_cmd (STOP_TRANSMISSION OR SDHOST_BUSY) 0 d
            in (False, d))
      else (True, d))"

partial_function (option) read_loop :: "u32 \<Rightarrow> device \<Rightarrow> (u32 list \<times> device) option" where
  "read_loop block_idx d =
     (let d = set_block 512 1 d;
          (_, d) = sd_cmd (READ_SINGLE_BLOCK OR SDHOST_READ) block_idx d;
          (ws, d) = read_words 128 d;
          (succ, d) = transfer_status d
      in if succ then Some (ws, d) else read_loop block_idx d)"

partial_function (option) write_loop :: "u32 \<Rightarrow> u32 list \<Rightarrow> device \<Rightarrow> device option" where
  "write_loop block_idx ws d =
     (let d = set_block 512 1 d;
          (_, d) = sd_cmd (WRITE_SINGLE_BLOCK OR SDHOST_WRITE) block_idx d;
          d = write_words ws d;
          (succ, d) = transfer_status d
      in if succ then Some d else write_loop block_idx ws d)"

text \<open>The address of a block: in bytes unless the card has high capacity.\<close>

definition block_addr :: "u32 \<Rightarrow> u32 \<Rightarrow> u32" where
  "block_addr hcs block_idx = (if hcs = 0 then push_bit 9 block_idx else block_idx)"

definition readblock :: "u32 \<Rightarrow> u32 \<Rightarrow> device \<Rightarrow> (u32 list \<times> device) option" where
  "readblock hcs block_idx d = do {
     (ws, d) \<leftarrow> read_loop (block_addr hcs block_idx) d;
     d \<leftarrow> wait_finish d;
     Some (ws, d)
   }"

text \<open>The caller's buffer has 128 words.\<close>

definition writeblock :: "u32 \<Rightarrow> u32 \<Rightarrow> u32 list \<Rightarrow> device \<Rightarrow> device option" where
  "writeblock hcs block_idx ws d = do { d \<leftarrow> write_loop (block_addr hcs block_idx) ws d; wait_finish d }"

end
