(* ===== verification/Ring_Buffer.thy ===== *)
theory Ring_Buffer
  imports Irq
begin

text \<open>
  The ring buffer of \<open>ring_buf.h\<close> and \<open>ring_buf.c\<close>, which carries the UART bytes, the
  timers and the deferred interrupt tasks.  The \<open>switch\<close> on the element type becomes
  polymorphism in the element type.  The busy waits \<open>while (ring_buf_full(rb));\<close> and
  \<open>while (ring_buf_empty(rb));\<close> read a condition that only an interrupt handler can change:
  in the sequential model a wait whose condition holds never comes back (\<^term>\<open>None\<close>).

  The ring refines a bounded first-in first-out queue; the queue interface is the locale
  \<open>bounded_queue\<close>, whose client lemmas serve the loops of \<open>uart.c\<close>.
\<close>

section \<open>Definitions\<close>

definition BUFLEN :: nat where
  "BUFLEN = 512"

record 'e ring_buf =
  producer_idx :: nat
  consumer_idx :: nat
  rb_buf :: "'e list"

definition ring_buf_init :: "'e list \<Rightarrow> 'e ring_buf" where
  "ring_buf_init b = \<lparr>producer_idx = 0, consumer_idx = 0, rb_buf = b\<rparr>"

definition ring_buf_full :: "('e, 'x) ring_buf_scheme \<Rightarrow> bool" where
  "ring_buf_full rb \<longleftrightarrow> (producer_idx rb + 1) mod BUFLEN = consumer_idx rb"

definition ring_buf_empty :: "('e, 'x) ring_buf_scheme \<Rightarrow> bool" where
  "ring_buf_empty rb \<longleftrightarrow> producer_idx rb = consumer_idx rb"

definition ring_buf_num_e :: "('e, 'x) ring_buf_scheme \<Rightarrow> nat" where
  "ring_buf_num_e rb = (producer_idx rb + BUFLEN - consumer_idx rb) mod BUFLEN"

definition ring_buf_remain_e :: "('e, 'x) ring_buf_scheme \<Rightarrow> nat" where
  "ring_buf_remain_e rb = BUFLEN - 1 - (producer_idx rb + BUFLEN - consumer_idx rb) mod BUFLEN"

definition ring_buf_produce ::
  "'e \<Rightarrow> 'e ring_buf \<times> 'a cpu_scheme \<Rightarrow> ('e ring_buf \<times> 'a cpu_scheme) option" where
  "ring_buf_produce data = (\<lambda>(rb, s).
     if ring_buf_full rb then None
     else do {
       let s = disable_int s;
       b \<leftarrow> set_at (rb_buf rb) (producer_idx rb) data;
       let rb = rb\<lparr>rb_buf := b, producer_idx := producer_idx rb + 1\<rparr>;
       let rb = rb\<lparr>producer_idx := producer_idx rb mod BUFLEN\<rparr>;
       Some (rb, enable_int s)
     })"

definition ring_buf_consume ::
  "'e ring_buf \<times> 'a cpu_scheme \<Rightarrow> ('e \<times> 'e ring_buf \<times> 'a cpu_scheme) option" where
  "ring_buf_consume = (\<lambda>(rb, s).
     if ring_buf_empty rb then None
     else do {
       let s = disable_int s;
       v \<leftarrow> get_at (rb_buf rb) (consumer_idx rb);
       let rb = rb\<lparr>consumer_idx := consumer_idx rb + 1\<rparr>;
       let rb = rb\<lparr>consumer_idx := consumer_idx rb mod BUFLEN\<rparr>;
       Some (v, rb, enable_int s)
     })"

text \<open>Repeated production and consumption, the loops of the UART driver.\<close>

fun put_all :: "('e \<Rightarrow> 'q \<Rightarrow> 'q option) \<Rightarrow> 'e list \<Rightarrow> 'q \<Rightarrow> 'q option" where
  "put_all put [] q = Some q"
| "put_all put (x # xs) q = do { q \<leftarrow> put x q; put_all put xs q }"

fun take_n :: "('q \<Rightarrow> ('e \<times> 'q) option) \<Rightarrow> nat \<Rightarrow> 'q \<Rightarrow> ('e list \<times> 'q) option" where
  "take_n tk 0 q = Some ([], q)"
| "take_n tk (Suc n) q = do { (x, q) \<leftarrow> tk q; (xs, q) \<leftarrow> take_n tk n q; Some (x # xs, q) }"

section \<open>Abstraction\<close>

definition rb_ok :: "('e, 'x) ring_buf_scheme \<Rightarrow> bool" where
  "rb_ok rb \<longleftrightarrow> length (rb_buf rb) = BUFLEN \<and> producer_idx rb < BUFLEN \<and> consumer_idx rb < BUFLEN"

definition rb_slot :: "('e, 'x) ring_buf_scheme \<Rightarrow> nat \<Rightarrow> nat" where
  "rb_slot rb k = (consumer_idx rb + k) mod BUFLEN"

definition rb_list :: "('e, 'x) ring_buf_scheme \<Rightarrow> 'e list" where
  "rb_list rb = map (\<lambda>k. rb_buf rb ! rb_slot rb k) [0..<ring_buf_num_e rb]"

section \<open>The queue interface\<close>

locale bounded_queue =
  fixes put :: "'e \<Rightarrow> 'q \<Rightarrow> 'q option"
    and tk :: "'q \<Rightarrow> ('e \<times> 'q) option"
    and contents :: "'q \<Rightarrow> 'e list"
    and inv :: "'q \<Rightarrow> bool"
    and cap :: nat
  assumes put_room: "inv q \<Longrightarrow> length (contents q) < cap \<Longrightarrow>
        \<exists>q'. put x q = Some q' \<and> inv q' \<and> contents q' = contents q @ [x]"
    and put_full: "inv q \<Longrightarrow> length (contents q) = cap \<Longrightarrow> put x q = None"
    and tk_first: "inv q \<Longrightarrow> contents q = x # xs \<Longrightarrow>
        \<exists>q'. tk q = Some (x, q') \<and> inv q' \<and> contents q' = xs"
    and tk_empty: "inv q \<Longrightarrow> contents q = [] \<Longrightarrow> tk q = None"
    and bounded: "inv q \<Longrightarrow> length (contents q) \<le> cap"
begin

lemma put_all_room:
  "inv q \<Longrightarrow> length (contents q) + length xs \<le> cap \<Longrightarrow>
     \<exists>q'. put_all put xs q = Some q' \<and> inv q' \<and> contents q' = contents q @ xs"
proof (induction xs arbitrary: q)
  case Nil
  then show ?case by simp
next
  case (Cons x xs)
  from Cons.prems obtain q1 where q1: "put x q = Some q1" "inv q1" "contents q1 = contents q @ [x]"
    using put_room [of q x] by auto
  with Cons.IH [of q1] Cons.prems show ?case by auto
qed

lemma put_all_overflow:
  "inv q \<Longrightarrow> cap < length (contents q) + length xs \<Longrightarrow> put_all put xs q = None"
proof (induction xs arbitrary: q)
  case Nil
  then show ?case using bounded by fastforce
next
  case (Cons x xs)
  show ?case
  proof (cases "length (contents q) = cap")
    case True
    then show ?thesis using Cons.prems put_full by simp
  next
    case False
    with bounded Cons.prems(1) have "length (contents q) < cap" by (simp add: order_neq_le_trans)
    then obtain q1 where "put x q = Some q1" "inv q1" "contents q1 = contents q @ [x]"
      using put_room Cons.prems(1) by blast
    then show ?thesis using Cons.IH [of q1] Cons.prems by simp
  qed
qed

lemma take_n_prefix:
  "inv q \<Longrightarrow> n \<le> length (contents q) \<Longrightarrow>
     \<exists>q'. take_n tk n q = Some (take n (contents q), q') \<and> inv q' \<and> contents q' = drop n (contents q)"
proof (induction n arbitrary: q)
  case 0
  then show ?case by simp
next
  case (Suc n)
  then obtain x xs where c: "contents q = x # xs" by (cases "contents q") auto
  then obtain q1 where "tk q = Some (x, q1)" "inv q1" "contents q1 = xs"
    using tk_first Suc.prems by blast
  then show ?case using Suc.IH [of q1] Suc.prems c by auto
qed

lemma fifo:
  assumes "inv q" "contents q = []" "length xs \<le> cap"
  shows "\<exists>q1 q2. put_all put xs q = Some q1 \<and> take_n tk (length xs) q1 = Some (xs, q2)
           \<and> inv q2 \<and> contents q2 = []"
proof -
  from put_all_room [of q xs] assms obtain q1
    where q1: "put_all put xs q = Some q1" "inv q1" "contents q1 = xs" by auto
  with take_n_prefix [of q1 "length xs"] show ?thesis by auto
qed

end

section \<open>The ring refines the queue\<close>

lemma BUFLEN_pos [simp]: "0 < BUFLEN"
  by (simp add: BUFLEN_def)

lemma ring_buf_init_ok: "length b = BUFLEN \<Longrightarrow> rb_ok (ring_buf_init b) \<and> rb_list (ring_buf_init b) = []"
  by (simp add: rb_ok_def ring_buf_init_def rb_list_def ring_buf_num_e_def)

lemma num_e_lt: "ring_buf_num_e rb < BUFLEN"
  by (simp add: ring_buf_num_e_def)

lemma length_rb_list [simp]: "length (rb_list rb) = ring_buf_num_e rb"
  by (simp add: rb_list_def)

lemma nth_rb_list: "k < ring_buf_num_e rb \<Longrightarrow> rb_list rb ! k = rb_buf rb ! rb_slot rb k"
  by (simp add: rb_list_def)

lemma empty_iff: "rb_ok rb \<Longrightarrow> ring_buf_empty rb \<longleftrightarrow> rb_list rb = []"
  unfolding ring_buf_empty_def rb_ok_def rb_list_def ring_buf_num_e_def
  by (auto simp: BUFLEN_def mod_if split: if_splits)

lemma full_iff: "rb_ok rb \<Longrightarrow> ring_buf_full rb \<longleftrightarrow> length (rb_list rb) = BUFLEN - 1"
  unfolding ring_buf_full_def rb_ok_def length_rb_list ring_buf_num_e_def
  by (auto simp: BUFLEN_def mod_if split: if_splits)

lemma remain_e: "rb_ok rb \<Longrightarrow> ring_buf_remain_e rb = BUFLEN - 1 - length (rb_list rb)"
  by (simp add: ring_buf_remain_e_def ring_buf_num_e_def)

lemma rb_slot_lt [simp]: "rb_slot rb k < BUFLEN"
  by (simp add: rb_slot_def)

lemma rb_slot_inj:
  "rb_ok rb \<Longrightarrow> i < BUFLEN \<Longrightarrow> j < BUFLEN \<Longrightarrow> rb_slot rb i = rb_slot rb j \<longleftrightarrow> i = j"
  unfolding rb_ok_def rb_slot_def by (auto simp: BUFLEN_def mod_if split: if_splits)

lemma rb_slot_num_e: "rb_ok rb \<Longrightarrow> rb_slot rb (ring_buf_num_e rb) = producer_idx rb"
  unfolding rb_ok_def rb_slot_def ring_buf_num_e_def
  by (auto simp: BUFLEN_def mod_if split: if_splits)

lemma num_e_advance_producer:
  "rb_ok rb \<Longrightarrow> \<not> ring_buf_full rb \<Longrightarrow>
     ring_buf_num_e (rb\<lparr>rb_buf := b, producer_idx := (producer_idx rb + 1) mod BUFLEN\<rparr>) = ring_buf_num_e rb + 1"
  unfolding rb_ok_def ring_buf_full_def ring_buf_num_e_def
  by (auto simp: BUFLEN_def mod_if split: if_splits)

lemma num_e_advance_consumer:
  "rb_ok rb \<Longrightarrow> \<not> ring_buf_empty rb \<Longrightarrow>
     ring_buf_num_e (rb\<lparr>consumer_idx := (consumer_idx rb + 1) mod BUFLEN\<rparr>) = ring_buf_num_e rb - 1"
  unfolding rb_ok_def ring_buf_empty_def ring_buf_num_e_def
  by (auto simp: BUFLEN_def mod_if split: if_splits)

lemma rb_slot_advance_consumer:
  "rb_slot (rb\<lparr>consumer_idx := (consumer_idx rb + 1) mod BUFLEN\<rparr>) k = rb_slot rb (Suc k)"
  by (simp add: rb_slot_def mod_simps)

lemma rb_list_produce:
  assumes "rb_ok rb" "\<not> ring_buf_full rb"
  shows "rb_list (rb\<lparr>rb_buf := (rb_buf rb)[producer_idx rb := x],
                    producer_idx := (producer_idx rb + 1) mod BUFLEN\<rparr>) = rb_list rb @ [x]"
    (is "rb_list ?rb' = _")
proof (rule nth_equalityI)
  have n: "ring_buf_num_e ?rb' = ring_buf_num_e rb + 1"
    using num_e_advance_producer [OF assms] by simp
  then show "length (rb_list ?rb') = length (rb_list rb @ [x])" by simp
  fix k assume "k < length (rb_list ?rb')"
  then have k: "k \<le> ring_buf_num_e rb" using n by simp
  have slot: "rb_slot ?rb' k = rb_slot rb k" by (simp add: rb_slot_def)
  have lens: "length (rb_buf rb) = BUFLEN" "producer_idx rb < BUFLEN" using assms(1) by (auto simp: rb_ok_def)
  have lt: "k < BUFLEN" using k num_e_lt [of rb] by linarith
  show "rb_list ?rb' ! k = (rb_list rb @ [x]) ! k"
  proof (cases "k = ring_buf_num_e rb")
    case True
    then show ?thesis using n lens rb_slot_num_e [OF assms(1)] slot
      by (simp add: nth_rb_list nth_append)
  next
    case False
    then have "rb_slot rb k \<noteq> producer_idx rb"
      using rb_slot_inj [OF assms(1) lt num_e_lt] rb_slot_num_e [OF assms(1)] by metis
    then show ?thesis using False k n slot
      by (simp add: nth_rb_list nth_append)
  qed
qed

lemma rb_list_consume:
  assumes "rb_ok rb" "\<not> ring_buf_empty rb"
  shows "rb_list rb = rb_buf rb ! consumer_idx rb
           # rb_list (rb\<lparr>consumer_idx := (consumer_idx rb + 1) mod BUFLEN\<rparr>)"
proof (rule nth_equalityI)
  have pos: "0 < ring_buf_num_e rb"
    using assms(2) empty_iff [OF assms(1)] by (simp flip: length_rb_list)
  then show "length (rb_list rb) = length (rb_buf rb ! consumer_idx rb
           # rb_list (rb\<lparr>consumer_idx := (consumer_idx rb + 1) mod BUFLEN\<rparr>))"
    using num_e_advance_consumer [OF assms] by simp
  fix k assume "k < length (rb_list rb)"
  then show "rb_list rb ! k = (rb_buf rb ! consumer_idx rb
           # rb_list (rb\<lparr>consumer_idx := (consumer_idx rb + 1) mod BUFLEN\<rparr>)) ! k"
    using assms num_e_advance_consumer [OF assms] rb_slot_advance_consumer [of rb]
    by (cases k) (simp_all add: nth_rb_list rb_slot_def rb_ok_def)
qed

lemma ring_buf_produce_room:
  assumes "rb_ok rb" "length (rb_list rb) < BUFLEN - 1"
  shows "\<exists>rb'. ring_buf_produce x (rb, s) = Some (rb', enable_int (disable_int s))
           \<and> rb_ok rb' \<and> rb_list rb' = rb_list rb @ [x] \<and> consumer_idx rb' = consumer_idx rb"
proof -
  have nf: "\<not> ring_buf_full rb" using assms(2) full_iff [OF assms(1)] by simp
  then show ?thesis using assms(1) rb_list_produce [OF assms(1) nf]
    by (auto simp: ring_buf_produce_def rb_ok_def)
qed

lemma ring_buf_consume_first:
  assumes "rb_ok rb" "rb_list rb = x # xs"
  shows "\<exists>rb'. ring_buf_consume (rb, s) = Some (x, rb', enable_int (disable_int s))
           \<and> rb_ok rb' \<and> rb_list rb' = xs"
proof -
  have ne: "\<not> ring_buf_empty rb" using assms(2) empty_iff [OF assms(1)] by simp
  have "rb_buf rb ! consumer_idx rb = x"
    "rb_list (rb\<lparr>consumer_idx := (consumer_idx rb + 1) mod BUFLEN\<rparr>) = xs"
    using rb_list_consume [OF assms(1) ne] assms(2) by auto
  then show ?thesis using assms(1) ne by (auto simp: ring_buf_consume_def rb_ok_def)
qed

interpretation ringq: bounded_queue
  ring_buf_produce ring_buf_consume "\<lambda>(rb, s). rb_list rb" "\<lambda>(rb, s). rb_ok rb" "BUFLEN - 1"
proof (unfold_locales, goal_cases)
  case (1 q x)
  then show ?case using ring_buf_produce_room [of "fst q" x "snd q"] by (cases q) auto
next
  case (2 q x)
  then show ?case using full_iff [of "fst q"] by (cases q) (auto simp: ring_buf_produce_def)
next
  case (3 q x xs)
  then show ?case using ring_buf_consume_first [of "fst q" x xs "snd q"] by (cases q) auto
next
  case (4 q)
  then show ?case using empty_iff [of "fst q"] by (cases q) (auto simp: ring_buf_consume_def)
next
  case (5 q)
  then show ?case using num_e_lt [of "fst q"] by (cases q) auto
qed

section \<open>Properties\<close>



end
