(* ===== verification/Strings.thy ===== *)
theory Strings
  imports Prelude "HOL-Library.List_Lexorder"
begin

text \<open>
  The string and byte routines: \<open>string.c\<close>, \<open>strlen\<close> of \<open>string.h\<close>, \<open>big2host\<close> of
  \<open>utils.c\<close>, \<open>memcpy\<close> and \<open>memset\<close> of \<open>mem.c\<close>.  A C character array is the list of its
  bytes; a pointer into it is the rest of the list.  Reading or writing past the end
  is \<^term>\<open>None\<close>.  The loop counters are C \<open>int\<close>s that stay below the array sizes.
\<close>

section \<open>Definitions\<close>

text \<open>The contents of a C string: the bytes before the terminator.\<close>

definition cstr :: "u8 list \<Rightarrow> u8 list" where
  "cstr bs = takeWhile (\<lambda>b. b \<noteq> 0) bs"

fun strlen :: "u8 list \<Rightarrow> nat option" where
  "strlen [] = None"
| "strlen (b # bs) = (if b \<noteq> 0 then map_option Suc (strlen bs) else Some 0)"

fun strncmp :: "u8 list \<Rightarrow> u8 list \<Rightarrow> nat \<Rightarrow> int option" where
  "strncmp str1 str2 cnt =
     (if cnt = 0 then Some 0
      else case (str1, str2) of
        (x # xs, y # ys) \<Rightarrow>
          if x < y then Some (- 1)
          else if y < x then Some 1
          else if x = 0 \<and> y = 0 then Some 0
          else strncmp xs ys (cnt - 1)
      | _ \<Rightarrow> None)"

declare strncmp.simps [simp del]

definition SIZE_MAX :: nat where "SIZE_MAX = 2 ^ 64 - 1"

definition strcmp :: "u8 list \<Rightarrow> u8 list \<Rightarrow> int option" where
  "strcmp str1 str2 = strncmp str1 str2 SIZE_MAX"

definition hex_digit :: "u8 \<Rightarrow> u32 option" where
  "hex_digit c =
     (if 48 \<le> c \<and> c \<le> 57 then Some (ucast (c - 48))
      else if 65 \<le> c \<and> c \<le> 70 then Some (ucast (c - 65) + 10)
      else if 97 \<le> c \<and> c \<le> 102 then Some (ucast (c - 97) + 10)
      else None)"

fun hstr2u32_loop :: "u8 list \<Rightarrow> nat \<Rightarrow> u32 \<Rightarrow> u32 option" where
  "hstr2u32_loop hstr 0 ret = Some ret"
| "hstr2u32_loop [] (Suc n) ret = None"
| "hstr2u32_loop (c # hstr) (Suc n) ret =
     (case hex_digit c of None \<Rightarrow> Some 0 | Some d \<Rightarrow> hstr2u32_loop hstr n (push_bit 4 ret + d))"

definition hstr2u32 :: "u8 list \<Rightarrow> nat \<Rightarrow> u32 option" where
  "hstr2u32 hstr sz = hstr2u32_loop hstr sz 0"

fun str2u32_loop :: "u8 list \<Rightarrow> nat \<Rightarrow> u32 \<Rightarrow> u32 option" where
  "str2u32_loop str 0 ret = Some ret"
| "str2u32_loop [] (Suc n) ret = None"
| "str2u32_loop (c # str) (Suc n) ret =
     (if 48 \<le> c \<and> c \<le> 57 then str2u32_loop str n (ret * 10 + ucast (c - 48)) else Some 0)"

definition str2u32 :: "u8 list \<Rightarrow> nat \<Rightarrow> u32 option" where
  "str2u32 str sz = str2u32_loop str sz 0"

fun strncpy :: "u8 list \<Rightarrow> u8 list \<Rightarrow> nat \<Rightarrow> u8 list option" where
  "strncpy dst src cnt =
     (case dst of
        [] \<Rightarrow> None
      | d # ds \<Rightarrow>
          if cnt = 0 then Some (0 # ds)
          else case src of
            [] \<Rightarrow> None
          | c # cs \<Rightarrow> if c \<noteq> 0 then map_option (Cons c) (strncpy ds cs (cnt - 1)) else Some (0 # ds))"

declare strncpy.simps [simp del]

definition strcpy :: "u8 list \<Rightarrow> u8 list \<Rightarrow> u8 list option" where
  "strcpy dst src = strncpy dst src SIZE_MAX"

fun memcpy :: "u8 list \<Rightarrow> u8 list \<Rightarrow> nat \<Rightarrow> u8 list option" where
  "memcpy dst src 0 = Some dst"
| "memcpy (d # ds) (c # cs) (Suc n) = map_option (Cons c) (memcpy ds cs n)"
| "memcpy _ _ (Suc n) = None"

fun memset :: "u8 list \<Rightarrow> u8 \<Rightarrow> nat \<Rightarrow> u8 list option" where
  "memset p c 0 = Some p"
| "memset (d # ds) c (Suc n) = map_option (Cons c) (memset ds c n)"
| "memset [] c (Suc n) = None"

text \<open>\<open>big2host\<close> reads the four bytes of a little-endian word, lowest address first.\<close>

definition word_bytes :: "u32 \<Rightarrow> u8 list" where
  "word_bytes w = map (\<lambda>i. ucast (drop_bit (8 * i) w)) [0, 1, 2, 3]"

definition big2host :: "u32 \<Rightarrow> u32" where
  "big2host num = foldl (\<lambda>ret b. push_bit 8 ret + ucast b) 0 (word_bytes num)"

subsection \<open>Tokens\<close>

definition STRLEN :: nat where "STRLEN = 256"

record strtok_ctx =
  strtok_str :: "u8 list"
  strtok_idx :: nat
  strtok_len :: nat

text \<open>The search over the delimiters, terminator included, for one character.\<close>

definition is_delim :: "u8 list \<Rightarrow> u8 \<Rightarrow> bool option" where
  "is_delim delim c = do { n \<leftarrow> strlen delim; Some (c \<in> set (take (n + 1) delim)) }"

fun strtok_scan :: "u8 list \<Rightarrow> nat \<Rightarrow> nat \<Rightarrow> strtok_ctx \<Rightarrow> (nat option \<times> strtok_ctx) option" where
  "strtok_scan delim 0 i ctx = Some (None, ctx)"
| "strtok_scan delim (Suc n) i ctx = do {
     c \<leftarrow> get_at (strtok_str ctx) i;
     hit \<leftarrow> is_delim delim c;
     if hit then do {
       str \<leftarrow> set_at (strtok_str ctx) i 0;
       Some (Some (strtok_idx ctx), ctx\<lparr>strtok_str := str, strtok_idx := i + 1\<rparr>)
     }
     else strtok_scan delim n (i + 1) ctx
   }"

text \<open>
  \<open>strtok_r\<close> itself.  The context argument is the one \<open>*ctx_ptr\<close> points to: with a string argument
  it is the block that \<open>malloc\<close> has just returned, with the null pointer the one in use.  The
  result is an index into \<open>strtok_str\<close>.
\<close>

definition strtok_r ::
  "u8 list option \<Rightarrow> u8 list \<Rightarrow> strtok_ctx \<Rightarrow> (nat option \<times> strtok_ctx) option" where
  "strtok_r str delim ctx = do {
     ctx \<leftarrow> (case str of
         None \<Rightarrow> Some ctx
       | Some s \<Rightarrow> do {
           copy \<leftarrow> strcpy (strtok_str ctx) s;
           n \<leftarrow> strlen s;
           Some (ctx\<lparr>strtok_str := copy, strtok_idx := 0, strtok_len := n + 1\<rparr>)
         });
     strtok_scan delim (strtok_len ctx - strtok_idx ctx) (strtok_idx ctx) ctx
   }"

section \<open>Comparison, length, copying\<close>

lemma cstr_Cons: "cstr (b # bs) = (if b = 0 then [] else b # cstr bs)"
  by (simp add: cstr_def)

lemma length_cstr_lt: "0 \<in> set bs \<Longrightarrow> length (cstr bs) < length bs"
  by (induction bs) (auto simp: cstr_Cons cstr_def)

lemma strlen_cstr: "0 \<in> set bs \<Longrightarrow> strlen bs = Some (length (cstr bs))"
  by (induction bs) (auto simp: cstr_def)

lemma cstr_split: "0 \<in> set bs \<Longrightarrow> bs = cstr bs @ 0 # drop (Suc (length (cstr bs))) bs"
  by (induction bs) (auto simp: cstr_def)

lemma strncmp_cstr:
  "0 \<in> set s1 \<Longrightarrow> 0 \<in> set s2 \<Longrightarrow> length s1 \<le> n \<Longrightarrow>
     strncmp s1 s2 n = Some (if cstr s1 = cstr s2 then 0 else if cstr s1 < cstr s2 then - 1 else 1)"
proof (induction s1 s2 n rule: strncmp.induct)
  case (1 s1 s2 n)
  obtain x xs y ys where s: "s1 = x # xs" "s2 = y # ys" using 1(2,3) by (cases s1; cases s2) auto
  have n: "n \<noteq> 0" using 1(4) s by auto
  show ?case
  proof (cases "x = y \<and> x \<noteq> 0")
    case True
    then have "strncmp xs ys (n - 1) = Some (if cstr xs = cstr ys then 0 else if cstr xs < cstr ys then - 1 else 1)"
      using 1 s n by (intro 1(1) [OF n _ s(1) s(2)]) auto
    then show ?thesis unfolding s using n True by (subst strncmp.simps) (simp add: cstr_Cons)
  next
    case False
    have pos: "0 < v" if "v \<noteq> 0" for v :: u8 using that by (simp add: word_neq_0_conv)
    show ?thesis unfolding s using n False pos [of x] pos [of y]
      by (subst strncmp.simps) (auto simp: cstr_Cons not_less_iff_gr_or_eq dest: less_asym)
  qed
qed

lemma strncpy_cstr:
  "0 \<in> set src \<Longrightarrow> min n (length (cstr src)) < length dst \<Longrightarrow>
     strncpy dst src n = Some (take n (cstr src) @ 0 # drop (Suc (min n (length (cstr src)))) dst)"
proof (induction dst src n rule: strncpy.induct)
  case (1 dst src n)
  obtain d ds where d: "dst = d # ds" using 1(3) by (cases dst) auto
  obtain c cs where c: "src = c # cs" using 1(2) by (cases src) auto
  show ?case
  proof (cases "n = 0 \<or> c = 0")
    case True
    then show ?thesis unfolding d c by (subst strncpy.simps) (auto simp: cstr_Cons)
  next
    case False
    then obtain m where m: "n = Suc m" by (cases n) auto
    have "strncpy ds cs (n - 1) = Some (take (n - 1) (cstr cs) @ 0 # drop (Suc (min (n - 1) (length (cstr cs)))) ds)"
      using 1(1) [OF d _ c] 1(2,3) False c d by (auto simp: cstr_Cons m)
    then show ?thesis unfolding d c using False by (subst strncpy.simps) (simp add: cstr_Cons m)
  qed
qed

lemma strncpy_overflow: "0 \<in> set src \<Longrightarrow> length dst \<le> min n (length (cstr src)) \<Longrightarrow> strncpy dst src n = None"
proof (induction dst src n rule: strncpy.induct)
  case (1 dst src n)
  obtain c cs where c: "src = c # cs" using 1(2) by (cases src) auto
  show ?case
  proof (cases dst)
    case Nil
    then show ?thesis by (subst strncpy.simps) simp
  next
    case (Cons d ds)
    then have "n \<noteq> 0" "c \<noteq> 0" using 1(3) c by (auto simp: cstr_Cons split: if_splits)
    then have "strncpy ds cs (n - 1) = None" using 1(1) [OF Cons _ c] 1(2,3) c Cons by (auto simp: cstr_Cons)
    then show ?thesis unfolding Cons c using \<open>n \<noteq> 0\<close> \<open>c \<noteq> 0\<close> by (subst strncpy.simps) simp
  qed
qed

lemma memcpy_take: "n \<le> length dst \<Longrightarrow> n \<le> length src \<Longrightarrow> memcpy dst src n = Some (take n src @ drop n dst)"
  by (induction dst src n rule: memcpy.induct) auto

lemma memset_replicate: "n \<le> length p \<Longrightarrow> memset p c n = Some (replicate n c @ drop n p)"
  by (induction p c n rule: memset.induct) auto

section \<open>Numerals\<close>

text \<open>The \<open>k\<close> lowest digits of \<open>n\<close>, most significant first, as lower-case characters.\<close>

definition digit_char :: "nat \<Rightarrow> u8" where
  "digit_char d = (if d < 10 then of_nat (48 + d) else of_nat (87 + d))"

primrec digits :: "nat \<Rightarrow> nat \<Rightarrow> nat \<Rightarrow> u8 list" where
  "digits b 0 n = []"
| "digits b (Suc k) n = digits b k (n div b) @ [digit_char (n mod b)]"

lemma length_digits [simp]: "length (digits b k n) = k"
  by (induction k arbitrary: n) auto

lemma nat_below_16: "d < 16 \<Longrightarrow> d \<in> {0, 1, 2, 3, 4, 5, 6, 7, 8, 9, 10, 11, 12, 13, 14, 15}" for d :: nat
  by (simp add: numeral_eq_Suc less_Suc_eq)

lemma hex_digit_char: "d < 16 \<Longrightarrow> hex_digit (digit_char d) = Some (of_nat d)"
proof -
  assume "d < 16"
  then have "d \<in> {0, 1, 2, 3, 4, 5, 6, 7, 8, 9, 10, 11, 12, 13, 14, 15}" by (rule nat_below_16)
  then show ?thesis by (elim insertE emptyE) (simp_all add: hex_digit_def digit_char_def)
qed

lemma dec_digit_char: "d < 10 \<Longrightarrow> 48 \<le> digit_char d \<and> digit_char d \<le> 57 \<and> ucast (digit_char d - 48) = (of_nat d :: u32)"
proof -
  assume d: "d < 10"
  then have "d \<in> {0, 1, 2, 3, 4, 5, 6, 7, 8, 9, 10, 11, 12, 13, 14, 15}" by (intro nat_below_16) simp
  then show ?thesis using d by (elim insertE emptyE) (simp_all add: digit_char_def)
qed

lemma hstr2u32_loop_digits:
  "hstr2u32_loop (digits 16 k n @ rest) (k + j) acc = hstr2u32_loop rest j (acc * 16 ^ k + of_nat (n mod 16 ^ k))"
proof (induction k arbitrary: n rest j acc)
  case (Suc k)
  have "n mod 16 ^ Suc k = 16 * (n div 16 mod 16 ^ k) + n mod 16"
    using mod_mult2_eq [of n 16 "16 ^ k"] by simp
  then have "(of_nat (n mod 16 ^ Suc k) :: u32) = 16 * of_nat (n div 16 mod 16 ^ k) + of_nat (n mod 16)"
    by (simp only: of_nat_add of_nat_mult) simp
  then show ?case
    using Suc.IH [of "n div 16" "digit_char (n mod 16) # rest" "Suc j" acc] hex_digit_char [of "n mod 16"]
    by (simp add: push_bit_eq_mult algebra_simps)
qed simp

lemma str2u32_loop_digits:
  "str2u32_loop (digits 10 k n @ rest) (k + j) acc = str2u32_loop rest j (acc * 10 ^ k + of_nat (n mod 10 ^ k))"
proof (induction k arbitrary: n rest j acc)
  case (Suc k)
  have "n mod 10 ^ Suc k = 10 * (n div 10 mod 10 ^ k) + n mod 10"
    using mod_mult2_eq [of n 10 "10 ^ k"] by simp
  then have "(of_nat (n mod 10 ^ Suc k) :: u32) = 10 * of_nat (n div 10 mod 10 ^ k) + of_nat (n mod 10)"
    by (simp only: of_nat_add of_nat_mult) simp
  then show ?case
    using Suc.IH [of "n div 10" "digit_char (n mod 10) # rest" "Suc j" acc] dec_digit_char [of "n mod 10"]
    by (simp add: algebra_simps)
qed simp

lemma hstr2u32_loop_bad:
  "length cs < n \<Longrightarrow> hex_digit c = None \<Longrightarrow> \<forall>x \<in> set cs. hex_digit x \<noteq> None \<Longrightarrow> hstr2u32_loop (cs @ c # rest) n acc = Some 0"
proof (induction cs arbitrary: n acc)
  case Nil
  then show ?case by (cases n) auto
next
  case (Cons x cs)
  then show ?case by (cases n) auto
qed

lemma str2u32_loop_bad:
  "length cs < n \<Longrightarrow> \<not> (48 \<le> c \<and> c \<le> 57) \<Longrightarrow> \<forall>x \<in> set cs. 48 \<le> x \<and> x \<le> 57 \<Longrightarrow> str2u32_loop (cs @ c # rest) n acc = Some 0"
proof (induction cs arbitrary: n acc)
  case Nil
  then show ?case by (cases n) auto
next
  case (Cons x cs)
  then show ?case by (cases n) auto
qed

section \<open>Tokens\<close>

lemma is_delim_iff: "0 \<in> set delim \<Longrightarrow> is_delim delim c = Some (c = 0 \<or> c \<in> set (cstr delim))"
proof -
  assume z: "0 \<in> set delim"
  have "delim = (cstr delim @ [0]) @ drop (Suc (length (cstr delim))) delim"
    using cstr_split [OF z] by simp
  then have "take (length (cstr delim @ [0])) delim = cstr delim @ [0]" by (metis append_eq_conv_conj)
  then show ?thesis using strlen_cstr [OF z] by (auto simp: is_delim_def)
qed

lemma strtok_scan_hit:
  "0 \<in> set delim \<Longrightarrow> strtok_str ctx = pre @ t @ c # post \<Longrightarrow> length t < n \<Longrightarrow>
     \<forall>x \<in> set t. x \<noteq> 0 \<and> x \<notin> set (cstr delim) \<Longrightarrow> c = 0 \<or> c \<in> set (cstr delim) \<Longrightarrow>
     strtok_scan delim n (length pre) ctx =
       Some (Some (strtok_idx ctx),
         ctx\<lparr>strtok_str := pre @ t @ 0 # post, strtok_idx := length pre + length t + 1\<rparr>)"
proof (induction t arbitrary: pre n)
  case Nil
  then show ?case by (cases n) (auto simp: is_delim_iff)
next
  case (Cons x t)
  then obtain m where m: "n = Suc m" by (cases n) auto
  have "strtok_scan delim m (length (pre @ [x])) ctx =
       Some (Some (strtok_idx ctx),
         ctx\<lparr>strtok_str := (pre @ [x]) @ t @ 0 # post, strtok_idx := length (pre @ [x]) + length t + 1\<rparr>)"
    using Cons.prems m by (intro Cons.IH) auto
  then show ?case using Cons.prems m by (simp add: is_delim_iff)
qed

text \<open>The pieces of a string between delimiters, empty ones included.\<close>

fun split_at :: "('c \<Rightarrow> bool) \<Rightarrow> 'c list \<Rightarrow> 'c list list" where
  "split_at P [] = [[]]"
| "split_at P (c # cs) =
     (if P c then [] # split_at P cs
      else case split_at P cs of [] \<Rightarrow> [[c]] | t # ts \<Rightarrow> (c # t) # ts)"

lemma split_at_none: "\<forall>x \<in> set t. \<not> P x \<Longrightarrow> split_at P t = [t]"
  by (induction t) auto

lemma split_at_hit: "\<forall>x \<in> set t. \<not> P x \<Longrightarrow> P c \<Longrightarrow> split_at P (t @ c # cs) = t # split_at P cs"
  by (induction t) auto

text \<open>The client loop: call \<open>strtok_r\<close> with the null pointer until it returns the null pointer.\<close>

fun strtok_rest :: "nat \<Rightarrow> u8 list \<Rightarrow> strtok_ctx \<Rightarrow> u8 list list option" where
  "strtok_rest 0 delim ctx = None"
| "strtok_rest (Suc fuel) delim ctx = do {
     (p, ctx) \<leftarrow> strtok_r None delim ctx;
     case p of
       None \<Rightarrow> Some []
     | Some i \<Rightarrow> map_option (Cons (cstr (drop i (strtok_str ctx)))) (strtok_rest fuel delim ctx)
   }"

definition strtok_all :: "nat \<Rightarrow> u8 list \<Rightarrow> u8 list \<Rightarrow> strtok_ctx \<Rightarrow> u8 list list option" where
  "strtok_all fuel str delim ctx = do {
     (p, ctx) \<leftarrow> strtok_r (Some str) delim ctx;
     case p of
       None \<Rightarrow> Some []
     | Some i \<Rightarrow> map_option (Cons (cstr (drop i (strtok_str ctx)))) (strtok_rest fuel delim ctx)
   }"

lemma strtok_rest_done: "strtok_len ctx \<le> strtok_idx ctx \<Longrightarrow> strtok_rest (Suc fuel) delim ctx = Some []"
  by (simp add: strtok_r_def)

lemma cstr_append0: "0 \<notin> set t \<Longrightarrow> cstr (t @ 0 # post) = t"
  by (induction t) (auto simp: cstr_Cons)

lemma strtok_rest_split:
  assumes "0 \<in> set delim"
  shows "0 \<notin> set rest \<Longrightarrow> strtok_str ctx = pre @ rest @ 0 # post \<Longrightarrow> strtok_idx ctx = length pre \<Longrightarrow>
     strtok_len ctx = length pre + length rest + 1 \<Longrightarrow> length rest + 1 < fuel \<Longrightarrow>
     strtok_rest fuel delim ctx = Some (split_at (\<lambda>c. c \<in> set (cstr delim)) rest)"
proof (induction fuel arbitrary: ctx pre rest)
  case (Suc fuel)
  let ?D = "\<lambda>c. c \<in> set (cstr delim)"
  let ?t = "takeWhile (\<lambda>c. \<not> ?D c) rest" and ?u = "dropWhile (\<lambda>c. \<not> ?D c) rest"
  have t0: "0 \<notin> set ?t" using Suc.prems(1) set_takeWhileD by metis
  have tD: "\<forall>x \<in> set ?t. x \<noteq> 0 \<and> \<not> ?D x" using t0 set_takeWhileD by metis
  obtain f where f: "fuel = Suc f" using Suc.prems(5) by (cases fuel) auto
  show ?case
  proof (cases ?u)
    case Nil
    then have r: "rest = ?t" by (metis takeWhile_dropWhile_id append_Nil2)
    have "strtok_scan delim (length rest + 1) (length pre) ctx =
        Some (Some (length pre), ctx\<lparr>strtok_str := pre @ rest @ 0 # post, strtok_idx := length pre + length rest + 1\<rparr>)"
      using strtok_scan_hit [OF assms, of ctx pre rest 0 post "length rest + 1"] Suc.prems tD r by simp
    then show ?thesis
      using Suc.prems split_at_none [of rest ?D] tD r f cstr_append0 [OF Suc.prems(1), of post]
      by (simp add: strtok_r_def strtok_rest_done)
  next
    case (Cons c u)
    have r: "rest = ?t @ c # u" using Cons takeWhile_dropWhile_id by metis
    have c: "?D c" using Cons by (metis hd_dropWhile list.distinct(1) list.sel(1))
    define ctx' where "ctx' = ctx\<lparr>strtok_str := pre @ ?t @ 0 # u @ 0 # post, strtok_idx := length pre + length ?t + 1\<rparr>"
    have s: "strtok_str ctx = pre @ ?t @ c # u @ 0 # post" using Suc.prems(2) r by (metis append_Cons append_assoc)
    have len: "length rest = length ?t + length u + 1" using r by (metis length_append length_Cons add_Suc_right Suc_eq_plus1)
    have "strtok_scan delim (length rest + 1) (length pre) ctx = Some (Some (length pre), ctx')"
      using strtok_scan_hit [OF assms s, of "length rest + 1"] tD c len Suc.prems(3) by (simp add: ctx'_def)
    moreover have "strtok_rest fuel delim ctx' = Some (split_at ?D u)"
    proof (rule Suc.IH)
      show "0 \<notin> set u" using Suc.prems(1) r by (metis in_set_conv_decomp list.set_intros(2) Un_iff set_append)
      show "strtok_str ctx' = (pre @ ?t @ [0]) @ u @ 0 # post" by (simp add: ctx'_def)
    qed (use Suc.prems len in \<open>auto simp: ctx'_def\<close>)
    moreover have "split_at ?D rest = ?t # split_at ?D u"
      using split_at_hit [of ?t ?D c u] tD c r by metis
    ultimately show ?thesis
      using Suc.prems(3,4) cstr_append0 [OF t0, of "u @ 0 # post"]
      by (simp add: strtok_r_def ctx'_def)
  qed
qed simp

section \<open>Properties\<close>

text \<open>
  \<open>strcmp\<close> on two terminated strings returns 0, -1 or 1 exactly as the first string is equal to,
  before, or after the second in the lexicographic order of their bytes.
\<close>

theorem strcmp_orders:
  assumes "0 \<in> set s1" "0 \<in> set s2" "length s1 \<le> SIZE_MAX"
  shows "strcmp s1 s2 = Some (if cstr s1 = cstr s2 then 0 else if cstr s1 < cstr s2 then - 1 else 1)"
  unfolding strcmp_def using strncmp_cstr [OF assms] .

theorem strcmp_orders_witness:
  "strcmp [97, 98, 0] [97, 99, 0] = Some (- 1)"
  using strcmp_orders [of "[97, 98, 0]" "[97, 99, 0]"] by (simp add: SIZE_MAX_def cstr_def)

text \<open>
  \<open>hstr2u32\<close> reads back every 32-bit number from its eight hexadecimal digits.
\<close>

theorem hstr2u32_roundtrip: "hstr2u32 (digits 16 8 (unat w) @ rest) 8 = Some w"
proof -
  have "unat w < 2 ^ 32" using unsigned_less [of w] by simp
  then have "unat w mod 16 ^ 8 = unat w" by simp
  then show ?thesis using hstr2u32_loop_digits [of 8 "unat w" rest 0 0] by (simp add: hstr2u32_def del: digits.simps)
qed

text \<open>
  C37: taking tokens from a string until none is left yields exactly its pieces between delimiters.
  The copy into the context is not bounded: a string of 256 characters or more is written past the
  end of the context's buffer.
\<close>

theorem strtok_all_splits:
  assumes "0 \<in> set str" "0 \<in> set delim" "length str \<le> SIZE_MAX" "length (strtok_str ctx) = STRLEN" "length str < fuel"
  shows "strtok_all fuel str delim ctx =
     (if length (cstr str) < STRLEN then Some (split_at (\<lambda>c. c \<in> set (cstr delim)) (cstr str)) else None)"
proof (cases "length (cstr str) < STRLEN")
  case True
  have n: "length (cstr str) < SIZE_MAX" using length_cstr_lt [OF assms(1)] assms(3) by simp
  let ?post = "drop (Suc (length (cstr str))) (strtok_str ctx)"
  let ?ctx = "ctx\<lparr>strtok_str := cstr str @ 0 # ?post, strtok_idx := 0, strtok_len := length (cstr str) + 1\<rparr>"
  have "strcpy (strtok_str ctx) str = Some (cstr str @ 0 # ?post)"
    using strncpy_cstr [OF assms(1), of SIZE_MAX "strtok_str ctx"] True n assms(4)
    by (simp add: strcpy_def min_absorb2)
  then have "strtok_all fuel str delim ctx = strtok_rest (Suc fuel) delim ?ctx"
    using strlen_cstr [OF assms(1)] by (simp add: strtok_all_def strtok_r_def)
  also have "\<dots> = Some (split_at (\<lambda>c. c \<in> set (cstr delim)) (cstr str))"
    using strtok_rest_split [OF assms(2), of "cstr str" ?ctx "[]" ?post "Suc fuel"] length_cstr_lt [OF assms(1)] assms(5)
    by (auto simp: cstr_def dest: set_takeWhileD)
  finally show ?thesis using True by simp
next
  case False
  then have "strcpy (strtok_str ctx) str = None"
    using strncpy_overflow [OF assms(1), of "strtok_str ctx" SIZE_MAX] assms(3,4) length_cstr_lt [OF assms(1)]
    by (simp add: strcpy_def)
  then show ?thesis using False by (simp add: strtok_all_def strtok_r_def)
qed

theorem strtok_all_splits_witness:
  "strtok_all 9 [97, 47, 98, 99, 0] [47, 0] \<lparr>strtok_str = replicate STRLEN 0, strtok_idx = 0, strtok_len = 0\<rparr>
     = Some [[97], [98, 99]]"
  using strtok_all_splits [of "[97, 47, 98, 99, 0]" "[47, 0]"
      "\<lparr>strtok_str = replicate STRLEN 0, strtok_idx = 0, strtok_len = 0\<rparr>" 9]
  by (simp add: SIZE_MAX_def STRLEN_def cstr_def)

end
