(* ===== verification/Devices.thy ===== *)
theory Devices
  imports Address_Space Sd Ring_Buffer Strings
begin

text \<open>
  The state of the drivers and the access to memory in units of 16 and 32 bits, least significant byte first.

  \<open>mmio\<close> is the hardware.  A pointer to a \<open>struct fat32_f_data\<close> is a 64-bit word and \<open>f_datas\<close> maps the allocated ones to their contents.
\<close>

section \<open>State\<close>

record fat32_t =
  start_blk_idx :: u32
  end_of_file :: u32
  BPB_BytsPerSec :: u16
  BPB_SecPerClus :: u8
  BPB_RsvdSecCnt :: u16
  BPB_NumFATs :: u8
  BPB_FATSz32 :: u32
  BPB_RootClus :: u32
  fat_cache :: u64
  fat_mount_point :: u64

record fat32_f_data =
  dirty :: bool
  clus_idx :: u32
  content_cache :: klist

record framebuffer_info =
  fb_width :: u32
  fb_height :: u32
  fb_pitch :: u32
  fb_isrgb :: u32

record io_data = sched +
  mmio :: device
  is_hcs :: u32
  fat32_data :: fat32_t
  f_datas :: "u64 \<rightharpoonup> fat32_f_data"
  r_buf :: "u8 ring_buf"
  w_buf :: "u8 ring_buf"
  fb_addr :: u64
  fb_info :: framebuffer_info
  dtb_addr :: u64
  dtb_len :: u64
  usable_start :: u64
  dtb_str_idx :: nat
  mem_str_idx :: nat

section \<open>Memory\<close>

definition rd16 :: "u64 \<Rightarrow> 'a vm_data_scheme \<Rightarrow> u16 option" where
  "rd16 a s = do {
     b0 \<leftarrow> rd8 a s; b1 \<leftarrow> rd8 (a + 1) s;
     Some (ucast b0 OR push_bit 8 (ucast b1))
   }"

definition le32 :: "u8 \<Rightarrow> u8 \<Rightarrow> u8 \<Rightarrow> u8 \<Rightarrow> u32" where
  "le32 b0 b1 b2 b3 = ucast b0 OR push_bit 8 (ucast b1) OR push_bit 16 (ucast b2) OR push_bit 24 (ucast b3)"

definition rd32 :: "u64 \<Rightarrow> 'a vm_data_scheme \<Rightarrow> u32 option" where
  "rd32 a s = do {
     b0 \<leftarrow> rd8 a s; b1 \<leftarrow> rd8 (a + 1) s; b2 \<leftarrow> rd8 (a + 2) s; b3 \<leftarrow> rd8 (a + 3) s;
     Some (le32 b0 b1 b2 b3)
   }"

definition wr16 :: "u64 \<Rightarrow> u16 \<Rightarrow> 'a vm_data_scheme \<Rightarrow> 'a vm_data_scheme option" where
  "wr16 a v s = do { s \<leftarrow> wr8 a (ucast v) s; wr8 (a + 1) (ucast (drop_bit 8 v)) s }"

definition wr32 :: "u64 \<Rightarrow> u32 \<Rightarrow> 'a vm_data_scheme \<Rightarrow> 'a vm_data_scheme option" where
  "wr32 a v s = do {
     s \<leftarrow> wr8 a (ucast v) s;
     s \<leftarrow> wr8 (a + 1) (ucast (drop_bit 8 v)) s;
     s \<leftarrow> wr8 (a + 2) (ucast (drop_bit 16 v)) s;
     wr8 (a + 3) (ucast (drop_bit 24 v)) s
   }"

text \<open>The bytes of a list of words, and the copy of a list of bytes into memory.\<close>

definition bytes_of :: "u32 list \<Rightarrow> u8 list" where
  "bytes_of ws = concat (map (\<lambda>w. [ucast w, ucast (drop_bit 8 w), ucast (drop_bit 16 w), ucast (drop_bit 24 w)]) ws)"

fun store_bytes :: "u64 \<Rightarrow> u8 list \<Rightarrow> 'a vm_data_scheme \<Rightarrow> 'a vm_data_scheme option" where
  "store_bytes a [] s = Some s"
| "store_bytes a (b # bs) s = do { s \<leftarrow> wr8 a b s; store_bytes (a + 1) bs s }"

fun load_words :: "u64 \<Rightarrow> nat \<Rightarrow> 'a vm_data_scheme \<Rightarrow> u32 list option" where
  "load_words a 0 s = Some []"
| "load_words a (Suc n) s = do { w \<leftarrow> rd32 a s; ws \<leftarrow> load_words (a + 4) n s; Some (w # ws) }"

section \<open>Blocks\<close>

text \<open>\<open>readblock\<close> and \<open>writeblock\<close> with a buffer in memory, and \<open>readblock\<close> with a local array of 512 bytes, whose contents are returned.\<close>

definition readblock_at :: "u32 \<Rightarrow> u64 \<Rightarrow> 'a io_data_scheme \<Rightarrow> 'a io_data_scheme option" where
  "readblock_at block_idx buf s = do {
     (ws, d) \<leftarrow> readblock (is_hcs s) block_idx (mmio s);
     store_bytes buf (bytes_of ws) (s\<lparr>mmio := d\<rparr>)
   }"

definition readblock_local :: "u32 \<Rightarrow> 'a io_data_scheme \<Rightarrow> (u8 list \<times> 'a io_data_scheme) option" where
  "readblock_local block_idx s = do {
     (ws, d) \<leftarrow> readblock (is_hcs s) block_idx (mmio s);
     Some (bytes_of ws, s\<lparr>mmio := d\<rparr>)
   }"

definition writeblock_at :: "u32 \<Rightarrow> u64 \<Rightarrow> 'a io_data_scheme \<Rightarrow> 'a io_data_scheme option" where
  "writeblock_at block_idx buf s = do {
     ws \<leftarrow> load_words buf 128 s;
     d \<leftarrow> writeblock (is_hcs s) block_idx ws (mmio s);
     Some (s\<lparr>mmio := d\<rparr>)
   }"

end
