(* ===== verification/Vnode.thy ===== *)
theory Vnode
  imports Devices
begin

text \<open>
  The data of the virtual file system (\<open>vfs.h\<close>) and the initialisation of a vnode (\<open>vfs.c\<close>).

  Pointers are 64-bit words; the maps \<open>vnodes\<close>, \<open>mounts\<close>, \<open>vops\<close>, \<open>fops\<close> and \<open>filesystems\<close> give the contents of the structures that
  are allocated.  A pointer to a function is an element of a datatype with one constructor per function that the source assigns, and a null pointer is \<open>None\<close>.
  What a new vnode holds before it is initialised is given by \<open>stale_vnode\<close> and \<open>ram\<close>.
\<close>

section \<open>State\<close>

datatype file_type = FILE | DIR | DEV | LINK

datatype lookup_fn = F_tmpfs_lookup
datatype create_fn = F_tmpfs_create | F_fat32_create
datatype mkdir_fn = F_tmpfs_mkdir | F_fat32_mkdir
datatype write_fn = F_tmpfs_write | F_fat32_write
datatype read_fn = F_tmpfs_read | F_fat32_read
datatype open_fn = F_tmpfs_open
datatype close_fn = F_tmpfs_close
datatype lseek64_fn = F_tmpfs_lseek64
datatype setup_mount_fn = F_tmpfs_setup_mount | F_initramfs_setup_mount | F_fat32_setup_mount

record mount_t =
  mt_root :: u64
  mt_fs :: u64
  mt_flags :: u32

text \<open>No function of this model is ever stored in the \<open>ioctl\<close> slot: its type has no other value than the null pointer.\<close>

record file_operations =
  fo_write :: "write_fn option"
  fo_read :: "read_fn option"
  fo_open :: "open_fn option"
  fo_close :: "close_fn option"
  fo_lseek64 :: "lseek64_fn option"

record vnode_operations =
  vo_lookup :: "lookup_fn option"
  vo_create :: "create_fn option"
  vo_mkdir :: "mkdir_fn option"

record vnode_t =
  vn_mount :: u64
  vn_vops :: u64
  vn_fops :: u64
  vn_children :: klist
  vn_hidden :: bool
  vn_mode :: u32
  vn_parent :: u64
  vn_type :: file_type
  vn_name :: "u8 list"
  vn_file_size :: u64
  vn_internal :: u64

record filesystem_t =
  fs_name :: "u8 list"
  fs_setup_mount :: setup_mount_fn

text \<open>The field \<open>rootfs_root\<close> of \<open>sched\<close> is \<open>rootfs->root\<close>, the only use the code makes of \<open>rootfs\<close>.\<close>

record vfs_data = io_data +
  vnodes :: "u64 \<rightharpoonup> vnode_t"
  mounts :: "u64 \<rightharpoonup> mount_t"
  vops :: "u64 \<rightharpoonup> vnode_operations"
  fops :: "u64 \<rightharpoonup> file_operations"
  filesystems :: "u64 \<rightharpoonup> filesystem_t"
  fs_list :: klist
  stale_vnode :: "u64 \<Rightarrow> vnode_t"
  ramdisk_saddr :: u64
  ramdisk_eaddr :: u64

definition MAX_FILE_SZ :: u64 where "MAX_FILE_SZ = 4096"
definition O_RDONLY :: u32 where "O_RDONLY = 0"
definition O_WRONLY :: u32 where "O_WRONLY = 1"
definition O_CREAT :: u32 where "O_CREAT = 0x40"
definition SEEK_SET :: int where "SEEK_SET = 0"
definition SEEK_CUR :: int where "SEEK_CUR = 1"
definition SEEK_END :: int where "SEEK_END = 2"
definition MS_RDONLY :: u32 where "MS_RDONLY = 1"

text \<open>A string literal, with its terminator, and the text of a string in a message.\<close>

definition literal :: "string \<Rightarrow> u8 list" where
  "literal str = map of_char str @ [0]"

definition text_of :: "u8 list \<Rightarrow> string" where
  "text_of bs = map (\<lambda>b. char_of (unat b)) (cstr bs)"

section \<open>Memory\<close>

text \<open>\<open>malloc(sizeof(struct vnode))\<close>: the name is the bytes 60 to 315 of the structure.\<close>

definition malloc_vnode :: "'a vfs_data_scheme \<Rightarrow> (u64 \<times> 'a vfs_data_scheme) option" where
  "malloc_vnode s = do {
     (p, s) \<leftarrow> malloc 336 s;
     Some (p, if p = 0 then s
              else s\<lparr>vnodes := (vnodes s)(p \<mapsto> (stale_vnode s p)\<lparr>vn_name := bytes_at (p + 60) STRLEN s\<rparr>)\<rparr>)
   }"

definition free_vnode :: "u64 \<Rightarrow> 'a vfs_data_scheme \<Rightarrow> 'a vfs_data_scheme option" where
  "free_vnode p s = do { s \<leftarrow> free p s; Some (s\<lparr>vnodes := (vnodes s)(p := None)\<rparr>) }"

definition upd_vnode :: "u64 \<Rightarrow> (vnode_t \<Rightarrow> vnode_t) \<Rightarrow> 'a vfs_data_scheme \<Rightarrow> 'a vfs_data_scheme option" where
  "upd_vnode p f s = do { n \<leftarrow> vnodes s p; Some (s\<lparr>vnodes := (vnodes s)(p \<mapsto> f n)\<rparr>) }"

definition upd_file :: "u64 \<Rightarrow> (file_t \<Rightarrow> file_t) \<Rightarrow> 'a vfs_data_scheme \<Rightarrow> 'a vfs_data_scheme option" where
  "upd_file p f s = do { n \<leftarrow> files s p; Some (s\<lparr>files := (files s)(p \<mapsto> f n)\<rparr>) }"

definition push_child :: "u64 \<Rightarrow> u64 \<Rightarrow> 'a vfs_data_scheme \<Rightarrow> 'a vfs_data_scheme option" where
  "push_child dir_node node s = do {
     d \<leftarrow> vnodes s dir_node;
     (l, s) \<leftarrow> list_push (vn_children d) node s;
     upd_vnode dir_node (\<lambda>d. d\<lparr>vn_children := l\<rparr>) s
   }"

section \<open>Initialisation of a vnode\<close>

definition init_vnode ::
  "u64 \<Rightarrow> u64 \<Rightarrow> file_type \<Rightarrow> u8 list \<Rightarrow> 'a vfs_data_scheme \<Rightarrow> (int \<times> 'a vfs_data_scheme) option" where
  "init_vnode dir_node node type component_name s =
     (let s = disable_int s in
      if node = 0 then Some (- 1, print_msg ''Failed to allocate vnode'' (enable_int s))
      else do {
        s \<leftarrow> (if dir_node \<noteq> 0 then do {
               d \<leftarrow> vnodes s dir_node;
               s \<leftarrow> upd_vnode node (\<lambda>n. n\<lparr>vn_mount := vn_mount d, vn_fops := vn_fops d, vn_vops := vn_vops d\<rparr>) s;
               push_child dir_node node s
             } else Some s);
        n \<leftarrow> vnodes s node;
        name \<leftarrow> strcpy (vn_name n) component_name;
        s \<leftarrow> upd_vnode node (\<lambda>n. n\<lparr>vn_parent := dir_node, vn_type := type, vn_hidden := False, vn_children := zero_list,
              vn_name := name, vn_file_size := 0\<rparr>) s;
        Some (0, enable_int s)
      })"

end
