(* ===== verification/Tmpfs.thy ===== *)
theory Tmpfs
  imports Vnode
begin

text \<open>
  The file system in memory, \<open>tmpfs.c\<close>: one block of \<open>MAX_FILE_SZ\<close> bytes per file.  Sizes and positions are unsigned 64-bit numbers; the
  offset of \<open>lseek64\<close> is a signed one.  A comparison of the two is made on unsigned numbers, as in C.
\<close>

section \<open>Files\<close>

definition tmpfs_write :: "u64 \<Rightarrow> u64 \<Rightarrow> u64 \<Rightarrow> 'a vfs_data_scheme \<Rightarrow> (u64 \<times> 'a vfs_data_scheme) option" where
  "tmpfs_write file buf len s = do {
     f \<leftarrow> files s file;
     let write_sz = (if f_pos f + len > MAX_FILE_SZ then MAX_FILE_SZ - f_pos f else len);
     n \<leftarrow> vnodes s (f_vnode f);
     s \<leftarrow> (if f_pos f + write_sz > vn_file_size n
          then upd_vnode (f_vnode f) (\<lambda>n. n\<lparr>vn_file_size := f_pos f + write_sz\<rparr>) s else Some s);
     s \<leftarrow> memcpy_ram (vn_internal n + f_pos f) buf (unat (ucast write_sz :: u32)) s;
     s \<leftarrow> upd_file file (\<lambda>f. f\<lparr>f_pos := f_pos f + write_sz\<rparr>) s;
     Some (write_sz, s)
   }"

definition tmpfs_read :: "u64 \<Rightarrow> u64 \<Rightarrow> u64 \<Rightarrow> 'a vfs_data_scheme \<Rightarrow> (u64 \<times> 'a vfs_data_scheme) option" where
  "tmpfs_read file buf len s = do {
     f \<leftarrow> files s file;
     n \<leftarrow> vnodes s (f_vnode f);
     let read_sz = (if len < vn_file_size n - f_pos f then len else vn_file_size n - f_pos f);
     s \<leftarrow> memcpy_ram buf (vn_internal n + f_pos f) (unat (ucast read_sz :: u32)) s;
     s \<leftarrow> upd_file file (\<lambda>f. f\<lparr>f_pos := f_pos f + read_sz\<rparr>) s;
     Some (read_sz, s)
   }"

text \<open>\<open>target\<close> is \<open>None\<close> as long as the caller's variable is not written.\<close>

definition tmpfs_open ::
  "u64 \<Rightarrow> u32 \<Rightarrow> u64 option \<Rightarrow> 'a vfs_data_scheme \<Rightarrow> (int \<times> u64 option \<times> 'a vfs_data_scheme) option" where
  "tmpfs_open file_node fl target s = do {
     (f, s) \<leftarrow> malloc 32 s;
     if f = 0 then Some (- 1, target, s)
     else do {
       n \<leftarrow> vnodes s file_node;
       Some (0, Some f, s\<lparr>files := (files s)(f \<mapsto>
         \<lparr>f_vnode = file_node, f_pos = 0, f_fops = vn_fops n, f_flags = fl, f_ref_count = 1\<rparr>)\<rparr>)
     }
   }"

definition tmpfs_close :: "u64 \<Rightarrow> 'a vfs_data_scheme \<Rightarrow> (int \<times> 'a vfs_data_scheme) option" where
  "tmpfs_close file s = do {
     s \<leftarrow> upd_file file (\<lambda>f. f\<lparr>f_ref_count := f_ref_count f - 1\<rparr>) s;
     f \<leftarrow> files s file;
     s \<leftarrow> (if f_ref_count f = 0 then do { s \<leftarrow> free file s; Some (s\<lparr>files := (files s)(file := None)\<rparr>) } else Some s);
     Some (0, s)
   }"

definition tmpfs_lseek64 :: "u64 \<Rightarrow> u64 \<Rightarrow> int \<Rightarrow> 'a vfs_data_scheme \<Rightarrow> (int \<times> 'a vfs_data_scheme) option" where
  "tmpfs_lseek64 file offset whence s = do {
     f \<leftarrow> files s file;
     if whence = SEEK_SET then do {
       n \<leftarrow> vnodes s (f_vnode f);
       if sint offset < 0 \<or> offset > vn_file_size n then Some (- 1, print_msg ''Invalid offset'' s)
       else do { s \<leftarrow> upd_file file (\<lambda>f. f\<lparr>f_pos := offset\<rparr>) s; Some (0, s) }
     }
     else if whence = SEEK_CUR then do {
       n \<leftarrow> vnodes s (f_vnode f);
       if f_pos f + offset < 0 \<or> f_pos f + offset > vn_file_size n then Some (- 1, print_msg ''Invalid offset'' s)
       else do { s \<leftarrow> upd_file file (\<lambda>f. f\<lparr>f_pos := f_pos f + offset\<rparr>) s; Some (0, s) }
     }
     else if whence = SEEK_END then do {
       n \<leftarrow> vnodes s (f_vnode f);
       if 0 < sint offset \<or> vn_file_size n + offset < 0 then Some (- 1, print_msg ''Invalid offset'' s)
       else do { s \<leftarrow> upd_file file (\<lambda>f. f\<lparr>f_pos := vn_file_size n + offset\<rparr>) s; Some (0, s) }
     }
     else Some (- 1, print_msg ''Invalid whence'' s)
   }"

section \<open>Directories\<close>

definition vfs_tree_child :: "u64 \<Rightarrow> u8 list \<Rightarrow> 'a vfs_data_scheme \<Rightarrow> bool option" where
  "vfs_tree_child p name s = do {
     n \<leftarrow> vnodes s p;
     if vn_hidden n then Some False
     else do { r \<leftarrow> strcmp (vn_name n) name; Some (r = 0) }
   }"

definition tmpfs_lookup :: "u64 \<Rightarrow> u8 list \<Rightarrow> 'a vfs_data_scheme \<Rightarrow> (u64 \<times> 'a vfs_data_scheme) option" where
  "tmpfs_lookup dir_node component_name s = do {
     d \<leftarrow> vnodes s dir_node;
     list_find (vn_children d) (\<lambda>p. vfs_tree_child p component_name s) s
   }"

definition tmpfs_init_vnode ::
  "u64 \<Rightarrow> u64 \<Rightarrow> file_type \<Rightarrow> u8 list \<Rightarrow> 'a vfs_data_scheme \<Rightarrow> (int \<times> 'a vfs_data_scheme) option" where
  "tmpfs_init_vnode dir_node node type component_name s = do {
     (r, s) \<leftarrow> init_vnode dir_node node type component_name s;
     if r \<noteq> 0 then Some (- 1, s)
     else if type = FILE then do {
       (p, s) \<leftarrow> malloc_bytes MAX_FILE_SZ s;
       s \<leftarrow> upd_vnode node (\<lambda>n. n\<lparr>vn_internal := p\<rparr>) s;
       Some (if p = 0 then - 1 else 0, s)
     }
     else Some (0, s)
   }"

definition tmpfs_create ::
  "u64 \<Rightarrow> u8 list \<Rightarrow> file_type \<Rightarrow> 'a vfs_data_scheme \<Rightarrow> (int \<times> u64 \<times> 'a vfs_data_scheme) option" where
  "tmpfs_create dir_node component_name type s = do {
     (target, s) \<leftarrow> malloc_vnode s;
     (r, s) \<leftarrow> tmpfs_init_vnode dir_node target type component_name s;
     Some (r, target, s)
   }"

definition tmpfs_mkdir ::
  "u64 \<Rightarrow> u8 list \<Rightarrow> 'a vfs_data_scheme \<Rightarrow> (int \<times> u64 \<times> 'a vfs_data_scheme) option" where
  "tmpfs_mkdir dir_node component_name s = do {
     (target, s) \<leftarrow> malloc_vnode s;
     (r, s) \<leftarrow> tmpfs_init_vnode dir_node target DIR component_name s;
     Some (r, target, s)
   }"

section \<open>Mounting\<close>

text \<open>The two tables of operations; their entries are filled in after the root is initialised.\<close>

definition malloc_tables :: "u64 \<Rightarrow> 'a vfs_data_scheme \<Rightarrow> (bool \<times> 'a vfs_data_scheme) option" where
  "malloc_tables root s = do {
     (v, s) \<leftarrow> malloc 24 s;
     s \<leftarrow> upd_vnode root (\<lambda>n. n\<lparr>vn_vops := v\<rparr>) s;
     if v = 0 then Some (False, s)
     else do {
       (f, s) \<leftarrow> malloc 48 s;
       s \<leftarrow> upd_vnode root (\<lambda>n. n\<lparr>vn_fops := f\<rparr>) s;
       if f = 0 then do { s \<leftarrow> free v s; Some (False, s) } else Some (True, s)
     }
   }"

text \<open>The common part of \<open>tmpfs_setup_mount\<close> and \<open>initramfs_setup_mount\<close>, which differ in the tables and in what follows.\<close>

definition setup_root ::
  "u64 \<Rightarrow> u64 \<Rightarrow> u8 list \<Rightarrow> vnode_operations \<Rightarrow> file_operations \<Rightarrow> 'a vfs_data_scheme \<Rightarrow> (int \<times> 'a vfs_data_scheme) option" where
  "setup_root mount dir_node component vo fo s = do {
     m \<leftarrow> mounts s mount;
     let root = mt_root m;
     (b, s) \<leftarrow> malloc_tables root s;
     if \<not> b then Some (- 1, s)
     else do {
       (r, s) \<leftarrow> tmpfs_init_vnode 0 root DIR component s;
       if r \<noteq> 0 then Some (- 1, s)
       else do {
         s \<leftarrow> (if dir_node \<noteq> 0 then push_child dir_node root s else Some s);
         s \<leftarrow> upd_vnode root (\<lambda>n. n\<lparr>vn_parent := dir_node\<rparr>) s;
         n \<leftarrow> vnodes s root;
         let s = s\<lparr>vops := (vops s)(vn_vops n \<mapsto> vo), fops := (fops s)(vn_fops n \<mapsto> fo)\<rparr>;
         s \<leftarrow> upd_vnode root (\<lambda>n. n\<lparr>vn_mount := mount\<rparr>) s;
         Some (0, s)
       }
     }
   }"

definition tmpfs_vops :: vnode_operations where
  "tmpfs_vops = \<lparr>vo_lookup = Some F_tmpfs_lookup, vo_create = Some F_tmpfs_create, vo_mkdir = Some F_tmpfs_mkdir\<rparr>"

definition tmpfs_fops :: file_operations where
  "tmpfs_fops = \<lparr>fo_write = Some F_tmpfs_write, fo_read = Some F_tmpfs_read, fo_open = Some F_tmpfs_open,
     fo_close = Some F_tmpfs_close, fo_lseek64 = Some F_tmpfs_lseek64\<rparr>"

definition tmpfs_setup_mount ::
  "u64 \<Rightarrow> u64 \<Rightarrow> u8 list \<Rightarrow> 'a vfs_data_scheme \<Rightarrow> (int \<times> 'a vfs_data_scheme) option" where
  "tmpfs_setup_mount mount dir_node component s = setup_root mount dir_node component tmpfs_vops tmpfs_fops s"

end
