(* ===== verification/Fat32.thy ===== *)
theory Fat32
  imports Tmpfs
begin

text \<open>
  The FAT32 file system, \<open>fat32.c\<close>: its operations on vnodes.  The allocation table is cached in memory at \<open>fat_cache\<close>, and the sectors of a file in a list of blocks.  A sector of a
  directory is an array of entries of 32 bytes, with the name at offset 0, the extension at 8, the attributes at 11, the halves of the first cluster at 20 and 26, and the size at 28;
  an entry of a long name has its characters at 1, 14 and 28 and a checksum at 13.  The type \<open>char\<close> is unsigned, as the ABI of the processor has it.  Pointers into an array of
  the structure that go past its end are undefined, as is division by a zero field of the volume.
\<close>

section \<open>Constants and fields of the volume\<close>

definition BLK_SZ :: nat where "BLK_SZ = 512"
definition LFN_NAME_LEN :: nat where "LFN_NAME_LEN = 255"
definition DIR_ENTRY_UNUSED :: u8 where "DIR_ENTRY_UNUSED = 0xe5"
definition DIR_ENTRY_UNUSED_JP :: u8 where "DIR_ENTRY_UNUSED_JP = 0x05"
definition DIR_ENTRY_LAST_AND_UNUSED :: u8 where "DIR_ENTRY_LAST_AND_UNUSED = 0x00"
definition SPACE :: u8 where "SPACE = 0x20"
definition FAT_VAL_MASK :: u32 where "FAT_VAL_MASK = 0x0fffffff"
definition FAT_ENTRY_FREE :: u32 where "FAT_ENTRY_FREE = 0"
definition ATTR_READ_ONLY :: u8 where "ATTR_READ_ONLY = 0x01"
definition ATTR_HIDDEN :: u8 where "ATTR_HIDDEN = 0x02"
definition ATTR_SYSTEM :: u8 where "ATTR_SYSTEM = 0x04"
definition ATTR_VOLUME_ID :: u8 where "ATTR_VOLUME_ID = 0x08"
definition ATTR_DIRECTORY :: u8 where "ATTR_DIRECTORY = 0x10"
definition ATTR_ARCHIVE :: u8 where "ATTR_ARCHIVE = 0x20"
definition ATTR_LONG_NAME :: u8 where
  "ATTR_LONG_NAME = ATTR_READ_ONLY OR ATTR_HIDDEN OR ATTR_SYSTEM OR ATTR_VOLUME_ID"

definition BytsPerSec :: "'a io_data_scheme \<Rightarrow> nat" where
  "BytsPerSec s = unat (BPB_BytsPerSec (fat32_data s))"

definition SecPerClus :: "'a io_data_scheme \<Rightarrow> nat" where
  "SecPerClus s = unat (BPB_SecPerClus (fat32_data s))"

definition FirstDataSector :: "'a io_data_scheme \<Rightarrow> u32" where
  "FirstDataSector s = (let v = fat32_data s in ucast (BPB_RsvdSecCnt v) + ucast (BPB_NumFATs v) * BPB_FATSz32 v)"

definition FirstSectorofCluster :: "u32 \<Rightarrow> 'a io_data_scheme \<Rightarrow> u32" where
  "FirstSectorofCluster n s = (n - 2) * ucast (BPB_SecPerClus (fat32_data s)) + FirstDataSector s"

text \<open>Whether a number of sectors ends with a cluster.\<close>

definition whole_clusters :: "nat \<Rightarrow> 'a io_data_scheme \<Rightarrow> bool option" where
  "whole_clusters n s = (if SecPerClus s = 0 then None else Some (n mod SecPerClus s = 0))"

definition upd_f_data :: "u64 \<Rightarrow> (fat32_f_data \<Rightarrow> fat32_f_data) \<Rightarrow> 'a io_data_scheme \<Rightarrow> 'a io_data_scheme option" where
  "upd_f_data p f s = do { m \<leftarrow> f_datas s p; Some (s\<lparr>f_datas := (f_datas s)(p \<mapsto> f m)\<rparr>) }"

section \<open>The allocation table\<close>

definition fat_entry_addr :: "u32 \<Rightarrow> 'a io_data_scheme \<Rightarrow> u64" where
  "fat_entry_addr clus s = fat_cache (fat32_data s) + 4 * ucast clus"

definition get_fat_entry :: "u32 \<Rightarrow> 'a io_data_scheme \<Rightarrow> u32 option" where
  "get_fat_entry clus s = rd32 (fat_entry_addr clus s) s"

definition set_fat_entry :: "u32 \<Rightarrow> u32 \<Rightarrow> 'a io_data_scheme \<Rightarrow> 'a io_data_scheme option" where
  "set_fat_entry clus val s = do {
     v \<leftarrow> get_fat_entry clus s;
     wr32 (fat_entry_addr clus s) ((v AND NOT FAT_VAL_MASK) OR val) s
   }"

text \<open>The search for a free entry; the product of the sizes is one of 32-bit numbers.\<close>

function free_clus_loop :: "nat \<Rightarrow> 'a io_data_scheme \<Rightarrow> u32 option" where
  "free_clus_loop i s =
     (if i < unat (BPB_FATSz32 (fat32_data s) * ucast (BPB_BytsPerSec (fat32_data s))) div 4 then do {
        v \<leftarrow> get_fat_entry (of_nat i) s;
        if v = FAT_ENTRY_FREE then Some (of_nat i) else free_clus_loop (i + 1) s
      }
      else Some (NOT 0))"
  by pat_completeness auto
termination
  by (relation "measure (\<lambda>(i, s). unat (BPB_FATSz32 (fat32_data s) * ucast (BPB_BytsPerSec (fat32_data s))) div 4 - i)") auto

declare free_clus_loop.simps [simp del]

definition get_free_clus_idx :: "'a io_data_scheme \<Rightarrow> u32 option" where
  "get_free_clus_idx s = free_clus_loop 0 s"

text \<open>The extension of a chain by a free cluster, which is written out in two places.\<close>

definition extend_chain :: "u32 \<Rightarrow> 'a io_data_scheme \<Rightarrow> (u32 \<times> 'a io_data_scheme) option" where
  "extend_chain clus s = do {
     tmp \<leftarrow> get_free_clus_idx s;
     s \<leftarrow> set_fat_entry clus tmp s;
     s \<leftarrow> set_fat_entry tmp (end_of_file (fat32_data s)) s;
     Some (tmp, s)
   }"

section \<open>The cache of a file\<close>

definition add_new_cache_sec :: "u64 \<Rightarrow> 'a io_data_scheme \<Rightarrow> (u64 \<times> 'a io_data_scheme) option" where
  "add_new_cache_sec md s = do {
     (new_sec, s) \<leftarrow> malloc_bytes (ucast (BPB_BytsPerSec (fat32_data s))) s;
     if new_sec = 0 then Some (0, s)
     else do {
       s \<leftarrow> store_bytes new_sec (replicate (BytsPerSec s) 0) s;
       m \<leftarrow> f_datas s md;
       (l, s) \<leftarrow> list_push (content_cache m) new_sec s;
       s \<leftarrow> upd_f_data md (\<lambda>m. m\<lparr>content_cache := l\<rparr>) s;
       Some (new_sec, s)
     }
   }"

text \<open>The two loops over clusters and over the sectors of a cluster, with \<open>i\<close> the next sector of the cluster and \<open>sec_cnt\<close> the number of sectors so far.\<close>

partial_function (option) load_loop :: "u64 \<Rightarrow> u64 \<Rightarrow> u32 \<Rightarrow> nat \<Rightarrow> nat \<Rightarrow> 'a vfs_data_scheme \<Rightarrow> 'a vfs_data_scheme option" where
  "load_loop node md clus i sec_cnt s = do {
     n \<leftarrow> vnodes s node;
     if i < SecPerClus s then
       (if vn_type n = FILE \<and> vn_file_size n \<le> of_nat (sec_cnt * BytsPerSec s) then Some s
        else do {
          (new_sec, s) \<leftarrow> add_new_cache_sec md s;
          s \<leftarrow> readblock_at (start_blk_idx (fat32_data s) + FirstSectorofCluster clus s + of_nat i) new_sec s;
          load_loop node md clus (i + 1) (sec_cnt + 1) s
        })
     else do {
       e \<leftarrow> get_fat_entry clus s;
       if e = end_of_file (fat32_data s) then Some s
       else load_loop node md (e AND FAT_VAL_MASK) 0 sec_cnt s
     }
   }"

definition load_content :: "u64 \<Rightarrow> 'a vfs_data_scheme \<Rightarrow> 'a vfs_data_scheme option" where
  "load_content node s = do {
     n \<leftarrow> vnodes s node;
     m \<leftarrow> f_datas s (vn_internal n);
     load_loop node (vn_internal n) (clus_idx m) 0 0 s
   }"

text \<open>The first lines of every operation: the contents are loaded if the cache is empty.\<close>

definition load_if_empty :: "bool \<Rightarrow> u64 \<Rightarrow> u64 \<Rightarrow> 'a vfs_data_scheme \<Rightarrow> 'a vfs_data_scheme option" where
  "load_if_empty c md node s = do {
     m \<leftarrow> f_datas s md;
     if list_empty (content_cache m) \<and> c then load_content node s else Some s
   }"

section \<open>Directory entries\<close>

definition entry_clus :: "u64 \<Rightarrow> 'a vm_data_scheme \<Rightarrow> u32 option" where
  "entry_clus d s = do { hi \<leftarrow> rd16 (d + 20) s; lo \<leftarrow> rd16 (d + 26) s; Some (push_bit 16 (ucast hi) + ucast lo) }"

text \<open>The entry of a sector that starts the given cluster.\<close>

function sec_find :: "u64 \<Rightarrow> nat \<Rightarrow> u32 \<Rightarrow> 'a io_data_scheme \<Rightarrow> u64 option option" where
  "sec_find sec off target s =
     (if off < BytsPerSec s then do {
        let d = sec + of_nat off;
        clus \<leftarrow> entry_clus d s;
        a \<leftarrow> rd8 (d + 11) s;
        if a = ATTR_LONG_NAME then sec_find sec (off + 32) target s
        else if clus = target then Some (Some d)
        else sec_find sec (off + 32) target s
      }
      else Some None)"
  by pat_completeness auto
termination
  by (relation "measure (\<lambda>(sec, off, target, s). BytsPerSec s - off)") auto

declare sec_find.simps [simp del]

partial_function (option) find_entry :: "u64 option \<Rightarrow> u32 \<Rightarrow> 'a io_data_scheme \<Rightarrow> u64 option" where
  "find_entry cur target s =
     (case cur of
        None \<Rightarrow> Some 0
      | Some c \<Rightarrow> do {
          e \<leftarrow> list_nodes s c;
          r \<leftarrow> sec_find (n_ptr e) 0 target s;
          (case r of Some d \<Rightarrow> Some d | None \<Rightarrow> find_entry (n_next e) target s)
        })"

definition get_dir_entry :: "u64 \<Rightarrow> 'a vfs_data_scheme \<Rightarrow> (u64 \<times> 'a vfs_data_scheme) option" where
  "get_dir_entry node s = do {
     n \<leftarrow> vnodes s node;
     let dir_node = vn_parent n;
     p \<leftarrow> vnodes s dir_node;
     m \<leftarrow> f_datas s (vn_internal n);
     s \<leftarrow> load_if_empty True (vn_internal p) dir_node s;
     pm \<leftarrow> f_datas s (vn_internal p);
     d \<leftarrow> find_entry (head (content_cache pm)) (clus_idx m) s;
     Some (d, s)
   }"

text \<open>The short name: eight characters before the dot and three behind it, padded with spaces.  A longer part runs over the end of its array.\<close>

definition sfn_bytes :: "u8 list \<Rightarrow> u8 list option" where
  "sfn_bytes name =
     (let cs = cstr name;
          stem = takeWhile (\<lambda>c. c \<noteq> 46) cs;
          ext = drop (length stem + 1) cs
      in if 8 < length stem \<or> 3 < length ext then None
         else Some (stem @ replicate (8 - length stem) SPACE @ ext @ replicate (3 - length ext) SPACE))"

definition unused_entry :: "u8 \<Rightarrow> bool" where
  "unused_entry c \<longleftrightarrow> c = DIR_ENTRY_LAST_AND_UNUSED \<or> c = DIR_ENTRY_UNUSED \<or> c = DIR_ENTRY_UNUSED_JP"

text \<open>The new end of the directory behind the entry that is taken, in a new sector if necessary.\<close>

definition mark_last :: "u64 \<Rightarrow> u64 \<Rightarrow> nat \<Rightarrow> u32 \<Rightarrow> 'a io_data_scheme \<Rightarrow> 'a io_data_scheme option" where
  "mark_last md sec off clus s =
     (if BytsPerSec s \<le> off + 32 then do {
        (d, s) \<leftarrow> add_new_cache_sec md s;
        (_, s) \<leftarrow> extend_chain clus s;
        wr8 d DIR_ENTRY_LAST_AND_UNUSED s
      }
      else wr8 (sec + of_nat (off + 32)) DIR_ENTRY_LAST_AND_UNUSED s)"

text \<open>The fields that are filled in.\<close>

definition fill_entry :: "u64 \<Rightarrow> u64 \<Rightarrow> 'a vfs_data_scheme \<Rightarrow> 'a vfs_data_scheme option" where
  "fill_entry d node s = do {
     n \<leftarrow> vnodes s node;
     nm \<leftarrow> sfn_bytes (vn_name n);
     s \<leftarrow> store_bytes d nm s;
     s \<leftarrow> wr8 (d + 11) (if vn_type n = DIR then ATTR_ARCHIVE OR ATTR_DIRECTORY else ATTR_ARCHIVE) s;
     s \<leftarrow> wr32 (d + 28) (ucast (vn_file_size n)) s;
     m \<leftarrow> f_datas s (vn_internal n);
     s \<leftarrow> wr16 (d + 20) (ucast (drop_bit 16 (clus_idx m))) s;
     wr16 (d + 26) (ucast (clus_idx m AND 0xffff)) s
   }"

text \<open>The search for an unused entry of a sector; the result tells whether one is taken, which ends the function.\<close>

function sec_take :: "u64 \<Rightarrow> u64 \<Rightarrow> u64 \<Rightarrow> nat \<Rightarrow> u32 \<Rightarrow> 'a vfs_data_scheme \<Rightarrow> (bool \<times> 'a vfs_data_scheme) option" where
  "sec_take node md sec off clus s =
     (if off < BytsPerSec s then do {
        c \<leftarrow> rd8 (sec + of_nat off) s;
        if unused_entry c then do {
          s \<leftarrow> (if c = DIR_ENTRY_LAST_AND_UNUSED then mark_last md sec off clus s else Some s);
          s \<leftarrow> fill_entry (sec + of_nat off) node s;
          Some (True, s)
        }
        else sec_take node md sec (off + 32) clus s
      }
      else Some (False, s))"
  by pat_completeness auto
termination
  by (relation "measure (\<lambda>(node, md, sec, off, clus, s). BytsPerSec s - off)") auto

declare sec_take.simps [simp del]

partial_function (option) reg_loop ::
  "u64 \<Rightarrow> u64 \<Rightarrow> u64 option \<Rightarrow> nat \<Rightarrow> u32 \<Rightarrow> 'a vfs_data_scheme \<Rightarrow> (bool \<times> 'a vfs_data_scheme) option" where
  "reg_loop node md cur sec_cnt clus s =
     (case cur of
        None \<Rightarrow> Some (False, s)
      | Some c \<Rightarrow> do {
          e \<leftarrow> list_nodes s c;
          (taken, s) \<leftarrow> sec_take node md (n_ptr e) 0 clus s;
          if taken then Some (True, s)
          else do {
            w \<leftarrow> whole_clusters (sec_cnt + 1) s;
            clus \<leftarrow> (if w then do { v \<leftarrow> get_fat_entry clus s; Some (v AND FAT_VAL_MASK) } else Some clus);
            e \<leftarrow> list_nodes s c;
            reg_loop node md (n_next e) (sec_cnt + 1) clus s
          }
        })"

definition fat32_reg_to_dir_entry :: "u64 \<Rightarrow> 'a vfs_data_scheme \<Rightarrow> 'a vfs_data_scheme option" where
  "fat32_reg_to_dir_entry node s = do {
     n \<leftarrow> vnodes s node;
     p \<leftarrow> vnodes s (vn_parent n);
     let md = vn_internal p;
     m \<leftarrow> f_datas s md;
     s \<leftarrow> load_if_empty True md (vn_parent n) s;
     pm \<leftarrow> f_datas s md;
     (taken, s) \<leftarrow> reg_loop node md (head (content_cache pm)) 0 (clus_idx m) s;
     if taken then Some s else upd_f_data md (\<lambda>m. m\<lparr>dirty := True\<rparr>) s
   }"

section \<open>Creation\<close>

text \<open>The part that \<open>fat32_create\<close> and \<open>fat32_mkdir\<close> share: a vnode with a cluster of its own.  The result is \<open>None\<close> for the return with \<open>-1\<close>.\<close>

definition fat32_new ::
  "u64 \<Rightarrow> u8 list \<Rightarrow> file_type \<Rightarrow> 'a vfs_data_scheme \<Rightarrow> (u64 \<times> u64 option \<times> 'a vfs_data_scheme) option" where
  "fat32_new dir_node component_name type s = do {
     (target, s) \<leftarrow> malloc_vnode s;
     (r, s) \<leftarrow> init_vnode dir_node target type component_name s;
     if r \<noteq> 0 then Some (target, None, s)
     else do {
       free_clus \<leftarrow> get_free_clus_idx s;
       (md, s) \<leftarrow> malloc 24 s;
       s \<leftarrow> upd_vnode target (\<lambda>n. n\<lparr>vn_internal := md\<rparr>) s;
       if md = 0 then Some (target, None, s)
       else do {
         let s = s\<lparr>f_datas := (f_datas s)(md \<mapsto> \<lparr>dirty = True, clus_idx = free_clus, content_cache = zero_list\<rparr>)\<rparr>;
         s \<leftarrow> set_fat_entry free_clus (end_of_file (fat32_data s)) s;
         Some (target, Some md, s)
       }
     }
   }"

definition fat32_create ::
  "u64 \<Rightarrow> u8 list \<Rightarrow> file_type \<Rightarrow> 'a vfs_data_scheme \<Rightarrow> (int \<times> u64 \<times> 'a vfs_data_scheme) option" where
  "fat32_create dir_node component_name type s = do {
     (target, md, s) \<leftarrow> fat32_new dir_node component_name type s;
     (case md of
        None \<Rightarrow> Some (- 1, target, s)
      | Some md \<Rightarrow> do { s \<leftarrow> fat32_reg_to_dir_entry target s; Some (0, target, s) })
   }"

definition fat32_mkdir ::
  "u64 \<Rightarrow> u8 list \<Rightarrow> 'a vfs_data_scheme \<Rightarrow> (int \<times> u64 \<times> 'a vfs_data_scheme) option" where
  "fat32_mkdir dir_node component_name s = do {
     (target, md, s) \<leftarrow> fat32_new dir_node component_name DIR s;
     (case md of
        None \<Rightarrow> Some (- 1, target, s)
      | Some md \<Rightarrow> do {
          (d, s) \<leftarrow> add_new_cache_sec md s;
          s \<leftarrow> store_bytes d [46, 0] s;
          s \<leftarrow> wr8 (d + 11) (ATTR_ARCHIVE OR ATTR_DIRECTORY) s;
          s \<leftarrow> store_bytes (d + 32) [46, 46, 0] s;
          s \<leftarrow> wr8 (d + 43) (ATTR_ARCHIVE OR ATTR_DIRECTORY) s;
          s \<leftarrow> wr8 (d + 64) DIR_ENTRY_LAST_AND_UNUSED s;
          s \<leftarrow> fat32_reg_to_dir_entry target s;
          Some (0, target, s)
        })
   }"

section \<open>Reading and writing\<close>

text \<open>\<open>n\<close> steps along the list; a step from the null pointer is undefined.\<close>

fun skip_nodes :: "nat \<Rightarrow> u64 option \<Rightarrow> 'a list_data_scheme \<Rightarrow> u64 option option" where
  "skip_nodes 0 cur s = Some cur"
| "skip_nodes (Suc n) cur s = do { c \<leftarrow> cur; e \<leftarrow> list_nodes s c; skip_nodes n (n_next e) s }"

text \<open>The first loop of \<open>fat32_write\<close>, which adds a sector if the list ends at the position; without memory, the null pointer remains.\<close>

partial_function (option) write_start :: "u64 \<Rightarrow> nat \<Rightarrow> 'a io_data_scheme \<Rightarrow> (u64 option \<times> 'a io_data_scheme) option" where
  "write_start md which_sec s = do {
     m \<leftarrow> f_datas s md;
     cur \<leftarrow> skip_nodes which_sec (head (content_cache m)) s;
     (case cur of
        Some c \<Rightarrow> Some (Some c, s)
      | None \<Rightarrow> do {
          (p, s) \<leftarrow> add_new_cache_sec md s;
          if p = 0 then Some (None, s) else write_start md which_sec s
        })
   }"

text \<open>The offset of a position in its sector.\<close>

definition sec_off :: "u64 \<Rightarrow> 'a io_data_scheme \<Rightarrow> u64 option" where
  "sec_off pos s = (if BytsPerSec s = 0 then None else Some (pos mod of_nat (BytsPerSec s)))"

partial_function (option) write_loop_fat ::
  "u64 \<Rightarrow> u64 \<Rightarrow> u64 \<Rightarrow> u64 \<Rightarrow> u64 \<Rightarrow> u64 \<Rightarrow> u64 \<Rightarrow> u64 option \<Rightarrow> nat \<Rightarrow> u32 \<Rightarrow> 'a vfs_data_scheme \<Rightarrow> (u64 \<times> 'a vfs_data_scheme) option" where
  "write_loop_fat file node md buf len write_sz pos cur which_sec clus s =
     (if write_sz < len then do {
        c \<leftarrow> cur;
        e \<leftarrow> list_nodes s c;
        off \<leftarrow> sec_off pos s;
        let sz = (if len - write_sz < of_nat BLK_SZ - off then len - write_sz else of_nat BLK_SZ - off);
        s \<leftarrow> memcpy_ram (n_ptr e + off) (buf + write_sz) (unat (ucast sz :: u32)) s;
        let pos = pos + sz;
        let write_sz = write_sz + sz;
        s \<leftarrow> upd_file file (\<lambda>f. f\<lparr>f_pos := pos\<rparr>) s;
        n \<leftarrow> vnodes s node;
        s \<leftarrow> (if pos > vn_file_size n then upd_vnode node (\<lambda>n. n\<lparr>vn_file_size := pos\<rparr>) s else Some s);
        m \<leftarrow> f_datas s md;
        s \<leftarrow> (if write_sz < len \<and> tail (content_cache m) = Some c then do { (_, s) \<leftarrow> add_new_cache_sec md s; Some s } else Some s);
        w \<leftarrow> whole_clusters (which_sec + 1) s;
        (clus, s) \<leftarrow> (if w then do {
             v \<leftarrow> get_fat_entry clus s;
             let tmp = v AND FAT_VAL_MASK;
             if tmp = end_of_file (fat32_data s) then extend_chain clus s else Some (tmp, s)
           } else Some (clus, s));
        e \<leftarrow> list_nodes s c;
        write_loop_fat file node md buf len write_sz pos (n_next e) (which_sec + 1) clus s
      }
      else Some (write_sz, s))"

definition fat32_write :: "u64 \<Rightarrow> u64 \<Rightarrow> u64 \<Rightarrow> 'a vfs_data_scheme \<Rightarrow> (u64 \<times> 'a vfs_data_scheme) option" where
  "fat32_write file buf len s = do {
     f \<leftarrow> files s file;
     let node = f_vnode f;
     if BytsPerSec s = 0 then None
     else do {
       let which_sec = unat (ucast (f_pos f div of_nat (BytsPerSec s)) :: u32);
       (d, s) \<leftarrow> get_dir_entry node s;
       n \<leftarrow> vnodes s node;
       let md = vn_internal n;
       m \<leftarrow> f_datas s md;
       s \<leftarrow> load_if_empty (0 < vn_file_size n) md node s;
       (cur, s) \<leftarrow> write_start md which_sec s;
       (write_sz, s) \<leftarrow> write_loop_fat file node md buf len 0 (f_pos f) cur which_sec (clus_idx m) s;
       s \<leftarrow> upd_f_data md (\<lambda>m. m\<lparr>dirty := True\<rparr>) s;
       n \<leftarrow> vnodes s node;
       s \<leftarrow> wr32 (d + 28) (ucast (vn_file_size n)) s;
       a \<leftarrow> rd8 (d + 11) s;
       s \<leftarrow> wr8 (d + 11) (a OR ATTR_ARCHIVE) s;
       p \<leftarrow> vnodes s (vn_parent n);
       s \<leftarrow> upd_f_data (vn_internal p) (\<lambda>m. m\<lparr>dirty := True\<rparr>) s;
       Some (write_sz, s)
     }
   }"

partial_function (option) read_loop_fat ::
  "u64 \<Rightarrow> u64 \<Rightarrow> u64 \<Rightarrow> u64 \<Rightarrow> u64 \<Rightarrow> u64 option \<Rightarrow> 'a vfs_data_scheme \<Rightarrow> (u64 \<times> 'a vfs_data_scheme) option" where
  "read_loop_fat file node buf len read_sz cur s =
     (if read_sz < len then do {
        f \<leftarrow> files s file;
        n \<leftarrow> vnodes s node;
        off \<leftarrow> sec_off (f_pos f) s;
        let sz = (if len - read_sz < of_nat BLK_SZ - off then len - read_sz else of_nat BLK_SZ - off);
        let sz = (if sz < vn_file_size n - f_pos f then sz else vn_file_size n - f_pos f);
        c \<leftarrow> cur;
        e \<leftarrow> list_nodes s c;
        s \<leftarrow> memcpy_ram (buf + read_sz) (n_ptr e + off) (unat (ucast sz :: u32)) s;
        s \<leftarrow> upd_file file (\<lambda>f. f\<lparr>f_pos := f_pos f + sz\<rparr>) s;
        f \<leftarrow> files s file;
        if vn_file_size n \<le> f_pos f then Some (read_sz + sz, s)
        else do {
          e \<leftarrow> list_nodes s c;
          read_loop_fat file node buf len (read_sz + sz) (n_next e) s
        }
      }
      else Some (read_sz, s))"

definition fat32_read :: "u64 \<Rightarrow> u64 \<Rightarrow> u64 \<Rightarrow> 'a vfs_data_scheme \<Rightarrow> (u64 \<times> 'a vfs_data_scheme) option" where
  "fat32_read file buf len s = do {
     f \<leftarrow> files s file;
     let node = f_vnode f;
     if BytsPerSec s = 0 then None
     else do {
       let which_sec = unat (ucast (f_pos f div of_nat (BytsPerSec s)) :: u32);
       n \<leftarrow> vnodes s node;
       let md = vn_internal n;
       s \<leftarrow> load_if_empty (0 < vn_file_size n) md node s;
       m \<leftarrow> f_datas s md;
       cur \<leftarrow> skip_nodes which_sec (head (content_cache m)) s;
       read_loop_fat file node buf len 0 cur s
     }
   }"

end
