(* ===== verification/Fat32_Volume.thy ===== *)
theory Fat32_Volume
  imports Fat32
begin

text \<open>
  The FAT32 volume, \<open>fat32.c\<close>: reading the tree of directories when it is mounted, the parameters of the volume, and writing the caches back.
  An entry of a directory is the list of its 32 bytes in the local buffer of a sector.
\<close>

section \<open>Names\<close>

definition ChkSum :: "u8 list \<Rightarrow> u8" where
  "ChkSum pFcbName = fold (\<lambda>c Sum. (if Sum AND 1 \<noteq> 0 then 0x80 else 0) + drop_bit 1 Sum + c) (take 11 pFcbName) 0"

text \<open>The characters of a long name are collected from the end of the array \<open>lfn_name\<close>; \<open>lfn_pos\<close> is the next position.\<close>

record lfn_t =
  lfn_name :: "u8 list"
  lfn_pos :: int
  lfn_checksum :: "u8 option"

definition no_lfn :: lfn_t where
  "no_lfn = \<lparr>lfn_name = replicate LFN_NAME_LEN 0, lfn_pos = int LFN_NAME_LEN - 2, lfn_checksum = None\<rparr>"

text \<open>One of the three loops, which run backwards over the characters.\<close>

fun lfn_chars :: "u8 list \<Rightarrow> lfn_t \<Rightarrow> lfn_t option" where
  "lfn_chars [] l = Some l"
| "lfn_chars (c # cs) l =
     (if c = 0 \<or> c = 0xff then lfn_chars cs l
      else if lfn_pos l < 0 then None
      else do {
        nm \<leftarrow> set_at (lfn_name l) (nat (lfn_pos l)) c;
        lfn_chars cs (l\<lparr>lfn_name := nm, lfn_pos := lfn_pos l - 1\<rparr>)
      })"

definition lfn_entry :: "u8 list \<Rightarrow> lfn_t \<Rightarrow> lfn_t option" where
  "lfn_entry e l = do {
     l \<leftarrow> lfn_chars (rev (take 4 (drop 28 e))) l;
     l \<leftarrow> lfn_chars (rev (take 12 (drop 14 e))) l;
     l \<leftarrow> lfn_chars (rev (take 10 (drop 1 e))) l;
     Some (l\<lparr>lfn_checksum := Some (e ! 13)\<rparr>)
   }"

text \<open>The name of a short entry.  The loop over the extension runs for up to six characters.\<close>

definition sfn_name :: "u8 list \<Rightarrow> u8 list" where
  "sfn_name e =
     (let stem = takeWhile (\<lambda>c. c \<noteq> SPACE) (take 8 e);
          dot = (if e ! 8 \<noteq> SPACE then [46] else []);
          ext = takeWhile (\<lambda>c. c \<noteq> SPACE) (take 6 (drop 8 e))
      in stem @ dot @ ext @ [0])"

text \<open>
  The name of an entry: the long one before it, if there is one, else the short one.  The message tells that the checksum is wrong; reading a checksum that was never set is undefined.
  The array \<open>name\<close> is written up to the terminator, so what it holds before does not matter.
\<close>

definition entry_name :: "u8 list \<Rightarrow> lfn_t \<Rightarrow> (u8 list \<times> string option \<times> lfn_t) option" where
  "entry_name e l =
     (if lfn_pos l < int LFN_NAME_LEN - 2 then do {
        c \<leftarrow> lfn_checksum l;
        let start = nat (lfn_pos l + 1);
        nm \<leftarrow> strncpy (replicate LFN_NAME_LEN 0) (drop start (lfn_name l)) (LFN_NAME_LEN - start);
        Some (nm, if ChkSum e \<noteq> c then Some ''LFN entry corrupted'' else None,
              l\<lparr>lfn_name := replicate LFN_NAME_LEN 0, lfn_pos := int LFN_NAME_LEN - 2\<rparr>)
      }
      else Some (sfn_name e, None, l))"

section \<open>The tree of directories\<close>

definition le16_at :: "u8 list \<Rightarrow> nat \<Rightarrow> u16" where
  "le16_at bs i = ucast (bs ! i) OR push_bit 8 (ucast (bs ! (i + 1)))"

definition le32_at :: "u8 list \<Rightarrow> nat \<Rightarrow> u32" where
  "le32_at bs i = le32 (bs ! i) (bs ! (i + 1)) (bs ! (i + 2)) (bs ! (i + 3))"

text \<open>What an entry asks for.\<close>

datatype entry_kind = Last_Entry | Skipped | Long_Name | Short_Name

definition classify :: "u8 list \<Rightarrow> entry_kind" where
  "classify e =
     (if e ! 0 = DIR_ENTRY_LAST_AND_UNUSED then Last_Entry
      else if e ! 0 = DIR_ENTRY_UNUSED \<or> e ! 0 = DIR_ENTRY_UNUSED_JP then Skipped
      else if e ! 11 AND NOT ATTR_ARCHIVE = ATTR_VOLUME_ID then Skipped
      else if e ! 11 AND NOT ATTR_ARCHIVE = ATTR_LONG_NAME then Long_Name
      else Short_Name)"

text \<open>\<open>readblock\<close> with the local array of \<open>BytsPerSec\<close> bytes, which it overruns if that is less than the 512 bytes of a block.\<close>

definition read_sector :: "u32 \<Rightarrow> nat \<Rightarrow> 'a vfs_data_scheme \<Rightarrow> (u8 list \<times> 'a vfs_data_scheme) option" where
  "read_sector clus sec s =
     (if BytsPerSec s < BLK_SZ then None
      else readblock_local (FirstSectorofCluster clus s + of_nat sec + start_blk_idx (fat32_data s)) s)"

text \<open>
  The whole function, flattened: \<open>pos\<close> is the buffer with the offset of the next entry, or \<open>None\<close> before a sector is read.  The loop over the clusters has no other end than the last entry of a
  directory, and the call for a subdirectory is recursive.
\<close>

partial_function (option) parse_sd ::
  "u64 \<Rightarrow> u32 \<Rightarrow> nat \<Rightarrow> (u8 list \<times> nat) option \<Rightarrow> lfn_t \<Rightarrow> 'a vfs_data_scheme \<Rightarrow> 'a vfs_data_scheme option" where
  "parse_sd parent clus sec pos l s =
     (case pos of
        None \<Rightarrow>
          (if sec < SecPerClus s then do {
             (bs, s) \<leftarrow> read_sector clus sec s;
             parse_sd parent clus sec (Some (bs, 0)) l s
           }
           else do {
             v \<leftarrow> get_fat_entry clus s;
             parse_sd parent (v AND FAT_VAL_MASK) 0 None l s
           })
      | Some (bs, off) \<Rightarrow>
          (if BytsPerSec s \<le> off then parse_sd parent clus (sec + 1) None l s
           else if length bs < off + 32 then None
           else (let e = take 32 (drop off bs) in
             case classify e of
               Last_Entry \<Rightarrow> Some s
             | Skipped \<Rightarrow> parse_sd parent clus sec (Some (bs, off + 32)) l s
             | Long_Name \<Rightarrow> do {
                 l \<leftarrow> lfn_entry e l;
                 parse_sd parent clus sec (Some (bs, off + 32)) l s
               }
             | Short_Name \<Rightarrow> do {
                 let next_clus = push_bit 16 (ucast (le16_at e 20)) + ucast (le16_at e 26);
                 (name, msg, l) \<leftarrow> entry_name e l;
                 let s = (case msg of None \<Rightarrow> s | Some m \<Rightarrow> print_msg m s);
                 (node, s) \<leftarrow> malloc_vnode s;
                 s \<leftarrow> (if e ! 11 AND NOT ATTR_ARCHIVE = ATTR_DIRECTORY then do {
                      (_, s) \<leftarrow> init_vnode parent node DIR name s;
                      parse_sd node next_clus 0 None no_lfn s
                    }
                    else do {
                      (_, s) \<leftarrow> init_vnode parent node FILE name s;
                      upd_vnode node (\<lambda>n. n\<lparr>vn_file_size := ucast (le32_at e 28)\<rparr>) s
                    });
                 (md, s) \<leftarrow> malloc 24 s;
                 s \<leftarrow> upd_vnode node (\<lambda>n. n\<lparr>vn_internal := md\<rparr>) s;
                 if md = 0 then Some s
                 else parse_sd parent clus sec (Some (bs, off + 32)) l
                        (s\<lparr>f_datas := (f_datas s)(md \<mapsto> \<lparr>dirty = False, clus_idx = next_clus, content_cache = zero_list\<rparr>)\<rparr>)
               })))"

definition fat32_parse_sd_recursive :: "u64 \<Rightarrow> u32 \<Rightarrow> 'a vfs_data_scheme \<Rightarrow> 'a vfs_data_scheme option" where
  "fat32_parse_sd_recursive parent clus s = parse_sd parent clus 0 None no_lfn s"

section \<open>Mounting\<close>

definition fat32_vops :: vnode_operations where
  "fat32_vops = \<lparr>vo_lookup = Some F_tmpfs_lookup, vo_create = Some F_fat32_create, vo_mkdir = Some F_fat32_mkdir\<rparr>"

definition fat32_fops :: file_operations where
  "fat32_fops = \<lparr>fo_write = Some F_fat32_write, fo_read = Some F_fat32_read, fo_open = Some F_tmpfs_open,
     fo_close = Some F_tmpfs_close, fo_lseek64 = Some F_tmpfs_lseek64\<rparr>"

text \<open>The part up to the contents of the root is the one of the other file systems.\<close>

definition fat32_setup_mount ::
  "u64 \<Rightarrow> u64 \<Rightarrow> u8 list \<Rightarrow> 'a vfs_data_scheme \<Rightarrow> (int \<times> 'a vfs_data_scheme) option" where
  "fat32_setup_mount mount dir_node component s = do {
     (r, s) \<leftarrow> setup_root mount dir_node component fat32_vops fat32_fops s;
     if r \<noteq> 0 then Some (- 1, s)
     else do {
       m \<leftarrow> mounts s mount;
       let root = mt_root m;
       (md, s) \<leftarrow> malloc 24 s;
       s \<leftarrow> upd_vnode root (\<lambda>n. n\<lparr>vn_internal := md\<rparr>) s;
       if md = 0 then do {
         n \<leftarrow> vnodes s root;
         s \<leftarrow> free (vn_vops n) s;
         s \<leftarrow> free (vn_fops n) s;
         Some (- 1, s)
       }
       else do {
         let v = fat32_data s;
         let s = s\<lparr>f_datas := (f_datas s)(md \<mapsto> \<lparr>dirty = False, clus_idx = BPB_RootClus v, content_cache = zero_list\<rparr>),
                   fat32_data := v\<lparr>fat_mount_point := root\<rparr>\<rparr>;
         s \<leftarrow> fat32_parse_sd_recursive root (BPB_RootClus v) s;
         Some (0, s)
       }
     }
   }"

section \<open>The volume\<close>

definition SIGNATURE :: "u8 list" where "SIGNATURE = [0x55, 0xaa, 0]"

text \<open>The first entry of the partition table that is marked as bootable: \<open>Inl\<close> is the message that its type is wrong.\<close>

definition boot_partition :: "u8 list \<Rightarrow> string + u32 option" where
  "boot_partition bs =
     (case find (\<lambda>i. bs ! i = 0x80) [0x1be, 0x1ce, 0x1de, 0x1ee] of
        None \<Rightarrow> Inr None
      | Some i \<Rightarrow> if bs ! (i + 4) \<noteq> 0xb then Inl ''Not MBR partitioned'' else Inr (Some (le32_at bs (i + 8))))"

definition parse_fat32_partition :: "'a io_data_scheme \<Rightarrow> (int \<times> 'a io_data_scheme) option" where
  "parse_fat32_partition s = do {
     (bs, s) \<leftarrow> readblock_local 0 s;
     r \<leftarrow> strncmp (drop (BLK_SZ - 2) bs) SIGNATURE 2;
     if r \<noteq> 0 then Some (- 1, print_msg ''Invalid MBR'' s)
     else (case boot_partition bs of
         Inl m \<Rightarrow> Some (- 1, print_msg m s)
       | Inr None \<Rightarrow> Some (0, s)
       | Inr (Some lba) \<Rightarrow> Some (0, s\<lparr>fat32_data := (fat32_data s)\<lparr>start_blk_idx := lba\<rparr>\<rparr>))
   }"

fun read_fat :: "nat list \<Rightarrow> 'a io_data_scheme \<Rightarrow> 'a io_data_scheme option" where
  "read_fat [] s = Some s"
| "read_fat (i # is) s = do {
     let v = fat32_data s;
     s \<leftarrow> readblock_at (start_blk_idx v + ucast (BPB_RsvdSecCnt v) + of_nat i) (fat_cache v + of_nat (BytsPerSec s * i)) s;
     read_fat is s
   }"

text \<open>The signature is compared in the buffer of one block, at a place that the size of a sector tells.\<close>

definition parse_fat32_metadata :: "'a io_data_scheme \<Rightarrow> (int \<times> 'a io_data_scheme) option" where
  "parse_fat32_metadata s = do {
     (bs, s) \<leftarrow> readblock_local (start_blk_idx (fat32_data s)) s;
     let s = s\<lparr>fat32_data := (fat32_data s)\<lparr>BPB_BytsPerSec := le16_at bs 11, BPB_SecPerClus := bs ! 13, BPB_RsvdSecCnt := le16_at bs 14,
           BPB_NumFATs := bs ! 16, BPB_FATSz32 := le32_at bs 36, BPB_RootClus := le32_at bs 44\<rparr>\<rparr>;
     if BytsPerSec s < 2 then None
     else do {
       r \<leftarrow> strncmp (drop (BytsPerSec s - 2) bs) SIGNATURE 2;
       if r \<noteq> 0 then Some (- 1, print_msg ''Invalid FAT32 volume'' s)
       else do {
         (bs, s) \<leftarrow> readblock_local (start_blk_idx (fat32_data s) + ucast (BPB_RsvdSecCnt (fat32_data s))) s;
         let s = s\<lparr>fat32_data := (fat32_data s)\<lparr>end_of_file := le32_at bs 4\<rparr>\<rparr>;
         (p, s) \<leftarrow> malloc_bytes (ucast (BPB_FATSz32 (fat32_data s) * ucast (BPB_BytsPerSec (fat32_data s)))) s;
         let s = s\<lparr>fat32_data := (fat32_data s)\<lparr>fat_cache := p\<rparr>\<rparr>;
         if p = 0 then Some (- 1, s)
         else do {
           s \<leftarrow> read_fat [0..<unat (BPB_FATSz32 (fat32_data s))] s;
           Some (0, s)
         }
       }
     }
   }"

section \<open>Writing back\<close>

text \<open>The sectors of one file: the loop ends with the size of the file, which is 0 for a directory.\<close>

partial_function (option) sync_sectors :: "u64 \<Rightarrow> u64 \<Rightarrow> u32 \<Rightarrow> nat \<Rightarrow> 'a vfs_data_scheme \<Rightarrow> 'a vfs_data_scheme option" where
  "sync_sectors node md clus which_sec s = do {
     m \<leftarrow> f_datas s md;
     if list_empty (content_cache m) then Some s
     else do {
       (buf, l, s) \<leftarrow> list_pop (content_cache m) s;
       s \<leftarrow> upd_f_data md (\<lambda>m. m\<lparr>content_cache := l\<rparr>) s;
       s \<leftarrow> writeblock_at (start_blk_idx (fat32_data s) + FirstSectorofCluster clus s + of_nat which_sec) buf s;
       w \<leftarrow> whole_clusters (which_sec + 1) s;
       clus \<leftarrow> (if w then get_fat_entry clus s else Some clus);
       n \<leftarrow> vnodes s node;
       if vn_file_size n \<le> of_nat ((which_sec + 1) * BytsPerSec s) then Some s
       else sync_sectors node md clus (which_sec + 1) s
     }
   }"

text \<open>\<open>Inl\<close> is the function itself and \<open>Inr\<close> its loop over the children.\<close>

partial_function (option) sync_tree :: "u64 + u64 option \<Rightarrow> 'a vfs_data_scheme \<Rightarrow> 'a vfs_data_scheme option" where
  "sync_tree t s =
     (case t of
        Inl node \<Rightarrow> do {
          n \<leftarrow> vnodes s node;
          let md = vn_internal n;
          m \<leftarrow> f_datas s md;
          s \<leftarrow> (if dirty m then do {
               s \<leftarrow> sync_sectors node md (clus_idx m) 0 s;
               upd_f_data md (\<lambda>m. m\<lparr>dirty := False\<rparr>) s
             } else Some s);
          sync_tree (Inr (head (vn_children n))) s
        }
      | Inr None \<Rightarrow> Some s
      | Inr (Some c) \<Rightarrow> do {
          e \<leftarrow> list_nodes s c;
          s \<leftarrow> sync_tree (Inl (n_ptr e)) s;
          e \<leftarrow> list_nodes s c;
          sync_tree (Inr (n_next e)) s
        })"

definition sync_file_recursive :: "u64 \<Rightarrow> 'a vfs_data_scheme \<Rightarrow> 'a vfs_data_scheme option" where
  "sync_file_recursive node s = sync_tree (Inl node) s"

fun sync_fats :: "(nat \<times> nat) list \<Rightarrow> 'a io_data_scheme \<Rightarrow> 'a io_data_scheme option" where
  "sync_fats [] s = Some s"
| "sync_fats ((i, j) # is) s = do {
     let v = fat32_data s;
     s \<leftarrow> writeblock_at (start_blk_idx v + ucast (BPB_RsvdSecCnt v) + BPB_FATSz32 v * of_nat i + of_nat j) (fat_cache v + of_nat (BytsPerSec s * j)) s;
     sync_fats is s
   }"

definition sync :: "'a vfs_data_scheme \<Rightarrow> 'a vfs_data_scheme option" where
  "sync s = do {
     let v = fat32_data s;
     s \<leftarrow> sync_fats (List.product [0..<unat (BPB_NumFATs v)] [0..<unat (BPB_FATSz32 v)]) s;
     sync_file_recursive (fat_mount_point (fat32_data s)) s
   }"

end
