(* ===== verification/Vfs.thy ===== *)
theory Vfs
  imports Fat32_Volume
begin

text \<open>
  The virtual file system, \<open>vfs.c\<close>: resolution of paths, mounting, and the calls that go through the tables of operations.
  A call through a null pointer to a function is undefined.
\<close>

section \<open>Calls through the tables\<close>

definition call_lookup :: "lookup_fn \<Rightarrow> u64 \<Rightarrow> u8 list \<Rightarrow> 'a vfs_data_scheme \<Rightarrow> (u64 \<times> 'a vfs_data_scheme) option" where
  "call_lookup fn = (case fn of F_tmpfs_lookup \<Rightarrow> tmpfs_lookup)"

definition call_create ::
  "create_fn \<Rightarrow> u64 \<Rightarrow> u8 list \<Rightarrow> file_type \<Rightarrow> 'a vfs_data_scheme \<Rightarrow> (int \<times> u64 \<times> 'a vfs_data_scheme) option" where
  "call_create fn = (case fn of F_tmpfs_create \<Rightarrow> tmpfs_create | F_fat32_create \<Rightarrow> fat32_create)"

definition call_mkdir :: "mkdir_fn \<Rightarrow> u64 \<Rightarrow> u8 list \<Rightarrow> 'a vfs_data_scheme \<Rightarrow> (int \<times> u64 \<times> 'a vfs_data_scheme) option" where
  "call_mkdir fn = (case fn of F_tmpfs_mkdir \<Rightarrow> tmpfs_mkdir | F_fat32_mkdir \<Rightarrow> fat32_mkdir)"

definition call_write :: "write_fn \<Rightarrow> u64 \<Rightarrow> u64 \<Rightarrow> u64 \<Rightarrow> 'a vfs_data_scheme \<Rightarrow> (u64 \<times> 'a vfs_data_scheme) option" where
  "call_write fn = (case fn of F_tmpfs_write \<Rightarrow> tmpfs_write | F_fat32_write \<Rightarrow> fat32_write)"

definition call_read :: "read_fn \<Rightarrow> u64 \<Rightarrow> u64 \<Rightarrow> u64 \<Rightarrow> 'a vfs_data_scheme \<Rightarrow> (u64 \<times> 'a vfs_data_scheme) option" where
  "call_read fn = (case fn of F_tmpfs_read \<Rightarrow> tmpfs_read | F_fat32_read \<Rightarrow> fat32_read)"

definition call_open ::
  "open_fn \<Rightarrow> u64 \<Rightarrow> u32 \<Rightarrow> u64 option \<Rightarrow> 'a vfs_data_scheme \<Rightarrow> (int \<times> u64 option \<times> 'a vfs_data_scheme) option" where
  "call_open fn = (case fn of F_tmpfs_open \<Rightarrow> tmpfs_open)"

definition call_close :: "close_fn \<Rightarrow> u64 \<Rightarrow> 'a vfs_data_scheme \<Rightarrow> (int \<times> 'a vfs_data_scheme) option" where
  "call_close fn = (case fn of F_tmpfs_close \<Rightarrow> tmpfs_close)"

definition call_lseek64 :: "lseek64_fn \<Rightarrow> u64 \<Rightarrow> u64 \<Rightarrow> int \<Rightarrow> 'a vfs_data_scheme \<Rightarrow> (int \<times> 'a vfs_data_scheme) option" where
  "call_lseek64 fn = (case fn of F_tmpfs_lseek64 \<Rightarrow> tmpfs_lseek64)"

text \<open>\<open>mnt->root->v_ops\<close> and \<open>file->f_ops\<close>.\<close>

definition mount_vops :: "u64 \<Rightarrow> 'a vfs_data_scheme \<Rightarrow> vnode_operations option" where
  "mount_vops mnt s = do { m \<leftarrow> mounts s mnt; r \<leftarrow> vnodes s (mt_root m); vops s (vn_vops r) }"

definition file_fops :: "u64 \<Rightarrow> 'a vfs_data_scheme \<Rightarrow> file_operations option" where
  "file_fops file s = do { f \<leftarrow> files s file; fops s (f_fops f) }"

section \<open>Paths\<close>

definition slash :: "u8 list" where "slash = literal ''/''"

text \<open>
  The loop of \<open>find_parent_vnode\<close>.  Components are positions in the string of the tokenizer.  \<open>Inl\<close> is the return with \<open>-1\<close> for a directory
  that does not exist.
\<close>

partial_function (option) path_loop ::
  "bool \<Rightarrow> nat \<Rightarrow> u64 \<Rightarrow> u64 \<Rightarrow> u64 \<Rightarrow> strtok_ctx \<Rightarrow> 'a vfs_data_scheme \<Rightarrow>
     ((u8 list + u64 \<times> u64 \<times> u8 list) \<times> 'a vfs_data_scheme) option" where
  "path_loop skip cmp cur parent mnt ctx s = do {
     (go, cmp, ctx) \<leftarrow>
       (if skip then Some (True, cmp, ctx)
        else do {
          (tmp, ctx) \<leftarrow> strtok_r None slash ctx;
          (case tmp of
             None \<Rightarrow> Some (False, cmp, ctx)
           | Some i \<Rightarrow> do {
               n \<leftarrow> strlen (drop i (strtok_str ctx));
               Some (0 < n, if 0 < n then i else cmp, ctx)
             })
        });
     if \<not> go then Some (Inr (cur, parent, drop cmp (strtok_str ctx)), s)
     else do {
       let parent = cur;
       vo \<leftarrow> mount_vops mnt s;
       fn \<leftarrow> vo_lookup vo;
       (cur, s) \<leftarrow> call_lookup fn parent (drop cmp (strtok_str ctx)) s;
       if cur = 0 then do {
         (tmp, ctx) \<leftarrow> strtok_r None slash ctx;
         (case tmp of
            Some _ \<Rightarrow> Some (Inl (drop cmp (strtok_str ctx)), s)
          | None \<Rightarrow> Some (Inr (cur, parent, drop cmp (strtok_str ctx)), s))
       }
       else do {
         n \<leftarrow> vnodes s cur;
         path_loop False cmp cur parent (vn_mount n) ctx s
       }
     }
   }"

text \<open>
  The first call of \<open>strtok_r\<close>, which allocates the context.  Without memory it returns the null pointer, which the
  callers pass on to \<open>strcmp\<close>.
\<close>

definition strtok_start ::
  "u8 list \<Rightarrow> u8 list \<Rightarrow> 'a vfs_data_scheme \<Rightarrow> (u64 \<times> nat \<times> strtok_ctx \<times> 'a vfs_data_scheme) option" where
  "strtok_start str delim s = do {
     (p, s) \<leftarrow> malloc 264 s;
     if p = 0 then None
     else do {
       (tok, ctx) \<leftarrow> strtok_r (Some str) delim \<lparr>strtok_str = bytes_at p STRLEN s, strtok_idx = 0, strtok_len = 0\<rparr>;
       i \<leftarrow> tok;
       Some (p, i, ctx, s)
     }
   }"

text \<open>The vnode that the first component selects, and whether this component is still to be looked up.\<close>

definition path_start :: "u8 list \<Rightarrow> 'a vfs_data_scheme \<Rightarrow> (u64 \<times> bool) option" where
  "path_start cmp s = do {
     r \<leftarrow> strcmp (literal '''') cmp;
     if r = 0 then Some (rootfs_root s, False)
     else do {
       b \<leftarrow> pcbs s (get_current s);
       r \<leftarrow> strcmp (literal ''..'') cmp;
       if r = 0 then do { d \<leftarrow> vnodes s (p_cur_dir b); Some (vn_parent d, False) }
       else do {
         r \<leftarrow> strcmp (literal ''.'') cmp;
         Some (p_cur_dir b, r \<noteq> 0)
       }
     }
   }"

text \<open>The result is \<open>None\<close> for \<open>-1\<close>, or the vnode, its parent and the last component, copied into the caller's buffer.\<close>

definition find_parent_vnode ::
  "u8 list \<Rightarrow> 'a vfs_data_scheme \<Rightarrow> ((u64 \<times> u64 \<times> u8 list) option \<times> 'a vfs_data_scheme) option" where
  "find_parent_vnode pathname s = do {
     let s = disable_int s;
     (p, cmp, ctx, s) \<leftarrow> strtok_start pathname slash s;
     (cur, skip) \<leftarrow> path_start (drop cmp (strtok_str ctx)) s;
     c \<leftarrow> vnodes s cur;
     (r, s) \<leftarrow> path_loop skip cmp cur (vn_parent c) (vn_mount c) ctx s;
     (case r of
        Inl c \<Rightarrow> Some (None, print_msg (text_of c @ '': No such directory'') (enable_int s))
      | Inr (node, parent, c) \<Rightarrow> do {
          component \<leftarrow> strcpy (replicate STRLEN 0) c;
          s \<leftarrow> free p s;
          Some (Some (node, parent, component), enable_int s)
        })
   }"

section \<open>File systems\<close>

definition same_fs_name :: "u64 \<Rightarrow> u8 list \<Rightarrow> 'a vfs_data_scheme \<Rightarrow> bool option" where
  "same_fs_name p name s = do { fs \<leftarrow> filesystems s p; r \<leftarrow> strcmp (fs_name fs) name; Some (r = 0) }"

definition vfs_init :: "'a vfs_data_scheme \<Rightarrow> 'a vfs_data_scheme" where
  "vfs_init s = s\<lparr>fs_list := zero_list\<rparr>"

definition register_filesystem :: "u64 \<Rightarrow> 'a vfs_data_scheme \<Rightarrow> (int \<times> 'a vfs_data_scheme) option" where
  "register_filesystem fs s = do {
     d \<leftarrow> filesystems s fs;
     (p, s) \<leftarrow> list_find (fs_list s) (\<lambda>p. same_fs_name p (fs_name d) s) s;
     if p \<noteq> 0 then Some (- 1, print_msg ''Invalid file system name (already exists)'' s)
     else do {
       (l, s) \<leftarrow> list_push (fs_list s) fs s;
       Some (0, s\<lparr>fs_list := l\<rparr>)
     }
   }"

section \<open>Operations on paths\<close>

definition vfs_lookup :: "u8 list \<Rightarrow> 'a vfs_data_scheme \<Rightarrow> (int \<times> u64 option \<times> 'a vfs_data_scheme) option" where
  "vfs_lookup pathname s = do {
     let s = disable_int s;
     (r, s) \<leftarrow> find_parent_vnode pathname s;
     (case r of
        None \<Rightarrow> Some (- 1, None, enable_int s)
      | Some (node, parent, component) \<Rightarrow> Some (0, Some node, enable_int s))
   }"

definition vfs_create ::
  "u8 list \<Rightarrow> u64 option \<Rightarrow> file_type \<Rightarrow> 'a vfs_data_scheme \<Rightarrow> (int \<times> u64 option \<times> 'a vfs_data_scheme) option" where
  "vfs_create pathname target type s = do {
     let s = disable_int s;
     (r, s) \<leftarrow> find_parent_vnode pathname s;
     (case r of
        None \<Rightarrow> Some (- 1, target, enable_int s)
      | Some (node, parent, component) \<Rightarrow>
          if node \<noteq> 0 then Some (- 1, target, print_msg ''File exists'' (enable_int s))
          else do {
            d \<leftarrow> vnodes s parent;
            vo \<leftarrow> mount_vops (vn_mount d) s;
            fn \<leftarrow> vo_create vo;
            (r, t, s) \<leftarrow> call_create fn parent component type s;
            Some (if r < 0 then - 1 else 0, Some t, enable_int s)
          })
   }"

definition vfs_mkdir ::
  "u8 list \<Rightarrow> u64 option \<Rightarrow> 'a vfs_data_scheme \<Rightarrow> (int \<times> u64 option \<times> 'a vfs_data_scheme) option" where
  "vfs_mkdir pathname target s = do {
     let s = disable_int s;
     (r, s) \<leftarrow> find_parent_vnode pathname s;
     (case r of
        None \<Rightarrow> Some (- 1, target, enable_int s)
      | Some (node, parent, component) \<Rightarrow>
          if node \<noteq> 0 then Some (- 1, target, print_msg ''Directoty exists'' (enable_int s))
          else do {
            d \<leftarrow> vnodes s parent;
            vo \<leftarrow> mount_vops (vn_mount d) s;
            fn \<leftarrow> vo_mkdir vo;
            (r, t, s) \<leftarrow> call_mkdir fn parent component s;
            Some (if r < 0 then - 1 else 0, Some t, enable_int s)
          })
   }"

text \<open>The results of \<open>vfs_create\<close> are not tested: the vnode is used whatever it returns.\<close>

definition vfs_open ::
  "u8 list \<Rightarrow> u32 \<Rightarrow> u64 option \<Rightarrow> 'a vfs_data_scheme \<Rightarrow> (int \<times> u64 option \<times> 'a vfs_data_scheme) option" where
  "vfs_open pathname fl target s = do {
     (r, node, s) \<leftarrow> vfs_lookup pathname s;
     if r < 0 then Some (- 1, target, s)
     else if node = Some 0 \<and> fl AND O_CREAT = 0 then Some (- 1, target, print_msg ''File not found'' s)
     else do {
       (node, s) \<leftarrow> (if node = Some 0 then do { (_, node, s) \<leftarrow> vfs_create pathname node FILE s; Some (node, s) } else Some (node, s));
       let s = disable_int s;
       p \<leftarrow> node;
       n \<leftarrow> vnodes s p;
       fo \<leftarrow> fops s (vn_fops n);
       fn \<leftarrow> fo_open fo;
       (r, target, s) \<leftarrow> call_open fn p fl target s;
       Some (r, target, enable_int s)
     }
   }"

section \<open>Operations on files\<close>

definition vfs_close :: "u64 \<Rightarrow> 'a vfs_data_scheme \<Rightarrow> (int \<times> 'a vfs_data_scheme) option" where
  "vfs_close file s = do {
     let s = disable_int s;
     fo \<leftarrow> file_fops file s;
     fn \<leftarrow> fo_close fo;
     (r, s) \<leftarrow> call_close fn file s;
     Some (r, enable_int s)
   }"

definition vfs_write :: "u64 \<Rightarrow> u64 \<Rightarrow> u64 \<Rightarrow> 'a vfs_data_scheme \<Rightarrow> (u64 \<times> 'a vfs_data_scheme) option" where
  "vfs_write file buf len s = do {
     f \<leftarrow> files s file;
     n \<leftarrow> vnodes s (f_vnode f);
     m \<leftarrow> mounts s (vn_mount n);
     if mt_flags m AND MS_RDONLY \<noteq> 0 \<or> f_flags f AND O_RDONLY \<noteq> 0 then Some (- 1, print_msg ''Permission denied'' s)
     else do {
       fo \<leftarrow> file_fops file s;
       fn \<leftarrow> fo_write fo;
       call_write fn file buf len s
     }
   }"

definition vfs_read :: "u64 \<Rightarrow> u64 \<Rightarrow> u64 \<Rightarrow> 'a vfs_data_scheme \<Rightarrow> (u64 \<times> 'a vfs_data_scheme) option" where
  "vfs_read file buf len s = do {
     f \<leftarrow> files s file;
     if f_flags f AND O_WRONLY \<noteq> 0 then Some (- 1, print_msg ''Permission denied'' s)
     else do {
       fo \<leftarrow> file_fops file s;
       fn \<leftarrow> fo_read fo;
       call_read fn file buf len s
     }
   }"

definition vfs_lseek64 :: "u64 \<Rightarrow> u64 \<Rightarrow> int \<Rightarrow> 'a vfs_data_scheme \<Rightarrow> (int \<times> 'a vfs_data_scheme) option" where
  "vfs_lseek64 file offset whence s = do {
     let s = disable_int s;
     fo \<leftarrow> file_fops file s;
     fn \<leftarrow> fo_lseek64 fo;
     (r, s) \<leftarrow> call_lseek64 fn file offset whence s;
     Some (r, enable_int s)
   }"

end
