(* ===== verification/Ramdisk.thy ===== *)
theory Ramdisk
  imports Vfs
begin

text \<open>
  The initial ramdisk, \<open>ramdisk.c\<close>: an archive in the cpio format, in memory from \<open>ramdisk_saddr\<close> to \<open>ramdisk_eaddr\<close>, is turned into a tree of vnodes whose
  files refer to the archive.  A header has 110 bytes, with the size of the file at offset 54 and the length of the path, terminator included, at offset 94.  Then
  the registration and mounting of file systems, which needs both kinds of them (\<open>vfs.c\<close>).
\<close>

section \<open>Reading memory\<close>

fun load_bytes :: "u64 \<Rightarrow> nat \<Rightarrow> 'a vfs_data_scheme \<Rightarrow> u8 list option" where
  "load_bytes a 0 s = Some []"
| "load_bytes a (Suc n) s = do { c \<leftarrow> rd8 a s; cs \<leftarrow> load_bytes (a + 1) n s; Some (c # cs) }"

partial_function (option) load_str :: "u64 \<Rightarrow> 'a vfs_data_scheme \<Rightarrow> u8 list option" where
  "load_str a s = do {
     c \<leftarrow> rd8 a s;
     if c = 0 then Some [0] else do { cs \<leftarrow> load_str (a + 1) s; Some (c # cs) }
   }"

section \<open>One record of the archive\<close>

partial_function (option) cpio_loop ::
  "bool \<Rightarrow> nat \<Rightarrow> u64 \<Rightarrow> u64 \<Rightarrow> strtok_ctx \<Rightarrow> u64 \<Rightarrow> u32 \<Rightarrow> 'a vfs_data_scheme \<Rightarrow> 'a vfs_data_scheme option" where
  "cpio_loop skip cmp cur mnt ctx content file_size s = do {
     (tok, ctx) \<leftarrow> (if skip then Some (Some cmp, ctx) else strtok_r None slash ctx);
     (case tok of
        None \<Rightarrow> Some s
      | Some cmp \<Rightarrow> do {
          let parent = cur;
          vo \<leftarrow> mount_vops mnt s;
          fn \<leftarrow> vo_lookup vo;
          (cur, s) \<leftarrow> call_lookup fn parent (drop cmp (strtok_str ctx)) s;
          if cur \<noteq> 0 then cpio_loop False cmp cur mnt ctx content file_size s
          else do {
            (tmp, ctx) \<leftarrow> strtok_r None slash ctx;
            (case tmp of
               Some t \<Rightarrow> do {
                 vo \<leftarrow> mount_vops mnt s;
                 fn \<leftarrow> vo_mkdir vo;
                 (_, cur, s) \<leftarrow> call_mkdir fn parent (drop cmp (strtok_str ctx)) s;
                 cpio_loop True t cur mnt ctx content file_size s
               }
             | None \<Rightarrow> do {
                 vo \<leftarrow> mount_vops mnt s;
                 fn \<leftarrow> vo_create vo;
                 (_, cur, s) \<leftarrow> call_create fn parent (drop cmp (strtok_str ctx)) FILE s;
                 upd_vnode cur (\<lambda>n. n\<lparr>vn_internal := content, vn_file_size := ucast file_size\<rparr>) s
               })
          }
        })
   }"

definition CPIO_HDR :: u64 where "CPIO_HDR = 110"

text \<open>The offset of the contents from the path is an \<open>int\<close>.\<close>

definition content_offset :: "u32 \<Rightarrow> u64" where
  "content_offset path_size = signed_take_bit 31 (((CPIO_HDR + ucast path_size + 3) AND NOT 3) - CPIO_HDR)"

definition initramfs_create_recursive ::
  "u64 \<Rightarrow> u64 \<Rightarrow> u32 \<Rightarrow> u32 \<Rightarrow> 'a vfs_data_scheme \<Rightarrow> 'a vfs_data_scheme option" where
  "initramfs_create_recursive mnt path path_size file_size s = do {
     str \<leftarrow> load_str path s;
     (p, cmp, ctx, s) \<leftarrow> strtok_start str slash s;
     r \<leftarrow> strcmp (literal ''.'') (drop cmp (strtok_str ctx));
     m \<leftarrow> mounts s mnt;
     _ \<leftarrow> vnodes s (mt_root m);
     s \<leftarrow> cpio_loop (r \<noteq> 0) cmp (mt_root m) mnt ctx (path + content_offset path_size) file_size s;
     free p s
   }"

section \<open>The archive\<close>

partial_function (option) parse_loop :: "u64 \<Rightarrow> u64 \<Rightarrow> 'a vfs_data_scheme \<Rightarrow> 'a vfs_data_scheme option" where
  "parse_loop a mnt s = do {
     bs \<leftarrow> load_bytes (a + 94) 8 s;
     path_size \<leftarrow> hstr2u32 bs 8;
     bs \<leftarrow> load_bytes (a + 54) 8 s;
     file_size \<leftarrow> hstr2u32 bs 8;
     let following = a + ((CPIO_HDR + ucast path_size + 3) AND NOT 3) + ucast ((file_size + 3) AND NOT 3);
     if ramdisk_eaddr s \<le> a then Some (print_msg ''No TRAILER record'' s)
     else do {
       magic \<leftarrow> load_bytes a 6 s;
       r \<leftarrow> strncmp (literal ''070701'') magic 6;
       if r \<noteq> 0 then parse_loop following mnt (print_msg ''Invalid .cpio record'' s)
       else do {
         str \<leftarrow> load_str (a + CPIO_HDR) s;
         trailer \<leftarrow> strcmp (literal ''TRAILER!!!'') str;
         dot \<leftarrow> strcmp (literal ''.'') str;
         dots \<leftarrow> strcmp (literal ''..'') str;
         if trailer = 0 then Some s
         else if dot = 0 \<or> dots = 0 then parse_loop following mnt s
         else do {
           s \<leftarrow> initramfs_create_recursive mnt (a + CPIO_HDR) path_size file_size s;
           parse_loop following mnt s
         }
       }
     }
   }"

definition initramfs_parse_cpio :: "u64 \<Rightarrow> 'a vfs_data_scheme \<Rightarrow> 'a vfs_data_scheme option" where
  "initramfs_parse_cpio mnt s = parse_loop (ramdisk_saddr s) mnt s"

definition initramfs_fops :: file_operations where
  "initramfs_fops = \<lparr>fo_write = None, fo_read = Some F_tmpfs_read, fo_open = Some F_tmpfs_open,
     fo_close = Some F_tmpfs_close, fo_lseek64 = Some F_tmpfs_lseek64\<rparr>"

definition initramfs_setup_mount ::
  "u64 \<Rightarrow> u64 \<Rightarrow> u8 list \<Rightarrow> 'a vfs_data_scheme \<Rightarrow> (int \<times> 'a vfs_data_scheme) option" where
  "initramfs_setup_mount mount dir_node component s = do {
     (r, s) \<leftarrow> setup_root mount dir_node component tmpfs_vops initramfs_fops s;
     if r \<noteq> 0 then Some (- 1, s)
     else do {
       s \<leftarrow> initramfs_parse_cpio mount s;
       Some (0, s)
     }
   }"

section \<open>Mounting\<close>

definition call_setup_mount ::
  "setup_mount_fn \<Rightarrow> u64 \<Rightarrow> u64 \<Rightarrow> u8 list \<Rightarrow> 'a vfs_data_scheme \<Rightarrow> (int \<times> 'a vfs_data_scheme) option" where
  "call_setup_mount fn = (case fn of F_tmpfs_setup_mount \<Rightarrow> tmpfs_setup_mount | F_initramfs_setup_mount \<Rightarrow> initramfs_setup_mount
     | F_fat32_setup_mount \<Rightarrow> fat32_setup_mount)"

definition free_mount :: "u64 \<Rightarrow> u64 \<Rightarrow> 'a vfs_data_scheme \<Rightarrow> 'a vfs_data_scheme option" where
  "free_mount mnt root s = do {
     s \<leftarrow> free_vnode root s;
     s \<leftarrow> free mnt s;
     Some (s\<lparr>mounts := (mounts s)(mnt := None)\<rparr>)
   }"

text \<open>The choice of the mount point: the parent and the name of the new root, or \<open>None\<close> with everything released.\<close>

definition mount_point ::
  "u8 list \<Rightarrow> u64 \<Rightarrow> u64 \<Rightarrow> 'a vfs_data_scheme \<Rightarrow> ((u64 \<times> u8 list) option \<times> 'a vfs_data_scheme) option" where
  "mount_point target mnt root s = do {
     r \<leftarrow> strcmp (literal ''/'') target;
     if r = 0 then Some (Some (0, literal ''''), s\<lparr>rootfs_root := root\<rparr>)
     else do {
       (r, s) \<leftarrow> find_parent_vnode target s;
       (case r of
          None \<Rightarrow> do { s \<leftarrow> free_mount mnt root s; Some (None, s) }
        | Some (node, parent, component) \<Rightarrow> do {
            is_dir \<leftarrow> (if node = 0 then Some False else do { n \<leftarrow> vnodes s node; Some (vn_type n = DIR) });
            if \<not> is_dir then do {
              s \<leftarrow> free_mount mnt root (print_msg (text_of component @ '': No such directory'') s);
              Some (None, s)
            }
            else do {
              s \<leftarrow> upd_vnode node (\<lambda>n. n\<lparr>vn_hidden := True\<rparr>) s;
              Some (Some (parent, component), s)
            }
          })
     }
   }"

definition vfs_mount :: "u8 list \<Rightarrow> u8 list \<Rightarrow> u32 \<Rightarrow> 'a vfs_data_scheme \<Rightarrow> (int \<times> 'a vfs_data_scheme) option" where
  "vfs_mount target filesystem fl s = do {
     (fs, s) \<leftarrow> list_find (fs_list s) (\<lambda>p. same_fs_name p filesystem s) s;
     if fs = 0 then Some (- 1, print_msg ''File system not registered'' s)
     else do {
       (mnt, s) \<leftarrow> malloc 24 s;
       if mnt = 0 then Some (- 1, s)
       else do {
         (root, s) \<leftarrow> malloc_vnode s;
         if root = 0 then do { s \<leftarrow> free mnt s; Some (- 1, s) }
         else do {
           let s = s\<lparr>mounts := (mounts s)(mnt \<mapsto> \<lparr>mt_root = root, mt_fs = fs, mt_flags = fl\<rparr>)\<rparr>;
           (r, s) \<leftarrow> mount_point target mnt root s;
           (case r of
              None \<Rightarrow> Some (- 1, s)
            | Some (parent, component) \<Rightarrow> do {
                let s = disable_int s;
                d \<leftarrow> filesystems s fs;
                (r, s) \<leftarrow> call_setup_mount (fs_setup_mount d) mnt parent component s;
                Some (r, enable_int s)
              })
         }
       }
     }
   }"

text \<open>The registration of the file systems at the start of the kernel.\<close>

definition fs_start :: "string \<Rightarrow> setup_mount_fn \<Rightarrow> 'a vfs_data_scheme \<Rightarrow> (u64 \<times> 'a vfs_data_scheme) option" where
  "fs_start name fn s = do {
     (fs, s) \<leftarrow> malloc 16 s;
     if fs = 0 then Some (0, s)
     else do {
       (_, s) \<leftarrow> register_filesystem fs (s\<lparr>filesystems := (filesystems s)(fs \<mapsto> \<lparr>fs_name = literal name, fs_setup_mount = fn\<rparr>)\<rparr>);
       Some (fs, s)
     }
   }"

definition tmpfs_init :: "'a vfs_data_scheme \<Rightarrow> 'a vfs_data_scheme option" where
  "tmpfs_init s = do {
     (fs, s) \<leftarrow> fs_start ''tmpfs'' F_tmpfs_setup_mount s;
     if fs = 0 then Some s
     else do { (_, s) \<leftarrow> vfs_mount (literal ''/'') (literal ''tmpfs'') 0 s; Some s }
   }"

definition initramfs_init :: "'a vfs_data_scheme \<Rightarrow> 'a vfs_data_scheme option" where
  "initramfs_init s = do {
     (fs, s) \<leftarrow> fs_start ''initramfs'' F_initramfs_setup_mount s;
     if fs = 0 then Some s
     else do {
       (_, _, s) \<leftarrow> vfs_mkdir (literal ''/initramfs'') None s;
       (_, s) \<leftarrow> vfs_mount (literal ''/initramfs'') (literal ''initramfs'') MS_RDONLY s;
       Some s
     }
   }"

definition fat32_init :: "'a vfs_data_scheme \<Rightarrow> 'a vfs_data_scheme option" where
  "fat32_init s = do {
     (r, s) \<leftarrow> parse_fat32_partition s;
     if r \<noteq> 0 then Some s
     else do {
       (r, s) \<leftarrow> parse_fat32_metadata s;
       if r \<noteq> 0 then Some s
       else do {
         (fs, s) \<leftarrow> fs_start ''fat32'' F_fat32_setup_mount s;
         if fs = 0 then Some s
         else do {
           (_, _, s) \<leftarrow> vfs_mkdir (literal ''/boot'') None s;
           (_, s) \<leftarrow> vfs_mount (literal ''/boot'') (literal ''fat32'') 0 s;
           Some s
         }
       }
     }
   }"

end
