(* ===== verification/File.thy ===== *)
theory File
  imports Ramdisk
begin

text \<open>
  The system calls on files, \<open>file.c\<close>: descriptors are indices into the table of the running process, and a bitmap of 16 bits tells which ones
  are in use.  The bitmap is promoted to a 32-bit integer before it is complemented.
\<close>

definition cur_file :: "int \<Rightarrow> 'a vfs_data_scheme \<Rightarrow> u64 option" where
  "cur_file fd s = do { b \<leftarrow> pcbs s (get_current s); get_int (p_fd_table b) fd }"

fun ctz :: "nat \<Rightarrow> u32 \<Rightarrow> nat" where
  "ctz 0 w = 0"
| "ctz (Suc n) w = (if bit w 0 then 0 else Suc (ctz n (drop_bit 1 w)))"

definition promoted_not :: "u16 \<Rightarrow> u32" where
  "promoted_not w = NOT (ucast w)"

text \<open>The variable \<open>f\<close> of \<open>open\<close> is not initialised and is read even if \<open>vfs_open\<close> fails.\<close>

definition open_fd :: "u8 list \<Rightarrow> u32 \<Rightarrow> 'a vfs_data_scheme \<Rightarrow> (int \<times> 'a vfs_data_scheme) option" where
  "open_fd pathname fl s = do {
     let pcb = get_current s;
     b \<leftarrow> pcbs s pcb;
     if promoted_not (p_fd_bitmap b) = 0 then Some (- 1, print_msg ''Fd table is full'' s)
     else do {
       (_, target, s) \<leftarrow> vfs_open pathname fl None s;
       b \<leftarrow> pcbs s pcb;
       let idx = ctz 32 (promoted_not (p_fd_bitmap b));
       f \<leftarrow> target;
       t \<leftarrow> set_at (p_fd_table b) idx f;
       s \<leftarrow> upd_pcb pcb (\<lambda>b. b\<lparr>p_fd_table := t, p_fd_bitmap := p_fd_bitmap b OR push_bit idx 1\<rparr>) s;
       Some (int idx, s)
     }
   }"

definition close_fd :: "int \<Rightarrow> 'a vfs_data_scheme \<Rightarrow> (int \<times> 'a vfs_data_scheme) option" where
  "close_fd fd s = do {
     let pcb = get_current s;
     f \<leftarrow> cur_file fd s;
     if f = 0 then Some (- 1, print_msg ''Invalid fd'' s)
     else do {
       s \<leftarrow> upd_pcb pcb (\<lambda>b. b\<lparr>p_fd_table := (p_fd_table b)[nat fd := 0], p_fd_bitmap := p_fd_bitmap b AND NOT (push_bit (nat fd) 1)\<rparr>) s;
       vfs_close f s
     }
   }"

definition write_fd :: "int \<Rightarrow> u64 \<Rightarrow> u64 \<Rightarrow> 'a vfs_data_scheme \<Rightarrow> (u64 \<times> 'a vfs_data_scheme) option" where
  "write_fd fd buf cnt s = do { f \<leftarrow> cur_file fd s; vfs_write f buf cnt s }"

definition read_fd :: "int \<Rightarrow> u64 \<Rightarrow> u64 \<Rightarrow> 'a vfs_data_scheme \<Rightarrow> (u64 \<times> 'a vfs_data_scheme) option" where
  "read_fd fd buf cnt s = do { f \<leftarrow> cur_file fd s; vfs_read f buf cnt s }"

definition mkdir :: "u8 list \<Rightarrow> u32 \<Rightarrow> 'a vfs_data_scheme \<Rightarrow> (int \<times> 'a vfs_data_scheme) option" where
  "mkdir pathname mode s = do {
     (r, node, s) \<leftarrow> vfs_mkdir pathname None s;
     if r < 0 then Some (- 1, s)
     else do {
       p \<leftarrow> node;
       if p = 0 then Some (- 1, s)
       else do { s \<leftarrow> upd_vnode p (\<lambda>n. n\<lparr>vn_mode := mode\<rparr>) s; Some (0, s) }
     }
   }"

definition mount :: "u8 list \<Rightarrow> u8 list \<Rightarrow> u64 \<Rightarrow> 'a vfs_data_scheme \<Rightarrow> (int \<times> 'a vfs_data_scheme) option" where
  "mount target filesystem fl s = do {
     (r, s) \<leftarrow> vfs_mount target filesystem (ucast fl) s;
     Some (if r < 0 then - 1 else 0, s)
   }"

definition chdir :: "u8 list \<Rightarrow> 'a vfs_data_scheme \<Rightarrow> (int \<times> 'a vfs_data_scheme) option" where
  "chdir path s = do {
     let pcb = get_current s;
     (r, s) \<leftarrow> find_parent_vnode path s;
     (case r of
        None \<Rightarrow> Some (- 1, s)
      | Some (node, parent, component) \<Rightarrow> do {
          s \<leftarrow> upd_pcb pcb (\<lambda>b. b\<lparr>p_cur_dir := node\<rparr>) s;
          Some (0, s)
        })
   }"

definition lseek64 :: "int \<Rightarrow> u64 \<Rightarrow> int \<Rightarrow> 'a vfs_data_scheme \<Rightarrow> (int \<times> 'a vfs_data_scheme) option" where
  "lseek64 fd offset whence s = do { f \<leftarrow> cur_file fd s; vfs_lseek64 f offset whence s }"

text \<open>\<open>ls\<close> prints one line per child that is not hidden.\<close>

partial_function (option) ls_loop :: "u64 option \<Rightarrow> 'a vfs_data_scheme \<Rightarrow> 'a vfs_data_scheme option" where
  "ls_loop tmp s =
     (case tmp of
        None \<Rightarrow> Some s
      | Some t \<Rightarrow> do {
          e \<leftarrow> list_nodes s t;
          n \<leftarrow> vnodes s (n_ptr e);
          ls_loop (n_next e) (if vn_hidden n then s else print_msg (text_of (vn_name n)) s)
        })"

definition ls :: "u8 list option \<Rightarrow> 'a vfs_data_scheme \<Rightarrow> 'a vfs_data_scheme option" where
  "ls dirname s = do {
     name \<leftarrow> (case dirname of
         Some d \<Rightarrow> Some d
       | None \<Rightarrow> do { b \<leftarrow> pcbs s (get_current s); n \<leftarrow> vnodes s (p_cur_dir b); Some (vn_name n) });
     (r, s) \<leftarrow> find_parent_vnode name s;
     (case r of
        None \<Rightarrow> Some (print_msg ''No such directory'' s)
      | Some (node, parent, component) \<Rightarrow>
          if node = 0 then Some (print_msg ''No such directory'' s)
          else do { n \<leftarrow> vnodes s node; ls_loop (head (vn_children n)) s })
   }"

text \<open>The program is copied into a block of whole pages; the result is its address and size.\<close>

definition load_prog :: "u8 list \<Rightarrow> 'a vfs_data_scheme \<Rightarrow> ((u64 \<times> u64) option \<times> 'a vfs_data_scheme) option" where
  "load_prog filename s = do {
     (r, s) \<leftarrow> find_parent_vnode filename s;
     (case r of
        None \<Rightarrow> Some (None, print_msg ''File not exists'' s)
      | Some (node, parent, component) \<Rightarrow>
          if node = 0 then Some (None, print_msg ''File not exists'' s)
          else do {
            n \<leftarrow> vnodes s node;
            (prog_addr, s) \<leftarrow> malloc_bytes ((vn_file_size n div PAGE_SIZE + (if 0 < vn_file_size n mod PAGE_SIZE then 1 else 0)) * PAGE_SIZE) s;
            if prog_addr = 0 then Some (None, s)
            else do {
              n \<leftarrow> vnodes s node;
              let prog_size = vn_file_size n;
              (_, target, s) \<leftarrow> vfs_open filename O_RDONLY None s;
              f \<leftarrow> target;
              (_, s) \<leftarrow> vfs_read f prog_addr prog_size s;
              (_, s) \<leftarrow> vfs_close f s;
              Some (Some (prog_addr, prog_size), s)
            }
          })
   }"

end
