(* ===== verification/Ram_Correct.thy ===== *)
theory Ram_Correct
  imports Vmem
begin

text \<open>Copying of bytes: ranges of addresses are compared by the distance to their start, so they may wrap around.\<close>

lemma less_Suc_word:
  assumes "Suc n < 2 ^ 64"
  shows "(x :: u64) < of_nat (Suc n) \<longleftrightarrow> x = 0 \<or> x - 1 < of_nat n"
proof (cases "x = 0")
  case False
  then have x: "unat (x - 1) = unat x - 1" "0 < unat x" by (simp_all add: unat_minus_one unat_gt_0)
  have "unat (of_nat (Suc n) :: u64) = Suc n" "unat (of_nat n :: u64) = n"
    using assms by (simp_all add: unsigned_of_nat take_bit_nat_eq_self del: of_nat_Suc)
  then show ?thesis unfolding word_less_nat_alt x(1) using False x(2) by linarith
next
  case True
  have "unat (of_nat (Suc n) :: u64) = Suc n" using assms by (simp add: unsigned_of_nat take_bit_nat_eq_self del: of_nat_Suc)
  then have "x < of_nat (Suc n)" unfolding word_less_nat_alt True by simp
  then show ?thesis using True by blast
qed

definition owned :: "'a vm_data_scheme \<Rightarrow> u64 \<Rightarrow> u64 \<Rightarrow> bool" where
  "owned s a n \<longleftrightarrow> (\<forall>x. x - a < n \<longrightarrow> ram_ok s x)"

definition apart :: "u64 \<Rightarrow> u64 \<Rightarrow> u64 \<Rightarrow> u64 \<Rightarrow> bool" where
  "apart a m b n \<longleftrightarrow> (\<forall>x. \<not> (x - a < m \<and> x - b < n))"

definition copied :: "u64 \<Rightarrow> u64 \<Rightarrow> u64 \<Rightarrow> (u64 \<Rightarrow> u8) \<Rightarrow> u64 \<Rightarrow> u8" where
  "copied d r n m = (\<lambda>x. if x - d < n then m (r + (x - d)) else m x)"

lemma memcpy_ram_ok:
  "k < 2 ^ 64 \<Longrightarrow> owned s d (of_nat k) \<Longrightarrow> owned s r (of_nat k) \<Longrightarrow> apart d (of_nat k) r (of_nat k) \<Longrightarrow>
   memcpy_ram d r k s = Some (s\<lparr>ram := copied d r (of_nat k) (ram s)\<rparr>)"
proof (induction k arbitrary: d r s)
  case 0
  then show ?case by (cases s) (simp add: copied_def)
next
  case (Suc k)
  have k: "k < 2 ^ 64" "Suc k < 2 ^ 64" using Suc.prems(1) by simp_all
  note L = less_Suc_word [OF k(2)]
  have shift: "x - (a + 1) = x - a - 1" for x a :: u64 by simp
  have ok: "ram_ok s d" "ram_ok s r" using Suc.prems(2,3) L by (auto simp: owned_def simp del: of_nat_Suc)
  have pos: "(0 :: u64) < of_nat (Suc k)" using L [of 0] by blast
  let ?s = "s\<lparr>ram := (ram s)(d := ram s r)\<rparr>"
  have "memcpy_ram (d + 1) (r + 1) k ?s = Some (?s\<lparr>ram := copied (d + 1) (r + 1) (of_nat k) (ram ?s)\<rparr>)"
    using Suc.prems(2-4) L k(1) by (intro Suc.IH) (auto simp: owned_def apart_def shift simp del: of_nat_Suc)
  moreover have "copied (d + 1) (r + 1) (of_nat k) (ram ?s) = copied d r (of_nat (Suc k)) (ram s)"
  proof
    fix x
    have e: "x - d < of_nat (Suc k) \<longleftrightarrow> x = d \<or> x - (d + 1) < of_nat k" using L [of "x - d"] by (simp add: shift del: of_nat_Suc)
    show "copied (d + 1) (r + 1) (of_nat k) (ram ?s) x = copied d r (of_nat (Suc k)) (ram s) x"
    proof (cases "x - (d + 1) < of_nat k")
      case True
      then have "x - d < of_nat (Suc k)" using e by blast
      moreover have "r + (x - d) \<noteq> d"
      proof
        assume "r + (x - d) = d"
        then have "d - r = x - d" by (metis add_diff_cancel_left')
        then show False using calculation Suc.prems(4) pos unfolding apart_def by (metis diff_self)
      qed
      ultimately show ?thesis using True by (simp add: copied_def del: of_nat_Suc)
    next
      case False
      have "x = d \<Longrightarrow> \<not> x - (d + 1) < of_nat k" using False by simp
      then show ?thesis using False e by (auto simp: copied_def simp del: of_nat_Suc)
    qed
  qed
  ultimately show ?case using ok by (simp add: rd8_def wr8_def)
qed

lemma part_of_range:
  assumes "unat p + unat k \<le> unat n" "x - (a + p) < k"
  shows "x - a < (n :: u64)"
proof -
  let ?y = "x - (a + p)"
  have "unat ?y + unat p < unat n" using assms by (simp add: word_less_nat_alt)
  then have "unat (?y + p) < unat n" using unsigned_less [of n, where 'a = nat] by (simp only: unat_word_ariths) simp
  then show ?thesis by (simp add: word_less_nat_alt)
qed

lemma owned_part: "owned s a n \<Longrightarrow> unat p + unat k \<le> unat n \<Longrightarrow> owned s (a + p) k"
  using part_of_range by (auto simp: owned_def)

lemma apart_part: "apart a n b m \<Longrightarrow> unat p + unat k \<le> unat n \<Longrightarrow> unat j \<le> unat m \<Longrightarrow> apart (a + p) k b j"
  using part_of_range [of p k n _ a] part_of_range [of 0 j m _ b] by (auto simp: apart_def)

lemma apart_sym: "apart a n b m \<Longrightarrow> apart b m a n"
  by (auto simp: apart_def)

lemma apartI:
  assumes "unat a + unat m \<le> unat b" "unat b + unat n \<le> 2 ^ 64"
  shows "apart a m b n"
  unfolding apart_def
proof (intro allI notI, elim conjE)
  fix x assume x: "x - a < m" "x - b < n"
  have "unat ((x - b) + (b - a)) = unat (x - b) + unat (b - a)"
    using x(2) assms by (simp only: unat_word_ariths(1)) (simp add: word_less_nat_alt unat_sub word_le_nat_alt)
  then show False using x assms by (simp add: word_less_nat_alt unat_sub word_le_nat_alt)
qed

lemma owned_upd [simp]: "owned (s\<lparr>ram := m\<rparr>) a n = owned s a n" "owned (disable_int s) a n = owned s a n" "owned (enable_int s) a n = owned s a n"
  by (simp_all add: owned_def disable_int_def enable_int_def Let_def)

lemma memcpy_ram_word:
  assumes "owned s d k" "owned s r k" "apart d k r k"
  shows "memcpy_ram d r (unat k) s = Some (s\<lparr>ram := copied d r k (ram s)\<rparr>)"
  using memcpy_ram_ok [of "unat k" s d r] assms unsigned_less [of k, where 'a = nat] by simp

end
