(* ===== verification/Sd_Props.thy ===== *)
theory Sd_Props
  imports Sd
begin

text \<open>
  What the driver relies on of the SD host controller and the card, and that it transfers blocks correctly under it.

  The state of the hardware is abstracted to a record \<open>host\<close>: the blocks of the card by address, the command argument, the transfer in progress, and how many polls it will still
  show as busy.  A device obeys this protocol if each access to a register is a step of it.  A transfer may fail a finite number of times: a failed read returns arbitrary words, and
  a failed write leaves an arbitrary block.
\<close>

section \<open>The protocol\<close>

datatype phase = Idle | Reading u32 nat | Writing u32 "u32 list"

record host =
  h_blocks :: "u32 \<Rightarrow> u32 list"
  h_arg :: u32
  h_phase :: phase
  h_busy :: nat
  h_data :: nat
  h_fin :: nat
  h_fail :: bool
  h_faults :: nat

definition POLLS :: nat where "POLLS = 1000000"

text \<open>The register \<open>r\<close> reads as \<open>v\<close>.\<close>

definition host_get :: "host \<Rightarrow> u64 \<Rightarrow> u32 \<Rightarrow> host \<Rightarrow> bool" where
  "host_get h r v h' \<longleftrightarrow>
     (if r = SDHOST_CMD then (v AND SDHOST_NEW_CMD \<noteq> 0 \<longleftrightarrow> 0 < h_busy h) \<and> h' = h\<lparr>h_busy := h_busy h - 1\<rparr>
      else if r = SDHOST_HSTS then (v AND SDHOST_HSTS_DATA = 0 \<longleftrightarrow> 0 < h_data h) \<and> (v AND SDHOST_HSTS_ERR_MASK \<noteq> 0 \<longleftrightarrow> h_fail h) \<and> h' = h\<lparr>h_data := h_data h - 1\<rparr>
      else if r = SDHOST_DBG then (v AND SDHOST_DBG_FSM_MASK = SDHOST_HSTS_DATA \<longleftrightarrow> h_fin h = 0) \<and> h' = h\<lparr>h_fin := h_fin h - 1\<rparr>
      else if r = SDHOST_DATA then
        (case h_phase h of
           Reading a i \<Rightarrow> \<exists>n < POLLS. (h_data h = 0 \<and> \<not> h_fail h \<and> i < 128 \<longrightarrow> v = h_blocks h a ! i) \<and> h' = h\<lparr>h_phase := Reading a (i + 1), h_data := n\<rparr>
         | _ \<Rightarrow> h' = h)
      else h' = h)"

text \<open>A command starts a transfer, whose failure is one of the finitely many.\<close>

definition cmd_phase :: "u32 \<Rightarrow> u32 \<Rightarrow> phase" where
  "cmd_phase v a = (if v = READ_SINGLE_BLOCK OR SDHOST_READ OR SDHOST_NEW_CMD then Reading a 0
     else if v = WRITE_SINGLE_BLOCK OR SDHOST_WRITE OR SDHOST_NEW_CMD then Writing a []
     else Idle)"

definition host_cmd :: "host \<Rightarrow> u32 \<Rightarrow> host \<Rightarrow> bool" where
  "host_cmd h v h' \<longleftrightarrow> h_phase h' = cmd_phase v (h_arg h) \<and> h_blocks h' = h_blocks h \<and> h_busy h' < POLLS \<and> h_data h' < POLLS
     \<and> h_faults h = (if h_fail h' then Suc (h_faults h') else h_faults h')"

text \<open>The last word of a block completes the write.\<close>

definition host_put :: "host \<Rightarrow> u32 \<Rightarrow> host \<Rightarrow> bool" where
  "host_put h v h' \<longleftrightarrow>
     (case h_phase h of
        Writing a ws \<Rightarrow> \<exists>n < POLLS.
          (if h_data h = 0 \<and> Suc (length ws) < 128 then h' = h\<lparr>h_phase := Writing a (ws @ [v]), h_data := n\<rparr>
           else \<exists>blk. length blk = 128 \<and> (h_data h = 0 \<and> \<not> h_fail h \<and> Suc (length ws) = 128 \<longrightarrow> blk = ws @ [v]) \<and> h' = h\<lparr>h_phase := Idle, h_data := n, h_blocks := (h_blocks h)(a := blk)\<rparr>)
      | _ \<Rightarrow> h' = h)"

definition host_set :: "host \<Rightarrow> u64 \<Rightarrow> u32 \<Rightarrow> host \<Rightarrow> bool" where
  "host_set h r v h' \<longleftrightarrow>
     (if r = SDHOST_ARG then h' = h\<lparr>h_arg := v\<rparr>
      else if r = SDHOST_CMD then host_cmd h v h'
      else if r = SDHOST_HSTS then h' = h\<lparr>h_fail := False\<rparr>
      else if r = SDHOST_DATA then host_put h v h'
      else h' = h)"

coinductive obeys :: "host \<Rightarrow> device \<Rightarrow> bool" where
  obeysI: "(\<And>r. \<exists>h'. host_get h r (fst (dev_get d r)) h' \<and> obeys h' (snd (dev_get d r))) \<Longrightarrow>
    (\<And>r v. \<exists>h'. host_set h r v h' \<and> obeys h' (dev_set d r v)) \<Longrightarrow> obeys h d"

lemma obeys_get:
  assumes "obeys h d"
  obtains v d' h' where "get32 r d = (v, d')" "host_get h r v h'" "obeys h' d'"
  using assms by (cases rule: obeys.cases) (metis get32_def prod.collapse)

lemma obeys_set:
  assumes "obeys h d"
  obtains h' where "host_set h r v h'" "obeys h' (set32 r v d)"
  using assms by (cases rule: obeys.cases) (metis set32_def)

lemmas sd_regs = SDHOST_CMD_def SDHOST_ARG_def SDHOST_HSTS_def SDHOST_DBG_def SDHOST_DATA_def SDHOST_SIZE_def SDHOST_CNT_def SDHOST_BASE_def MMIO_BASE_def V_KERNEL_SPACE_def

lemma host_get_reg:
  "host_get h SDHOST_CMD v h' \<longleftrightarrow> (v AND SDHOST_NEW_CMD \<noteq> 0 \<longleftrightarrow> 0 < h_busy h) \<and> h' = h\<lparr>h_busy := h_busy h - 1\<rparr>"
  "host_get h SDHOST_HSTS v h' \<longleftrightarrow> (v AND SDHOST_HSTS_DATA = 0 \<longleftrightarrow> 0 < h_data h) \<and> (v AND SDHOST_HSTS_ERR_MASK \<noteq> 0 \<longleftrightarrow> h_fail h) \<and> h' = h\<lparr>h_data := h_data h - 1\<rparr>"
  "host_get h SDHOST_DBG v h' \<longleftrightarrow> (v AND SDHOST_DBG_FSM_MASK = SDHOST_HSTS_DATA \<longleftrightarrow> h_fin h = 0) \<and> h' = h\<lparr>h_fin := h_fin h - 1\<rparr>"
  by (simp_all add: host_get_def sd_regs)

lemma host_get_data:
  "host_get h SDHOST_DATA v h' \<longleftrightarrow>
     (case h_phase h of
        Reading a i \<Rightarrow> \<exists>n < POLLS. (h_data h = 0 \<and> \<not> h_fail h \<and> i < 128 \<longrightarrow> v = h_blocks h a ! i) \<and> h' = h\<lparr>h_phase := Reading a (i + 1), h_data := n\<rparr>
      | _ \<Rightarrow> h' = h)"
  by (simp add: host_get_def sd_regs)

lemma host_set_reg:
  "host_set h SDHOST_ARG v h' \<longleftrightarrow> h' = h\<lparr>h_arg := v\<rparr>"
  "host_set h SDHOST_CMD v h' \<longleftrightarrow> host_cmd h v h'"
  "host_set h SDHOST_HSTS v h' \<longleftrightarrow> h' = h\<lparr>h_fail := False\<rparr>"
  "host_set h SDHOST_DATA v h' \<longleftrightarrow> host_put h v h'"
  "host_set h SDHOST_SIZE v h' \<longleftrightarrow> h' = h"
  "host_set h SDHOST_CNT v h' \<longleftrightarrow> h' = h"
  by (simp_all add: host_set_def sd_regs)

section \<open>Polling\<close>

lemma wait_sd_loop_ok: "obeys h d \<Longrightarrow> h_busy h < n \<Longrightarrow> \<exists>d'. wait_sd_loop n d = (0, d') \<and> obeys (h\<lparr>h_busy := 0\<rparr>) d'"
proof (induction n arbitrary: h d)
  case (Suc n)
  obtain v d' h' where g: "get32 SDHOST_CMD d = (v, d')" "host_get h SDHOST_CMD v h'" "obeys h' d'" using Suc.prems(1) by (rule obeys_get)
  show ?case
  proof (cases "h_busy h")
    case 0
    then have "h' = h\<lparr>h_busy := 0\<rparr>" "v AND SDHOST_NEW_CMD = 0" using g(2) by (simp_all add: host_get_reg)
    then show ?thesis using g(1,3) by simp
  next
    case (Suc m)
    then have "h' = h\<lparr>h_busy := m\<rparr>" "v AND SDHOST_NEW_CMD \<noteq> 0" using g(2) by (simp_all add: host_get_reg)
    then show ?thesis using Suc.IH [OF g(3)] Suc.prems(2) Suc g(1) by simp
  qed
qed simp

lemma wait_fifo_loop_ok: "obeys h d \<Longrightarrow> h_data h < n \<Longrightarrow> \<exists>d'. wait_fifo_loop n d = (0, d') \<and> obeys (h\<lparr>h_data := 0\<rparr>) d'"
proof (induction n arbitrary: h d)
  case (Suc n)
  obtain v d' h' where g: "get32 SDHOST_HSTS d = (v, d')" "host_get h SDHOST_HSTS v h'" "obeys h' d'" using Suc.prems(1) by (rule obeys_get)
  show ?case
  proof (cases "h_data h")
    case 0
    then have "h' = h\<lparr>h_data := 0\<rparr>" "v AND SDHOST_HSTS_DATA \<noteq> 0" using g(2) by (simp_all add: host_get_reg)
    then show ?thesis using g(1,3) by simp
  next
    case (Suc m)
    then have "h' = h\<lparr>h_data := m\<rparr>" "v AND SDHOST_HSTS_DATA = 0" using g(2) by (simp_all add: host_get_reg)
    then show ?thesis using Suc.IH [OF g(3)] Suc.prems(2) Suc g(1) by simp
  qed
qed simp

lemma wait_fifo_ok:
  assumes "obeys h d" "h_data h < POLLS"
  obtains d' where "wait_fifo d = (0, d')" "obeys (h\<lparr>h_data := 0\<rparr>) d'"
  using wait_fifo_loop_ok [OF assms(1), of 1000000] assms(2) by (auto simp: wait_fifo_def POLLS_def)

lemma wait_finish_ok: "obeys h d \<Longrightarrow> \<exists>d'. wait_finish d = Some d' \<and> obeys (h\<lparr>h_fin := 0\<rparr>) d'"
proof (induction "h_fin h" arbitrary: h d)
  case 0
  obtain v d' h' where g: "get32 SDHOST_DBG d = (v, d')" "host_get h SDHOST_DBG v h'" "obeys h' d'" using 0(2) by (rule obeys_get)
  then have "h' = h\<lparr>h_fin := 0\<rparr>" "v AND SDHOST_DBG_FSM_MASK = SDHOST_HSTS_DATA" using 0(1) by (simp_all add: host_get_reg)
  then show ?case using g(1,3) by (subst wait_finish.simps) simp
next
  case (Suc n)
  obtain v d' h' where g: "get32 SDHOST_DBG d = (v, d')" "host_get h SDHOST_DBG v h'" "obeys h' d'" using Suc(3) by (rule obeys_get)
  then have h: "h' = h\<lparr>h_fin := n\<rparr>" "v AND SDHOST_DBG_FSM_MASK \<noteq> SDHOST_HSTS_DATA" using Suc(2) [symmetric] by (simp_all add: host_get_reg)
  then show ?case using Suc(1) [OF _ g(3)] g(1) by (subst wait_finish.simps) simp
qed

text \<open>After a command the transfer is started, and no poll for data takes too long.\<close>

lemma sd_cmd_ok:
  assumes "obeys h d"
  obtains r d' h' where "sd_cmd cmd arg d = (r, d')" "obeys h' d'" "h_blocks h' = h_blocks h" "h_phase h' = cmd_phase (cmd OR SDHOST_NEW_CMD) arg"
    "h_data h' < POLLS" "h_faults h = (if h_fail h' then Suc (h_faults h') else h_faults h')"
proof -
  obtain h1 where a: "host_set h SDHOST_ARG arg h1" "obeys h1 (set32 SDHOST_ARG arg d)" using assms by (rule obeys_set)
  obtain h2 where c: "host_set h1 SDHOST_CMD (cmd OR SDHOST_NEW_CMD) h2" "obeys h2 (set32 SDHOST_CMD (cmd OR SDHOST_NEW_CMD) (set32 SDHOST_ARG arg d))" using a(2) by (rule obeys_set)
  then have h: "host_cmd (h\<lparr>h_arg := arg\<rparr>) (cmd OR SDHOST_NEW_CMD) h2" using a(1) by (simp add: host_set_reg)
  then have b: "h_busy h2 < 1000000" by (simp add: host_cmd_def POLLS_def)
  obtain d' where "sd_cmd cmd arg d = (0, d')" "obeys (h2\<lparr>h_busy := 0\<rparr>) d'" using wait_sd_loop_ok [OF c(2) b] by (auto simp: sd_cmd_def wait_sd_def)
  then show thesis using that [of 0 d' "h2\<lparr>h_busy := 0\<rparr>"] h by (simp add: host_cmd_def)
qed

section \<open>Blocks\<close>

lemma host_same: "h_phase h = p \<Longrightarrow> h\<lparr>h_phase := p, h_data := h_data h\<rparr> = h"
  by (rule host.equality) simp_all

lemma read_words_ok:
  "obeys h d \<Longrightarrow> h_phase h = Reading a i \<Longrightarrow> i + n \<le> 128 \<Longrightarrow> length (h_blocks h a) = 128 \<Longrightarrow> h_data h < POLLS \<Longrightarrow>
   \<exists>ws d' m. read_words n d = (ws, d') \<and> obeys (h\<lparr>h_phase := Reading a (i + n), h_data := m\<rparr>) d' \<and> (\<not> h_fail h \<longrightarrow> ws = take n (drop i (h_blocks h a)))"
proof (induction n arbitrary: h d i)
  case 0
  then have "obeys (h\<lparr>h_phase := Reading a (i + 0), h_data := h_data h\<rparr>) d" unfolding add_0_right host_same [OF 0(2)] by simp
  then show ?case by (intro exI [of _ "[]"] exI [of _ d] exI [of _ "h_data h"]) simp
next
  case (Suc n)
  obtain d1 where w: "wait_fifo d = (0, d1)" "obeys (h\<lparr>h_data := 0\<rparr>) d1" using Suc.prems(1,5) by (rule wait_fifo_ok)
  obtain v d2 h2 where g: "get32 SDHOST_DATA d1 = (v, d2)" "host_get (h\<lparr>h_data := 0\<rparr>) SDHOST_DATA v h2" "obeys h2 d2" using w(2) by (rule obeys_get)
  then obtain k where k: "k < POLLS" "\<not> h_fail h \<longrightarrow> v = h_blocks h a ! i" "h2 = h\<lparr>h_phase := Reading a (i + 1), h_data := k\<rparr>"
    using Suc.prems(2,3) by (auto simp: host_get_data)
  obtain ws d' m where r: "read_words n d2 = (ws, d')" "obeys (h2\<lparr>h_phase := Reading a (i + 1 + n), h_data := m\<rparr>) d'" "\<not> h_fail h2 \<longrightarrow> ws = take n (drop (i + 1) (h_blocks h2 a))"
    using Suc.IH [OF g(3), of "i + 1"] Suc.prems(3,4) k by auto
  have "drop i (h_blocks h a) = h_blocks h a ! i # drop (i + 1) (h_blocks h a)" using Suc.prems(3,4) by (simp add: Cons_nth_drop_Suc)
  then show ?case using w(1) g(1) r k(2,3) by (intro exI [of _ "v # ws"] exI [of _ d'] exI [of _ m]) simp
qed

lemma write_words_ok:
  "obeys h d \<Longrightarrow> h_phase h = Writing a vs \<Longrightarrow> length vs + length ws = 128 \<Longrightarrow> ws \<noteq> [] \<Longrightarrow> h_data h < POLLS \<Longrightarrow>
   \<exists>blk m. obeys (h\<lparr>h_phase := Idle, h_data := m, h_blocks := (h_blocks h)(a := blk)\<rparr>) (write_words ws d) \<and> length blk = 128 \<and> (\<not> h_fail h \<longrightarrow> blk = vs @ ws)"
proof (induction ws arbitrary: h d vs)
  case (Cons w ws)
  obtain d1 where f: "wait_fifo d = (0, d1)" "obeys (h\<lparr>h_data := 0\<rparr>) d1" using Cons.prems(1,5) by (rule wait_fifo_ok)
  obtain h2 where g: "host_put (h\<lparr>h_data := 0\<rparr>) w h2" "obeys h2 (set32 SDHOST_DATA w d1)" using f(2) by (rule obeys_set [of _ _ SDHOST_DATA w]) (simp add: host_set_reg)
  have e: "write_words (w # ws) d = write_words ws (set32 SDHOST_DATA w d1)" using f(1) by simp
  show ?case
  proof (cases "ws = []")
    case True
    then obtain k blk where "length blk = 128" "\<not> h_fail h \<longrightarrow> blk = vs @ [w]" "h2 = h\<lparr>h_phase := Idle, h_data := k, h_blocks := (h_blocks h)(a := blk)\<rparr>"
      using g(1) Cons.prems(2,3) by (auto simp: host_put_def)
    then show ?thesis using g(2) unfolding e unfolding True write_words.simps(1) by blast
  next
    case False
    then have "Suc (length vs) < 128" using Cons.prems(3) by (cases ws) simp_all
    then obtain k where k: "k < POLLS" "h2 = h\<lparr>h_phase := Writing a (vs @ [w]), h_data := k\<rparr>" using g(1) Cons.prems(2) by (auto simp: host_put_def)
    show ?thesis using Cons.IH [OF g(2), of "vs @ [w]"] k Cons.prems(3) False e by simp
  qed
qed simp

text \<open>A failed transfer uses up one of the faults.\<close>

lemma transfer_status_ok:
  assumes "obeys h d"
  obtains d' h' where "transfer_status d = (\<not> h_fail h, d')" "obeys h' d'" "h_blocks h' = h_blocks h" "h_faults h' \<le> h_faults h"
proof -
  obtain v d1 h1 where g: "get32 SDHOST_HSTS d = (v, d1)" "host_get h SDHOST_HSTS v h1" "obeys h1 d1" using assms by (rule obeys_get)
  then have h1: "h1 = h\<lparr>h_data := h_data h - 1\<rparr>" "v AND SDHOST_HSTS_ERR_MASK \<noteq> 0 \<longleftrightarrow> h_fail h" by (simp_all add: host_get_reg)
  show thesis
  proof (cases "h_fail h")
    case False
    then show ?thesis using that [of d1 h1] g h1 by (simp add: transfer_status_def)
  next
    case True
    have s: "obeys (h1\<lparr>h_fail := False\<rparr>) (set32 SDHOST_HSTS SDHOST_HSTS_ERR_MASK d1)" using g(3) by (rule obeys_set [of _ _ SDHOST_HSTS SDHOST_HSTS_ERR_MASK]) (simp add: host_set_reg)
    obtain r d2 h2 where c: "sd_cmd (STOP_TRANSMISSION OR SDHOST_BUSY) 0 (set32 SDHOST_HSTS SDHOST_HSTS_ERR_MASK d1) = (r, d2)" "obeys h2 d2"
      "h_blocks h2 = h_blocks (h1\<lparr>h_fail := False\<rparr>)" "h_faults (h1\<lparr>h_fail := False\<rparr>) = (if h_fail h2 then Suc (h_faults h2) else h_faults h2)"
      using s by (rule sd_cmd_ok)
    then have "h_faults h2 \<le> h_faults h" using h1(1) by (simp split: if_splits)
    moreover have "transfer_status d = (False, d2)" using g(1) True h1(2) c(1) by (simp add: transfer_status_def)
    ultimately show ?thesis using that [of d2 h2] True c(2,3) h1(1) by simp
  qed
qed

lemma set_block_ok: "obeys h d \<Longrightarrow> obeys h (set_block a b d)"
  unfolding set_block_def by (metis obeys_set host_set_reg(5,6))

definition blocks_ok :: "(u32 \<Rightarrow> u32 list) \<Rightarrow> bool" where
  "blocks_ok B \<longleftrightarrow> (\<forall>a. length (B a) = 128)"

lemma read_loop_ok:
  "obeys h d \<Longrightarrow> blocks_ok (h_blocks h) \<Longrightarrow>
   \<exists>d' h'. read_loop a d = Some (h_blocks h a, d') \<and> obeys h' d' \<and> h_blocks h' = h_blocks h"
proof (induction "h_faults h" arbitrary: h d rule: less_induct)
  case less
  obtain r d1 h1 where c: "sd_cmd (READ_SINGLE_BLOCK OR SDHOST_READ) a (set_block 512 1 d) = (r, d1)" "obeys h1 d1" "h_blocks h1 = h_blocks h"
    "h_phase h1 = cmd_phase (READ_SINGLE_BLOCK OR SDHOST_READ OR SDHOST_NEW_CMD) a" "h_data h1 < POLLS" "h_faults h = (if h_fail h1 then Suc (h_faults h1) else h_faults h1)"
    using sd_cmd_ok [OF set_block_ok [OF less(2)], of "READ_SINGLE_BLOCK OR SDHOST_READ" a 512 1 thesis] unfolding or.assoc by blast
  have "h_phase h1 = Reading a 0" "length (h_blocks h1 a) = 128" using c(3,4) less(3) by (simp_all add: cmd_phase_def blocks_ok_def)
  then obtain ws d2 m where w: "read_words 128 d1 = (ws, d2)" "obeys (h1\<lparr>h_phase := Reading a 128, h_data := m\<rparr>) d2" "\<not> h_fail h1 \<longrightarrow> ws = h_blocks h a"
    using read_words_ok [OF c(2), of a 0 128] c(3,5) by auto
  obtain d3 h3 where t: "transfer_status d2 = (\<not> h_fail h1, d3)" "obeys h3 d3" "h_blocks h3 = h_blocks h" "h_faults h3 \<le> h_faults h1"
    using w(2) by (rule transfer_status_ok) (simp add: c(3))
  show ?case
  proof (cases "h_fail h1")
    case False
    then show ?thesis using c(1) w t by (subst read_loop.simps) auto
  next
    case True
    then have "h_faults h3 < h_faults h" using c(6) t(4) by simp
    then show ?thesis using less(1) [OF _ t(2)] less(3) t(1,3) c(1) w(1) True by (subst read_loop.simps) simp
  qed
qed

lemma write_loop_ok:
  "obeys h d \<Longrightarrow> blocks_ok (h_blocks h) \<Longrightarrow> length ws = 128 \<Longrightarrow>
   \<exists>d' h'. write_loop a ws d = Some d' \<and> obeys h' d' \<and> h_blocks h' = (h_blocks h)(a := ws)"
proof (induction "h_faults h" arbitrary: h d rule: less_induct)
  case less
  obtain r d1 h1 where c: "sd_cmd (WRITE_SINGLE_BLOCK OR SDHOST_WRITE) a (set_block 512 1 d) = (r, d1)" "obeys h1 d1" "h_blocks h1 = h_blocks h"
    "h_phase h1 = cmd_phase (WRITE_SINGLE_BLOCK OR SDHOST_WRITE OR SDHOST_NEW_CMD) a" "h_data h1 < POLLS" "h_faults h = (if h_fail h1 then Suc (h_faults h1) else h_faults h1)"
    using sd_cmd_ok [OF set_block_ok [OF less(2)], of "WRITE_SINGLE_BLOCK OR SDHOST_WRITE" a 512 1 thesis] unfolding or.assoc by blast
  have "h_phase h1 = Writing a []" using c(4) by (simp add: cmd_phase_def WRITE_SINGLE_BLOCK_def READ_SINGLE_BLOCK_def SDHOST_WRITE_def SDHOST_READ_def SDHOST_NEW_CMD_def)
  then obtain blk m where w: "obeys (h1\<lparr>h_phase := Idle, h_data := m, h_blocks := (h_blocks h1)(a := blk)\<rparr>) (write_words ws d1)" "length blk = 128" "\<not> h_fail h1 \<longrightarrow> blk = ws"
    using write_words_ok [OF c(2), of a "[]" ws] c(5) less(4) by fastforce
  obtain d3 h3 where t: "transfer_status (write_words ws d1) = (\<not> h_fail h1, d3)" "obeys h3 d3" "h_blocks h3 = (h_blocks h)(a := blk)" "h_faults h3 \<le> h_faults h1"
    using w(1) by (rule transfer_status_ok) (simp add: c(3))
  show ?case
  proof (cases "h_fail h1")
    case False
    then show ?thesis using c(1) w t by (subst write_loop.simps) auto
  next
    case True
    then have "h_faults h3 < h_faults h" "blocks_ok (h_blocks h3)" using c(6) t(3,4) less(3) w(2) by (simp_all add: blocks_ok_def)
    then show ?thesis using less(1) [OF _ t(2)] less(4) t(1,3) c(1) True by (subst write_loop.simps) simp
  qed
qed

section \<open>A card\<close>

text \<open>The device holds a card with the blocks \<open>B\<close>, by address.\<close>

definition card_at :: "(u32 \<Rightarrow> u32 list) \<Rightarrow> device \<Rightarrow> bool" where
  "card_at B d \<longleftrightarrow> blocks_ok B \<and> (\<exists>h. obeys h d \<and> h_blocks h = B)"

lemma readblock_card:
  assumes "card_at B d"
  shows "\<exists>d'. readblock hcs i d = Some (B (block_addr hcs i), d') \<and> card_at B d'"
proof -
  obtain h where h: "obeys h d" "h_blocks h = B" "blocks_ok (h_blocks h)" using assms by (auto simp: card_at_def)
  obtain d1 h1 where r: "read_loop (block_addr hcs i) d = Some (B (block_addr hcs i), d1)" "obeys h1 d1" "h_blocks h1 = B" using read_loop_ok [OF h(1,3)] h(2) by blast
  obtain d2 where "wait_finish d1 = Some d2" "obeys (h1\<lparr>h_fin := 0\<rparr>) d2" using wait_finish_ok [OF r(2)] by blast
  then show ?thesis using r(1,3) h(2,3) by (auto simp: readblock_def card_at_def intro!: exI [of _ "h1\<lparr>h_fin := 0\<rparr>"])
qed

lemma writeblock_card:
  assumes "card_at B d" "length ws = 128"
  shows "\<exists>d'. writeblock hcs i ws d = Some d' \<and> card_at (B(block_addr hcs i := ws)) d'"
proof -
  obtain h where h: "obeys h d" "h_blocks h = B" "blocks_ok (h_blocks h)" using assms(1) by (auto simp: card_at_def)
  obtain d1 h1 where r: "write_loop (block_addr hcs i) ws d = Some d1" "obeys h1 d1" "h_blocks h1 = B(block_addr hcs i := ws)"
    using write_loop_ok [OF h(1,3) assms(2)] h(2) by blast
  obtain d2 where "wait_finish d1 = Some d2" "obeys (h1\<lparr>h_fin := 0\<rparr>) d2" using wait_finish_ok [OF r(2)] by blast
  moreover have "blocks_ok (B(block_addr hcs i := ws))" using h(2,3) assms(2) by (simp add: blocks_ok_def)
  ultimately show ?thesis using r(1,3) by (auto simp: writeblock_def card_at_def intro!: exI [of _ "h1\<lparr>h_fin := 0\<rparr>"])
qed

section \<open>Properties\<close>

text \<open>
  C12: the SD card driver is a block store.  On every device that obeys the protocol, with whatever delays below the polling limit and with finitely many failed transfers, \<open>writeblock\<close> returns and
  replaces exactly the block it is given, and a later \<open>readblock\<close> returns this block, and every other block is read as before.
\<close>

theorem sd_block_store:
  assumes "card_at B d" "length ws = 128"
  shows "\<exists>d'. writeblock hcs i ws d = Some d'
     \<and> (\<forall>j. \<exists>d''. readblock hcs j d' = Some (if block_addr hcs j = block_addr hcs i then ws else B (block_addr hcs j), d'') \<and> card_at (B(block_addr hcs i := ws)) d'')"
proof -
  obtain d' where w: "writeblock hcs i ws d = Some d'" "card_at (B(block_addr hcs i := ws)) d'" using writeblock_card [OF assms] by blast
  have "\<exists>d''. readblock hcs j d' = Some (if block_addr hcs j = block_addr hcs i then ws else B (block_addr hcs j), d'') \<and> card_at (B(block_addr hcs i := ws)) d''" for j
    using readblock_card [OF w(2), of hcs j] by simp
  then show ?thesis using w(1) by blast
qed

text \<open>A device without delays that fails the next \<open>h_faults\<close> transfers.\<close>

fun sample_get :: "host \<Rightarrow> u64 \<Rightarrow> u32 \<times> host" where
  "sample_get h r =
     (if r = SDHOST_HSTS then (if h_fail h then 0xf9 else 1, h)
      else if r = SDHOST_DBG then (1, h)
      else if r = SDHOST_DATA then
        (case h_phase h of Reading a i \<Rightarrow> (h_blocks h a ! i, h\<lparr>h_phase := Reading a (i + 1)\<rparr>) | _ \<Rightarrow> (0, h))
      else (0, h))"

fun sample_set :: "host \<Rightarrow> u64 \<Rightarrow> u32 \<Rightarrow> host" where
  "sample_set h r v =
     (if r = SDHOST_ARG then h\<lparr>h_arg := v\<rparr>
      else if r = SDHOST_CMD then h\<lparr>h_phase := cmd_phase v (h_arg h), h_fail := (0 < h_faults h), h_faults := h_faults h - 1\<rparr>
      else if r = SDHOST_HSTS then h\<lparr>h_fail := False\<rparr>
      else if r = SDHOST_DATA then
        (case h_phase h of
           Writing a ws \<Rightarrow> (if Suc (length ws) < 128 then h\<lparr>h_phase := Writing a (ws @ [v])\<rparr>
             else h\<lparr>h_phase := Idle, h_blocks := (h_blocks h)(a := take 128 (ws @ [v]))\<rparr>)
         | _ \<Rightarrow> h)
      else h)"

primcorec sample :: "host \<Rightarrow> device" where
  "dev_get (sample h) = (\<lambda>r. map_prod id sample (sample_get h r))"
| "dev_set (sample h) = (\<lambda>r v. sample (sample_set h r v))"

definition prompt :: "host \<Rightarrow> bool" where
  "prompt h \<longleftrightarrow> h_busy h = 0 \<and> h_data h = 0 \<and> h_fin h = 0"

lemma sample_get_ok: "prompt h \<Longrightarrow> host_get h r (fst (sample_get h r)) (snd (sample_get h r)) \<and> prompt (snd (sample_get h r))"
  by (cases h; cases "h_phase h")
    (auto simp: host_get_def prompt_def POLLS_def sd_regs SDHOST_NEW_CMD_def SDHOST_HSTS_DATA_def SDHOST_HSTS_ERR_MASK_def SDHOST_DBG_FSM_MASK_def split: phase.splits)

lemma sample_put_ok:
  assumes "prompt h" "h_phase h = Writing a ws" "\<not> Suc (length ws) < 128"
  shows "host_put h v (h\<lparr>h_phase := Idle, h_blocks := (h_blocks h)(a := take 128 (ws @ [v]))\<rparr>)"
proof -
  have "length (take 128 (ws @ [v])) = 128" "Suc (length ws) = 128 \<Longrightarrow> take 128 (ws @ [v]) = ws @ [v]" using assms(3) by simp_all
  moreover have "h\<lparr>h_phase := Idle, h_data := 0, h_blocks := f\<rparr> = h\<lparr>h_phase := Idle, h_blocks := f\<rparr>" for f using assms(1) by (intro host.equality) (simp_all add: prompt_def)
  moreover have "0 < POLLS" by (simp add: POLLS_def)
  ultimately show ?thesis unfolding host_put_def assms(2) phase.case using assms(3) by metis
qed

lemma sample_set_ok:
  assumes "prompt h"
  shows "host_set h r v (sample_set h r v) \<and> prompt (sample_set h r v)"
proof (cases "r = SDHOST_DATA")
  case True
  then show ?thesis using assms sample_put_ok [OF assms]
    by (cases h; cases "h_phase h") (auto simp: host_set_def host_put_def prompt_def POLLS_def sd_regs)
next
  case False
  then show ?thesis using assms by (auto simp: host_set_def host_cmd_def prompt_def POLLS_def sd_regs)
qed

lemma sample_obeys: "prompt h \<Longrightarrow> obeys h (sample h)"
proof (coinduction arbitrary: h)
  case obeys
  note g = sample_get_ok [OF obeys] and st = sample_set_ok [OF obeys]
  show ?case
    by (rule exI [of _ h], rule exI [of _ "sample h"], simp del: sample_get.simps sample_set.simps) (use g st in blast)
qed

definition fresh_card :: host where
  "fresh_card = \<lparr>h_blocks = (\<lambda>a. replicate 128 a), h_arg = 0, h_phase = Idle, h_busy = 0, h_data = 0, h_fin = 0, h_fail = False, h_faults = 2\<rparr>"

theorem sd_block_store_witness:
  "\<exists>d'. writeblock 0 7 (replicate 128 5) (sample fresh_card) = Some d' \<and> (\<exists>d''. readblock 0 7 d' = Some (replicate 128 5, d''))
     \<and> (\<exists>d''. readblock 0 8 d' = Some (replicate 128 (8 * 512), d''))"
proof -
  have "card_at (h_blocks fresh_card) (sample fresh_card)"
    using sample_obeys [of fresh_card] by (auto simp: card_at_def blocks_ok_def fresh_card_def prompt_def)
  then obtain d' where w: "writeblock 0 7 (replicate 128 5) (sample fresh_card) = Some d'"
    "\<forall>j. \<exists>d''. readblock 0 j d' = Some (if block_addr 0 j = block_addr 0 7 then replicate 128 5 else h_blocks fresh_card (block_addr 0 j), d'')
       \<and> card_at ((h_blocks fresh_card)(block_addr 0 7 := replicate 128 5)) d''"
    using sd_block_store [of "h_blocks fresh_card" "sample fresh_card" "replicate 128 5" 0 7] by auto
  have "block_addr 0 7 \<noteq> block_addr 0 8" "h_blocks fresh_card (block_addr 0 8) = replicate 128 (8 * 512)" by (simp_all add: block_addr_def fresh_card_def)
  then show ?thesis using w(1) spec [OF w(2), of 7] spec [OF w(2), of 8] by auto
qed

end
