(* ===== verification/Mem_Budget.thy ===== *)
theory Mem_Budget
  imports Dyn_Props
begin

text \<open>
  When an allocation is certain to succeed: the pages that live memory can occupy are counted, and while there are fewer of
  them than pages, a page is free.  Clients of the allocator use this to know that a whole series of small allocations succeeds.
\<close>

definition pages_of :: "nat \<times> nat \<Rightarrow> nat" where
  "pages_of x = (snd x + 4095) div 4096"

definition mem_used :: "(nat \<times> nat) set \<Rightarrow> nat" where
  "mem_used L = (\<Sum>x\<in>L. pages_of x)"

text \<open>At least \<open>k\<close> more requests of at most one page each can be served.\<close>

definition spare :: "'a dyn_data_scheme \<Rightarrow> (nat \<times> nat) set \<Rightarrow> nat \<Rightarrow> bool" where
  "spare s L k \<longleftrightarrow> mem_used L + k \<le> 2 ^ num_pages_exp s"

lemma live_finite:
  assumes "dyn_live s L"
  shows "finite L"
proof -
  obtain PL C where R: "dyn_rel PL C s" and L: "L = live_ranges PL C s" using assms by (auto simp: dyn_live_def)
  have "L \<subseteq> {..2 ^ num_pages_exp s * 4096} \<times> {..2 ^ num_pages_exp s * 4096}"
  proof
    fix x assume "x \<in> L"
    then obtain i e where u: "used_at (arr s) i e" "e \<le> num_pages_exp s" "fst x + snd x \<le> (i + 2 ^ e) * 4096"
      using live_block_kind [OF R] L by blast
    have "is_head (arr s) i" "bexp (arr s ! i) = e" using u(1,2) dyn_pages(1) [OF R] by (auto simp: used_at_def is_head_def)
    then have "i + 2 ^ e \<le> 2 ^ num_pages_exp s" using block_fits [OF dyn_pages(2) [OF R]] by metis
    then have "(i + 2 ^ e) * 4096 \<le> 2 ^ num_pages_exp s * 4096" by (rule mult_le_mono1)
    then have "fst x \<le> 2 ^ num_pages_exp s * 4096" "snd x \<le> 2 ^ num_pages_exp s * 4096" using u(3) by linarith+
    then show "x \<in> {..2 ^ num_pages_exp s * 4096} \<times> {..2 ^ num_pages_exp s * 4096}" by (cases x) simp
  qed
  then show ?thesis by (rule finite_subset) simp
qed

lemma page_touched:
  assumes R: "dyn_rel PL C s" and none: "\<And>i e. free_at (arr s) i e \<Longrightarrow> e \<le> num_pages_exp s \<Longrightarrow> False" and j: "j < 2 ^ num_pages_exp s"
  shows "\<exists>x \<in> live_ranges PL C s. fst x div 4096 \<le> j \<and> j < fst x div 4096 + pages_of x"
proof -
  let ?a = "arr s"
  note P = dyn_pages [OF R]
  obtain i where c: "covers ?a i j" using part_okD(5) [OF P(2) j] by blast
  define e where "e = bexp (?a ! i)"
  have h: "is_head ?a i" "i \<le> j" "j < i + 2 ^ e" "e \<le> num_pages_exp s"
    using c part_okD(3) [OF P(2)] by (auto simp: covers_def e_def)
  have "?a ! i < 0"
    using none [of i e] nonneg_is_int [of "?a ! i"] h(1,4) by (force simp: free_at_def is_head_def e_def)
  then have u: "used_at ?a i e" using neg_is_neg_exp h(1,4) P(1) by (auto simp: used_at_def is_head_def e_def)
  show ?thesis
  proof (cases "i \<in> pooled PL")
    case True
    then obtain k where k: "k < 8" "i \<in> set (PL k)" by (auto simp: pooled_def)
    obtain c where c: "c \<in> C i" "c < 2 ^ (8 - k)" using dyn_relD(7) [OF R k] by (auto simp: node_ok_def)
    have "neg_exp e = neg_exp 0" using u dyn_relD(6) [OF R k] by (simp add: used_at_def)
    then have "e = 0" using neg_exp_inj [of e 0] h(4) P(1) by simp
    moreover have "0 < (2::nat) ^ (k + 4)" by simp
    then have lt: "c * 2 ^ (k + 4) < (4096::nat)" using chunk_in_page [OF k(1) c(2)] by linarith
    then have "fst (chunk_range k i c) div 4096 = i" by (simp add: chunk_range_def)
    moreover have "0 < pages_of (chunk_range k i c)" by (simp add: chunk_range_def pages_of_def div_greater_zero_iff)
    ultimately have "fst (chunk_range k i c) div 4096 \<le> j" "j < fst (chunk_range k i c) div 4096 + pages_of (chunk_range k i c)"
      using h(2,3) by simp_all
    moreover have "chunk_range k i c \<in> live_ranges PL C s" using k c by (auto simp: live_ranges_def)
    ultimately show ?thesis by blast
  next
    case False
    then have "block_range i e \<in> live_ranges PL C s" using u h(4) by (auto simp: live_ranges_def)
    moreover have "fst (block_range i e) div 4096 = i" "pages_of (block_range i e) = 2 ^ e" by (simp_all add: block_range_def pages_of_def)
    ultimately show ?thesis using h(2,3) by metis
  qed
qed

text \<open>While the live ranges occupy fewer pages than there are, a page is free.\<close>

lemma spare_room:
  assumes L: "dyn_live s L" and "spare s L (Suc k)" and n: "n \<le> 4096"
  shows "has_room s n"
proof (rule ccontr)
  assume no: "\<not> has_room s n"
  obtain PL C where R: "dyn_rel PL C s" and LL: "L = live_ranges PL C s" using L by (auto simp: dyn_live_def)
  have none: False if "free_at (arr s) i e" "e \<le> num_pages_exp s" for i e
  proof -
    have "n \<le> 2 ^ e * 4096" using n order_trans [of n 4096 "2 ^ e * 4096"] by simp
    moreover have "i < length (arr s)" using that(1) by (simp add: free_at_def)
    ultimately show False using no that unfolding has_room_def by blast
  qed
  let ?T = "\<lambda>x. {fst x div 4096..<fst x div 4096 + pages_of x}"
  have "{..<2 ^ num_pages_exp s} \<subseteq> (\<Union>x\<in>L. ?T x)"
    using page_touched [OF R none] LL by fastforce
  moreover have fin: "finite (\<Union>x\<in>L. ?T x)" using live_finite [OF L] by simp
  ultimately have "card {..<(2::nat) ^ num_pages_exp s} \<le> card (\<Union>x\<in>L. ?T x)" by (intro card_mono)
  then have "2 ^ num_pages_exp s \<le> card (\<Union>x\<in>L. ?T x)" by simp
  also have "\<dots> \<le> (\<Sum>x\<in>L. card (?T x))" using live_finite [OF L] by (rule card_UN_le)
  also have "\<dots> = mem_used L" by (simp add: mem_used_def)
  finally show False using assms(2) by (simp add: spare_def)
qed

lemma spare_mono: "spare s L k \<Longrightarrow> j \<le> k \<Longrightarrow> spare s L j"
  by (simp add: spare_def)

lemma spare_insert:
  assumes "dyn_live s' (insert x L)" "spare s L (Suc k)" "num_pages_exp s' = num_pages_exp s" "snd x \<le> 4096"
  shows "spare s' (insert x L) k"
proof -
  have "finite L" using live_finite [OF assms(1)] by simp
  moreover have "pages_of x \<le> 1" using assms(4) by (simp add: pages_of_def)
  ultimately have "mem_used (insert x L) \<le> mem_used L + 1" by (cases "x \<in> L") (auto simp: mem_used_def insert_absorb)
  then show ?thesis using assms(2,3) by (simp add: spare_def)
qed

lemma spare_remove:
  assumes "dyn_live s L" "spare s L k" "num_pages_exp s' = num_pages_exp s"
  shows "spare s' (L - {x}) k"
proof -
  have "mem_used (L - {x}) \<le> mem_used L"
    using live_finite [OF assms(1)] by (auto simp: mem_used_def intro!: sum_mono2)
  then show ?thesis using assms(2,3) by (simp add: spare_def)
qed

text \<open>Releasing a range gives back the page that it may have occupied.\<close>

lemma spare_release:
  assumes "dyn_live s L" "x \<in> L" "spare s L k" "num_pages_exp s' = num_pages_exp s" "0 < snd x"
  shows "spare s' (L - {x}) (Suc k)"
proof -
  have "1 \<le> pages_of x" using assms(5) by (simp add: pages_of_def)
  moreover have "mem_used L = pages_of x + mem_used (L - {x})"
    unfolding mem_used_def using live_finite [OF assms(1)] assms(2) by (rule sum.remove)
  ultimately show ?thesis using assms(3,4) by (simp add: spare_def)
qed

text \<open>A range of more than half a page is a block of pages: it starts at a page.\<close>

lemma block_aligned:
  assumes L: "dyn_live s L" and x: "x \<in> L" "2048 < snd x"
  shows "4096 dvd fst x"
proof -
  obtain PL C where R: "dyn_rel PL C s" and LL: "L = live_ranges PL C s" using L by (auto simp: dyn_live_def)
  from x(1) [unfolded LL] show ?thesis
  proof (cases rule: live_range_cases)
    case (chunk k i c)
    then have "snd x \<le> 2 ^ (7 + 4)" using power_increasing [of "k + 4" "7 + 4" "2::nat"] by (auto simp: chunk_range_def)
    then show ?thesis using x(2) by simp
  qed (simp add: block_range_def)
qed

end
