(* ===== verification/List_Correct.thy ===== *)
theory List_Correct
  imports Kernel_List Mem_Budget Dll
begin

text \<open>
  The list of \<open>list.c\<close> implements sequences: every operation ends, touches no node of another list, and acts
  on the contents like the corresponding function on lists.  The allocator is used through the
  laws of its interface only.
\<close>

section \<open>Representation\<close>

definition lp :: "(u64 \<rightharpoonup> node) \<Rightarrow> u64 \<Rightarrow> u64 option" where
  "lp m a = (case m a of None \<Rightarrow> None | Some n \<Rightarrow> n_prev n)"

definition ln :: "(u64 \<rightharpoonup> node) \<Rightarrow> u64 \<Rightarrow> u64 option" where
  "ln m a = (case m a of None \<Rightarrow> None | Some n \<Rightarrow> n_next n)"

text \<open>The list \<open>l\<close> has its nodes at the addresses \<open>as\<close> and holds the values \<open>vs\<close>.\<close>

definition list_at :: "(u64 \<rightharpoonup> node) \<Rightarrow> klist \<Rightarrow> u64 list \<Rightarrow> u64 list \<Rightarrow> bool" where
  "list_at m l as vs \<longleftrightarrow> dll (lp m) (ln m) (head l) as (tail l) \<and> distinct as
     \<and> map (\<lambda>a. map_option n_ptr (m a)) as = map Some vs"

text \<open>The nodes lie in live memory.\<close>

definition node_heap :: "'a list_data_scheme \<Rightarrow> (nat \<times> nat) set \<Rightarrow> bool" where
  "node_heap s L \<longleftrightarrow> dyn_live s L \<and> (\<exists>N \<subseteq> L. dom (list_nodes s) = kptr ` N)"

definition list_outside :: "'a list_data_scheme \<Rightarrow> 'a list_data_scheme \<Rightarrow> bool" where
  "list_outside s s' \<longleftrightarrow> irq_nested_count s' = irq_nested_count s \<and> daif_masked s' = daif_masked s
     \<and> console s' = console s \<and> usr_pages s' = usr_pages s \<and> num_pages_exp s' = num_pages_exp s
     \<and> list_data.more s' = list_data.more s"

lemma list_at_frame:
  "list_at m l as vs \<Longrightarrow> (\<And>a. a \<in> set as \<Longrightarrow> m' a = m a) \<Longrightarrow> list_at m' l as vs"
  using dseg_frame [of as "lp m'" "lp m" "ln m'" "ln m"]
  by (auto simp: list_at_def lp_def ln_def cong: map_cong)

lemma list_at_node:
  assumes "list_at m l (as @ a # bs) (vs @ v # ws)" "length as = length vs"
  obtains n where "m a = Some n" "n_ptr n = v" "n_prev n = (if as = [] then None else Some (last as))"
    "n_next n = (if bs = [] then None else Some (hd bs))"
proof -
  obtain n where n: "m a = Some n" "n_ptr n = v"
    using assms by (auto simp: list_at_def)
  have "dll (lp m) (ln m) (head l) (as @ a # bs) (tail l)" using assms(1) by (simp add: list_at_def)
  then have "lp m a = (if as = [] then None else Some (last as))" "ln m a = (if bs = [] then None else Some (hd bs))"
    by (rule dll_nth_prev, rule dll_nth_next)
  then show ?thesis using n by (intro that) (auto simp: lp_def ln_def)
qed

lemma list_at_head: "list_at m l as vs \<Longrightarrow> head l = (if as = [] then None else Some (hd as))"
  unfolding list_at_def using dseg_first by fastforce

lemma list_at_length: "list_at m l as vs \<Longrightarrow> length as = length vs"
  unfolding list_at_def by (metis length_map)

lemma list_at_dom: "list_at m l as vs \<Longrightarrow> set as \<subseteq> dom m"
proof
  fix a assume A: "list_at m l as vs" and "a \<in> set as"
  have "set (map (\<lambda>a. map_option n_ptr (m a)) as) = set (map Some vs)" using A by (simp only: list_at_def)
  then have "map_option n_ptr (m a) \<in> Some ` set vs" using \<open>a \<in> set as\<close> by auto
  then show "a \<in> dom m" by (cases "m a") auto
qed

lemma links_upd [simp]:
  "lp (m(a \<mapsto> n)) = (lp m)(a := n_prev n)" "ln (m(a \<mapsto> n)) = (ln m)(a := n_next n)"
  "lp (m(a := None)) = (lp m)(a := None)" "ln (m(a := None)) = (ln m)(a := None)"
  by (auto simp: lp_def ln_def)

section \<open>Nodes in memory\<close>

lemma dyn_live_nodes [simp]: "dyn_live (s\<lparr>list_nodes := m\<rparr>) L = dyn_live s L"
  by (simp add: dyn_live_def dyn_rel_def buddy_ok_def irq_ok_def live_ranges_def)

lemma dyn_live_int:
  "dyn_live s L \<Longrightarrow> dyn_live (disable_int s) L"
  "dyn_live s L \<Longrightarrow> daif_masked s \<Longrightarrow> dyn_live (enable_int s) L"
  unfolding dyn_live_def using dyn_rel_int dyn_rel_enable by metis+

lemma dyn_live_range:
  assumes "dyn_live s L" "x \<in> L"
  shows "0 < snd x" "fst x < 2 ^ 42"
proof -
  obtain PL C where R: "dyn_rel PL C s" and x: "x \<in> live_ranges PL C s" using assms by (auto simp: dyn_live_def)
  show "0 < snd x" using x by (cases rule: live_range_cases) (auto simp: chunk_range_def block_range_def)
  obtain i e where i: "used_at (arr s) i e" "e \<le> num_pages_exp s" "fst x + snd x \<le> (i + 2 ^ e) * 4096"
    using live_block_kind [OF R x] by blast
  have "i + 2 ^ e \<le> 2 ^ num_pages_exp s"
    using block_fits [OF dyn_pages(2) [OF R], of i] i(1,2) dyn_pages(1) [OF R] by (simp add: used_at_def is_head_def)
  moreover have "(2::nat) ^ num_pages_exp s \<le> 2 ^ 30" using dyn_pages(1) [OF R] by (intro power_increasing) auto
  ultimately have "(i + 2 ^ e) * 4096 \<le> 2 ^ 42" by simp
  then show "fst x < 2 ^ 42" using i(3) \<open>0 < snd x\<close> by linarith
qed

lemma kptr_inj: "dyn_live s L \<Longrightarrow> inj_on kptr L"
proof (rule inj_onI, rule ccontr)
  fix x y assume L: "dyn_live s L" and xy: "x \<in> L" "y \<in> L" "kptr x = kptr y" "x \<noteq> y"
  have "unat (of_nat (fst x) :: u64) = fst x" "unat (of_nat (fst y) :: u64) = fst y"
    using dyn_live_range(2) [OF L xy(1)] dyn_live_range(2) [OF L xy(2)] by (simp_all add: unat_of_nat_small)
  then have "fst x = fst y" using xy(3) by (metis add_right_cancel kptr_def p2v_trans_kernel_def)
  then have "fst x \<in> range_of x \<inter> range_of y"
    using dyn_live_range(1) [OF L xy(1)] dyn_live_range(1) [OF L xy(2)] by (simp add: range_of_def)
  then show False using heap.apart_law [OF L xy(1,2,4)] by blast
qed

lemma kptr_not_null: "dyn_live s L \<Longrightarrow> x \<in> L \<Longrightarrow> kptr x \<noteq> 0"
proof
  assume "dyn_live s L" "x \<in> L" and 0: "kptr x = 0"
  then have lt: "fst x < 2 ^ 42" using dyn_live_range(2) by blast
  then have u: "unat (of_nat (fst x) :: u64) = fst x" by (simp add: unat_of_nat_small)
  have "of_nat (fst x) = (0x0001000000000000 :: u64)"
    using 0 by (simp add: kptr_def p2v_trans_kernel_def V_KERNEL_SPACE_def eq_neg_iff_add_eq_0 [symmetric])
  then show False using u lt by simp
qed

lemma more_nodes: "dyn_data.more s' = dyn_data.more s \<Longrightarrow> list_nodes s' = list_nodes s \<and> list_data.more s' = list_data.more s"
  by (cases s; cases s') simp

lemma calloc_node_ok:
  assumes "node_heap s L" "has_room s 24"
  shows "\<exists>x s'. calloc_node s = Some (kptr x, s') \<and> x \<notin> L \<and> node_heap s' (insert x L) \<and> kptr x \<notin> dom (list_nodes s) \<and> snd x \<le> 48
     \<and> list_nodes s' = (list_nodes s)(kptr x \<mapsto> \<lparr>n_ptr = 0, n_prev = None, n_next = None\<rparr>) \<and> list_outside s s'"
proof -
  obtain N where N: "N \<subseteq> L" "dom (list_nodes s) = kptr ` N" using assms(1) by (auto simp: node_heap_def)
  obtain x s1 where x: "malloc 24 s = Some (kptr x, s1)" "x \<notin> L" "dyn_live s1 (insert x L)" "outside s s1" "snd x \<le> 48"
    using heap.alloc_law [of s L 24] assms by (auto simp: node_heap_def)
  let ?s = "s1\<lparr>list_nodes := (list_nodes s1)(kptr x \<mapsto> \<lparr>n_ptr = 0, n_prev = None, n_next = None\<rparr>)\<rparr>"
  have m: "list_nodes s1 = list_nodes s" "list_data.more s1 = list_data.more s" using more_nodes outsideD(5) [OF x(4)] by auto
  have "kptr x \<noteq> 0" using kptr_not_null [OF x(3)] by simp
  then have "calloc_node s = Some (kptr x, ?s)" using x(1) by (simp add: calloc_node_def)
  moreover have "kptr x \<notin> dom (list_nodes s)"
    using kptr_inj [OF x(3)] x(2) N by (auto simp: inj_on_def)
  moreover have "node_heap ?s (insert x L)"
    unfolding node_heap_def using x(3) N m by (auto intro!: exI [of _ "insert x N"])
  moreover have "list_outside s ?s" using outsideD [OF x(4)] m by (simp add: list_outside_def)
  ultimately show ?thesis using x(2,5) m by (intro exI [of _ x] exI [of _ ?s]) simp
qed

lemma free_node_ok:
  assumes "node_heap s L" "p \<in> dom (list_nodes s)"
  shows "\<exists>x s'. x \<in> L \<and> p = kptr x \<and> free_node p s = Some s' \<and> node_heap s' (L - {x})
     \<and> list_nodes s' = (list_nodes s)(p := None) \<and> list_outside s s'"
proof -
  obtain N where N: "N \<subseteq> L" "dom (list_nodes s) = kptr ` N" using assms(1) by (auto simp: node_heap_def)
  then obtain x where x: "x \<in> N" "p = kptr x" using assms(2) by auto
  have L: "dyn_live s L" using assms(1) by (simp add: node_heap_def)
  obtain s1 where s1: "free (kptr x) s = Some s1" "dyn_live s1 (L - {x})" "outside s s1"
    using heap.release_law [OF L] x N by blast
  let ?s = "s1\<lparr>list_nodes := (list_nodes s1)(p := None)\<rparr>"
  have m: "list_nodes s1 = list_nodes s" "list_data.more s1 = list_data.more s" using more_nodes outsideD(5) [OF s1(3)] by auto
  have "free_node p s = Some ?s" using s1(1) x by (simp add: free_node_def)
  moreover have "dom (list_nodes ?s) = kptr ` (N - {x})"
  proof -
    have "kptr ` (N - {x}) = kptr ` N - {kptr x}"
      using inj_on_subset [OF kptr_inj [OF L] N(1)] x(1) by (auto simp: inj_on_def)
    then show ?thesis using m N x by auto
  qed
  moreover have "N - {x} \<subseteq> L - {x}" using N by blast
  ultimately have "node_heap ?s (L - {x})" using s1(2) unfolding node_heap_def by auto
  moreover have "list_outside s ?s" using outsideD [OF s1(3)] m by (simp add: list_outside_def)
  ultimately show ?thesis using x N m \<open>free_node p s = Some ?s\<close> by (intro exI [of _ x] exI [of _ ?s]) auto
qed

lemma upd_lnode_Some [simp]:
  "list_nodes s p = Some n \<Longrightarrow> upd_lnode p f s = Some (s\<lparr>list_nodes := (list_nodes s)(p \<mapsto> f n)\<rparr>)"
  by (simp add: upd_lnode_def)

lemma nodes_int [simp]:
  "list_nodes (disable_int s) = list_nodes s" "list_nodes (enable_int s) = list_nodes s" "list_nodes (print_msg x s) = list_nodes s"
  by (simp_all add: disable_int_def enable_int_def print_msg_def Let_def)

lemma node_heap_int:
  "node_heap s L \<Longrightarrow> node_heap (disable_int s) L"
  "node_heap s L \<Longrightarrow> daif_masked s \<Longrightarrow> node_heap (enable_int s) L"
  by (simp_all add: node_heap_def dyn_live_int)

lemma node_heap_irq: "node_heap s L \<Longrightarrow> irq_ok s"
  by (auto simp: node_heap_def dyn_live_def dyn_rel_def buddy_ok_def)

lemma node_heap_nodes: "node_heap s L \<Longrightarrow> dom m = dom (list_nodes s) \<Longrightarrow> node_heap (s\<lparr>list_nodes := m\<rparr>) L"
  by (simp add: node_heap_def)

lemma list_outside_upd [simp]:
  "list_outside s (s'\<lparr>list_nodes := m\<rparr>) = list_outside s s'" "list_outside (s\<lparr>list_nodes := m\<rparr>) s' = list_outside s s'"
  "list_outside s s"
  by (auto simp: list_outside_def)

lemma list_outside_trans: "list_outside s s1 \<Longrightarrow> list_outside s1 s2 \<Longrightarrow> list_outside s s2"
  by (simp add: list_outside_def)

lemma list_outside_critical: "irq_ok s \<Longrightarrow> list_outside (disable_int s) s' \<Longrightarrow> list_outside s (enable_int s')"
  by (auto simp: list_outside_def irq_ok_def enable_int_def disable_int_def Let_def)

lemma list_outside_masked: "list_outside (disable_int s) s' \<Longrightarrow> daif_masked s'"
  by (simp add: list_outside_def)

lemma leave_critical:
  "irq_ok s \<Longrightarrow> node_heap t L \<Longrightarrow> list_outside (disable_int s) t \<Longrightarrow> node_heap (enable_int t) L \<and> list_outside s (enable_int t)"
  using list_outside_critical list_outside_masked node_heap_int(2) by blast

lemma has_room_int [simp]: "has_room (disable_int s) n = has_room s n"
  by (simp add: has_room_def)

section \<open>Operations\<close>

lemma list_push_ok:
  assumes H: "node_heap s L" and room: "has_room s 24" and A: "list_at (list_nodes s) l as vs"
  shows "\<exists>x l' s'. list_push l v s = Some (l', s') \<and> x \<notin> L \<and> node_heap s' (insert x L) \<and> kptr x \<notin> dom (list_nodes s) \<and> snd x \<le> 48
     \<and> list_at (list_nodes s') l' (as @ [kptr x]) (vs @ [v])
     \<and> (\<forall>b. b \<notin> set as \<longrightarrow> b \<noteq> kptr x \<longrightarrow> list_nodes s' b = list_nodes s b) \<and> list_outside s s'"
proof -
  let ?s = "disable_int s"
  obtain x s1 where x: "calloc_node ?s = Some (kptr x, s1)" "x \<notin> L" "node_heap s1 (insert x L)" "kptr x \<notin> dom (list_nodes s)"
    "list_nodes s1 = (list_nodes s)(kptr x \<mapsto> \<lparr>n_ptr = 0, n_prev = None, n_next = None\<rparr>)" "list_outside ?s s1" "snd x \<le> 48"
    using calloc_node_ok [OF node_heap_int(1) [OF H]] room unfolding has_room_int nodes_int by metis
  define a where "a = kptr x"
  define m where "m = (list_nodes s)(a \<mapsto> \<lparr>n_ptr = v, n_prev = None, n_next = None\<rparr>)"
  note crit = leave_critical [OF node_heap_irq [OF H]]
  have as: "a \<notin> set as" "distinct as" using x(4) list_at_dom [OF A] A by (auto simp: a_def list_at_def)
  have D: "dll (lp (list_nodes s)) (ln (list_nodes s)) (head l) as (tail l)" using A by (simp add: list_at_def)
  note B = dll_push_back [OF D as]
  have vals: "map (\<lambda>b. map_option n_ptr (m' b)) (as @ [a]) = map Some (vs @ [v])"
    if "\<And>b. b \<in> set as \<Longrightarrow> map_option n_ptr (m' b) = map_option n_ptr (list_nodes s b)" "map_option n_ptr (m' a) = Some v"
    for m' :: "u64 \<rightharpoonup> node"
  proof -
    have "map (\<lambda>b. map_option n_ptr (m' b)) as = map (\<lambda>b. map_option n_ptr (list_nodes s b)) as" using that(1) by simp
    then show ?thesis using A that(2) unfolding list_at_def by simp
  qed
  show ?thesis
  proof (cases "tail l")
    case None
    let ?t = "s1\<lparr>list_nodes := m\<rparr>" and ?l = "l\<lparr>head := Some a, tail := Some a\<rparr>"
    have "list_push l v s = Some (?l, enable_int ?t)" using x(1,5) None by (simp add: list_push_def a_def m_def)
    moreover have "node_heap (enable_int ?t) (insert x L) \<and> list_outside s (enable_int ?t)"
      using x(3,5,6) by (intro crit node_heap_nodes) (auto simp: m_def a_def)
    moreover have "as = []" using dseg_last [OF D] None by (auto split: if_splits)
    then have "list_at m ?l (as @ [a]) (vs @ [v])"
      using vals [of m] B None by (simp add: list_at_def m_def as)
    ultimately show ?thesis using x(2,4,7)
      by (intro exI [of _ x] exI [of _ ?l] exI [of _ "enable_int ?t"]) (simp add: m_def a_def)
  next
    case (Some b)
    have bas: "b \<in> set as" using dseg_last [OF D] Some by (auto split: if_splits)
    then obtain n where n: "list_nodes s b = Some n" using list_at_dom [OF A] by blast
    have ba: "b \<noteq> a" using bas as by blast
    let ?m = "m(b \<mapsto> n\<lparr>n_next := Some a\<rparr>, a \<mapsto> \<lparr>n_ptr = v, n_prev = Some b, n_next = None\<rparr>)"
    let ?t = "s1\<lparr>list_nodes := ?m\<rparr>" and ?l = "l\<lparr>tail := Some a\<rparr>"
    have "list_push l v s = Some (?l, enable_int ?t)" using x(1,5) Some n ba by (simp add: list_push_def a_def m_def)
    moreover have "node_heap (enable_int ?t) (insert x L) \<and> list_outside s (enable_int ?t)"
      using x(3,5,6) n by (intro crit node_heap_nodes) (auto simp: m_def a_def)
    moreover have "list_at ?m ?l (as @ [a]) (vs @ [v])"
    proof -
      have "lp (list_nodes s) b = n_prev n" using n by (simp add: lp_def)
      then have "lp ?m = (lp (list_nodes s))(a := tail l)" using Some by (auto simp: m_def fun_eq_iff)
      moreover have "ln ?m = (ln (list_nodes s))(a := None, b := Some a)" using ba by (auto simp: m_def fun_eq_iff)
      ultimately have "dll (lp ?m) (ln ?m) (head ?l) (as @ [a]) (tail ?l)" using B Some by simp
      moreover have "map (\<lambda>b. map_option n_ptr (?m b)) (as @ [a]) = map Some (vs @ [v])"
        by (rule vals) (use as ba n in \<open>auto simp: m_def\<close>)
      ultimately show ?thesis unfolding list_at_def using as by (intro conjI) (assumption | simp)+
    qed
    moreover have "?m c = list_nodes s c" if "c \<notin> set as" "c \<noteq> a" for c using that bas by (auto simp: m_def)
    ultimately show ?thesis using x(2,4,7)
      by (intro exI [of _ x] exI [of _ ?l] exI [of _ "enable_int ?t"]) (simp add: a_def)
  qed
qed

lemma list_unlink_ok:
  assumes A: "list_at (list_nodes s) l (as @ a # bs) (vs @ v # ws)" and len: "length as = length vs"
  shows "\<exists>l' m n. list_unlink a l s = Some (l', s\<lparr>list_nodes := m\<rparr>) \<and> dom m = dom (list_nodes s)
     \<and> list_at (m(a := None)) l' (as @ bs) (vs @ ws) \<and> m a = Some n \<and> n_ptr n = v
     \<and> (\<forall>b. b \<notin> set (as @ a # bs) \<longrightarrow> m b = list_nodes s b)"
proof -
  let ?m0 = "list_nodes s"
  obtain n where n: "?m0 a = Some n" "n_ptr n = v" "n_prev n = (if as = [] then None else Some (last as))"
    "n_next n = (if bs = [] then None else Some (hd bs))" using list_at_node [OF A len] .
  have D: "dll (lp ?m0) (ln ?m0) (head l) (as @ a # bs) (tail l)" "distinct (as @ a # bs)" using A by (auto simp: list_at_def)
  note R = dll_remove [OF D]
  have pa: "lp ?m0 a = n_prev n" "ln ?m0 a = n_next n" using n(1) by (simp_all add: lp_def ln_def)
  have dom: "set (as @ a # bs) \<subseteq> dom ?m0" by (rule list_at_dom [OF A])
  define m1 where "m1 = (case n_prev n of None \<Rightarrow> ?m0 | Some p \<Rightarrow> ?m0(p \<mapsto> (the (?m0 p))\<lparr>n_next := n_next n\<rparr>))"
  define m2 where "m2 = (case n_next n of None \<Rightarrow> m1 | Some q \<Rightarrow> m1(q \<mapsto> (the (m1 q))\<lparr>n_prev := n_prev n\<rparr>))"
  define l' where "l' = (let l = (case n_prev n of None \<Rightarrow> l\<lparr>head := n_next n\<rparr> | Some _ \<Rightarrow> l) in
     case n_next n of None \<Rightarrow> l\<lparr>tail := n_prev n\<rparr> | Some _ \<Rightarrow> l)"
  have p: "p \<in> set as \<and> p \<noteq> a \<and> (\<exists>k. ?m0 p = Some k)" if "n_prev n = Some p" for p
  proof -
    have "p \<in> set as" using that n(3) last_in_set [of as] by (auto split: if_splits)
    then show ?thesis using D(2) dom by auto
  qed
  have q: "q \<in> set bs \<and> q \<noteq> a \<and> (\<exists>k. ?m0 q = Some k)" if "n_next n = Some q" for q
  proof -
    have "q \<in> set bs" using that n(4) hd_in_set [of bs] by (auto split: if_splits)
    then show ?thesis using D(2) dom by auto
  qed
  have pq: "p \<noteq> q" if "n_prev n = Some p" "n_next n = Some q" for p q using p [OF that(1)] q [OF that(2)] D(2) by auto
  have m1a: "m1 a = Some n" using n(1) p by (auto simp: m1_def split: option.splits)
  have "list_unlink a l s = Some (l', s\<lparr>list_nodes := m2\<rparr>)"
    using n(1) m1a p q pq by (cases "n_prev n"; cases "n_next n")
      (fastforce simp: list_unlink_def l'_def m1_def m2_def)+
  moreover have "dom m2 = dom ?m0"
    using p q by (cases "n_prev n"; cases "n_next n") (auto simp: m1_def m2_def)
  moreover have ptr: "map_option n_ptr (m2 b) = map_option n_ptr (?m0 b)" for b
    using p q pq by (cases "n_prev n"; cases "n_next n") (fastforce simp: m1_def m2_def)+
  moreover have FP: "lp (m2(a := None)) b = (case ln ?m0 a of None \<Rightarrow> lp ?m0 | Some b \<Rightarrow> (lp ?m0)(b := lp ?m0 a)) b" if "b \<noteq> a" for b
    using p q pq pa that by (cases "n_prev n"; cases "n_next n") (fastforce simp: m1_def m2_def lp_def)+
  moreover have FX: "ln (m2(a := None)) b = (case lp ?m0 a of None \<Rightarrow> ln ?m0 | Some b \<Rightarrow> (ln ?m0)(b := ln ?m0 a)) b" if "b \<noteq> a" for b
    using p q pq pa that by (cases "n_prev n"; cases "n_next n") (fastforce simp: m1_def m2_def ln_def)+
  moreover have HT: "head l' = (case lp ?m0 a of None \<Rightarrow> ln ?m0 a | Some b \<Rightarrow> head l)" "tail l' = (case ln ?m0 a of None \<Rightarrow> lp ?m0 a | Some b \<Rightarrow> tail l)"
    by (auto simp: l'_def pa split: option.splits)
  moreover have "list_at (m2(a := None)) l' (as @ bs) (vs @ ws)"
  proof -
    have "b \<noteq> a" if "b \<in> set (as @ bs)" for b using that D(2) by auto
    then have "dll (lp (m2(a := None))) (ln (m2(a := None))) (head l') (as @ bs) (tail l')"
      unfolding HT using FP FX by (intro dseg_frame [THEN iffD2, OF _ R]) auto
    moreover have "map (\<lambda>b. map_option n_ptr ((m2(a := None)) b)) (as @ bs) = map Some (vs @ ws)"
    proof -
      have "map (\<lambda>b. map_option n_ptr ((m2(a := None)) b)) (as @ bs) = map (\<lambda>b. map_option n_ptr (?m0 b)) (as @ bs)"
        using ptr D(2) by auto
      also have "\<dots> = map Some (vs @ ws)" using A len by (simp add: list_at_def)
      finally show ?thesis .
    qed
    moreover have "distinct (as @ bs)" using D(2) by auto
    ultimately show ?thesis unfolding list_at_def by blast
  qed
  moreover have "\<exists>k. m2 a = Some k \<and> n_ptr k = v" using ptr [of a] n(1,2) by auto
  moreover have "m2 b = ?m0 b" if "b \<notin> set (as @ a # bs)" for b
    using p q that by (cases "n_prev n"; cases "n_next n") (auto simp: m1_def m2_def)
  ultimately show ?thesis by blast
qed

lemma list_pop_ok:
  assumes H: "node_heap s L" and A: "list_at (list_nodes s) l (a # as) (v # vs)"
  shows "\<exists>x l' s'. list_pop l s = Some (v, l', s') \<and> x \<in> L \<and> a = kptr x \<and> node_heap s' (L - {x})
     \<and> list_at (list_nodes s') l' as vs \<and> (\<forall>b. b \<notin> set (a # as) \<longrightarrow> list_nodes s' b = list_nodes s b) \<and> list_outside s s'
     \<and> dom (list_nodes s') = dom (list_nodes s) - {a}"
proof -
  let ?s = "disable_int s"
  have A': "list_at (list_nodes ?s) l ([] @ a # as) ([] @ v # vs)" using A by simp
  obtain l' m n where u: "list_unlink a l ?s = Some (l', ?s\<lparr>list_nodes := m\<rparr>)" "dom m = dom (list_nodes s)"
    "list_at (m(a := None)) l' as vs" "m a = Some n" "n_ptr n = v" "\<And>b. b \<notin> set (a # as) \<Longrightarrow> m b = list_nodes s b"
    using list_unlink_ok [OF A'] by auto
  obtain n0 where n0: "list_nodes s a = Some n0" "n_ptr n0 = v" "n_prev n0 = None"
    using list_at_node [OF A'] by auto
  have hd: "head l = Some a" using list_at_head [OF A] by simp
  let ?t = "?s\<lparr>list_nodes := m\<rparr>"
  have "node_heap ?t L" using node_heap_nodes [OF node_heap_int(1) [OF H]] u(2) by simp
  moreover have "a \<in> dom (list_nodes ?t)" using u(4) by auto
  ultimately obtain x s1 where x: "x \<in> L" "a = kptr x" "free_node a ?t = Some s1" "node_heap s1 (L - {x})"
    "list_nodes s1 = m(a := None)" "list_outside ?t s1"
    using free_node_ok [of ?t L a] by auto
  have "list_pop l s = Some (v, l', enable_int s1)"
    using u(1) n0 hd x(3) by (auto simp: list_pop_def list_unlink_def Let_def bind_eq_Some_conv split: option.splits)
  moreover have "node_heap (enable_int s1) (L - {x}) \<and> list_outside s (enable_int s1)"
    using x(4,6) by (intro leave_critical [OF node_heap_irq [OF H]]) simp_all
  moreover have "list_nodes s1 b = list_nodes s b" if "b \<notin> set (a # as)" for b using that u(6) x(5) by simp
  moreover have "dom (list_nodes s1) = dom (list_nodes s) - {a}" using x(5) u(2) by simp
  moreover have "list_at (list_nodes s1) l' as vs" unfolding x(5) by (rule u(3))
  ultimately show ?thesis using x(1,2) by (intro exI [of _ x] exI [of _ l'] exI [of _ "enable_int s1"]) (unfold nodes_int, blast)
qed

lemma list_pop_empty: "node_heap s L \<Longrightarrow> list_at (list_nodes s) l [] [] \<Longrightarrow> list_pop l s = Some (0, l, s)"
  using list_at_head by (fastforce simp: list_pop_def critical_section_id node_heap_irq)

lemma list_delete_loop_ok:
  assumes H: "node_heap s L" and A: "list_at (list_nodes s) l (pre @ as) (us @ vs)" "length pre = length us" and v: "v \<in> set vs"
    and cur: "cur = (if as = [] then None else Some (hd as))"
  shows "\<exists>x l' s' as'. list_delete_loop cur l v s = Some (v, l', s') \<and> x \<in> L \<and> node_heap s' (L - {x})
     \<and> list_at (list_nodes s') l' (pre @ as') (us @ remove1 v vs) \<and> set as' \<subseteq> set as
     \<and> (\<forall>b. b \<notin> set (pre @ as) \<longrightarrow> list_nodes s' b = list_nodes s b) \<and> list_outside s s'
     \<and> kptr x \<in> dom (list_nodes s) \<and> dom (list_nodes s') = dom (list_nodes s) - {kptr x}"
  using A v cur
proof (induction as arbitrary: pre us vs cur)
  case Nil
  then show ?case using list_at_length [OF Nil.prems(1)] by simp
next
  case (Cons a as)
  obtain w ws where vs: "vs = w # ws" using list_at_length [OF Cons.prems(1)] Cons.prems(2) by (cases vs) auto
  have A: "list_at (list_nodes s) l (pre @ a # as) (us @ w # ws)" using Cons.prems(1) vs by simp
  obtain n where n: "list_nodes s a = Some n" "n_ptr n = w" "n_next n = (if as = [] then None else Some (hd as))"
    using list_at_node [OF A Cons.prems(2)] .
  show ?case
  proof (cases "w = v")
    case True
    obtain l' m k where u: "list_unlink a l s = Some (l', s\<lparr>list_nodes := m\<rparr>)" "dom m = dom (list_nodes s)"
      "list_at (m(a := None)) l' (pre @ as) (us @ ws)" "m a = Some k" "n_ptr k = w"
      "\<And>b. b \<notin> set (pre @ a # as) \<Longrightarrow> m b = list_nodes s b"
      using list_unlink_ok [OF A Cons.prems(2)] by blast
    let ?t = "s\<lparr>list_nodes := m\<rparr>"
    have "node_heap ?t L" using node_heap_nodes [OF H] u(2) by simp
    moreover have "a \<in> dom (list_nodes ?t)" using u(4) by auto
    ultimately obtain x s1 where x: "x \<in> L" "free_node a ?t = Some s1" "node_heap s1 (L - {x})"
      "list_nodes s1 = m(a := None)" "list_outside ?t s1" "a = kptr x"
      using free_node_ok [of ?t L a] by auto
    have "list_delete_loop cur l v s = Some (v, l', s1)"
      using Cons.prems(4) n True u x by (subst list_delete_loop.simps) simp
    moreover have "list_nodes s1 b = list_nodes s b" if "b \<notin> set (pre @ a # as)" for b using that u(6) x(4) by simp
    moreover have "list_at (list_nodes s1) l' (pre @ as) (us @ remove1 v vs)" using u(3) x(4) vs True by simp
    moreover have "list_outside s s1" using x(5) by simp
    moreover have "kptr x \<in> dom (list_nodes s)" "dom (list_nodes s1) = dom (list_nodes s) - {kptr x}" using x(4,6) u(2) n(1) by auto
    moreover have "set as \<subseteq> set (a # as)" by (rule set_subset_Cons)
    ultimately show ?thesis using x(1,3) by (intro exI [of _ x] exI [of _ l'] exI [of _ s1] exI [of _ as]) blast
  next
    case False
    have A': "list_at (list_nodes s) l ((pre @ [a]) @ as) ((us @ [w]) @ ws)" using A by simp
    have "\<exists>x l' s' as'. list_delete_loop (n_next n) l v s = Some (v, l', s') \<and> x \<in> L \<and> node_heap s' (L - {x})
       \<and> list_at (list_nodes s') l' ((pre @ [a]) @ as') ((us @ [w]) @ remove1 v ws) \<and> set as' \<subseteq> set as
       \<and> (\<forall>b. b \<notin> set ((pre @ [a]) @ as) \<longrightarrow> list_nodes s' b = list_nodes s b) \<and> list_outside s s'
       \<and> kptr x \<in> dom (list_nodes s) \<and> dom (list_nodes s') = dom (list_nodes s) - {kptr x}"
      using Cons.prems(2,3) vs False n(3) by (intro Cons.IH [OF A']) auto
    then obtain x l' s' as' where r: "list_delete_loop (n_next n) l v s = Some (v, l', s')" "x \<in> L" "node_heap s' (L - {x})"
      "list_at (list_nodes s') l' ((pre @ [a]) @ as') ((us @ [w]) @ remove1 v ws)" "set as' \<subseteq> set as"
      "\<forall>b. b \<notin> set ((pre @ [a]) @ as) \<longrightarrow> list_nodes s' b = list_nodes s b" "list_outside s s'"
      "kptr x \<in> dom (list_nodes s)" "dom (list_nodes s') = dom (list_nodes s) - {kptr x}" by (elim exE conjE)
    have "list_delete_loop cur l v s = list_delete_loop (n_next n) l v s"
      using Cons.prems(4) n False by (subst list_delete_loop.simps) simp
    moreover have "list_at (list_nodes s') l' (pre @ a # as') (us @ remove1 v vs)" using r(4) vs False by simp
    moreover have "set (a # as') \<subseteq> set (a # as)" using r(5) by auto
    moreover have "\<forall>b. b \<notin> set (pre @ a # as) \<longrightarrow> list_nodes s' b = list_nodes s b" using r(6) by simp
    ultimately show ?thesis using r(1,2,3,7,8,9) by (intro exI [of _ x] exI [of _ l'] exI [of _ s'] exI [of _ "a # as'"] conjI) simp_all
  qed
qed

lemma list_delete_found:
  assumes H: "node_heap s L" and A: "list_at (list_nodes s) l as vs" and v: "v \<in> set vs" "v \<noteq> 0"
  shows "\<exists>x l' s' as'. list_delete l v s = Some (v, l', s') \<and> x \<in> L \<and> node_heap s' (L - {x})
     \<and> list_at (list_nodes s') l' as' (remove1 v vs) \<and> set as' \<subseteq> set as
     \<and> (\<forall>b. b \<notin> set as \<longrightarrow> list_nodes s' b = list_nodes s b) \<and> list_outside s s'
     \<and> kptr x \<in> dom (list_nodes s) \<and> dom (list_nodes s') = dom (list_nodes s) - {kptr x}"
proof -
  let ?s = "disable_int s"
  have A': "list_at (list_nodes ?s) l ([] @ as) ([] @ vs)" using A by simp
  obtain x l' s1 as' where d: "list_delete_loop (head l) l v ?s = Some (v, l', s1)" "x \<in> L" "node_heap s1 (L - {x})"
    "list_at (list_nodes s1) l' ([] @ as') ([] @ remove1 v vs)" "set as' \<subseteq> set as"
    "\<forall>b. b \<notin> set ([] @ as) \<longrightarrow> list_nodes s1 b = list_nodes ?s b" "list_outside ?s s1"
    "kptr x \<in> dom (list_nodes ?s)" "dom (list_nodes s1) = dom (list_nodes ?s) - {kptr x}"
    using list_delete_loop_ok [OF node_heap_int(1) [OF H] A' refl v(1) list_at_head [OF A]] by (elim exE conjE)
  have "list_delete l v s = Some (v, l', enable_int s1)" using d(1) v(2) by (simp add: list_delete_def)
  moreover have "node_heap (enable_int s1) (L - {x}) \<and> list_outside s (enable_int s1)"
    by (rule leave_critical [OF node_heap_irq [OF H] d(3,7)])
  ultimately show ?thesis using d(2,4,5,6,8,9) 
    by (intro exI [of _ x] exI [of _ l'] exI [of _ "enable_int s1"] exI [of _ as'] conjI) simp_all
qed

lemma list_delete_loop_missing:
  assumes A: "list_at (list_nodes s) l (pre @ as) (us @ vs)" "length pre = length us" and v: "v \<notin> set vs"
    and cur: "cur = (if as = [] then None else Some (hd as))"
  shows "list_delete_loop cur l v s = Some (0, l, s)"
  using A v cur
proof (induction as arbitrary: pre us vs cur)
  case Nil
  then show ?case by (subst list_delete_loop.simps) simp
next
  case (Cons a as)
  obtain w ws where vs: "vs = w # ws" using list_at_length [OF Cons.prems(1)] Cons.prems(2) by (cases vs) auto
  have A: "list_at (list_nodes s) l (pre @ a # as) (us @ w # ws)" using Cons.prems(1) vs by simp
  obtain n where n: "list_nodes s a = Some n" "n_ptr n = w" "n_next n = (if as = [] then None else Some (hd as))"
    using list_at_node [OF A Cons.prems(2)] .
  have "list_delete_loop (n_next n) l v s = Some (0, l, s)"
    using Cons.IH [of "pre @ [a]" "us @ [w]" ws] A Cons.prems(2,3) vs n(3) by simp
  then show ?case using Cons.prems(3,4) n vs by (subst list_delete_loop.simps) auto
qed

lemma list_find_loop_ok:
  assumes A: "list_at (list_nodes s) l (pre @ as) (us @ vs)" "length pre = length us"
    and cur: "cur = (if as = [] then None else Some (hd as))" and P: "\<forall>v \<in> set vs. match v = Some (P v)"
  shows "list_find_loop cur match s = Some (case find P vs of None \<Rightarrow> 0 | Some v \<Rightarrow> v)"
  using A cur P
proof (induction as arbitrary: pre us vs cur)
  case Nil
  then show ?case using list_at_length [OF Nil.prems(1)] by (subst list_find_loop.simps) simp
next
  case (Cons a as)
  obtain w ws where vs: "vs = w # ws" using list_at_length [OF Cons.prems(1)] Cons.prems(2) by (cases vs) auto
  have A: "list_at (list_nodes s) l (pre @ a # as) (us @ w # ws)" using Cons.prems(1) vs by simp
  obtain n where n: "list_nodes s a = Some n" "n_ptr n = w" "n_next n = (if as = [] then None else Some (hd as))"
    using list_at_node [OF A Cons.prems(2)] .
  have "list_find_loop (n_next n) match s = Some (case find P ws of None \<Rightarrow> 0 | Some v \<Rightarrow> v)"
    using Cons.IH [of "pre @ [a]" "us @ [w]" ws] A Cons.prems(2,4) n(3) vs by simp
  then show ?case using Cons.prems(3,4) n vs by (subst list_find_loop.simps) auto
qed

lemma list_find_ok:
  assumes "list_at (list_nodes s) l as vs" "\<forall>v \<in> set vs. match v = Some (P v)" "irq_ok s"
  shows "list_find l match s = Some (case find P vs of None \<Rightarrow> 0 | Some v \<Rightarrow> v, s)"
  using list_find_loop_ok [of "disable_int s" l "[]" as "[]" vs "head l" match P] list_at_head [OF assms(1)] assms
  by (simp add: list_find_def critical_section_id)

section \<open>Properties\<close>

lemma dyn_live_truncate: "dyn_live (dyn_data.truncate s) L = dyn_live s L"
  by (simp add: dyn_live_def dyn_rel_def buddy_ok_def irq_ok_def live_ranges_def dyn_data.defs)

text \<open>A fresh heap without list nodes, and the empty list.\<close>

definition no_lists :: list_data where
  "no_lists = dyn_data.extend fresh_heap \<lparr>list_nodes = Map.empty\<rparr>"

definition nil :: klist where
  "nil = \<lparr>head = None, tail = None\<rparr>"

lemma no_lists_ok: "node_heap no_lists {}" "has_room no_lists 24" "list_at (list_nodes no_lists) nil [] []" "list_nodes no_lists = Map.empty"
proof -
  have "dyn_data.truncate no_lists = fresh_heap" by (simp add: no_lists_def dyn_data.defs)
  then have "dyn_live no_lists {}" using fresh_heap_ok(1) dyn_live_truncate by metis
  moreover show "list_nodes no_lists = Map.empty" by (simp add: no_lists_def dyn_data.defs)
  ultimately show "node_heap no_lists {}" by (simp add: node_heap_def)
  have "arr no_lists = arr fresh_heap" "num_pages_exp no_lists = 3"
    by (simp_all add: no_lists_def dyn_data.defs fresh_heap_ok(3))
  then show "has_room no_lists 24" unfolding has_room_def using fresh_heap_ok(2)
    by (intro exI [of _ 0] exI [of _ 3] conjI) (auto simp: free_at_def)
  show "list_at (list_nodes no_lists) nil [] []" by (simp add: list_at_def nil_def)
qed

text \<open>
  C30: \<open>list_push\<close> appends its argument, in a node that overlaps no live memory.  A list that shares no node with
  this one keeps its contents and still shares none.
\<close>

theorem list_push_appends:
  assumes "node_heap s L" "has_room s 24" "list_at (list_nodes s) l as vs"
  shows "\<exists>x l' s'. list_push l v s = Some (l', s') \<and> x \<notin> L \<and> node_heap s' (insert x L)
     \<and> list_at (list_nodes s') l' (as @ [kptr x]) (vs @ [v])
     \<and> (\<forall>l2 bs ws. list_at (list_nodes s) l2 bs ws \<and> set bs \<inter> set as = {} \<longrightarrow>
          list_at (list_nodes s') l2 bs ws \<and> set bs \<inter> set (as @ [kptr x]) = {})
     \<and> list_outside s s'"
proof -
  obtain x l' s' where p: "list_push l v s = Some (l', s')" "x \<notin> L" "node_heap s' (insert x L)" "kptr x \<notin> dom (list_nodes s)"
    "list_at (list_nodes s') l' (as @ [kptr x]) (vs @ [v])" "\<forall>b. b \<notin> set as \<longrightarrow> b \<noteq> kptr x \<longrightarrow> list_nodes s' b = list_nodes s b"
    "list_outside s s'" using list_push_ok [OF assms] by blast
  have "list_at (list_nodes s') l2 bs ws \<and> set bs \<inter> set (as @ [kptr x]) = {}"
    if "list_at (list_nodes s) l2 bs ws" "set bs \<inter> set as = {}" for l2 bs ws
  proof -
    have "kptr x \<notin> set bs" using p(4) list_at_dom [OF that(1)] by blast
    then show ?thesis using list_at_frame [OF that(1)] p(6) that(2) by auto
  qed
  then show ?thesis using p by blast
qed

theorem list_push_appends_witness:
  "node_heap no_lists {} \<and> (\<exists>x l' s'. list_push nil 7 no_lists = Some (l', s') \<and> list_at (list_nodes s') l' [kptr x] [7])"
  using list_push_appends [OF no_lists_ok(1,2,3), of 7] no_lists_ok(1) by auto

text \<open>
  C31: \<open>list_pop\<close> on a list that is not empty returns and removes its first element and releases its node; every other
  list keeps its contents.
\<close>

theorem list_pop_takes_first:
  assumes "node_heap s L" "list_at (list_nodes s) l (a # as) (v # vs)"
  shows "\<exists>x l' s'. list_pop l s = Some (v, l', s') \<and> x \<in> L \<and> a = kptr x \<and> node_heap s' (L - {x})
     \<and> list_at (list_nodes s') l' as vs
     \<and> (\<forall>l2 bs ws. list_at (list_nodes s) l2 bs ws \<and> set bs \<inter> set (a # as) = {} \<longrightarrow> list_at (list_nodes s') l2 bs ws)
     \<and> list_outside s s'"
proof -
  obtain x l' s' where p: "list_pop l s = Some (v, l', s')" "x \<in> L" "a = kptr x" "node_heap s' (L - {x})"
    "list_at (list_nodes s') l' as vs" "\<forall>b. b \<notin> set (a # as) \<longrightarrow> list_nodes s' b = list_nodes s b" "list_outside s s'"
    using list_pop_ok [OF assms] by blast
  moreover have "list_at (list_nodes s') l2 bs ws" if "list_at (list_nodes s) l2 bs ws" "set bs \<inter> set (a # as) = {}" for l2 bs ws
    using list_at_frame [OF that(1), of "list_nodes s'"] p(6) that(2) by blast
  ultimately show ?thesis by blast
qed

theorem list_pop_takes_first_witness:
  "\<exists>l1 s1 l2 s2. list_push nil 7 no_lists = Some (l1, s1) \<and> list_pop l1 s1 = Some (7, l2, s2) \<and> list_at (list_nodes s2) l2 [] []"
proof -
  obtain x l1 s1 where p: "list_push nil 7 no_lists = Some (l1, s1)" "node_heap s1 {x}" "list_at (list_nodes s1) l1 [kptr x] [7]"
    using list_push_ok [OF no_lists_ok(1,2,3), of 7] unfolding append_Nil by blast
  then show ?thesis using list_pop_takes_first [OF p(2,3)] by blast
qed

text \<open>
  C32: \<open>list_delete\<close> removes the first occurrence of its argument and returns it; if there is none, it returns the
  null pointer and only prints a message.
\<close>

theorem list_delete_removes:
  assumes "node_heap s L" "list_at (list_nodes s) l as vs" "v \<noteq> 0"
  shows "\<exists>l' s'. list_delete l v s = Some (if v \<in> set vs then v else 0, l', s')
     \<and> (v \<notin> set vs \<longrightarrow> l' = l \<and> s' = print_msg ''Node not found'' s)
     \<and> (v \<in> set vs \<longrightarrow> list_outside s s' \<and> (\<exists>x as'. x \<in> L \<and> node_heap s' (L - {x}) \<and> set as' \<subseteq> set as
          \<and> list_at (list_nodes s') l' as' (remove1 v vs)))"
proof -
  let ?s = "disable_int s"
  have hd: "head l = (if as = [] then None else Some (hd as))" by (rule list_at_head [OF assms(2)])
  have irq: "irq_ok s" using node_heap_irq [OF assms(1)] .
  have A: "list_at (list_nodes ?s) l ([] @ as) ([] @ vs)" using assms(2) by simp
  show ?thesis
  proof (cases "v \<in> set vs")
    case True
    obtain x l' s' as' where d: "list_delete l v s = Some (v, l', s')" "x \<in> L" "node_heap s' (L - {x})"
      "list_at (list_nodes s') l' as' (remove1 v vs)" "set as' \<subseteq> set as" "list_outside s s'"
      using list_delete_found [OF assms(1,2) True assms(3)] by (elim exE conjE)
    then have "\<exists>x as'. x \<in> L \<and> node_heap s' (L - {x}) \<and> set as' \<subseteq> set as \<and> list_at (list_nodes s') l' as' (remove1 v vs)"
      by (intro exI [of _ x] exI [of _ as']) simp
    then show ?thesis using True d(1,6) by simp
  next
    case False
    have "list_delete_loop (head l) l v ?s = Some (0, l, ?s)" by (rule list_delete_loop_missing [OF A _ False hd]) simp
    then have "list_delete l v s = Some (0, l, print_msg ''Node not found'' s)"
      using critical_section_id [OF irq] by (simp add: list_delete_def)
    then show ?thesis using False by auto
  qed
qed

theorem list_delete_removes_witness:
  "\<exists>l1 s1 l2 s2 as. list_push nil 7 no_lists = Some (l1, s1) \<and> list_delete l1 7 s1 = Some (7, l2, s2) \<and> list_at (list_nodes s2) l2 as []"
proof -
  obtain x l1 s1 where p: "list_push nil 7 no_lists = Some (l1, s1)" "node_heap s1 {x}" "list_at (list_nodes s1) l1 [kptr x] [7]"
    using list_push_ok [OF no_lists_ok(1,2,3), of 7] unfolding append_Nil by blast
  then show ?thesis using list_delete_removes [OF p(2,3), of 7] by auto
qed

end
