(* ===== verification/List_Family.thy ===== *)
theory List_Family
  imports List_Correct
begin

text \<open>
  Several lists at once.  A component that keeps many lists (the scheduler: ready, dead and wait queues) needs that an operation
  on one of them leaves the others alone and leaves the rest of the heap alone; \<open>lists_at\<close> and \<open>nodes_in\<close> state this once.
\<close>

text \<open>The lists \<open>ls\<close> have their nodes at \<open>ass\<close> and hold the values \<open>vss\<close>, and no two of them share a node.\<close>

definition lists_on :: "(u64 \<rightharpoonup> node) \<Rightarrow> klist list \<Rightarrow> u64 list list \<Rightarrow> u64 list list \<Rightarrow> bool" where
  "lists_on m ls ass vss \<longleftrightarrow> length ass = length ls \<and> length vss = length ls
     \<and> (\<forall>i < length ls. list_at m (ls ! i) (ass ! i) (vss ! i))
     \<and> (\<forall>i < length ls. \<forall>j < length ls. i \<noteq> j \<longrightarrow> set (ass ! i) \<inter> set (ass ! j) = {})"

definition lists_at :: "(u64 \<rightharpoonup> node) \<Rightarrow> klist list \<Rightarrow> u64 list list \<Rightarrow> bool" where
  "lists_at m ls vss \<longleftrightarrow> (\<exists>ass. lists_on m ls ass vss)"

text \<open>The live memory that is not list nodes is \<open>K\<close>, and memory for \<open>k\<close> more nodes is left.\<close>

definition nodes_in :: "'a list_data_scheme \<Rightarrow> (nat \<times> nat) set \<Rightarrow> nat \<Rightarrow> bool" where
  "nodes_in s K k \<longleftrightarrow> (\<exists>L. node_heap s L \<and> K = {x \<in> L. kptr x \<notin> dom (list_nodes s)} \<and> spare s L k)"

lemma nodes_in_mono: "nodes_in s K k \<Longrightarrow> j \<le> k \<Longrightarrow> nodes_in s K j"
  unfolding nodes_in_def using spare_mono by blast

lemma nodes_in_irq: "nodes_in s K k \<Longrightarrow> irq_ok s"
  using node_heap_irq by (auto simp: nodes_in_def)

lemma lists_on_update:
  assumes A: "lists_on m ls ass vss" and i: "i < length ls" "list_at m' l' as' vs'" "set as' \<inter> dom m \<subseteq> set (ass ! i)"
    and fr: "\<And>b. b \<in> dom m \<Longrightarrow> b \<notin> set (ass ! i) \<Longrightarrow> m' b = m b"
  shows "lists_on m' (ls[i := l']) (ass[i := as']) (vss[i := vs'])"
proof -
  have keep: "list_at m' (ls ! j) (ass ! j) (vss ! j)" "set as' \<inter> set (ass ! j) = {}" if "j < length ls" "j \<noteq> i" for j
  proof -
    have L: "list_at m (ls ! j) (ass ! j) (vss ! j)" and D: "set (ass ! j) \<inter> set (ass ! i) = {}"
      using A that i(1) by (auto simp: lists_on_def)
    show "list_at m' (ls ! j) (ass ! j) (vss ! j)"
      using list_at_frame [OF L] fr list_at_dom [OF L] D by blast
    show "set as' \<inter> set (ass ! j) = {}" using i(3) D list_at_dom [OF L] by blast
  qed
  let ?ass = "ass[i := as']"
  have len: "length ass = length ls" "length vss = length ls" using A by (auto simp: lists_on_def)
  have "list_at m' (ls[i := l'] ! j) (?ass ! j) (vss[i := vs'] ! j)" if "j < length ls" for j
    using that keep(1) [of j] len i(2) by (cases "j = i") auto
  moreover have "set (?ass ! j) \<inter> set (?ass ! k) = {}" if "j < length ls" "k < length ls" "j \<noteq> k" for j k
  proof (cases "j = i \<or> k = i")
    case True
    then show ?thesis using that keep(2) [of j] keep(2) [of k] len by auto
  next
    case False
    then show ?thesis using A that by (simp add: lists_on_def)
  qed
  ultimately show ?thesis unfolding lists_on_def using len by simp
qed

lemma nodes_in_int: "nodes_in s K k \<Longrightarrow> nodes_in (disable_int s) K k"
  "nodes_in s K k \<Longrightarrow> daif_masked s \<Longrightarrow> nodes_in (enable_int s) K k"
  unfolding nodes_in_def spare_def using node_heap_int by fastforce+

lemma lists_on_push:
  assumes N: "nodes_in s K (Suc k)" and A: "lists_on (list_nodes s) ls ass vss" and i: "i < length ls"
  shows "\<exists>a l' s'. list_push (ls ! i) v s = Some (l', s') \<and> nodes_in s' K k
     \<and> lists_on (list_nodes s') (ls[i := l']) (ass[i := ass ! i @ [a]]) (vss[i := vss ! i @ [v]]) \<and> list_outside s s'"
proof -
  obtain L where L: "node_heap s L" "K = {x \<in> L. kptr x \<notin> dom (list_nodes s)}" "spare s L (Suc k)"
    using N unfolding nodes_in_def by blast
  have ai: "list_at (list_nodes s) (ls ! i) (ass ! i) (vss ! i)" using A i by (simp add: lists_on_def)
  have room: "has_room s 24" using spare_room [OF _ L(3)] L(1) by (simp add: node_heap_def)
  obtain x l' s' where p: "list_push (ls ! i) v s = Some (l', s')" "x \<notin> L" "node_heap s' (insert x L)"
    "kptr x \<notin> dom (list_nodes s)" "snd x \<le> 48" "list_at (list_nodes s') l' (ass ! i @ [kptr x]) (vss ! i @ [v])"
    "\<forall>b. b \<notin> set (ass ! i) \<longrightarrow> b \<noteq> kptr x \<longrightarrow> list_nodes s' b = list_nodes s b" "list_outside s s'"
    using list_push_ok [OF L(1) room ai, of v] by (elim exE conjE)
  have "lists_on (list_nodes s') (ls[i := l']) (ass[i := ass ! i @ [kptr x]]) (vss[i := vss ! i @ [v]])"
    using p(4,7) by (intro lists_on_update [OF A i p(6)]) auto
  moreover have dom: "dom (list_nodes s') = insert (kptr x) (dom (list_nodes s))"
  proof -
    have "b \<in> dom (list_nodes s') \<longleftrightarrow> b = kptr x \<or> b \<in> dom (list_nodes s)" for b
      using p(7) list_at_dom [OF p(6)] list_at_dom [OF ai] by (cases "b \<in> set (ass ! i) \<or> b = kptr x") auto
    then show ?thesis by blast
  qed
  have "kptr y \<noteq> kptr x" if "y \<in> L" for y
    using inj_onD [OF kptr_inj [of s' "insert x L"], of y x] p(2,3) that by (auto simp: node_heap_def)
  then have "K = {y \<in> insert x L. kptr y \<notin> dom (list_nodes s')}" unfolding L(2) dom by auto
  moreover have "spare s' (insert x L) k"
    using p(3,5,8) by (intro spare_insert [OF _ L(3)]) (simp_all add: node_heap_def list_outside_def)
  ultimately show ?thesis using p(1,3,8) unfolding nodes_in_def by blast
qed

lemma lists_push:
  assumes "nodes_in s K (Suc k)" "lists_at (list_nodes s) ls vss" "i < length ls"
  shows "\<exists>l' s'. list_push (ls ! i) v s = Some (l', s') \<and> nodes_in s' K k
     \<and> lists_at (list_nodes s') (ls[i := l']) (vss[i := vss ! i @ [v]]) \<and> list_outside s s'"
  using assms(2) lists_on_push [OF assms(1) _ assms(3), of _ vss v] unfolding lists_at_def by blast

lemma nodes_in_release:
  assumes "node_heap s L" "K = {x \<in> L. kptr x \<notin> dom (list_nodes s)}" "spare s L k" "x \<in> L" "kptr x \<in> dom (list_nodes s)"
    and "node_heap s' (L - {x})" "dom (list_nodes s') = dom (list_nodes s) - {kptr x}" "num_pages_exp s' = num_pages_exp s"
  shows "nodes_in s' K (Suc k)"
proof -
  have live: "dyn_live s L" using assms(1) by (simp add: node_heap_def)
  have "y = x" if "y \<in> L" "kptr y = kptr x" for y using inj_onD [OF kptr_inj [OF live] that(2,1) assms(4)] .
  then have "K = {y \<in> L - {x}. kptr y \<notin> dom (list_nodes s')}"
    unfolding assms(2,7) using assms(4,5) by blast
  moreover have "spare s' (L - {x}) (Suc k)"
    using spare_release [OF live assms(4,3,8)] dyn_live_range(1) [OF live assms(4)] by simp
  ultimately show ?thesis using assms(6) unfolding nodes_in_def by blast
qed

lemma lists_pop:
  assumes N: "nodes_in s K k" and A: "lists_at (list_nodes s) ls vss" and i: "i < length ls" "vss ! i = v # vs"
  shows "\<exists>l' s'. list_pop (ls ! i) s = Some (v, l', s') \<and> nodes_in s' K (Suc k)
     \<and> lists_at (list_nodes s') (ls[i := l']) (vss[i := vs]) \<and> list_outside s s'"
proof -
  obtain L where L: "node_heap s L" "K = {x \<in> L. kptr x \<notin> dom (list_nodes s)}" "spare s L k"
    using N unfolding nodes_in_def by blast
  obtain ass where a: "lists_on (list_nodes s) ls ass vss" using A unfolding lists_at_def by blast
  have ai: "list_at (list_nodes s) (ls ! i) (ass ! i) (v # vs)" using a i unfolding lists_on_def by metis
  then obtain b as where as: "ass ! i = b # as" using list_at_length [OF ai] by (cases "ass ! i") auto
  obtain x l' s' where p: "list_pop (ls ! i) s = Some (v, l', s')" "x \<in> L" "b = kptr x" "node_heap s' (L - {x})"
    "list_at (list_nodes s') l' as vs" "\<forall>c. c \<notin> set (b # as) \<longrightarrow> list_nodes s' c = list_nodes s c" "list_outside s s'"
    "dom (list_nodes s') = dom (list_nodes s) - {b}"
    using list_pop_ok [OF L(1) ai [unfolded as]] by (elim exE conjE)
  have "lists_on (list_nodes s') (ls[i := l']) (ass[i := as]) (vss[i := vs])"
    using p(6) as by (intro lists_on_update [OF a i(1) p(5)]) auto
  moreover have "b \<in> dom (list_nodes s)" using list_at_dom [OF ai] as by simp
  then have "nodes_in s' K (Suc k)"
    using nodes_in_release [OF L p(2) _ p(4)] p(3,7,8) by (simp add: list_outside_def)
  ultimately show ?thesis using p(1,7) unfolding lists_at_def by blast
qed

lemma lists_delete:
  assumes N: "nodes_in s K k" and A: "lists_at (list_nodes s) ls vss" and i: "i < length ls" "v \<in> set (vss ! i)" "v \<noteq> 0"
  shows "\<exists>l' s'. list_delete (ls ! i) v s = Some (v, l', s') \<and> nodes_in s' K (Suc k)
     \<and> lists_at (list_nodes s') (ls[i := l']) (vss[i := remove1 v (vss ! i)]) \<and> list_outside s s'"
proof -
  obtain L where L: "node_heap s L" "K = {x \<in> L. kptr x \<notin> dom (list_nodes s)}" "spare s L k"
    using N unfolding nodes_in_def by blast
  obtain ass where a: "lists_on (list_nodes s) ls ass vss" using A unfolding lists_at_def by blast
  have ai: "list_at (list_nodes s) (ls ! i) (ass ! i) (vss ! i)" using a i unfolding lists_on_def by blast
  obtain x l' s' as' where p: "list_delete (ls ! i) v s = Some (v, l', s')" "x \<in> L" "node_heap s' (L - {x})"
    "list_at (list_nodes s') l' as' (remove1 v (vss ! i))" "set as' \<subseteq> set (ass ! i)"
    "\<forall>b. b \<notin> set (ass ! i) \<longrightarrow> list_nodes s' b = list_nodes s b" "list_outside s s'"
    "kptr x \<in> dom (list_nodes s)" "dom (list_nodes s') = dom (list_nodes s) - {kptr x}"
    using list_delete_found [OF L(1) ai i(2,3)] by (elim exE conjE)
  have "lists_on (list_nodes s') (ls[i := l']) (ass[i := as']) (vss[i := remove1 v (vss ! i)])"
    using p(5,6) by (intro lists_on_update [OF a i(1) p(4)]) auto
  moreover have "nodes_in s' K (Suc k)"
    using nodes_in_release [OF L p(2,8,3,9)] p(7) by (simp add: list_outside_def)
  ultimately show ?thesis using p(1,7) unfolding lists_at_def by blast
qed

lemma lists_empty:
  assumes "lists_at m ls vss" "i < length ls"
  shows "list_empty (ls ! i) \<longleftrightarrow> vss ! i = []"
proof -
  obtain ass where a: "list_at m (ls ! i) (ass ! i) (vss ! i)" using assms unfolding lists_at_def lists_on_def by blast
  show ?thesis using list_at_head [OF a] list_at_length [OF a] by (auto simp: list_empty_def)
qed

text \<open>Taking out one node, given its address, and releasing it.\<close>

lemma lists_on_remove:
  assumes N: "nodes_in s K k" and A: "lists_on (list_nodes s) ls ass vss" and i: "i < length ls"
    and as: "ass ! i = pre @ a # as" "vss ! i = us @ v # vs" "length pre = length us"
  shows "\<exists>l' m s'. list_unlink a (ls ! i) s = Some (l', s\<lparr>list_nodes := m\<rparr>) \<and> free_node a (s\<lparr>list_nodes := m\<rparr>) = Some s'
     \<and> nodes_in s' K (Suc k) \<and> lists_on (list_nodes s') (ls[i := l']) (ass[i := pre @ as]) (vss[i := us @ vs]) \<and> list_outside s s'"
proof -
  obtain L where L: "node_heap s L" "K = {x \<in> L. kptr x \<notin> dom (list_nodes s)}" "spare s L k"
    using N unfolding nodes_in_def by blast
  have ai: "list_at (list_nodes s) (ls ! i) (pre @ a # as) (us @ v # vs)" using A i as unfolding lists_on_def by metis
  obtain l' m n where u: "list_unlink a (ls ! i) s = Some (l', s\<lparr>list_nodes := m\<rparr>)" "dom m = dom (list_nodes s)"
    "list_at (m(a := None)) l' (pre @ as) (us @ vs)" "m a = Some n" "\<forall>b. b \<notin> set (pre @ a # as) \<longrightarrow> m b = list_nodes s b"
    using list_unlink_ok [OF ai as(3)] by (elim exE conjE)
  let ?t = "s\<lparr>list_nodes := m\<rparr>"
  have t: "node_heap ?t L" "a \<in> dom (list_nodes ?t)" using node_heap_nodes [OF L(1)] u(2,4) by auto
  obtain x s' where x: "x \<in> L" "a = kptr x" "free_node a ?t = Some s'" "node_heap s' (L - {x})"
    "list_nodes s' = (list_nodes ?t)(a := None)" "list_outside ?t s'"
    using free_node_ok [OF t] by (elim exE conjE)
  have "lists_on (list_nodes s') (ls[i := l']) (ass[i := pre @ as]) (vss[i := us @ vs])"
  proof (rule lists_on_update [OF A i])
    show "list_at (list_nodes s') l' (pre @ as) (us @ vs)" using u(3) x(5) by simp
  qed (use u(5) x(5) as(1) in auto)
  moreover have "dom (list_nodes s') = dom (list_nodes s) - {kptr x}" "kptr x \<in> dom (list_nodes s)" using x(2,5) u(2,4) by auto
  then have "nodes_in s' K (Suc k)"
    using nodes_in_release [OF L x(1) _ x(4)] x(6) by (simp add: list_outside_def)
  ultimately show ?thesis using u(1) x(3,6) by auto
qed

end
