(* ===== verification/Process_Correct.thy ===== *)
theory Process_Correct
  imports Process List_Family
begin

text \<open>
  The queues of the scheduler as lists of threads, and what every operation of \<open>process.c\<close> and \<open>syscall.c\<close> that moves threads between
  them does.
\<close>

section \<open>The queues\<close>

definition queues :: "'a sched_scheme \<Rightarrow> klist list" where
  "queues s = [ready_queue s, dead_queue s, wait_queue s PROC, wait_queue s R, wait_queue s W]"

text \<open>The ready, dead and wait queues hold these threads; the other live memory is \<open>K\<close>, and there is room for \<open>k\<close> more list nodes.\<close>

definition sched_at :: "'a sched_scheme \<Rightarrow> (nat \<times> nat) set \<Rightarrow> nat \<Rightarrow> u64 list \<Rightarrow> u64 list \<Rightarrow> (event \<Rightarrow> u64 list) \<Rightarrow> bool" where
  "sched_at s K k rs ds ws \<longleftrightarrow> nodes_in s K k \<and> lists_at (list_nodes s) (queues s) [rs, ds, ws PROC, ws R, ws W]"

text \<open>The two states differ only in the heap and in the queues.\<close>

definition q_frame :: "'a sched_scheme \<Rightarrow> 'a sched_scheme \<Rightarrow> bool" where
  "q_frame s s' \<longleftrightarrow> list_outside s (s'\<lparr>ready_queue := ready_queue s, dead_queue := dead_queue s, wait_queue := wait_queue s\<rparr>)"

lemma truncate_eq_fields:
  assumes "list_data.truncate s' = list_data.truncate s"
  shows "dyn_data.truncate s' = dyn_data.truncate s" "list_nodes s' = list_nodes s" "num_pages_exp s' = num_pages_exp s"
  using assms by (cases s; cases s'; simp add: list_data.defs dyn_data.defs)+

lemma nodes_in_truncate:
  assumes "list_data.truncate s' = list_data.truncate s"
  shows "nodes_in s' K k = nodes_in s K k"
proof -
  have "dyn_live s' L = dyn_live s L" for L
    using truncate_eq_fields(1) [OF assms] dyn_live_truncate by metis
  then show ?thesis using truncate_eq_fields(2,3) [OF assms] by (simp add: nodes_in_def node_heap_def spare_def)
qed

lemma sched_at_truncate:
  assumes "list_data.truncate s' = list_data.truncate s" "queues s' = queues s"
  shows "sched_at s' K k = sched_at s K k"
  using assms nodes_in_truncate [OF assms(1)] truncate_eq_fields(2) [OF assms(1)] by (intro ext) (simp add: sched_at_def)

lemma sched_at_upd [simp]:
  "sched_at (s\<lparr>pcbs := a\<rparr>) K k = sched_at s K k" "sched_at (s\<lparr>tpidr_el1 := b\<rparr>) K k = sched_at s K k"
  "sched_at (s\<lparr>sp_el0 := b\<rparr>) K k = sched_at s K k" "sched_at (s\<lparr>ttbr0_el1 := b\<rparr>) K k = sched_at s K k"
  "sched_at (s\<lparr>callee := c\<rparr>) K k = sched_at s K k" "sched_at (s\<lparr>pcb_table := d\<rparr>) K k = sched_at s K k"
  by (rule sched_at_truncate; simp add: list_data.defs queues_def)+

lemma sched_fields_int [simp]:
  "ready_queue (disable_int s) = ready_queue s" "ready_queue (enable_int s) = ready_queue s"
  "pcbs (disable_int s) = pcbs s" "pcbs (enable_int s) = pcbs s"
  "tpidr_el1 (disable_int s) = tpidr_el1 s" "tpidr_el1 (enable_int s) = tpidr_el1 s"
  "code_at (disable_int s) = code_at s" "code_at (enable_int s) = code_at s"
  "callee (disable_int s) = callee s" "callee (enable_int s) = callee s"
  "sp_el0 (disable_int s) = sp_el0 s" "sp_el0 (enable_int s) = sp_el0 s"
  "dead_queue (disable_int s) = dead_queue s" "dead_queue (enable_int s) = dead_queue s"
  "wait_queue (disable_int s) = wait_queue s" "wait_queue (enable_int s) = wait_queue s"
  "pcb_table (disable_int s) = pcb_table s" "pcb_table (enable_int s) = pcb_table s"
  "queues (disable_int s) = queues s" "queues (enable_int s) = queues s"
  by (simp_all add: disable_int_def enable_int_def Let_def queues_def)

lemma int_upd [simp]:
  "disable_int (s\<lparr>pcbs := x_pcbs\<rparr>) = (disable_int s)\<lparr>pcbs := x_pcbs\<rparr>" "enable_int (s\<lparr>pcbs := x_pcbs\<rparr>) = (enable_int s)\<lparr>pcbs := x_pcbs\<rparr>"
  "disable_int (s\<lparr>tpidr_el1 := x_tpidr_el1\<rparr>) = (disable_int s)\<lparr>tpidr_el1 := x_tpidr_el1\<rparr>" "enable_int (s\<lparr>tpidr_el1 := x_tpidr_el1\<rparr>) = (enable_int s)\<lparr>tpidr_el1 := x_tpidr_el1\<rparr>"
  "disable_int (s\<lparr>sp_el0 := x_sp_el0\<rparr>) = (disable_int s)\<lparr>sp_el0 := x_sp_el0\<rparr>" "enable_int (s\<lparr>sp_el0 := x_sp_el0\<rparr>) = (enable_int s)\<lparr>sp_el0 := x_sp_el0\<rparr>"
  "disable_int (s\<lparr>callee := x_callee\<rparr>) = (disable_int s)\<lparr>callee := x_callee\<rparr>" "enable_int (s\<lparr>callee := x_callee\<rparr>) = (enable_int s)\<lparr>callee := x_callee\<rparr>"
  "disable_int (s\<lparr>ttbr0_el1 := x_ttbr0_el1\<rparr>) = (disable_int s)\<lparr>ttbr0_el1 := x_ttbr0_el1\<rparr>" "enable_int (s\<lparr>ttbr0_el1 := x_ttbr0_el1\<rparr>) = (enable_int s)\<lparr>ttbr0_el1 := x_ttbr0_el1\<rparr>"
  "disable_int (s\<lparr>ready_queue := x_ready_queue\<rparr>) = (disable_int s)\<lparr>ready_queue := x_ready_queue\<rparr>" "enable_int (s\<lparr>ready_queue := x_ready_queue\<rparr>) = (enable_int s)\<lparr>ready_queue := x_ready_queue\<rparr>"
  "disable_int (s\<lparr>dead_queue := x_dead_queue\<rparr>) = (disable_int s)\<lparr>dead_queue := x_dead_queue\<rparr>" "enable_int (s\<lparr>dead_queue := x_dead_queue\<rparr>) = (enable_int s)\<lparr>dead_queue := x_dead_queue\<rparr>"
  "disable_int (s\<lparr>wait_queue := x_wait_queue\<rparr>) = (disable_int s)\<lparr>wait_queue := x_wait_queue\<rparr>" "enable_int (s\<lparr>wait_queue := x_wait_queue\<rparr>) = (enable_int s)\<lparr>wait_queue := x_wait_queue\<rparr>"
  "disable_int (s\<lparr>pcb_table := x_pcb_table\<rparr>) = (disable_int s)\<lparr>pcb_table := x_pcb_table\<rparr>" "enable_int (s\<lparr>pcb_table := x_pcb_table\<rparr>) = (enable_int s)\<lparr>pcb_table := x_pcb_table\<rparr>"
  "disable_int (s\<lparr>last_pid := x_last_pid\<rparr>) = (disable_int s)\<lparr>last_pid := x_last_pid\<rparr>" "enable_int (s\<lparr>last_pid := x_last_pid\<rparr>) = (enable_int s)\<lparr>last_pid := x_last_pid\<rparr>"
  by (simp_all add: disable_int_def enable_int_def Let_def)

lemma sched_at_int:
  "sched_at s K k rs ds ws \<Longrightarrow> sched_at (disable_int s) K k rs ds ws"
  "sched_at s K k rs ds ws \<Longrightarrow> daif_masked s \<Longrightarrow> sched_at (enable_int s) K k rs ds ws"
  by (simp_all add: sched_at_def nodes_in_int)

lemma q_frameD:
  assumes "q_frame s s'"
  shows "irq_nested_count s' = irq_nested_count s" "daif_masked s' = daif_masked s" "console s' = console s" "usr_pages s' = usr_pages s"
    "pcbs s' = pcbs s" "tpidr_el1 s' = tpidr_el1 s" "code_at s' = code_at s" "callee s' = callee s" "sp_el0 s' = sp_el0 s"
    "ttbr0_el1 s' = ttbr0_el1 s" "pt_mem s' = pt_mem s" "pcb_table s' = pcb_table s" "last_pid s' = last_pid s"
    "ttbr1_el1 s' = ttbr1_el1 s" "rootfs_root s' = rootfs_root s" "signos s' = signos s" "num_pages_exp s' = num_pages_exp s"
  using assms unfolding q_frame_def list_outside_def by (cases s; cases s'; simp)+

lemma sched_irq: "sched_at s K k rs ds ws \<Longrightarrow> irq_ok s"
  using nodes_in_irq by (auto simp: sched_at_def)

section \<open>One queue operation\<close>

lemma lists_at_queue:
  "nodes_in s' K k \<Longrightarrow> list_data.truncate t = list_data.truncate s' \<Longrightarrow> lists_at (list_nodes s') (queues t) [rs, ds, ws PROC, ws R, ws W] \<Longrightarrow>
     sched_at t K k rs ds ws"
  using nodes_in_truncate [of t s'] truncate_eq_fields(2) [of t s'] by (simp add: sched_at_def)

lemma more_queues:
  assumes "list_outside s s'"
  shows "ready_queue s' = ready_queue s" "dead_queue s' = dead_queue s" "wait_queue s' = wait_queue s"
  using assms by (cases s; cases s'; simp add: list_outside_def)+

lemma q_frame_intro:
  assumes "list_outside s s'"
  shows "q_frame s (s'\<lparr>ready_queue := l\<rparr>)" "q_frame s (s'\<lparr>dead_queue := l\<rparr>)" "q_frame s (s'\<lparr>wait_queue := w\<rparr>)"
  using assms by (cases s; cases s'; simp add: q_frame_def list_outside_def)+

lemma push_ready_ok:
  assumes "sched_at s K (Suc k) rs ds ws"
  shows "\<exists>s'. push_ready p s = Some s' \<and> sched_at s' K k (rs @ [p]) ds ws \<and> q_frame s s'"
proof -
  have A: "nodes_in s K (Suc k)" "lists_at (list_nodes s) (queues s) [rs, ds, ws PROC, ws R, ws W]" using assms by (auto simp: sched_at_def)
  obtain l s1 where p: "list_push (ready_queue s) p s = Some (l, s1)" "nodes_in s1 K k"
    "lists_at (list_nodes s1) ((queues s)[0 := l]) [rs @ [p], ds, ws PROC, ws R, ws W]" "list_outside s s1"
    using lists_push [OF A, of 0 p] by (auto simp: queues_def)
  have "sched_at (s1\<lparr>ready_queue := l\<rparr>) K k (rs @ [p]) ds ws"
    using p(3) by (intro lists_at_queue [OF p(2)]) (simp_all add: list_data.defs queues_def more_queues [OF p(4)])
  then show ?thesis using p(1) q_frame_intro(1) [OF p(4)] by (simp add: push_ready_def)
qed

lemma push_dead_ok:
  assumes "sched_at s K (Suc k) rs ds ws"
  shows "\<exists>s'. push_dead p s = Some s' \<and> sched_at s' K k rs (ds @ [p]) ws \<and> q_frame s s'"
proof -
  have A: "nodes_in s K (Suc k)" "lists_at (list_nodes s) (queues s) [rs, ds, ws PROC, ws R, ws W]" using assms by (auto simp: sched_at_def)
  obtain l s1 where p: "list_push (dead_queue s) p s = Some (l, s1)" "nodes_in s1 K k"
    "lists_at (list_nodes s1) ((queues s)[1 := l]) [rs, ds @ [p], ws PROC, ws R, ws W]" "list_outside s s1"
    using lists_push [OF A, of 1 p] by (auto simp: queues_def)
  have "sched_at (s1\<lparr>dead_queue := l\<rparr>) K k rs (ds @ [p]) ws"
    using p(3) by (intro lists_at_queue [OF p(2)]) (simp_all add: list_data.defs queues_def more_queues [OF p(4)])
  then show ?thesis using p(1) q_frame_intro(2) [OF p(4)] by (simp add: push_dead_def)
qed

lemma pop_ready_ok:
  assumes "sched_at s K k (p # rs) ds ws"
  shows "\<exists>l s1. list_pop (ready_queue s) s = Some (p, l, s1) \<and> sched_at (s1\<lparr>ready_queue := l\<rparr>) K (Suc k) rs ds ws
     \<and> q_frame s (s1\<lparr>ready_queue := l\<rparr>)"
proof -
  have A: "nodes_in s K k" "lists_at (list_nodes s) (queues s) [p # rs, ds, ws PROC, ws R, ws W]" using assms by (auto simp: sched_at_def)
  obtain l s1 where p: "list_pop (ready_queue s) s = Some (p, l, s1)" "nodes_in s1 K (Suc k)"
    "lists_at (list_nodes s1) ((queues s)[0 := l]) [rs, ds, ws PROC, ws R, ws W]" "list_outside s s1"
    using lists_pop [OF A, of 0 p rs] by (auto simp: queues_def)
  have "sched_at (s1\<lparr>ready_queue := l\<rparr>) K (Suc k) rs ds ws"
    using p(3) by (intro lists_at_queue [OF p(2)]) (simp_all add: list_data.defs queues_def more_queues [OF p(4)])
  then show ?thesis using p(1) q_frame_intro(1) [OF p(4)] by blast
qed

lemma delete_ready_ok:
  assumes "sched_at s K k rs ds ws" "p \<in> set rs" "p \<noteq> 0"
  shows "\<exists>l s1. list_delete (ready_queue s) p s = Some (p, l, s1) \<and> sched_at (s1\<lparr>ready_queue := l\<rparr>) K (Suc k) (remove1 p rs) ds ws
     \<and> q_frame s (s1\<lparr>ready_queue := l\<rparr>)"
proof -
  have A: "nodes_in s K k" "lists_at (list_nodes s) (queues s) [rs, ds, ws PROC, ws R, ws W]" using assms by (auto simp: sched_at_def)
  obtain l s1 where p: "list_delete (ready_queue s) p s = Some (p, l, s1)" "nodes_in s1 K (Suc k)"
    "lists_at (list_nodes s1) ((queues s)[0 := l]) [remove1 p rs, ds, ws PROC, ws R, ws W]" "list_outside s s1"
    using lists_delete [OF A, of 0 p] assms(2,3) by (auto simp: queues_def)
  have "sched_at (s1\<lparr>ready_queue := l\<rparr>) K (Suc k) (remove1 p rs) ds ws"
    using p(3) by (intro lists_at_queue [OF p(2)]) (simp_all add: list_data.defs queues_def more_queues [OF p(4)])
  then show ?thesis using p(1) q_frame_intro(1) [OF p(4)] by blast
qed

text \<open>The wait queue of an event, by its place among the queues.\<close>

definition ev_idx :: "event \<Rightarrow> nat" where
  "ev_idx e = (case e of PROC \<Rightarrow> 2 | R \<Rightarrow> 3 | W \<Rightarrow> 4)"

lemma wait_queue_idx:
  "ev_idx e < length (queues s)" "queues s ! ev_idx e = wait_queue s e" "[rs, ds, ws PROC, ws R, ws W] ! ev_idx e = ws e"
  "queues (s\<lparr>wait_queue := (wait_queue s)(e := l)\<rparr>) = (queues s)[ev_idx e := l]"
  "[rs, ds, ws PROC, ws R, ws W][ev_idx e := vs] = [rs, ds, (ws(e := vs)) PROC, (ws(e := vs)) R, (ws(e := vs)) W]"
  by (cases e; simp add: ev_idx_def queues_def)+

lemma push_wait_ok:
  assumes "sched_at s K (Suc k) rs ds ws"
  shows "\<exists>l s1. list_push (wait_queue s e) p s = Some (l, s1)
     \<and> sched_at (s1\<lparr>wait_queue := (wait_queue s1)(e := l)\<rparr>) K k rs ds (ws(e := ws e @ [p]))
     \<and> q_frame s (s1\<lparr>wait_queue := (wait_queue s1)(e := l)\<rparr>)"
proof -
  have A: "nodes_in s K (Suc k)" "lists_at (list_nodes s) (queues s) [rs, ds, ws PROC, ws R, ws W]" using assms by (auto simp: sched_at_def)
  obtain l s1 where p: "list_push (wait_queue s e) p s = Some (l, s1)" "nodes_in s1 K k"
    "lists_at (list_nodes s1) ((queues s)[ev_idx e := l]) [rs, ds, (ws(e := ws e @ [p])) PROC, (ws(e := ws e @ [p])) R, (ws(e := ws e @ [p])) W]"
    "list_outside s s1"
    using lists_push [OF A wait_queue_idx(1), of e p] unfolding wait_queue_idx by blast
  have "queues s1 = queues s" by (simp add: queues_def more_queues [OF p(4)])
  then have "sched_at (s1\<lparr>wait_queue := (wait_queue s1)(e := l)\<rparr>) K k rs ds (ws(e := ws e @ [p]))"
    using p(3) wait_queue_idx(4) [of s1 e l] by (intro lists_at_queue [OF p(2)]) (simp_all add: list_data.defs del: fun_upd_apply)
  then show ?thesis using p(1) q_frame_intro(3) [OF p(4)] by blast
qed

lemma delete_wait_ok:
  assumes "sched_at s K k rs ds ws" "p \<in> set (ws e)" "p \<noteq> 0"
  shows "\<exists>l s1. list_delete (wait_queue s e) p s = Some (p, l, s1)
     \<and> sched_at (s1\<lparr>wait_queue := (wait_queue s1)(e := l)\<rparr>) K (Suc k) rs ds (ws(e := remove1 p (ws e)))
     \<and> q_frame s (s1\<lparr>wait_queue := (wait_queue s1)(e := l)\<rparr>)"
proof -
  have A: "nodes_in s K k" "lists_at (list_nodes s) (queues s) [rs, ds, ws PROC, ws R, ws W]" using assms by (auto simp: sched_at_def)
  let ?ws = "ws(e := remove1 p (ws e))"
  have "p \<in> set ([rs, ds, ws PROC, ws R, ws W] ! ev_idx e)" using assms(2) by (simp only: wait_queue_idx)
  then obtain l s1 where p: "list_delete (wait_queue s e) p s = Some (p, l, s1)" "nodes_in s1 K (Suc k)"
    "lists_at (list_nodes s1) ((queues s)[ev_idx e := l]) [rs, ds, ?ws PROC, ?ws R, ?ws W]" "list_outside s s1"
    using lists_delete [OF A wait_queue_idx(1) _ assms(3)] unfolding wait_queue_idx by blast
  have "queues s1 = queues s" by (simp add: queues_def more_queues [OF p(4)])
  then have "sched_at (s1\<lparr>wait_queue := (wait_queue s1)(e := l)\<rparr>) K (Suc k) rs ds ?ws"
    using p(3) wait_queue_idx(4) [of s1 e l] by (intro lists_at_queue [OF p(2)]) (simp_all add: list_data.defs del: fun_upd_apply)
  then show ?thesis using p(1) q_frame_intro(3) [OF p(4)] by blast
qed

lemma ready_empty: "sched_at s K k rs ds ws \<Longrightarrow> list_empty (ready_queue s) \<longleftrightarrow> rs = []"
  using lists_empty [of "list_nodes s" "queues s" "[rs, ds, ws PROC, ws R, ws W]" 0] by (simp add: sched_at_def queues_def)

section \<open>Switching\<close>

lemma upd_pcb_Some [simp]: "pcbs s p = Some b \<Longrightarrow> upd_pcb p f s = Some (s\<lparr>pcbs := (pcbs s)(p \<mapsto> f b)\<rparr>)"
  by (simp add: upd_pcb_def)

text \<open>The thread that leaves the processor, as it is stored, and the registers that are part of every switch.\<close>

definition saved :: "'a sched_scheme \<Rightarrow> pcb_t \<Rightarrow> pcb_t" where
  "saved s b = b\<lparr>p_pc := code_at s L_switch_out, p_reg := callee s\<rparr>"

lemma critical_frame: "irq_ok s \<Longrightarrow> q_frame (disable_int s) t \<Longrightarrow> q_frame s (enable_int t)"
  unfolding q_frame_def using list_outside_critical [of s] by fastforce

lemma switch_to_next_ok:
  assumes A: "sched_at s K k (p # rs) ds ws" and b: "pcbs s prv = Some b" and n: "pcbs s p = Some n" "p \<noteq> prv"
    and quiet: "list_empty (p_signal_queue n)"
  shows "\<exists>s'. switch_to_next prv s = Some (\<lparr>j_pc = p_pc n, j_pstate = p_pstate n, j_arg = p_args n\<rparr>, s')
     \<and> sched_at s' K (Suc k) rs ds ws \<and> get_current s' = p \<and> callee s' = p_reg n \<and> ttbr0_el1 s' = p_ttbr n
     \<and> sp_el0 s' = (if p_el n = 0 then p_sp_el0 n else sp_el0 s)
     \<and> pcbs s' = (pcbs s)(prv \<mapsto> saved s b, p \<mapsto> n\<lparr>p_state := RUN\<rparr>)
     \<and> irq_nested_count s' = irq_nested_count s \<and> daif_masked s' = daif_masked s \<and> code_at s' = code_at s \<and> console s' = console s
     \<and> pcb_table s' = pcb_table s"
proof -
  obtain l s1 where r: "list_pop (ready_queue s) s = Some (p, l, s1)" "sched_at (s1\<lparr>ready_queue := l\<rparr>) K (Suc k) rs ds ws"
    "q_frame s (s1\<lparr>ready_queue := l\<rparr>)" using pop_ready_ok [OF A] by blast
  define t where "t = s1\<lparr>ready_queue := l\<rparr>"
  note F = q_frameD [OF r(3), folded t_def]
  define u where "u = (disable_int t)\<lparr>pcbs := (pcbs s)(prv \<mapsto> b\<lparr>p_pc := code_at s L_switch_out\<rparr>, p \<mapsto> n\<lparr>p_state := RUN\<rparr>), tpidr_el1 := p\<rparr>"
  define v where "v = (if p_el n = 0 then u\<lparr>sp_el0 := p_sp_el0 n\<rparr> else u)"
  define w where "w = (enable_int v)\<lparr>pcbs := (pcbs s)(prv \<mapsto> saved s b, p \<mapsto> n\<lparr>p_state := RUN\<rparr>), callee := p_reg n, ttbr0_el1 := p_ttbr n\<rparr>"
  have irq: "irq_ok t" using sched_irq r(2) t_def by metis
  have "sched_at v K (Suc k) rs ds ws" using sched_at_int(1) [OF r(2), folded t_def] by (simp add: v_def u_def)
  moreover have m: "daif_masked v" by (simp add: v_def u_def)
  ultimately have "sched_at w K (Suc k) rs ds ws" unfolding w_def by (simp add: sched_at_int(2))
  moreover have "run_next prv p t = Some (\<lparr>j_pc = p_pc n, j_pstate = p_pstate n, j_arg = p_args n\<rparr>, w)"
    using b n quiet F by (simp add: run_next_def set_current_def switch_to_def w_def v_def u_def saved_def fun_upd_twist)
  then have "switch_to_next prv s = Some (\<lparr>j_pc = p_pc n, j_pstate = p_pstate n, j_arg = p_args n\<rparr>, w)"
    using r(1) by (simp add: switch_to_next_def t_def)
  moreover have "irq_nested_count w = irq_nested_count s" "daif_masked w = daif_masked s"
    using F(1,2) irq by (auto simp: w_def v_def u_def irq_ok_def)
  ultimately show ?thesis using F n(2)
    by (intro exI [of _ w]) (simp add: w_def v_def u_def get_current_def)
qed

text \<open>Giving up the processor while another thread is ready.\<close>

definition parked :: "'a sched_scheme \<Rightarrow> pcb_t \<Rightarrow> pcb_t" where
  "parked s b = b\<lparr>p_sp_el0 := (if p_el b = 0 then sp_el0 s else p_sp_el0 b), p_pstate := EL1H_W_DAIF\<rparr>"

lemma leave_cpu_Some: "pcbs s p = Some b \<Longrightarrow> leave_cpu p s = Some (s\<lparr>pcbs := (pcbs s)(p \<mapsto> parked s b)\<rparr>)"
  by (simp add: leave_cpu_def parked_def)

lemma schedule_ok:
  assumes A: "sched_at s K (Suc k) (p # rs) ds ws" and cur: "get_current s = c" "pcbs s c = Some b"
    and n: "pcbs s p = Some n" "p \<noteq> c" "list_empty (p_signal_queue n)"
  shows "\<exists>s'. schedule s = Some (Some \<lparr>j_pc = p_pc n, j_pstate = p_pstate n, j_arg = p_args n\<rparr>, s')
     \<and> sched_at s' K (Suc k) (rs @ [c]) ds ws \<and> get_current s' = p \<and> callee s' = p_reg n \<and> ttbr0_el1 s' = p_ttbr n
     \<and> sp_el0 s' = (if p_el n = 0 then p_sp_el0 n else sp_el0 s)
     \<and> pcbs s' = (pcbs s)(c \<mapsto> saved s (parked s (b\<lparr>p_state := READY\<rparr>)), p \<mapsto> n\<lparr>p_state := RUN\<rparr>)
     \<and> irq_nested_count s' = irq_nested_count s \<and> daif_masked s' = daif_masked s \<and> code_at s' = code_at s \<and> console s' = console s
     \<and> pcb_table s' = pcb_table s"
proof -
  let ?b = "b\<lparr>p_state := READY\<rparr>"
  let ?s = "(disable_int s)\<lparr>pcbs := (pcbs s)(c \<mapsto> ?b)\<rparr>"
  have "sched_at ?s K (Suc k) (p # rs) ds ws" using sched_at_int(1) [OF A] by simp
  from push_ready_ok [OF this, of c] obtain t where t: "push_ready c ?s = Some t" "sched_at t K k (p # rs @ [c]) ds ws"
    "q_frame ?s t" by auto
  note F = q_frameD [OF t(3), simplified]
  define u where "u = enable_int (t\<lparr>pcbs := (pcbs s)(c \<mapsto> parked s ?b)\<rparr>)"
  have u: "sched_at u K k (p # rs @ [c]) ds ws" using sched_at_int(2) t(2) F(2) by (simp add: u_def)
  have "schedule s = map_option (\<lambda>(j, s). (Some j, s)) (switch_to_next c u)"
  proof -
    have "\<not> list_empty (ready_queue s)" using ready_empty [OF A] by simp
    moreover have "leave_cpu c t = Some (t\<lparr>pcbs := (pcbs s)(c \<mapsto> parked s ?b)\<rparr>)"
      using F by (simp add: leave_cpu_Some parked_def)
    ultimately show ?thesis using t(1) cur
      by (simp add: schedule_def get_current_def u_def map_option_case split: option.split)
  qed
  moreover obtain s' where s': "switch_to_next c u = Some (\<lparr>j_pc = p_pc n, j_pstate = p_pstate n, j_arg = p_args n\<rparr>, s')"
    "sched_at s' K (Suc k) (rs @ [c]) ds ws" "get_current s' = p" "callee s' = p_reg n" "ttbr0_el1 s' = p_ttbr n"
    "sp_el0 s' = (if p_el n = 0 then p_sp_el0 n else sp_el0 u)"
    "pcbs s' = (pcbs u)(c \<mapsto> saved u (parked s ?b), p \<mapsto> n\<lparr>p_state := RUN\<rparr>)"
    "irq_nested_count s' = irq_nested_count u" "daif_masked s' = daif_masked u" "code_at s' = code_at u" "console s' = console u"
    "pcb_table s' = pcb_table u"
    using switch_to_next_ok [OF u, of c "parked s ?b" n] n by (auto simp: u_def)
  moreover have "irq_nested_count u = irq_nested_count s" "daif_masked u = daif_masked s"
    using F(1,2) sched_irq [OF A] by (auto simp: u_def irq_ok_def)
  ultimately show ?thesis using F by (intro exI [of _ s']) (simp add: u_def saved_def)
qed

section \<open>Waking the threads that wait for another\<close>

text \<open>The queues, with \<open>l\<close> in the place of the queue of the threads that wait for another thread.\<close>

definition queues_with :: "klist \<Rightarrow> 'a sched_scheme \<Rightarrow> klist list" where
  "queues_with l s = [ready_queue s, dead_queue s, l, wait_queue s R, wait_queue s W]"

definition woken :: "pcb_t \<Rightarrow> pcb_t" where
  "woken b = b\<lparr>p_wait_data := 0, p_state := READY, p_wait_q := None\<rparr>"

definition waits_for :: "int \<Rightarrow> (u64 \<rightharpoonup> pcb_t) \<Rightarrow> u64 \<Rightarrow> bool" where
  "waits_for pid m p \<longleftrightarrow> (case m p of None \<Rightarrow> False | Some b \<Rightarrow> sint (ucast (p_wait_data b) :: u32) = pid)"

definition wake_all :: "u64 set \<Rightarrow> (u64 \<rightharpoonup> pcb_t) \<Rightarrow> (u64 \<rightharpoonup> pcb_t)" where
  "wake_all P m = (\<lambda>p. if p \<in> P then map_option woken (m p) else m p)"

text \<open>The two states differ only in the heap, the queues and the threads; the wait queues are the same.\<close>

definition p_frame :: "'a sched_scheme \<Rightarrow> 'a sched_scheme \<Rightarrow> bool" where
  "p_frame s s' \<longleftrightarrow> q_frame s (s'\<lparr>pcbs := pcbs s\<rparr>) \<and> wait_queue s' = wait_queue s"

lemma list_outside_fields:
  assumes "list_outside s s'"
  shows "pcbs s' = pcbs s" "ready_queue s' = ready_queue s" "dead_queue s' = dead_queue s" "wait_queue s' = wait_queue s"
  using assms by (cases s; cases s'; simp add: list_outside_def)+

lemma p_frame_outside:
  assumes "list_outside s s'"
  shows "p_frame s (s'\<lparr>ready_queue := l\<rparr>)" "p_frame s (s'\<lparr>pcbs := m\<rparr>)" "p_frame s s'"
  using assms by (cases s; cases s'; simp add: p_frame_def q_frame_def list_outside_def)+

lemma p_frame_trans: "p_frame s s1 \<Longrightarrow> p_frame s1 s2 \<Longrightarrow> p_frame s s2"
  by (cases s; cases s1; cases s2) (simp add: p_frame_def q_frame_def list_outside_def)

lemma p_frame_pcbs [simp]: "p_frame s (s'\<lparr>pcbs := m\<rparr>) = p_frame s s'" "p_frame (s\<lparr>pcbs := m\<rparr>) s' = p_frame s s'"
  by (cases s; cases s'; simp add: p_frame_def q_frame_def list_outside_def)+

lemma p_frame_critical: "irq_ok s \<Longrightarrow> p_frame (disable_int s) t \<Longrightarrow> p_frame s (enable_int t)"
  unfolding p_frame_def using critical_frame [of s "t\<lparr>pcbs := pcbs s\<rparr>"] by simp

lemma wait_to_ready_on:
  assumes N: "nodes_in s K (Suc k)" and A: "lists_on (list_nodes s) (queues_with l s) ass [rs, ds, vs, ers, ews]" and b: "pcbs s p = Some b"
  shows "\<exists>a s'. wait_to_ready p s = Some s' \<and> nodes_in s' K k
     \<and> lists_on (list_nodes s') (queues_with l s') (ass[0 := ass ! 0 @ [a]]) [rs @ [p], ds, vs, ers, ews]
     \<and> pcbs s' = (pcbs s)(p \<mapsto> woken b) \<and> p_frame s s'"
proof -
  let ?s = "(disable_int s)\<lparr>pcbs := (pcbs s)(p \<mapsto> woken b)\<rparr>"
  have T: "list_data.truncate ?s = list_data.truncate (disable_int s)" by (simp add: list_data.defs)
  have "nodes_in ?s K (Suc k)" using nodes_in_truncate [OF T] nodes_in_int(1) [OF N] by simp
  moreover have "lists_on (list_nodes ?s) (queues_with l s) ass [rs, ds, vs, ers, ews]" using A by simp
  ultimately obtain a l' s1 where p: "list_push (ready_queue ?s) p ?s = Some (l', s1)" "nodes_in s1 K k"
    "lists_on (list_nodes s1) ((queues_with l s)[0 := l']) (ass[0 := ass ! 0 @ [a]]) [rs @ [p], ds, vs, ers, ews]" "list_outside ?s s1"
    using lists_on_push [of ?s K k "queues_with l s" ass "[rs, ds, vs, ers, ews]" 0 p] by (auto simp: queues_with_def)
  note F = list_outside_fields [OF p(4)]
  define s2 where "s2 = s1\<lparr>ready_queue := l'\<rparr>"
  have "wait_to_ready p s = Some (enable_int s2)"
    using b p(1) by (simp add: wait_to_ready_def push_ready_def woken_def s2_def)
  moreover have "daif_masked s2" using p(4) by (simp add: list_outside_def s2_def)
  moreover have "nodes_in s2 K k" using nodes_in_truncate [of s2 s1] p(2) by (simp add: list_data.defs s2_def)
  ultimately have r: "wait_to_ready p s = Some (enable_int s2)" "nodes_in (enable_int s2) K k" using nodes_in_int(2) by blast+
  have "p_frame (disable_int s) s2" using p_frame_outside(1) [OF p(4)] by (simp add: s2_def)
  then have "p_frame s (enable_int s2)" using p_frame_critical nodes_in_irq [OF N] by blast
  moreover have "pcbs (enable_int s2) = (pcbs s)(p \<mapsto> woken b)" using F(1) by (simp add: s2_def)
  moreover have "lists_on (list_nodes (enable_int s2)) (queues_with l (enable_int s2)) (ass[0 := ass ! 0 @ [a]]) [rs @ [p], ds, vs, ers, ews]"
    using p(3) F by (simp add: queues_with_def s2_def)
  ultimately show ?thesis using r by blast
qed

lemma wake_loop_ok:
  assumes "nodes_in s K (Suc k)" "lists_on (list_nodes s) (queues_with l s) [a0, a1, pre @ as, a3, a4] [rs, ds, us @ vs, ers, ews]"
    "length pre = length us" "cur = (if as = [] then None else Some (hd as))" "distinct vs" "\<forall>p \<in> set vs. pcbs s p \<noteq> None"
  shows "\<exists>l' s' ass'. list_rm_loop cur l (match_pid pid) wait_to_ready s = Some (l', s') \<and> nodes_in s' K (Suc k)
     \<and> lists_on (list_nodes s') (queues_with l' s') ass'
         [rs @ filter (waits_for pid (pcbs s)) vs, ds, us @ filter (\<lambda>p. \<not> waits_for pid (pcbs s) p) vs, ers, ews]
     \<and> pcbs s' = wake_all {p \<in> set vs. waits_for pid (pcbs s) p} (pcbs s) \<and> p_frame s s'"
  using assms
proof (induction as arbitrary: s l a0 pre rs us vs cur)
  case Nil
  have "list_at (list_nodes s) l pre (us @ vs)" using Nil.prems(2) by (auto simp: lists_on_def queues_with_def numeral_2_eq_2 dest!: spec [of _ 2])
  then have "vs = []" using list_at_length Nil.prems(3) by fastforce
  then show ?case using Nil.prems p_frame_outside(3) [of s s] by (subst list_rm_loop.simps) (auto simp: wake_all_def)
next
  case (Cons a as)
  have A: "list_at (list_nodes s) l (pre @ a # as) (us @ vs)" using Cons.prems(2) by (auto simp: lists_on_def queues_with_def dest!: spec [of _ 2])
  obtain w ws where vs: "vs = w # ws" using list_at_length [OF A] Cons.prems(3) by (cases vs) auto
  obtain n where n: "list_nodes s a = Some n" "n_ptr n = w" "n_next n = (if as = [] then None else Some (hd as))"
    using list_at_node [OF A [unfolded vs] Cons.prems(3)] .
  obtain b where b: "pcbs s w = Some b" using Cons.prems(6) vs by auto
  have mp: "match_pid pid w s = Some (waits_for pid (pcbs s) w)" using b by (simp add: match_pid_def waits_for_def)
  show ?case
  proof (cases "waits_for pid (pcbs s) w")
    case True
    obtain a' s1 where s1: "wait_to_ready w s = Some s1" "nodes_in s1 K k"
      "lists_on (list_nodes s1) (queues_with l s1) [a0 @ [a'], a1, pre @ a # as, a3, a4] [rs @ [w], ds, us @ w # ws, ers, ews]"
      "pcbs s1 = (pcbs s)(w \<mapsto> woken b)" "p_frame s s1"
      using wait_to_ready_on [OF Cons.prems(1,2) b] vs by auto
    obtain l' m s2 where s2: "list_unlink a l s1 = Some (l', s1\<lparr>list_nodes := m\<rparr>)" "free_node a (s1\<lparr>list_nodes := m\<rparr>) = Some s2"
      "nodes_in s2 K (Suc k)"
      "lists_on (list_nodes s2) ((queues_with l s1)[2 := l']) [a0 @ [a'], a1, pre @ as, a3, a4] [rs @ [w], ds, us @ ws, ers, ews]"
      "list_outside s1 s2"
      using lists_on_remove [OF s1(2,3), of 2 pre a as us w ws] Cons.prems(3) by (auto simp: queues_with_def)
    note F = list_outside_fields [OF s2(5)]
    have q: "(queues_with l s1)[2 := l'] = queues_with l' s2" using F by (simp add: queues_with_def)
    have agree: "waits_for pid (pcbs s2) p = waits_for pid (pcbs s) p" if "p \<in> set ws" for p
      using that Cons.prems(5) vs F(1) s1(4) by (auto simp: waits_for_def)
    have ws: "distinct ws" "\<forall>p \<in> set ws. pcbs s2 p \<noteq> None" using Cons.prems(5,6) vs F(1) s1(4) by auto
    obtain l'' s' ass' where r: "list_rm_loop (n_next n) l' (match_pid pid) wait_to_ready s2 = Some (l'', s')" "nodes_in s' K (Suc k)"
      "lists_on (list_nodes s') (queues_with l'' s') ass'
         [(rs @ [w]) @ filter (waits_for pid (pcbs s2)) ws, ds, us @ filter (\<lambda>p. \<not> waits_for pid (pcbs s2) p) ws, ers, ews]"
      "pcbs s' = wake_all {p \<in> set ws. waits_for pid (pcbs s2) p} (pcbs s2)" "p_frame s2 s'"
      using Cons.IH [OF s2(3) s2(4) [unfolded q] Cons.prems(3) n(3) ws] by (elim exE conjE)
    have "list_rm_loop cur l (match_pid pid) wait_to_ready s = Some (l'', s')"
      using Cons.prems(4) n True mp s1(1) s2(1,2) r(1) by (subst list_rm_loop.simps) simp
    moreover have "filter (waits_for pid (pcbs s2)) ws = filter (waits_for pid (pcbs s)) ws"
      "filter (\<lambda>p. \<not> waits_for pid (pcbs s2) p) ws = filter (\<lambda>p. \<not> waits_for pid (pcbs s) p) ws"
      using agree by (auto intro: filter_cong)
    moreover have "pcbs s' = wake_all {p \<in> set vs. waits_for pid (pcbs s) p} (pcbs s)"
    proof -
      have "{p \<in> set ws. waits_for pid (pcbs s2) p} = {p \<in> set ws. waits_for pid (pcbs s) p}" using agree by blast
      then show ?thesis unfolding r(4) F(1) s1(4) using b True vs Cons.prems(5) by (auto simp: wake_all_def)
    qed
    moreover have "p_frame s s'" using p_frame_trans [OF s1(5)] p_frame_trans [OF p_frame_outside(3) [OF s2(5)] r(5)] by blast
    ultimately show ?thesis using r(2,3) True vs by (intro exI [of _ l''] exI [of _ s'] exI [of _ ass']) simp
  next
    case False
    have "lists_on (list_nodes s) (queues_with l s) [a0, a1, (pre @ [a]) @ as, a3, a4] [rs, ds, (us @ [w]) @ ws, ers, ews]"
      using Cons.prems(2) vs by simp
    from Cons.IH [OF Cons.prems(1) this _ n(3)] Cons.prems(3,5,6) vs
    obtain l' s' ass' where r: "list_rm_loop (n_next n) l (match_pid pid) wait_to_ready s = Some (l', s')" "nodes_in s' K (Suc k)"
      "lists_on (list_nodes s') (queues_with l' s') ass'
         [rs @ filter (waits_for pid (pcbs s)) ws, ds, (us @ [w]) @ filter (\<lambda>p. \<not> waits_for pid (pcbs s) p) ws, ers, ews]"
      "pcbs s' = wake_all {p \<in> set ws. waits_for pid (pcbs s) p} (pcbs s)" "p_frame s s'" by auto
    have "list_rm_loop cur l (match_pid pid) wait_to_ready s = Some (l', s')"
      using Cons.prems(4) n False mp r(1) by (subst list_rm_loop.simps) simp
    moreover have "{p \<in> set vs. waits_for pid (pcbs s) p} = {p \<in> set ws. waits_for pid (pcbs s) p}" using False vs by auto
    ultimately show ?thesis using r(2-5) False vs by (intro exI [of _ l'] exI [of _ s'] exI [of _ ass']) simp
  qed
qed

lemma wake_waiters_ok:
  assumes A: "sched_at s K (Suc k) rs ds ws" and ps: "distinct (ws PROC)" "\<forall>p \<in> set (ws PROC). pcbs s p \<noteq> None"
  shows "\<exists>s'. wake_waiters pid s = Some s'
     \<and> sched_at s' K (Suc k) (rs @ filter (waits_for pid (pcbs s)) (ws PROC)) ds (ws(PROC := filter (\<lambda>p. \<not> waits_for pid (pcbs s) p) (ws PROC)))
     \<and> pcbs s' = wake_all {p \<in> set (ws PROC). waits_for pid (pcbs s) p} (pcbs s) \<and> q_frame s (s'\<lparr>pcbs := pcbs s\<rparr>)"
proof -
  let ?l = "wait_queue s PROC" and ?s = "disable_int s"
  obtain ass where a: "lists_on (list_nodes s) (queues s) ass [rs, ds, ws PROC, ws R, ws W]" using A by (auto simp: sched_at_def lists_at_def)
  have "length ass = 5" using a by (simp add: lists_on_def queues_def)
  then obtain a0 a1 a2 a3 a4 where as: "ass = [a0, a1, a2, a3, a4]" by (auto simp: length_Suc_conv numeral_eq_Suc)
  have L: "lists_on (list_nodes ?s) (queues_with ?l ?s) [a0, a1, [] @ a2, a3, a4] [rs, ds, [] @ ws PROC, ws R, ws W]"
    using a as by (simp add: queues_with_def queues_def)
  have "list_at (list_nodes s) ?l a2 (ws PROC)" using a as by (auto simp: lists_on_def queues_def dest!: spec [of _ 2])
  then have hd: "head ?l = (if a2 = [] then None else Some (hd a2))" by (rule list_at_head)
  have N: "nodes_in ?s K (Suc k)" using A nodes_in_int(1) [of s K "Suc k"] by (simp add: sched_at_def)
  have ps': "\<forall>p \<in> set (ws PROC). pcbs ?s p \<noteq> None" using ps(2) by simp
  obtain l' t ass' where t: "list_rm_loop (head ?l) ?l (match_pid pid) wait_to_ready ?s = Some (l', t)" "nodes_in t K (Suc k)"
    "lists_on (list_nodes t) (queues_with l' t) ass'
         [rs @ filter (waits_for pid (pcbs ?s)) (ws PROC), ds, [] @ filter (\<lambda>p. \<not> waits_for pid (pcbs ?s) p) (ws PROC), ws R, ws W]"
    "pcbs t = wake_all {p \<in> set (ws PROC). waits_for pid (pcbs ?s) p} (pcbs ?s)" "p_frame ?s t"
    using wake_loop_ok [OF N L refl hd ps(1) ps', of pid] by (elim exE conjE)
  define u where "u = enable_int t"
  have fr: "p_frame s u" using p_frame_critical [OF sched_irq [OF A] t(5)] by (simp add: u_def)
  have "daif_masked t" using q_frameD(2) [of ?s "t\<lparr>pcbs := pcbs ?s\<rparr>"] t(5) by (simp add: p_frame_def)
  then have nu: "nodes_in u K (Suc k)" using nodes_in_int(2) [OF t(2)] by (simp add: u_def)
  let ?v = "u\<lparr>wait_queue := (wait_queue u)(PROC := l')\<rparr>"
  have "wake_waiters pid s = Some ?v" using t(1) by (simp add: wake_waiters_def list_rm_and_process_def u_def)
  moreover have "sched_at ?v K (Suc k) (rs @ filter (waits_for pid (pcbs s)) (ws PROC)) ds (ws(PROC := filter (\<lambda>p. \<not> waits_for pid (pcbs s) p) (ws PROC)))"
    using t(3) by (intro lists_at_queue [OF nu]) (auto simp: lists_at_def list_data.defs queues_def queues_with_def u_def)
  moreover have "q_frame s (?v\<lparr>pcbs := pcbs s\<rparr>)" using fr by (simp add: p_frame_def q_frame_def)
  ultimately show ?thesis using t(4) by (auto simp: u_def)
qed

section \<open>Ending a thread\<close>

text \<open>What \<open>exit\<close> and \<open>kill\<close> do to the thread \<open>c\<close>, once it is in no queue: it is dead, and the threads that wait for it are ready.\<close>

definition ended :: "u64 \<Rightarrow> pcb_t \<Rightarrow> u64 list \<Rightarrow> (u64 \<rightharpoonup> pcb_t) \<Rightarrow> (u64 \<rightharpoonup> pcb_t)" where
  "ended c b ps m = wake_all {p \<in> set ps. waits_for (p_pid b) m p} (m(c \<mapsto> b\<lparr>p_state := DEAD\<rparr>))"

lemma end_thread_ok:
  assumes A: "sched_at s K (Suc (Suc k)) rs ds ws" and b: "pcbs s c = Some b"
    and ps: "distinct (ws PROC)" "\<forall>p \<in> set (ws PROC). pcbs s p \<noteq> None" "c \<notin> set (ws PROC)"
  shows "\<exists>s1 s'. push_dead c (s\<lparr>pcbs := (pcbs s)(c \<mapsto> b\<lparr>p_state := DEAD\<rparr>)\<rparr>) = Some s1 \<and> wake_waiters (p_pid b) s1 = Some s'
     \<and> pcbs s1 = (pcbs s)(c \<mapsto> b\<lparr>p_state := DEAD\<rparr>)
     \<and> sched_at s' K (Suc k) (rs @ filter (waits_for (p_pid b) (pcbs s)) (ws PROC)) (ds @ [c]) (ws(PROC := filter (\<lambda>p. \<not> waits_for (p_pid b) (pcbs s) p) (ws PROC)))
     \<and> pcbs s' = ended c b (ws PROC) (pcbs s) \<and> q_frame s (s'\<lparr>pcbs := pcbs s\<rparr>)"
proof -
  let ?m = "(pcbs s)(c \<mapsto> b\<lparr>p_state := DEAD\<rparr>)"
  let ?s = "s\<lparr>pcbs := ?m\<rparr>"
  have "sched_at ?s K (Suc (Suc k)) rs ds ws" using A by simp
  from push_dead_ok [OF this, of c] obtain s1 where s1: "push_dead c ?s = Some s1" "sched_at s1 K (Suc k) rs (ds @ [c]) ws" "q_frame ?s s1"
    by blast
  have m1: "pcbs s1 = ?m" using q_frameD(5) [OF s1(3)] by simp
  have p1: "\<forall>p \<in> set (ws PROC). pcbs s1 p \<noteq> None" using ps(2) m1 by simp
  have w: "waits_for (p_pid b) (pcbs s1) p = waits_for (p_pid b) (pcbs s) p" if "p \<in> set (ws PROC)" for p
    using that ps(3) m1 by (auto simp: waits_for_def)
  obtain s' where s': "wake_waiters (p_pid b) s1 = Some s'"
     "sched_at s' K (Suc k) (rs @ filter (waits_for (p_pid b) (pcbs s1)) (ws PROC)) (ds @ [c]) (ws(PROC := filter (\<lambda>p. \<not> waits_for (p_pid b) (pcbs s1) p) (ws PROC)))"
     "pcbs s' = wake_all {p \<in> set (ws PROC). waits_for (p_pid b) (pcbs s1) p} (pcbs s1)" "q_frame s1 (s'\<lparr>pcbs := pcbs s1\<rparr>)"
    using wake_waiters_ok [OF s1(2) ps(1) p1, of "p_pid b"] by (elim exE conjE)
  have "filter (waits_for (p_pid b) (pcbs s1)) (ws PROC) = filter (waits_for (p_pid b) (pcbs s)) (ws PROC)"
    "filter (\<lambda>p. \<not> waits_for (p_pid b) (pcbs s1) p) (ws PROC) = filter (\<lambda>p. \<not> waits_for (p_pid b) (pcbs s) p) (ws PROC)"
    "{p \<in> set (ws PROC). waits_for (p_pid b) (pcbs s1) p} = {p \<in> set (ws PROC). waits_for (p_pid b) (pcbs s) p}"
    using w by (auto intro: filter_cong)
  moreover have "q_frame s (s'\<lparr>pcbs := pcbs s\<rparr>)"
    using s1(3) s'(4) by (cases s; cases s1; cases s') (simp add: q_frame_def list_outside_def)
  ultimately show ?thesis using s1(1) s'(1-3) m1 by (intro exI [of _ s1] exI [of _ s']) (simp add: ended_def)
qed

lemma q_frame_pcbs_critical:
  assumes "irq_ok s" "q_frame (disable_int s) (t\<lparr>pcbs := pcbs s\<rparr>)"
  shows "q_frame s ((enable_int t)\<lparr>pcbs := pcbs s\<rparr>)"
  using critical_frame [OF assms] by simp

text \<open>\<open>exit\<close> up to the switch.\<close>

lemma exit_ok:
  assumes A: "sched_at s K (Suc (Suc k)) rs ds ws" and c: "get_current s = c" "pcbs s c = Some b" "p_state b \<noteq> DEAD"
    and ps: "distinct (ws PROC)" "\<forall>p \<in> set (ws PROC). pcbs s p \<noteq> None" "c \<notin> set (ws PROC)"
    and rs': "rs' = rs @ filter (waits_for (p_pid b) (pcbs s)) (ws PROC)"
  shows "\<exists>t. exit s = (if rs' = [] then Some (None, t) else map_option (\<lambda>(j, s). (Some j, s)) (switch_to_next c t))
     \<and> sched_at t K (Suc k) rs' (ds @ [c]) (ws(PROC := filter (\<lambda>p. \<not> waits_for (p_pid b) (pcbs s) p) (ws PROC)))
     \<and> pcbs t = ended c b (ws PROC) (pcbs s) \<and> q_frame s (t\<lparr>pcbs := pcbs s\<rparr>)"
proof -
  let ?s = "disable_int s"
  have ps': "\<forall>p \<in> set (ws PROC). pcbs ?s p \<noteq> None" and b': "pcbs ?s c = Some b" using ps(2) c(2) by simp_all
  obtain s1 t where t: "push_dead c (?s\<lparr>pcbs := (pcbs ?s)(c \<mapsto> b\<lparr>p_state := DEAD\<rparr>)\<rparr>) = Some s1" "wake_waiters (p_pid b) s1 = Some t"
    "sched_at t K (Suc k) (rs @ filter (waits_for (p_pid b) (pcbs ?s)) (ws PROC)) (ds @ [c]) (ws(PROC := filter (\<lambda>p. \<not> waits_for (p_pid b) (pcbs ?s) p) (ws PROC)))"
    "pcbs t = ended c b (ws PROC) (pcbs ?s)" "q_frame ?s (t\<lparr>pcbs := pcbs ?s\<rparr>)"
    using end_thread_ok [OF sched_at_int(1) [OF A] b' ps(1) ps' ps(3)] by (elim exE conjE)
  let ?t = "enable_int t"
  have fr: "q_frame s (?t\<lparr>pcbs := pcbs s\<rparr>)" using q_frame_pcbs_critical [OF sched_irq [OF A]] t(5) by simp
  have "daif_masked t" using q_frameD(2) [OF t(5)] by simp
  then have St: "sched_at ?t K (Suc k) rs' (ds @ [c]) (ws(PROC := filter (\<lambda>p. \<not> waits_for (p_pid b) (pcbs s) p) (ws PROC)))"
    using sched_at_int(2) [OF t(3)] rs' by simp
  have "exit s = (if rs' = [] then Some (None, ?t) else map_option (\<lambda>(j, s). (Some j, s)) (switch_to_next c ?t))"
    using c t(1,2) ready_empty [OF St] by (simp add: exit_def get_current_def map_option_case split: option.split)
  then show ?thesis using St t(4) fr by (intro exI [of _ ?t]) simp
qed

text \<open>\<open>wait\<close> up to the switch.\<close>

definition waiting :: "'a sched_scheme \<Rightarrow> event \<Rightarrow> u64 \<Rightarrow> pcb_t \<Rightarrow> pcb_t" where
  "waiting s e data b = parked s (b\<lparr>p_wait_data := data, p_state := WAIT, p_wait_q := Some e\<rparr>)"

lemma wait_ok:
  assumes A: "sched_at s K (Suc k) rs ds ws" and c: "get_current s = c" "pcbs s c = Some b"
  shows "\<exists>t. wait e data s = (if rs = [] then Some (None, t) else map_option (\<lambda>(j, s). (Some j, s)) (switch_to_next c t))
     \<and> sched_at t K k rs ds (ws(e := ws e @ [c])) \<and> pcbs t = (pcbs s)(c \<mapsto> waiting s e data b) \<and> q_frame s (t\<lparr>pcbs := pcbs s\<rparr>)"
proof -
  let ?b = "b\<lparr>p_wait_data := data, p_state := WAIT, p_wait_q := Some e\<rparr>"
  let ?s = "(disable_int s)\<lparr>pcbs := (pcbs s)(c \<mapsto> ?b)\<rparr>"
  have "sched_at ?s K (Suc k) rs ds ws" using sched_at_int(1) [OF A] by simp
  from push_wait_ok [OF this, of e c] obtain l s1 where p: "list_push (wait_queue ?s e) c ?s = Some (l, s1)"
    "sched_at (s1\<lparr>wait_queue := (wait_queue s1)(e := l)\<rparr>) K k rs ds (ws(e := ws e @ [c]))"
    "q_frame ?s (s1\<lparr>wait_queue := (wait_queue s1)(e := l)\<rparr>)" by blast
  define s2 where "s2 = s1\<lparr>wait_queue := (wait_queue s1)(e := l)\<rparr>"
  note F = q_frameD [OF p(3), folded s2_def, simplified]
  define t where "t = enable_int (s2\<lparr>pcbs := (pcbs s)(c \<mapsto> waiting s e data b)\<rparr>)"
  have "q_frame (disable_int s) (s2\<lparr>pcbs := pcbs s\<rparr>)"
    using p(3) unfolding s2_def by (cases s; cases s1) (simp add: q_frame_def list_outside_def disable_int_def)
  then have fr: "q_frame s (t\<lparr>pcbs := pcbs s\<rparr>)" using q_frame_pcbs_critical [OF sched_irq [OF A]] by (simp add: t_def)
  have "sched_at s2 K k rs ds (ws(e := ws e @ [c]))" using p(2) by (simp add: s2_def)
  then have St: "sched_at t K k rs ds (ws(e := ws e @ [c]))"
    using sched_at_int(2) [of s2] F(2) by (simp add: t_def)
  have "leave_cpu c s2 = Some (s2\<lparr>pcbs := (pcbs s)(c \<mapsto> waiting s e data b)\<rparr>)"
    using leave_cpu_Some [of s2 c ?b] F by (simp add: waiting_def parked_def)
  then have "wait e data s = (if rs = [] then Some (None, t) else map_option (\<lambda>(j, s). (Some j, s)) (switch_to_next c t))"
    using c p(1) ready_empty [OF St]
    by (simp add: wait_def get_current_def s2_def [symmetric] t_def map_option_case split: option.split)
  then show ?thesis using St fr by (intro exI [of _ t]) (simp add: t_def)
qed

text \<open>\<open>kill\<close> of a thread that is in a queue.\<close>

lemma kill_queued_ok:
  assumes A: "sched_at s K (Suc (Suc k)) rs ds ws" and b: "pcbs s p = Some b"
    and ps: "distinct (ws PROC)" "\<forall>q \<in> set (ws PROC). pcbs s q \<noteq> None" "p \<notin> set (ws PROC)"
  shows "\<exists>t. kill_queued p s = Some t
     \<and> sched_at t K (Suc k) (rs @ filter (waits_for (p_pid b) (pcbs s)) (ws PROC)) (ds @ [p]) (ws(PROC := filter (\<lambda>q. \<not> waits_for (p_pid b) (pcbs s) q) (ws PROC)))
     \<and> pcbs t = ended p b (ws PROC) (pcbs s) \<and> q_frame s (t\<lparr>pcbs := pcbs s\<rparr>)"
proof -
  obtain s1 t where t: "push_dead p (s\<lparr>pcbs := (pcbs s)(p \<mapsto> b\<lparr>p_state := DEAD\<rparr>)\<rparr>) = Some s1" "wake_waiters (p_pid b) s1 = Some t"
    "pcbs s1 = (pcbs s)(p \<mapsto> b\<lparr>p_state := DEAD\<rparr>)"
    "sched_at t K (Suc k) (rs @ filter (waits_for (p_pid b) (pcbs s)) (ws PROC)) (ds @ [p]) (ws(PROC := filter (\<lambda>q. \<not> waits_for (p_pid b) (pcbs s) q) (ws PROC)))"
    "pcbs t = ended p b (ws PROC) (pcbs s)" "q_frame s (t\<lparr>pcbs := pcbs s\<rparr>)"
    using end_thread_ok [OF A b ps] by (elim exE conjE)
  then show ?thesis using b by (intro exI [of _ t]) (simp add: kill_queued_def)
qed

text \<open>The queues without the thread \<open>p\<close>.\<close>

definition unqueue :: "u64 \<Rightarrow> (event \<Rightarrow> u64 list) \<Rightarrow> event \<Rightarrow> u64 list" where
  "unqueue p ws = (\<lambda>e. remove1 p (ws e))"

lemma q_frame_trans: "q_frame s s1 \<Longrightarrow> q_frame s1 s2 \<Longrightarrow> q_frame s s2"
  by (cases s; cases s1; cases s2) (simp add: q_frame_def list_outside_def)

lemma kill_ok:
  assumes A: "sched_at s K (Suc k) rs ds ws" and tab: "get_int (pcb_table s) pid = Some p" "p \<noteq> 0" and b: "pcbs s p = Some b"
    and q: "p_state b = READY \<and> p \<in> set rs \<and> (\<forall>e. p \<notin> set (ws e)) \<or> p_state b = WAIT \<and> p_wait_q b = Some e \<and> p \<in> set (ws e) \<and> p \<notin> set rs
        \<and> (\<forall>d. d \<noteq> e \<longrightarrow> p \<notin> set (ws d))"
    and d: "\<And>e. distinct (ws e)" "distinct rs" "\<forall>q \<in> set (ws PROC). pcbs s q \<noteq> None"
    and ps: "ps = remove1 p (ws PROC)"
  shows "\<exists>t. kill pid s = Some (None, t)
     \<and> sched_at t K (Suc k) (remove1 p rs @ filter (waits_for (p_pid b) (pcbs s)) ps) (ds @ [p])
         ((unqueue p ws)(PROC := filter (\<lambda>q. \<not> waits_for (p_pid b) (pcbs s) q) ps))
     \<and> pcbs t = ended p b ps (pcbs s) \<and> q_frame s (t\<lparr>pcbs := pcbs s\<rparr>)"
proof -
  let ?s = "disable_int s"
  have A': "sched_at ?s K (Suc k) rs ds ws" by (rule sched_at_int(1) [OF A])
  have rest: "\<exists>t. (do { s \<leftarrow> kill_queued p s1; Some (None :: jump option, enable_int s) }) = Some (None, t)
      \<and> sched_at t K (Suc k) (remove1 p rs @ filter (waits_for (p_pid b) (pcbs s)) ps) (ds @ [p])
         ((unqueue p ws)(PROC := filter (\<lambda>q. \<not> waits_for (p_pid b) (pcbs s) q) ps))
      \<and> pcbs t = ended p b ps (pcbs s) \<and> q_frame s (t\<lparr>pcbs := pcbs s\<rparr>)"
    if S1: "sched_at s1 K (Suc (Suc k)) (remove1 p rs) ds (unqueue p ws)" and fr: "q_frame ?s s1" for s1
  proof -
    have m: "pcbs s1 = pcbs s" using q_frameD(5) [OF fr] by simp
    have ps': "unqueue p ws PROC = ps" "distinct ps" "\<forall>q \<in> set ps. pcbs s1 q \<noteq> None" "p \<notin> set ps"
      using d(3) d(1) [of PROC] m ps by (auto simp: unqueue_def dest: notin_set_remove1)
    obtain t where t: "kill_queued p s1 = Some t"
      "sched_at t K (Suc k) (remove1 p rs @ filter (waits_for (p_pid b) (pcbs s)) ps) (ds @ [p])
         ((unqueue p ws)(PROC := filter (\<lambda>q. \<not> waits_for (p_pid b) (pcbs s) q) ps))"
      "pcbs t = ended p b ps (pcbs s)" "q_frame s1 (t\<lparr>pcbs := pcbs s1\<rparr>)"
      using kill_queued_ok [OF S1, of p b] b ps' unfolding m by auto
    have fr': "q_frame ?s (t\<lparr>pcbs := pcbs s\<rparr>)" using q_frame_trans [OF fr t(4)] m by simp
    have "daif_masked t" using q_frameD(2) [OF fr'] by simp
    then show ?thesis using t(1,3) sched_at_int(2) [OF t(2)] q_frame_pcbs_critical [OF sched_irq [OF A] fr']
      by (intro exI [of _ "enable_int t"]) simp
  qed
  from q show ?thesis
  proof
    assume R: "p_state b = READY \<and> p \<in> set rs \<and> (\<forall>e. p \<notin> set (ws e))"
    obtain l s1 where s1: "list_delete (ready_queue ?s) p ?s = Some (p, l, s1)"
      "sched_at (s1\<lparr>ready_queue := l\<rparr>) K (Suc (Suc k)) (remove1 p rs) ds ws" "q_frame ?s (s1\<lparr>ready_queue := l\<rparr>)"
      using delete_ready_ok [OF A' _ tab(2)] R by blast
    have "unqueue p ws = ws" using R by (simp add: unqueue_def remove1_idem)
    then show ?thesis using rest [of "s1\<lparr>ready_queue := l\<rparr>"] s1 R b tab by (simp add: kill_def)
  next
    assume W: "p_state b = WAIT \<and> p_wait_q b = Some e \<and> p \<in> set (ws e) \<and> p \<notin> set rs \<and> (\<forall>d. d \<noteq> e \<longrightarrow> p \<notin> set (ws d))"
    obtain l s1 where s1: "list_delete (wait_queue ?s e) p ?s = Some (p, l, s1)"
      "sched_at (s1\<lparr>wait_queue := (wait_queue s1)(e := l)\<rparr>) K (Suc (Suc k)) rs ds (ws(e := remove1 p (ws e)))"
      "q_frame ?s (s1\<lparr>wait_queue := (wait_queue s1)(e := l)\<rparr>)"
      using delete_wait_ok [OF A' _ tab(2)] W by blast
    have "unqueue p ws = ws(e := remove1 p (ws e))" "remove1 p rs = rs" using W by (auto simp: unqueue_def remove1_idem fun_eq_iff)
    then show ?thesis using rest [of "s1\<lparr>wait_queue := (wait_queue s1)(e := l)\<rparr>"] s1 W b tab by (simp add: kill_def)
  qed
qed

end
