(* ===== verification/Process_Inv.thy ===== *)
theory Process_Inv
  imports Process_Correct
begin

text \<open>
  The invariant of the scheduler: every thread is in the one place that its state names.  Every scheduling operation
  keeps it and returns, so it holds in every state that can be reached.
\<close>

section \<open>The invariant\<close>

definition has :: "(u64 \<rightharpoonup> pcb_t) \<Rightarrow> u64 \<Rightarrow> stat \<Rightarrow> event option \<Rightarrow> bool" where
  "has m p st q \<longleftrightarrow> (\<exists>b. m p = Some b \<and> p_state b = st \<and> p_wait_q b = q \<and> list_empty (p_signal_queue b))"

definition members :: "u64 list \<Rightarrow> u64 list \<Rightarrow> (event \<Rightarrow> u64 list) \<Rightarrow> u64 list" where
  "members rs ds ws = rs @ ds @ ws PROC @ ws R @ ws W"

text \<open>The queues hold different threads, each in the state that its queue stands for.  No signal is pending.\<close>

definition queued :: "(u64 \<rightharpoonup> pcb_t) \<Rightarrow> u64 list \<Rightarrow> u64 list \<Rightarrow> (event \<Rightarrow> u64 list) \<Rightarrow> bool" where
  "queued m rs ds ws \<longleftrightarrow> distinct (members rs ds ws) \<and> (\<forall>p \<in> set rs. has m p READY None)
     \<and> (\<forall>p \<in> set ds. \<exists>b. m p = Some b \<and> p_state b = DEAD) \<and> (\<forall>e. \<forall>p \<in> set (ws e). has m p WAIT (Some e))"

definition running :: "(u64 \<rightharpoonup> pcb_t) \<Rightarrow> u64 \<Rightarrow> u64 list \<Rightarrow> u64 list \<Rightarrow> (event \<Rightarrow> u64 list) \<Rightarrow> bool" where
  "running m c rs ds ws \<longleftrightarrow> queued m rs ds ws \<and> c \<notin> set (members rs ds ws) \<and> has m c RUN None"

text \<open>Every entry of the table is one of the threads and carries its own index.\<close>

definition table_ok :: "u64 list \<Rightarrow> (u64 \<rightharpoonup> pcb_t) \<Rightarrow> u64 set \<Rightarrow> bool" where
  "table_ok T m S \<longleftrightarrow> length T = 1024 \<and> 0 \<notin> S
     \<and> (\<forall>i < 1024. T ! i \<noteq> 0 \<longrightarrow> T ! i \<in> S \<and> (\<exists>b. m (T ! i) = Some b \<and> p_pid b = int i))"

definition proc_at :: "'a sched_scheme \<Rightarrow> (nat \<times> nat) set \<Rightarrow> nat \<Rightarrow> u64 list \<Rightarrow> u64 list \<Rightarrow> (event \<Rightarrow> u64 list) \<Rightarrow> bool" where
  "proc_at s K k rs ds ws \<longleftrightarrow> sched_at s K k rs ds ws \<and> running (pcbs s) (get_current s) rs ds ws
     \<and> table_ok (pcb_table s) (pcbs s) (set (get_current s # members rs ds ws))
     \<and> pcb_table s ! 0 \<in> set (get_current s # rs)"

definition proc_inv :: "'a sched_scheme \<Rightarrow> (nat \<times> nat) set \<Rightarrow> nat \<Rightarrow> bool" where
  "proc_inv s K k \<longleftrightarrow> (\<exists>rs ds ws. proc_at s K k rs ds ws)"

section \<open>What the operations do to the places\<close>

definition pids_kept :: "(u64 \<rightharpoonup> pcb_t) \<Rightarrow> (u64 \<rightharpoonup> pcb_t) \<Rightarrow> bool" where
  "pids_kept m m' \<longleftrightarrow> (\<forall>p b. m p = Some b \<longrightarrow> (\<exists>b'. m' p = Some b' \<and> p_pid b' = p_pid b))"

lemma pids_kept_refl [simp]: "pids_kept m m"
  by (simp add: pids_kept_def)

lemma pids_kept_upd: "pids_kept m m' \<Longrightarrow> m p = Some b \<Longrightarrow> p_pid b' = p_pid b \<Longrightarrow> pids_kept m (m'(p \<mapsto> b'))"
  by (auto simp: pids_kept_def)

lemma pids_kept_trans: "pids_kept m m1 \<Longrightarrow> pids_kept m1 m2 \<Longrightarrow> pids_kept m m2"
  unfolding pids_kept_def by metis

lemma table_ok_kept: "table_ok T m S \<Longrightarrow> pids_kept m m' \<Longrightarrow> table_ok T m' S"
  unfolding table_ok_def pids_kept_def by metis

lemma members_disjoint:
  assumes "distinct (members rs ds ws)"
  shows "distinct rs" "distinct ds" "distinct (ws e)" "p \<in> set (ws e) \<Longrightarrow> p \<notin> set rs" "p \<in> set (ws e) \<Longrightarrow> p \<notin> set ds"
    "p \<in> set rs \<Longrightarrow> p \<notin> set ds" "p \<in> set (ws e) \<Longrightarrow> e \<noteq> d \<Longrightarrow> p \<notin> set (ws d)"
  using assms by (cases e; cases d; auto simp: members_def)+

lemma in_members: "p \<in> set (members rs ds ws) \<longleftrightarrow> p \<in> set rs \<or> p \<in> set ds \<or> (\<exists>e. p \<in> set (ws e))"
  by (auto simp: members_def) (metis event.exhaust)

lemma mset_split: "mset xs = mset (filter P xs) + mset (filter (\<lambda>x. \<not> P x) xs)"
  by (induction xs) auto

lemma queuedI:
  "distinct (members rs ds ws) \<Longrightarrow> (\<And>p. p \<in> set rs \<Longrightarrow> has m p READY None) \<Longrightarrow> (\<And>p. p \<in> set ds \<Longrightarrow> \<exists>b. m p = Some b \<and> p_state b = DEAD) \<Longrightarrow>
     (\<And>e p. p \<in> set (ws e) \<Longrightarrow> has m p WAIT (Some e)) \<Longrightarrow> queued m rs ds ws"
  by (simp add: queued_def)

lemma queuedD:
  assumes "queued m rs ds ws"
  shows "distinct (members rs ds ws)" "\<And>p. p \<in> set rs \<Longrightarrow> has m p READY None" "\<And>p. p \<in> set ds \<Longrightarrow> \<exists>b. m p = Some b \<and> p_state b = DEAD"
    "\<And>e p. p \<in> set (ws e) \<Longrightarrow> has m p WAIT (Some e)"
  using assms by (auto simp: queued_def)

text \<open>The next thread gets the processor.\<close>

lemma dispatch:
  assumes Q: "queued m (p # rs) ds ws" and n: "m p = Some n" and b: "m c = Some b" "c \<noteq> p"
    and b': "p_state b' = p_state b" "p_wait_q b' = p_wait_q b" "p_signal_queue b' = p_signal_queue b"
  shows "running (m(c \<mapsto> b', p \<mapsto> n\<lparr>p_state := RUN\<rparr>)) p rs ds ws"
proof -
  have d: "distinct (members rs ds ws)" "p \<notin> set (members rs ds ws)" using Q by (auto simp: queued_def members_def)
  have hc: "has (m(c \<mapsto> b', p \<mapsto> n\<lparr>p_state := RUN\<rparr>)) q st e" if "has m q st e" "q \<noteq> p" for q st e
    using that b b' by (auto simp: has_def)
  have "queued (m(c \<mapsto> b', p \<mapsto> n\<lparr>p_state := RUN\<rparr>)) rs ds ws"
  proof (rule queuedI [OF d(1)])
    fix q assume "q \<in> set rs"
    then show "has (m(c \<mapsto> b', p \<mapsto> n\<lparr>p_state := RUN\<rparr>)) q READY None" using queuedD(2) [OF Q, of q] d(2) hc by (auto simp: in_members)
  next
    fix q assume "q \<in> set ds"
    then show "\<exists>b. (m(c \<mapsto> b', p \<mapsto> n\<lparr>p_state := RUN\<rparr>)) q = Some b \<and> p_state b = DEAD"
      using queuedD(3) [OF Q, of q] d(2) b b' by (auto simp: in_members)
  next
    fix e q assume "q \<in> set (ws e)"
    then show "has (m(c \<mapsto> b', p \<mapsto> n\<lparr>p_state := RUN\<rparr>)) q WAIT (Some e)" using queuedD(4) [OF Q, of q e] d(2) hc by (auto simp: in_members)
  qed
  moreover have "has (m(c \<mapsto> b', p \<mapsto> n\<lparr>p_state := RUN\<rparr>)) p RUN None" using Q n by (auto simp: queued_def has_def)
  ultimately show ?thesis using d(2) by (simp add: running_def)
qed

text \<open>The running thread goes to the end of the ready queue, or of a wait queue.\<close>

lemma has_upd: "has m p st q \<Longrightarrow> p \<noteq> c \<Longrightarrow> has (m(c \<mapsto> b)) p st q"
  by (simp add: has_def)

lemma park_ready:
  assumes A: "running m c rs ds ws" "m c = Some b" "p_state b' = READY" "p_wait_q b' = p_wait_q b" "p_signal_queue b' = p_signal_queue b"
  shows "queued (m(c \<mapsto> b')) (rs @ [c]) ds ws"
proof -
  have Q: "queued m rs ds ws" and c: "c \<notin> set (members rs ds ws)" using A(1) by (auto simp: running_def)
  note D = queuedD [OF Q]
  show ?thesis
  proof (rule queuedI)
    show "distinct (members (rs @ [c]) ds ws)" using D(1) c by (auto simp: members_def)
    show "has (m(c \<mapsto> b')) p READY None" if "p \<in> set (rs @ [c])" for p
      using that D(2) [of p] A by (cases "p = c") (auto simp: running_def has_def)
    show "\<exists>b. (m(c \<mapsto> b')) p = Some b \<and> p_state b = DEAD" if "p \<in> set ds" for p using that D(3) [OF that] c by (auto simp: in_members)
    show "has (m(c \<mapsto> b')) p WAIT (Some e)" if "p \<in> set (ws e)" for p e
      using that c by (intro has_upd D(4)) (auto simp: in_members)
  qed
qed

lemma park_wait:
  assumes A: "running m c rs ds ws" "m c = Some b" "p_state b' = WAIT" "p_wait_q b' = Some e" "p_signal_queue b' = p_signal_queue b"
  shows "queued (m(c \<mapsto> b')) rs ds (ws(e := ws e @ [c]))"
proof -
  have Q: "queued m rs ds ws" and c: "c \<notin> set (members rs ds ws)" using A(1) by (auto simp: running_def)
  note D = queuedD [OF Q]
  show ?thesis
  proof (rule queuedI)
    show "distinct (members rs ds (ws(e := ws e @ [c])))" using D(1) c by (cases e) (auto simp: members_def)
    show "has (m(c \<mapsto> b')) p READY None" if "p \<in> set rs" for p using that c by (intro has_upd D(2)) (auto simp: in_members)
    show "\<exists>b. (m(c \<mapsto> b')) p = Some b \<and> p_state b = DEAD" if "p \<in> set ds" for p using that D(3) [OF that] c by (auto simp: in_members)
    show "has (m(c \<mapsto> b')) p WAIT (Some d)" if "p \<in> set ((ws(e := ws e @ [c])) d)" for p d
    proof (cases "p = c")
      case True
      then have "d = e" using that c by (auto simp: in_members split: if_splits)
      then show ?thesis using True A by (auto simp: running_def has_def)
    next
      case False
      then show ?thesis using that by (intro has_upd D(4)) (auto split: if_splits)
    qed
  qed
qed

text \<open>A thread \<open>c\<close> that is in no queue ends, and wakes those who wait for it.\<close>

lemma end_wake:
  assumes Q: "queued m rs ds ws" and c: "c \<notin> set (members rs ds ws)" "m c = Some b"
  shows "queued (ended c b (ws PROC) m) (rs @ filter (waits_for (p_pid b) m) (ws PROC)) (ds @ [c])
     (ws(PROC := filter (\<lambda>p. \<not> waits_for (p_pid b) m p) (ws PROC)))"
proof -
  let ?M = "waits_for (p_pid b) m" and ?m = "ended c b (ws PROC) m"
  have d: "distinct (members rs ds ws)" using Q by (simp add: queued_def)
  have "mset (members (rs @ filter ?M (ws PROC)) (ds @ [c]) (ws(PROC := filter (\<lambda>p. \<not> ?M p) (ws PROC)))) = mset (c # members rs ds ws)"
    using mset_split [of "ws PROC" ?M] by (simp add: members_def)
  moreover have "distinct (c # members rs ds ws)" using d c by simp
  ultimately have D: "distinct (members (rs @ filter ?M (ws PROC)) (ds @ [c]) (ws(PROC := filter (\<lambda>p. \<not> ?M p) (ws PROC))))"
    using mset_eq_imp_distinct_iff by blast
  note Q' = queuedD [OF Q] and dj = members_disjoint [OF d]
  have keep: "?m p = m p" if "p \<in> set (members rs ds ws)" "p \<in> set (ws PROC) \<longrightarrow> \<not> ?M p" for p
    using that c(1) by (auto simp: ended_def wake_all_def)
  show ?thesis
  proof (rule queuedI [OF D])
    fix p assume p: "p \<in> set (rs @ filter ?M (ws PROC))"
    show "has ?m p READY None"
    proof (cases "p \<in> set rs")
      case True
      then have "?m p = m p" using dj(4) by (intro keep) (auto simp: in_members)
      then show ?thesis using Q'(2) [OF True] by (simp add: has_def)
    next
      case False
      then have "p \<in> set (ws PROC)" "?M p" using p by auto
      moreover from this obtain b' where "m p = Some b'" "list_empty (p_signal_queue b')" using Q'(4) [of p PROC] by (auto simp: has_def)
      moreover have "p \<noteq> c" using c(1) \<open>p \<in> set (ws PROC)\<close> by (auto simp: in_members)
      ultimately show ?thesis by (simp add: has_def ended_def wake_all_def woken_def)
    qed
  next
    fix p assume p: "p \<in> set (ds @ [c])"
    show "\<exists>b. ?m p = Some b \<and> p_state b = DEAD"
    proof (cases "p = c")
      case True
      then show ?thesis using c(1) by (auto simp: ended_def wake_all_def in_members)
    next
      case False
      then have "p \<in> set ds" using p by simp
      moreover from this have "?m p = m p" using dj(5) by (intro keep) (auto simp: in_members)
      ultimately show ?thesis using Q'(3) by simp
    qed
  next
    fix e p assume p: "p \<in> set ((ws(PROC := filter (\<lambda>p. \<not> ?M p) (ws PROC))) e)"
    then have w: "p \<in> set (ws e)" "e = PROC \<longrightarrow> \<not> ?M p" by (auto split: if_splits)
    then have "?m p = m p" using dj(7) [OF w(1), of PROC] by (intro keep) (auto simp: in_members)
    then show "has ?m p WAIT (Some e)" using Q'(4) [OF w(1)] by (simp add: has_def)
  qed
qed

lemma ended_pids: "m c = Some b \<Longrightarrow> pids_kept m (ended c b ps m)"
  by (auto simp: pids_kept_def ended_def wake_all_def woken_def)

section \<open>The operations keep the invariant\<close>

lemma switch_keeps:
  assumes A: "sched_at t K k rs ds ws" "queued (pcbs t) rs ds ws" and c: "pcbs t c = Some b" "rs \<noteq> []" "hd rs \<noteq> c"
    and T: "table_ok (pcb_table t) (pcbs t) (set (members rs ds ws))" "pcb_table t ! 0 \<in> set rs"
  shows "\<exists>j s'. switch_to_next c t = Some (j, s') \<and> proc_inv s' K (Suc k)"
proof -
  obtain p qs where rs: "rs = p # qs" using c(2) by (cases rs) auto
  obtain n where n: "pcbs t p = Some n" "list_empty (p_signal_queue n)" using queuedD(2) [OF A(2), of p] rs by (auto simp: has_def)
  obtain s' where s': "switch_to_next c t = Some (\<lparr>j_pc = p_pc n, j_pstate = p_pstate n, j_arg = p_args n\<rparr>, s')"
    "sched_at s' K (Suc k) qs ds ws" "get_current s' = p" "pcbs s' = (pcbs t)(c \<mapsto> saved t b, p \<mapsto> n\<lparr>p_state := RUN\<rparr>)" "pcb_table s' = pcb_table t"
    using switch_to_next_ok [OF A(1) [unfolded rs] c(1) n(1) _ n(2)] c(3) rs by auto
  have "running (pcbs s') p qs ds ws"
    unfolding s'(4) using dispatch [OF A(2) [unfolded rs] n(1) c(1)] c(3) rs by (simp add: saved_def)
  moreover have "pids_kept (pcbs t) (pcbs s')" unfolding s'(4) using c(1) n(1) by (intro pids_kept_upd) (auto simp: saved_def)
  then have "table_ok (pcb_table s') (pcbs s') (set (members rs ds ws))" using table_ok_kept [OF T(1)] s'(5) by simp
  ultimately have "proc_at s' K (Suc k) qs ds ws" using s' T(2) rs by (simp add: proc_at_def members_def)
  then show ?thesis using s'(1) by (auto simp: proc_inv_def)
qed

lemma proc_current:
  assumes "proc_at s K k rs ds ws"
  obtains b where "pcbs s (get_current s) = Some b" "p_state b = RUN" "p_wait_q b = None" "get_current s \<notin> set (members rs ds ws)"
    "queued (pcbs s) rs ds ws" "running (pcbs s) (get_current s) rs ds ws"
  using assms that by (auto simp: proc_at_def running_def has_def)

lemma proc_schedule:
  assumes A: "proc_at s K (Suc k) rs ds ws"
  shows "\<exists>j s'. schedule s = Some (j, s') \<and> proc_inv s' K (Suc k)"
proof (cases rs)
  case Nil
  then have "schedule s = Some (None, s)" using ready_empty [of s K "Suc k" rs ds ws] A by (simp add: schedule_def proc_at_def)
  then show ?thesis using A by (auto simp: proc_inv_def)
next
  case (Cons p qs)
  let ?c = "get_current s"
  obtain b where b: "pcbs s ?c = Some b" "?c \<notin> set (members rs ds ws)" "queued (pcbs s) rs ds ws" "running (pcbs s) ?c rs ds ws"
    using proc_current [OF A] .
  have S: "sched_at s K (Suc k) (p # qs) ds ws" and T: "table_ok (pcb_table s) (pcbs s) (set (?c # members rs ds ws))" "pcb_table s ! 0 \<in> set (?c # rs)"
    using A Cons by (auto simp: proc_at_def)
  obtain n where n: "pcbs s p = Some n" "list_empty (p_signal_queue n)" using queuedD(2) [OF b(3), of p] Cons by (auto simp: has_def)
  have pc: "p \<noteq> ?c" using b(2) Cons by (auto simp: members_def)
  obtain s' where s': "schedule s = Some (Some \<lparr>j_pc = p_pc n, j_pstate = p_pstate n, j_arg = p_args n\<rparr>, s')"
    "sched_at s' K (Suc k) (qs @ [?c]) ds ws" "get_current s' = p"
    "pcbs s' = (pcbs s)(?c \<mapsto> saved s (parked s (b\<lparr>p_state := READY\<rparr>)), p \<mapsto> n\<lparr>p_state := RUN\<rparr>)" "pcb_table s' = pcb_table s"
    using schedule_ok [OF S refl b(1) n(1) pc n(2)] by auto
  have "queued ((pcbs s)(?c \<mapsto> b\<lparr>p_state := READY\<rparr>)) (p # qs @ [?c]) ds ws"
    using park_ready [OF b(4,1), of "b\<lparr>p_state := READY\<rparr>"] Cons by simp
  from dispatch [OF this, of n ?c "b\<lparr>p_state := READY\<rparr>" "saved s (parked s (b\<lparr>p_state := READY\<rparr>))"]
  have "running (pcbs s') p (qs @ [?c]) ds ws" unfolding s'(4) using pc n(1) by (simp add: saved_def parked_def)
  moreover have "pids_kept (pcbs s) (pcbs s')"
    unfolding s'(4) using b(1) n(1) pc by (intro pids_kept_upd) (auto simp: saved_def parked_def)
  then have "table_ok (pcb_table s') (pcbs s') (set (?c # members rs ds ws))" using table_ok_kept [OF T(1)] s'(5) by simp
  moreover have "set (p # members (qs @ [?c]) ds ws) = set (?c # members rs ds ws)" using Cons by (auto simp: members_def)
  ultimately have "proc_at s' K (Suc k) (qs @ [?c]) ds ws" unfolding proc_at_def s'(3) using s'(2,5) T(2) Cons by auto
  then show ?thesis using s'(1) by (auto simp: proc_inv_def)
qed

lemma proc_wait:
  assumes A: "proc_at s K (Suc k) rs ds ws" and c: "get_current s \<noteq> pcb_table s ! 0"
  shows "\<exists>j s'. wait e data s = Some (j, s') \<and> proc_inv s' K (Suc k)"
proof -
  let ?c = "get_current s"
  obtain b where b: "pcbs s ?c = Some b" "?c \<notin> set (members rs ds ws)" "running (pcbs s) ?c rs ds ws"
    using proc_current [OF A] .
  have S: "sched_at s K (Suc k) rs ds ws" and T: "table_ok (pcb_table s) (pcbs s) (set (?c # members rs ds ws))" "pcb_table s ! 0 \<in> set rs"
    using A c by (auto simp: proc_at_def)
  then have "rs \<noteq> []" by auto
  then obtain t where t: "wait e data s = map_option (\<lambda>(j, s). (Some j, s)) (switch_to_next ?c t)"
    "sched_at t K k rs ds (ws(e := ws e @ [?c]))" "pcbs t = (pcbs s)(?c \<mapsto> waiting s e data b)" "q_frame s (t\<lparr>pcbs := pcbs s\<rparr>)"
    using wait_ok [OF S refl b(1), of e data] by auto
  have Q: "queued (pcbs t) rs ds (ws(e := ws e @ [?c]))"
    unfolding t(3) using park_wait [OF b(3,1)] by (simp add: waiting_def parked_def)
  have tab: "pcb_table t = pcb_table s" using q_frameD(12) [OF t(4)] by simp
  have "pids_kept (pcbs s) (pcbs t)" unfolding t(3) using b(1) by (intro pids_kept_upd) (auto simp: waiting_def parked_def)
  moreover have "set (members rs ds (ws(e := ws e @ [?c]))) = set (?c # members rs ds ws)" by (cases e) (auto simp: members_def)
  ultimately have "table_ok (pcb_table t) (pcbs t) (set (members rs ds (ws(e := ws e @ [?c]))))" using table_ok_kept [OF T(1)] tab by simp
  moreover have "hd rs \<noteq> ?c" using b(2) hd_in_set [OF \<open>rs \<noteq> []\<close>] by (auto simp: in_members)
  ultimately obtain j s' where "switch_to_next ?c t = Some (j, s')" "proc_inv s' K (Suc k)"
    using switch_keeps [OF t(2) Q _ \<open>rs \<noteq> []\<close>] t(3) T(2) tab by fastforce
  then show ?thesis using t(1) by simp
qed

lemma ended_members:
  "set (members (rs @ filter M (ws PROC)) (ds @ [c]) (ws(PROC := filter (\<lambda>p. \<not> M p) (ws PROC)))) = set (c # members rs ds ws)"
  by (auto simp: members_def)

lemma proc_exit:
  assumes A: "proc_at s K (Suc (Suc k)) rs ds ws" and c: "get_current s \<noteq> pcb_table s ! 0"
  shows "\<exists>j s'. exit s = Some (j, s') \<and> j \<noteq> None \<and> proc_inv s' K (Suc (Suc k))"
proof -
  let ?c = "get_current s"
  obtain b where b: "pcbs s ?c = Some b" "?c \<notin> set (members rs ds ws)" "running (pcbs s) ?c rs ds ws" "queued (pcbs s) rs ds ws" "p_state b = RUN"
    using proc_current [OF A] .
  have S: "sched_at s K (Suc (Suc k)) rs ds ws" and T: "table_ok (pcb_table s) (pcbs s) (set (?c # members rs ds ws))" "pcb_table s ! 0 \<in> set rs"
    using A c by (auto simp: proc_at_def)
  let ?M = "waits_for (p_pid b) (pcbs s)"
  let ?rs = "rs @ filter ?M (ws PROC)" and ?ws = "ws(PROC := filter (\<lambda>p. \<not> ?M p) (ws PROC))"
  have ps: "distinct (ws PROC)" "\<forall>p \<in> set (ws PROC). pcbs s p \<noteq> None" "?c \<notin> set (ws PROC)"
    using members_disjoint(3) [OF queuedD(1) [OF b(4)], of PROC] queuedD(4) [OF b(4), of _ PROC] b(2) by (auto simp: has_def in_members)
  have ne: "?rs \<noteq> []" using T(2) by auto
  then obtain t where t: "exit s = map_option (\<lambda>(j, s). (Some j, s)) (switch_to_next ?c t)"
    "sched_at t K (Suc k) ?rs (ds @ [?c]) ?ws" "pcbs t = ended ?c b (ws PROC) (pcbs s)" "q_frame s (t\<lparr>pcbs := pcbs s\<rparr>)"
    using exit_ok [OF S refl b(1) _ ps refl] b(5) by auto
  have Q: "queued (pcbs t) ?rs (ds @ [?c]) ?ws" unfolding t(3) by (rule end_wake [OF b(4,2,1)])
  have tab: "pcb_table t = pcb_table s" using q_frameD(12) [OF t(4)] by simp
  have kept: "pids_kept (pcbs s) (pcbs t)" unfolding t(3) by (rule ended_pids) (rule b(1))
  have "table_ok (pcb_table t) (pcbs t) (set (members ?rs (ds @ [?c]) ?ws))"
    unfolding ended_members tab by (rule table_ok_kept [OF T(1) kept])
  moreover have "hd ?rs \<noteq> ?c" using b(2) hd_in_set [OF ne] by (auto simp: in_members)
  moreover obtain b' where "pcbs t ?c = Some b'" using kept b(1) by (auto simp: pids_kept_def)
  ultimately obtain j s' where "switch_to_next ?c t = Some (j, s')" "proc_inv s' K (Suc (Suc k))"
    using switch_keeps [OF t(2) Q _ ne] T(2) tab by fastforce
  then show ?thesis using t(1) by simp
qed

lemma table_okD:
  assumes "table_ok T m S" "0 \<le> pid" "pid < 1024"
  shows "get_int T pid = Some (T ! nat pid)" "T ! nat pid \<noteq> 0 \<Longrightarrow> T ! nat pid \<in> S"
    "T ! nat pid \<noteq> 0 \<Longrightarrow> \<exists>b. m (T ! nat pid) = Some b \<and> p_pid b = pid"
proof -
  have "nat pid < 1024" using assms by (simp add: nat_less_iff)
  then show "get_int T pid = Some (T ! nat pid)" "T ! nat pid \<noteq> 0 \<Longrightarrow> T ! nat pid \<in> S"
    "T ! nat pid \<noteq> 0 \<Longrightarrow> \<exists>b. m (T ! nat pid) = Some b \<and> p_pid b = pid"
    using assms by (auto simp: table_ok_def get_int_def get_at_def)
qed

lemma unqueue_queued:
  assumes Q: "queued m rs ds ws" and p: "p \<in> set (members rs ds ws)" "p \<notin> set ds"
  shows "queued m (remove1 p rs) ds (unqueue p ws)" "p \<notin> set (members (remove1 p rs) ds (unqueue p ws))"
    "set (p # members (remove1 p rs) ds (unqueue p ws)) = set (members rs ds ws)"
proof -
  have d: "distinct (members rs ds ws)" using Q by (simp add: queued_def)
  have s: "set (remove1 p rs) = set rs - {p}" "set (unqueue p ws e) = set (ws e) - {p}" for e
    using members_disjoint(1,3) [OF d] by (simp_all add: unqueue_def)
  have "distinct (members (remove1 p rs) ds (unqueue p ws))"
    using d unfolding members_def distinct_append set_append s by (auto simp: unqueue_def distinct_remove1)
  then show "queued m (remove1 p rs) ds (unqueue p ws)"
    using Q s by (intro queuedI) (auto simp: queued_def)
  show "p \<notin> set (members (remove1 p rs) ds (unqueue p ws))" using p(2) s by (simp add: in_members)
  show "set (p # members (remove1 p rs) ds (unqueue p ws)) = set (members rs ds ws)"
    using p s by (auto simp: in_members)
qed

lemma has_unique:
  "has m p st q \<Longrightarrow> m p = Some b \<Longrightarrow> p_state b = st \<and> p_wait_q b = q"
  by (auto simp: has_def)

text \<open>A thread in a queue that is not the dead one is in the queue its state names, and in no other.\<close>

lemma kill_place:
  assumes Q: "queued m rs ds ws" and mem: "p \<in> set (members rs ds ws)" "p \<notin> set ds" and b: "m p = Some b"
  shows "\<exists>e. p_state b = READY \<and> p \<in> set rs \<and> (\<forall>e. p \<notin> set (ws e)) \<or> p_state b = WAIT \<and> p_wait_q b = Some e \<and> p \<in> set (ws e) \<and> p \<notin> set rs
      \<and> (\<forall>d. d \<noteq> e \<longrightarrow> p \<notin> set (ws d))"
proof (cases "p \<in> set rs")
  case True
  then show ?thesis using has_unique [OF queuedD(2) [OF Q True] b] members_disjoint(4) [OF queuedD(1) [OF Q]] by blast
next
  case False
  then obtain e where e: "p \<in> set (ws e)" using mem by (auto simp: in_members)
  then have "p_state b = WAIT" "p_wait_q b = Some e" "\<forall>d. d \<noteq> e \<longrightarrow> p \<notin> set (ws d)"
    using has_unique [OF queuedD(4) [OF Q e] b] members_disjoint(7) [OF queuedD(1) [OF Q] e] by auto
  then show ?thesis using False e by blast
qed

lemma running_waiters:
  assumes "running m c rs ds ws"
  shows "distinct (ws PROC)" "\<forall>p \<in> set (ws PROC). m p \<noteq> None" "c \<notin> set (ws PROC)" "queued m rs ds ws" "c \<notin> set (members rs ds ws)"
proof -
  have Q: "queued m rs ds ws" and c: "c \<notin> set (members rs ds ws)" using assms by (auto simp: running_def)
  show "distinct (ws PROC)" "\<forall>p \<in> set (ws PROC). m p \<noteq> None" "c \<notin> set (ws PROC)" "queued m rs ds ws" "c \<notin> set (members rs ds ws)"
    using members_disjoint(3) [OF queuedD(1) [OF Q], of PROC] queuedD(4) [OF Q, of _ PROC] Q c by (auto simp: has_def in_members)
qed

lemma kill_running:
  assumes A: "sched_at s K (Suc k) rs ds ws" and r: "running (pcbs s) (get_current s) rs ds ws"
    and tab: "get_int (pcb_table s) pid = Some p" "p \<noteq> 0" and mem: "p \<in> set (members rs ds ws)" "p \<notin> set ds" and b: "pcbs s p = Some b"
    and rs': "rs' = remove1 p rs @ filter (waits_for (p_pid b) (pcbs s)) (remove1 p (ws PROC))"
    and ws': "ws' = (unqueue p ws)(PROC := filter (\<lambda>q. \<not> waits_for (p_pid b) (pcbs s) q) (remove1 p (ws PROC)))"
  shows "\<exists>t. kill pid s = Some (None, t) \<and> get_current t = get_current s \<and> pcb_table t = pcb_table s \<and> pids_kept (pcbs s) (pcbs t)
     \<and> sched_at t K (Suc k) rs' (ds @ [p]) ws' \<and> running (pcbs t) (get_current s) rs' (ds @ [p]) ws'
     \<and> set (members rs' (ds @ [p]) ws') = set (members rs ds ws)"
proof -
  let ?c = "get_current s"
  note W = running_waiters [OF r] and U = unqueue_queued [OF running_waiters(4) [OF r] mem]
  note dj = members_disjoint [OF queuedD(1) [OF W(4)]]
  obtain e where q: "p_state b = READY \<and> p \<in> set rs \<and> (\<forall>e. p \<notin> set (ws e)) \<or> p_state b = WAIT \<and> p_wait_q b = Some e \<and> p \<in> set (ws e) \<and> p \<notin> set rs
      \<and> (\<forall>d. d \<noteq> e \<longrightarrow> p \<notin> set (ws d))"
    using kill_place [OF W(4) mem b] by blast
  obtain t where t: "kill pid s = Some (None, t)" "sched_at t K (Suc k) rs' (ds @ [p]) ws'" "pcbs t = ended p b (remove1 p (ws PROC)) (pcbs s)"
    "q_frame s (t\<lparr>pcbs := pcbs s\<rparr>)"
    using kill_ok [OF A tab b q dj(3) dj(1) W(2) refl] unfolding rs' ws' by (elim exE conjE)
  have ups: "unqueue p ws PROC = remove1 p (ws PROC)" by (simp add: unqueue_def)
  have Q: "queued (pcbs t) rs' (ds @ [p]) ws'" using end_wake [OF U(1,2) b] t(3) unfolding ups rs' ws' by simp
  have set: "set (members rs' (ds @ [p]) ws') = set (members rs ds ws)"
    using ended_members [of "remove1 p rs" "waits_for (p_pid b) (pcbs s)" "unqueue p ws" ds p] U(3) unfolding ups rs' ws' by simp
  have "p \<noteq> ?c" using mem W(5) by blast
  then have c: "pcbs t ?c = pcbs s ?c" using W(5) notin_set_remove1 [of ?c "ws PROC" p] by (auto simp: t(3) ended_def wake_all_def in_members)
  have "running (pcbs t) ?c rs' (ds @ [p]) ws'" unfolding running_def set using Q W(5) r c by (simp add: running_def has_def)
  moreover have "pids_kept (pcbs s) (pcbs t)" unfolding t(3) by (rule ended_pids) (rule b)
  moreover have "get_current t = ?c" "pcb_table t = pcb_table s" using q_frameD(6,12) [OF t(4)] by (simp_all add: get_current_def)
  ultimately show ?thesis using t(1,2) set by (intro exI [of _ t]) simp
qed

lemma proc_kill_queued:
  assumes A: "proc_at s K (Suc k) rs ds ws" and pid: "0 < pid" "pid < 1024" and p: "pcb_table s ! nat pid = p" "p \<noteq> 0" "p \<noteq> get_current s"
    and b: "pcbs s p = Some b" "p_state b \<noteq> DEAD" and idle: "p \<noteq> pcb_table s ! 0"
  shows "\<exists>s'. kill pid s = Some (None, s') \<and> proc_inv s' K (Suc k)"
proof -
  let ?c = "get_current s"
  have S: "sched_at s K (Suc k) rs ds ws" and r: "running (pcbs s) ?c rs ds ws"
    and T: "table_ok (pcb_table s) (pcbs s) (set (?c # members rs ds ws))" "pcb_table s ! 0 \<in> set (?c # rs)"
    using A by (auto simp: proc_at_def)
  note Q = running_waiters(4) [OF r]
  have mem: "p \<in> set (members rs ds ws)" "p \<notin> set ds"
    using table_okD(2) [OF T(1), of pid] pid p b queuedD(3) [OF Q, of p] by auto
  have tab: "get_int (pcb_table s) pid = Some p" using table_okD(1) [OF T(1), of pid] pid p by simp
  let ?ps = "remove1 p (ws PROC)" and ?M = "waits_for (p_pid b) (pcbs s)"
  let ?rs = "remove1 p rs @ filter ?M ?ps" and ?ws = "(unqueue p ws)(PROC := filter (\<lambda>q. \<not> ?M q) ?ps)"
  obtain t where t: "kill pid s = Some (None, t)" "get_current t = ?c" "pcb_table t = pcb_table s" "pids_kept (pcbs s) (pcbs t)"
     "sched_at t K (Suc k) ?rs (ds @ [p]) ?ws" "running (pcbs t) ?c ?rs (ds @ [p]) ?ws" "set (members ?rs (ds @ [p]) ?ws) = set (members rs ds ws)"
    using kill_running [OF S r tab p(2) mem b(1) refl refl] by (elim exE conjE)
  have "table_ok (pcb_table s) (pcbs t) (set (?c # members rs ds ws))" by (rule table_ok_kept [OF T(1) t(4)])
  moreover have "pcb_table s ! 0 \<in> set (?c # ?rs)" using T(2) idle members_disjoint(1) [OF queuedD(1) [OF Q]] by auto
  ultimately have "proc_at t K (Suc k) ?rs (ds @ [p]) ?ws" unfolding proc_at_def using t by simp
  then show ?thesis using t(1) by (auto simp: proc_inv_def)
qed

lemma sched_at_print [simp]: "sched_at (print_msg x s) K k = sched_at s K k"
proof -
  have "dyn_live (print_msg x s) L = dyn_live s L" for L
    by (simp add: dyn_live_def dyn_rel_def buddy_ok_def irq_ok_def live_ranges_def print_msg_def)
  then have "nodes_in (print_msg x s) K k = nodes_in s K k" by (simp add: nodes_in_def node_heap_def spare_def print_msg_def)
  moreover have "queues (print_msg x s) = queues s" by (simp add: queues_def print_msg_def)
  ultimately show ?thesis by (intro ext) (simp add: sched_at_def)
qed

lemma proc_kill:
  assumes A: "proc_at s K (Suc (Suc k)) rs ds ws" and pid: "0 < pid" "pid < 1024"
  shows "\<exists>j s'. kill pid s = Some (j, s') \<and> proc_inv s' K (Suc (Suc k))"
proof -
  let ?c = "get_current s" and ?p = "pcb_table s ! nat pid"
  have S: "sched_at s K (Suc (Suc k)) rs ds ws" and T: "table_ok (pcb_table s) (pcbs s) (set (?c # members rs ds ws))"
    using A by (auto simp: proc_at_def)
  have tab: "get_int (pcb_table s) pid = Some ?p" using table_okD(1) [OF T] pid by simp
  show ?thesis
  proof (cases "?p = 0")
    case True
    then have "kill pid s = Some (None, print_msg ''No such process'' s)" using tab by (simp add: kill_def)
    moreover have "proc_at (print_msg ''No such process'' s) K (Suc (Suc k)) rs ds ws"
      using A by (simp add: proc_at_def get_current_def) (simp add: print_msg_def)
    ultimately show ?thesis by (auto simp: proc_inv_def)
  next
    case False
    obtain b where b: "pcbs s ?p = Some b" "p_pid b = pid" using table_okD(3) [OF T _ pid(2) False] pid by auto
    have "?p \<in> set (?c # members rs ds ws)" using table_okD(2) [OF T _ pid(2) False] pid by simp
    have idle: "?p \<noteq> pcb_table s ! 0" using table_okD(3) [OF T, of 0] b pid False by auto
    show ?thesis
    proof (cases "?p = ?c")
      case True
      then have st: "p_state b = RUN" using proc_current [OF A] b(1) by (metis option.inject)
      obtain j s' where e: "exit s = Some (j, s')" "j \<noteq> None" "proc_inv s' K (Suc (Suc k))" using proc_exit [OF A] idle True by auto
      have "kill pid s = Some (j, s')"
        using tab False b(1) st e(1,2) critical_section_id [OF sched_irq [OF S]] by (auto simp: kill_def)
      then show ?thesis using e(3) by blast
    next
      case False': False
      show ?thesis
      proof (cases "p_state b = DEAD")
        case True
        then have "kill pid s = Some (None, s)" using tab False b(1) critical_section_id [OF sched_irq [OF S]] by (simp add: kill_def)
        then show ?thesis using A by (auto simp: proc_inv_def)
      next
        case D: False
        then show ?thesis using proc_kill_queued [OF A pid refl False False' b(1) D idle] by blast
      qed
    qed
  qed
qed

section \<open>Reachable states\<close>

text \<open>
  The operations that move threads.  The idle thread, the first of the table, neither waits nor ends and is not killed.
\<close>

datatype kop = Schedule | Wait event u64 | Exit | Kill int

fun run_op :: "kop \<Rightarrow> 'a sched_scheme \<Rightarrow> (jump option \<times> 'a sched_scheme) option" where
  "run_op Schedule s = schedule s"
| "run_op (Wait e data) s = wait e data s"
| "run_op Exit s = exit s"
| "run_op (Kill pid) s = kill pid s"

fun allowed :: "kop \<Rightarrow> 'a sched_scheme \<Rightarrow> bool" where
  "allowed Schedule s = True"
| "allowed (Wait e data) s = (get_current s \<noteq> pcb_table s ! 0)"
| "allowed Exit s = (get_current s \<noteq> pcb_table s ! 0)"
| "allowed (Kill pid) s = (0 < pid \<and> pid < 1024)"

text \<open>Between two operations the running thread computes: its registers change.\<close>

inductive reach :: "'a sched_scheme \<Rightarrow> 'a sched_scheme \<Rightarrow> bool" for s0 where
  start: "reach s0 s0"
| operation: "reach s0 s \<Longrightarrow> allowed opr s \<Longrightarrow> run_op opr s = Some (j, s') \<Longrightarrow> reach s0 s'"
| compute: "reach s0 s \<Longrightarrow> reach s0 (s\<lparr>callee := c\<rparr>)"

lemma op_keeps:
  assumes "proc_inv s K (Suc (Suc k))" "allowed opr s"
  shows "\<exists>j s'. run_op opr s = Some (j, s') \<and> proc_inv s' K (Suc (Suc k))"
proof -
  obtain rs ds ws where A: "proc_at s K (Suc (Suc k)) rs ds ws" using assms(1) by (auto simp: proc_inv_def)
  show ?thesis
    using assms(2) proc_schedule [OF A] proc_wait [OF A] proc_exit [OF A] proc_kill [OF A] by (cases opr) auto
qed

lemma reach_inv: "reach s0 s \<Longrightarrow> proc_inv s0 K (Suc (Suc k)) \<Longrightarrow> proc_inv s K (Suc (Suc k))"
proof (induction rule: reach.induct)
  case (operation s opr j s')
  then show ?case using op_keeps [of s K k opr] by auto
next
  case (compute s c)
  then show ?case by (simp add: proc_inv_def proc_at_def get_current_def)
qed

end
