(* ===== verification/Process_Props.thy ===== *)
theory Process_Props
  imports Process_Inv
begin

text \<open>
  Properties of threads: the invariant of the scheduler in every reachable state, fairness, context switches,
  and the end of a thread.
\<close>

section \<open>A sample state\<close>

text \<open>The idle thread runs and nothing is queued; a second thread, at address 2000, is not queued yet.\<close>

definition idle_pcb :: pcb_t where
  "idle_pcb = zero_pcb\<lparr>p_el := 1, p_pstate := EL1H_W_DAIF\<rparr>"

definition second_pcb :: pcb_t where
  "second_pcb = zero_pcb\<lparr>p_pid := 1, p_el := 1, p_state := READY, p_pc := 7, p_pstate := EL1H_W_DAIF\<rparr>"

definition idle_only :: sched where
  "idle_only = list_data.extend no_lists \<lparr>pt_mem = Map.empty, ttbr0_el1 = 0, ttbr1_el1 = 0, usable_end = 0, ram = (\<lambda>_. 0), ram_ok = (\<lambda>_. False), last_pid = 0,
     pcb_table = (replicate 1024 0)[0 := 1000], pcbs = [1000 \<mapsto> idle_pcb, 2000 \<mapsto> second_pcb],
     ready_queue = nil, dead_queue = nil, wait_queue = (\<lambda>_. nil), tpidr_el1 = 1000, sp_el0 = 0, callee = replicate 13 5,
     signos = Map.empty, sections = Map.empty, files = Map.empty, stack_mem = Map.empty, rootfs_root = 0, code_at = (\<lambda>_. 0)\<rparr>"

lemma idle_only_fields [simp]:
  "pcbs idle_only = [1000 \<mapsto> idle_pcb, 2000 \<mapsto> second_pcb]" "get_current idle_only = 1000" "callee idle_only = replicate 13 5"
  "pcb_table idle_only = (replicate 1024 0)[0 := 1000]" "last_pid idle_only = 0" "sp_el0 idle_only = 0"
  by (simp_all add: idle_only_def list_data.defs get_current_def)

lemma nodes_in_truncated: "nodes_in (list_data.truncate s) K k = nodes_in s K k"
proof -
  have "dyn_data.truncate (list_data.truncate s) = dyn_data.truncate s" by (simp add: list_data.defs dyn_data.defs)
  then have "dyn_live (list_data.truncate s) L = dyn_live s L" for L
    using dyn_live_truncate [of "list_data.truncate s"] dyn_live_truncate [of s] by simp
  then show ?thesis by (simp add: nodes_in_def node_heap_def spare_def list_data.defs)
qed

lemma idle_only_at: "sched_at idle_only {} 8 [] [] (\<lambda>_. [])"
proof -
  have "nodes_in no_lists {} 8"
    unfolding nodes_in_def spare_def using no_lists_ok(1,4) by (intro exI [of _ "{}"]) (simp add: mem_used_def no_lists_def dyn_data.defs fresh_heap_ok(3))
  moreover have "list_data.truncate idle_only = no_lists" by (simp add: idle_only_def list_data.defs)
  ultimately have "nodes_in idle_only {} 8" using nodes_in_truncated [of idle_only] by simp
  moreover have "list_at m nil [] []" for m by (simp add: list_at_def nil_def)
  then have "lists_on (list_nodes idle_only) (replicate 5 nil) (replicate 5 []) (replicate 5 [])" by (simp add: lists_on_def)
  then have "lists_at (list_nodes idle_only) (queues idle_only) [[], [], [], [], []]"
    unfolding lists_at_def by (intro exI [of _ "replicate 5 []"]) (simp add: queues_def idle_only_def list_data.defs numeral_eq_Suc)
  ultimately show ?thesis by (simp add: sched_at_def)
qed

lemma idle_only_inv: "proc_inv idle_only {} (Suc (Suc 6))"
proof -
  have "running (pcbs idle_only) 1000 [] [] (\<lambda>_. [])"
    by (simp add: running_def queued_def members_def has_def idle_pcb_def zero_pcb_def zero_list_def list_empty_def)
  moreover have "table_ok (pcb_table idle_only) (pcbs idle_only) {1000}"
    by (auto simp: table_ok_def nth_list_update idle_pcb_def zero_pcb_def)
  ultimately have "proc_at idle_only {} 8 [] [] (\<lambda>_. [])" using idle_only_at by (simp add: proc_at_def members_def)
  then show ?thesis unfolding proc_inv_def by (intro exI) simp
qed

text \<open>The same state with the second thread in the ready queue.\<close>

lemma two_threads:
  obtains s where "push_ready 2000 idle_only = Some s" "sched_at s {} 7 [2000] [] (\<lambda>_. [])" "q_frame idle_only s"
  using push_ready_ok [of idle_only "{}" 7 "[]" "[]" "\<lambda>_. []" 2000] idle_only_at by (auto simp: numeral_eq_Suc)

section \<open>The invariant of the scheduler\<close>



section \<open>Fairness and context switches\<close>

text \<open>
  Some calls of \<open>schedule\<close>, each by the thread that runs at that point and with the register values that this thread has by
  then; the result is the last jump and the state after it.
\<close>

primrec turns :: "jump option \<Rightarrow> (u64 list \<times> u64) list \<Rightarrow> 'a sched_scheme \<Rightarrow> (jump option \<times> 'a sched_scheme) option" where
  "turns j [] s = Some (j, s)"
| "turns j (x # xs) s = do { (j, s) \<leftarrow> schedule (s\<lparr>callee := fst x, sp_el0 := snd x\<rparr>); turns j xs s }"

definition no_signal :: "(u64 \<rightharpoonup> pcb_t) \<Rightarrow> u64 \<Rightarrow> bool" where
  "no_signal m p \<longleftrightarrow> (\<exists>b. m p = Some b \<and> list_empty (p_signal_queue b))"

lemma schedule_turn:
  assumes A: "sched_at s K (Suc k) (p # qs) ds ws" and d: "distinct (get_current s # p # qs)" and q: "\<forall>q \<in> set (get_current s # p # qs). no_signal (pcbs s) q"
  shows "\<exists>j s'. schedule s = Some (Some j, s') \<and> sched_at s' K (Suc k) (qs @ [get_current s]) ds ws \<and> get_current s' = p
     \<and> (\<forall>q \<in> set (p # qs @ [get_current s]). no_signal (pcbs s') q) \<and> (\<forall>q \<in> set qs. pcbs s' q = pcbs s q)
     \<and> (\<exists>n. pcbs s p = Some n \<and> j = \<lparr>j_pc = p_pc n, j_pstate = p_pstate n, j_arg = p_args n\<rparr> \<and> callee s' = p_reg n \<and> ttbr0_el1 s' = p_ttbr n
          \<and> (p_el n = 0 \<longrightarrow> sp_el0 s' = p_sp_el0 n))
     \<and> (\<forall>b. pcbs s (get_current s) = Some b \<longrightarrow> pcbs s' (get_current s) = Some (saved s (parked s (b\<lparr>p_state := READY\<rparr>))))
     \<and> code_at s' = code_at s"
proof -
  let ?c = "get_current s"
  obtain b n where bn: "pcbs s ?c = Some b" "pcbs s p = Some n" "list_empty (p_signal_queue n)" using q by (auto simp: no_signal_def)
  obtain s' where s': "schedule s = Some (Some \<lparr>j_pc = p_pc n, j_pstate = p_pstate n, j_arg = p_args n\<rparr>, s')"
    "sched_at s' K (Suc k) (qs @ [?c]) ds ws" "get_current s' = p" "callee s' = p_reg n" "ttbr0_el1 s' = p_ttbr n"
    "sp_el0 s' = (if p_el n = 0 then p_sp_el0 n else sp_el0 s)" "code_at s' = code_at s"
    "pcbs s' = (pcbs s)(?c \<mapsto> saved s (parked s (b\<lparr>p_state := READY\<rparr>)), p \<mapsto> n\<lparr>p_state := RUN\<rparr>)"
    using schedule_ok [OF A refl bn(1,2) _ bn(3)] d by auto
  have "\<forall>q \<in> set (p # qs @ [?c]). no_signal (pcbs s') q" unfolding s'(8) using q bn by (auto simp: no_signal_def saved_def parked_def)
  moreover have "\<forall>q \<in> set qs. pcbs s' q = pcbs s q" "pcbs s' ?c = Some (saved s (parked s (b\<lparr>p_state := READY\<rparr>)))"
    unfolding s'(8) using d by auto
  ultimately show ?thesis using s'(1-7) bn(1,2) by simp
qed

lemma sched_upd_fields [simp]:
  "get_current (s\<lparr>callee := c, sp_el0 := v\<rparr>) = get_current s" "get_current (s\<lparr>callee := c\<rparr>) = get_current s"
  by (simp_all add: get_current_def)

lemma turns_rotate:
  assumes "sched_at s K (Suc k) rs ds ws" "distinct (get_current s # rs)" "\<forall>p \<in> set (get_current s # rs). no_signal (pcbs s) p"
  shows "\<exists>j' s' rs'. turns j xs s = Some (j', s') \<and> sched_at s' K (Suc k) rs' ds ws \<and> get_current s' # rs' = rotate (length xs) (get_current s # rs)"
  using assms
proof (induction xs arbitrary: j s rs)
  case (Cons x xs)
  let ?s = "s\<lparr>callee := fst x, sp_el0 := snd x\<rparr>"
  have A: "sched_at ?s K (Suc k) rs ds ws" using Cons.prems(1) by simp
  show ?case
  proof (cases rs)
    case Nil
    then have "schedule ?s = Some (None, ?s)" using ready_empty [OF A] by (simp add: schedule_def)
    then show ?thesis using Cons.IH [of ?s rs None] Cons.prems Nil by simp
  next
    case (Cons p qs)
    obtain j1 s1 where s1: "schedule ?s = Some (Some j1, s1)" "sched_at s1 K (Suc k) (qs @ [get_current s]) ds ws" "get_current s1 = p"
      "\<forall>q \<in> set (p # qs @ [get_current s]). no_signal (pcbs s1) q"
      using schedule_turn [of ?s K k p qs ds ws] A Cons.prems Cons by auto
    have "rotate (length (x # xs)) (get_current s # rs) = rotate (length xs) (p # qs @ [get_current s])"
      unfolding Cons by (simp add: rotate1_rotate_swap)
    then show ?thesis using Cons.IH [OF s1(2), of "Some j1"] s1 Cons.prems(2) Cons by auto
  qed
qed auto

text \<open>
  C6: round robin.  After any number of turns the processor has gone round the running and the ready threads in order: with \<open>n\<close> ready threads, the thread
  at position \<open>i\<close> of the queue runs after \<open>i + 1\<close> turns and every thread runs again after at most \<open>n + 1\<close>.
\<close>

theorem schedule_fair:
  assumes "sched_at s K (Suc k) rs ds ws" "distinct (get_current s # rs)" "\<forall>p \<in> set (get_current s # rs). no_signal (pcbs s) p"
  shows "\<exists>j' s'. turns j xs s = Some (j', s') \<and> get_current s' = (get_current s # rs) ! (length xs mod Suc (length rs))
     \<and> sched_at s' K (Suc k) (tl (rotate (length xs) (get_current s # rs))) ds ws"
proof -
  obtain j' s' rs' where t: "turns j xs s = Some (j', s')" "sched_at s' K (Suc k) rs' ds ws" "get_current s' # rs' = rotate (length xs) (get_current s # rs)"
    using turns_rotate [OF assms] by blast
  have "get_current s' = hd (rotate (length xs) (get_current s # rs))" "rs' = tl (rotate (length xs) (get_current s # rs))"
    using t(3) by (metis list.sel(1), metis list.sel(3))
  then show ?thesis using t(1,2) hd_rotate_conv_nth [of "get_current s # rs" "length xs"] by auto
qed

theorem schedule_fair_witness:
  "\<exists>s j' s'. push_ready 2000 idle_only = Some s \<and> turns None [([], 0)] s = Some (j', s') \<and> get_current s' = 2000"
proof -
  obtain s where s: "push_ready 2000 idle_only = Some s" "sched_at s {} (Suc 6) [2000] [] (\<lambda>_. [])" "q_frame idle_only s"
    using two_threads by (auto simp: numeral_eq_Suc)
  have "get_current s = 1000" "pcbs s = [1000 \<mapsto> idle_pcb, 2000 \<mapsto> second_pcb]"
    using q_frameD(5,6) [OF s(3)] idle_only_fields(1,2) by (simp_all add: get_current_def)
  then show ?thesis using schedule_fair [OF s(2), of None "[([], 0)]"] s(1)
    by (auto simp: no_signal_def idle_pcb_def second_pcb_def zero_pcb_def zero_list_def list_empty_def)
qed

text \<open>A thread in the queue comes back with the registers that were saved for it.\<close>

lemma turns_resume:
  assumes "sched_at s K (Suc k) rs ds ws" "distinct (get_current s # rs)" "\<forall>p \<in> set (get_current s # rs). no_signal (pcbs s) p"
    "i < length rs" "pcbs s (rs ! i) = Some n" "length xs = Suc i"
  shows "\<exists>j' s'. turns j xs s = Some (Some j', s') \<and> get_current s' = rs ! i \<and> j' = \<lparr>j_pc = p_pc n, j_pstate = p_pstate n, j_arg = p_args n\<rparr>
     \<and> callee s' = p_reg n \<and> ttbr0_el1 s' = p_ttbr n \<and> (p_el n = 0 \<longrightarrow> sp_el0 s' = p_sp_el0 n)"
  using assms
proof (induction i arbitrary: j s rs xs)
  case 0
  obtain x where x: "xs = [x]" using 0 by (auto simp: length_Suc_conv)
  obtain p qs where rs: "rs = p # qs" using 0 by (cases rs) auto
  let ?s = "s\<lparr>callee := fst x, sp_el0 := snd x\<rparr>"
  show ?case using schedule_turn [of ?s K k p qs ds ws] 0 x rs by auto
next
  case (Suc i)
  obtain x ys where x: "xs = x # ys" using Suc by (cases xs) auto
  obtain p qs where rs: "rs = p # qs" using Suc by (cases rs) auto
  let ?s = "s\<lparr>callee := fst x, sp_el0 := snd x\<rparr>"
  obtain j1 s1 where s1: "schedule ?s = Some (Some j1, s1)" "sched_at s1 K (Suc k) (qs @ [get_current s]) ds ws" "get_current s1 = p"
    "\<forall>q \<in> set (p # qs @ [get_current s]). no_signal (pcbs s1) q" "\<forall>q \<in> set qs. pcbs s1 q = pcbs s q"
    using schedule_turn [of ?s K k p qs ds ws] Suc.prems(1-3) rs by auto
  have i: "i < length qs" using Suc.prems(4) rs by simp
  have "(qs @ [get_current s]) ! i = rs ! Suc i" using i rs by (simp add: nth_append)
  moreover have "pcbs s1 (rs ! Suc i) = Some n" using s1(5) i rs Suc.prems(5) by simp
  ultimately show ?case
    using Suc.IH [OF s1(2), of ys "Some j1"] s1 Suc.prems(2,6) x rs i by auto
qed



section \<open>Ending threads\<close>

text \<open>
  C8: \<open>exit\<close> moves the running thread to the dead queue and exactly the threads that wait for it from the wait queue to the end of the ready queue, in their order;
  then the first ready thread runs.  The threads that wait for others keep waiting.
\<close>

theorem exit_wakes_waiters:
  assumes "sched_at s K (Suc (Suc k)) rs ds ws" "running (pcbs s) (get_current s) rs ds ws" "pcbs s (get_current s) = Some b"
    "rs @ filter (waits_for (p_pid b) (pcbs s)) (ws PROC) = p # qs"
  shows "\<exists>j s'. exit s = Some (Some j, s') \<and> get_current s' = p
     \<and> sched_at s' K (Suc (Suc k)) qs (ds @ [get_current s]) (ws(PROC := filter (\<lambda>q. \<not> waits_for (p_pid b) (pcbs s) q) (ws PROC)))
     \<and> running (pcbs s') p qs (ds @ [get_current s]) (ws(PROC := filter (\<lambda>q. \<not> waits_for (p_pid b) (pcbs s) q) (ws PROC)))"
proof -
  let ?c = "get_current s" and ?ws = "ws(PROC := filter (\<lambda>q. \<not> waits_for (p_pid b) (pcbs s) q) (ws PROC))"
  note W = running_waiters [OF assms(2)]
  have "p_state b \<noteq> DEAD" using assms(2,3) by (auto simp: running_def has_def)
  from exit_ok [OF assms(1) refl assms(3) this W(1-3) assms(4) [symmetric]]
  obtain t where t: "exit s = map_option (\<lambda>(j, s). (Some j, s)) (switch_to_next ?c t)" "sched_at t K (Suc k) (p # qs) (ds @ [?c]) ?ws"
    "pcbs t = ended ?c b (ws PROC) (pcbs s)" by auto
  have Q: "queued (pcbs t) (p # qs) (ds @ [?c]) ?ws" using end_wake [OF W(4,5) assms(3)] t(3) assms(4) by simp
  obtain n where n: "pcbs t p = Some n" "list_empty (p_signal_queue n)" using queuedD(2) [OF Q, of p] by (auto simp: has_def)
  obtain b' where b': "pcbs t ?c = Some b'" using queuedD(3) [OF Q, of ?c] by auto
  have pc: "p \<noteq> ?c" using queuedD(1) [OF Q] by (auto simp: members_def)
  obtain s' where s': "switch_to_next ?c t = Some (\<lparr>j_pc = p_pc n, j_pstate = p_pstate n, j_arg = p_args n\<rparr>, s')"
    "sched_at s' K (Suc (Suc k)) qs (ds @ [?c]) ?ws" "get_current s' = p" "pcbs s' = (pcbs t)(?c \<mapsto> saved t b', p \<mapsto> n\<lparr>p_state := RUN\<rparr>)"
    using switch_to_next_ok [OF t(2) b' n(1) pc n(2)] by auto
  have "running (pcbs s') p qs (ds @ [?c]) ?ws"
    unfolding s'(4) using pc by (intro dispatch [OF Q n(1) b']) (auto simp: saved_def)
  then show ?thesis using t(1) s'(1-3) by simp
qed

theorem exit_wakes_waiters_witness:
  "\<exists>s j s'. push_ready 2000 idle_only = Some s \<and> exit s = Some (Some j, s') \<and> get_current s' = 2000 \<and> sched_at s' {} (Suc (Suc 5)) [] [1000] (\<lambda>_. [])"
proof -
  obtain s where s: "push_ready 2000 idle_only = Some s" "sched_at s {} (Suc (Suc 5)) [2000] [] (\<lambda>_. [])" "q_frame idle_only s"
    using two_threads by (auto simp: numeral_eq_Suc)
  have f: "get_current s = 1000" "pcbs s = [1000 \<mapsto> idle_pcb, 2000 \<mapsto> second_pcb]"
    using q_frameD(5,6) [OF s(3)] idle_only_fields(1,2) by (simp_all add: get_current_def)
  have "running (pcbs s) (get_current s) [2000] [] (\<lambda>_. [])"
    unfolding f by (simp add: running_def queued_def members_def has_def idle_pcb_def second_pcb_def zero_pcb_def zero_list_def list_empty_def)
  then show ?thesis using exit_wakes_waiters [OF s(2), of idle_pcb 2000 "[]"] s(1) f by (auto simp: fun_upd_def)
qed

text \<open>
  C9: \<open>kill\<close> of a thread that is ready or waits takes it out of its queue, whichever it is, puts it into the dead queue and wakes exactly the threads
  that wait for it.  The running thread goes on.
\<close>

theorem kill_removes:
  assumes "sched_at s K (Suc k) rs ds ws" "running (pcbs s) (get_current s) rs ds ws" "get_int (pcb_table s) pid = Some p" "p \<noteq> 0"
    "p \<in> set (members rs ds ws)" "p \<notin> set ds" "pcbs s p = Some b" "p_pid b = pid"
  shows "\<exists>s' rs' ws'. kill pid s = Some (None, s') \<and> get_current s' = get_current s
     \<and> rs' = remove1 p rs @ filter (waits_for pid (pcbs s)) (remove1 p (ws PROC))
     \<and> ws' = (\<lambda>e. if e = PROC then filter (\<lambda>q. \<not> waits_for pid (pcbs s) q) (remove1 p (ws PROC)) else remove1 p (ws e))
     \<and> sched_at s' K (Suc k) rs' (ds @ [p]) ws' \<and> running (pcbs s') (get_current s) rs' (ds @ [p]) ws'"
proof -
  obtain t where t: "kill pid s = Some (None, t)" "get_current t = get_current s" 
    "sched_at t K (Suc k) (remove1 p rs @ filter (waits_for pid (pcbs s)) (remove1 p (ws PROC))) (ds @ [p])
       ((unqueue p ws)(PROC := filter (\<lambda>q. \<not> waits_for pid (pcbs s) q) (remove1 p (ws PROC))))"
    "running (pcbs t) (get_current s) (remove1 p rs @ filter (waits_for pid (pcbs s)) (remove1 p (ws PROC))) (ds @ [p])
       ((unqueue p ws)(PROC := filter (\<lambda>q. \<not> waits_for pid (pcbs s) q) (remove1 p (ws PROC))))"
    using kill_running [OF assms(1-7) refl refl] unfolding assms(8) by (elim exE conjE)
  have "(unqueue p ws)(PROC := filter (\<lambda>q. \<not> waits_for pid (pcbs s) q) (remove1 p (ws PROC)))
     = (\<lambda>e. if e = PROC then filter (\<lambda>q. \<not> waits_for pid (pcbs s) q) (remove1 p (ws PROC)) else remove1 p (ws e))"
    by (auto simp: unqueue_def)
  note eq = this
  show ?thesis by (intro exI conjI; (rule t(1,2) refl | rule t(3,4) [unfolded eq]))
qed

theorem kill_removes_witness:
  "\<exists>s s'. push_ready 2000 idle_only = Some s \<and> kill 1 (s\<lparr>pcb_table := (pcb_table s)[1 := 2000]\<rparr>) = Some (None, s') \<and> sched_at s' {} (Suc 6) [] [2000] (\<lambda>_. [])"
proof -
  obtain s where s: "push_ready 2000 idle_only = Some s" "sched_at s {} (Suc 6) [2000] [] (\<lambda>_. [])" "q_frame idle_only s"
    using two_threads by (auto simp: numeral_eq_Suc)
  let ?s = "s\<lparr>pcb_table := (pcb_table s)[1 := 2000]\<rparr>"
  have f: "get_current ?s = 1000" "pcbs ?s = [1000 \<mapsto> idle_pcb, 2000 \<mapsto> second_pcb]" "get_int (pcb_table ?s) 1 = Some 2000"
    using q_frameD(5,6,12) [OF s(3)] idle_only_fields(1,2,4) by (simp_all add: get_current_def get_int_def get_at_def)
  have A: "sched_at ?s {} (Suc 6) [2000] [] (\<lambda>_. [])" using s(2) by simp
  have "running (pcbs ?s) (get_current ?s) [2000] [] (\<lambda>_. [])"
    unfolding f by (simp add: running_def queued_def members_def has_def idle_pcb_def second_pcb_def zero_pcb_def zero_list_def list_empty_def)
  then have r: "running (pcbs ?s) (get_current ?s) [2000] [] (\<lambda>_. [])" .
  have b: "pcbs ?s 2000 = Some second_pcb" "p_pid second_pcb = 1" unfolding f(2) by (simp_all add: second_pcb_def zero_pcb_def)
  have w: "(\<lambda>e. if e = PROC then filter (\<lambda>q. \<not> waits_for 1 (pcbs ?s) q) (remove1 2000 []) else remove1 2000 []) = (\<lambda>_. [])" by auto
  obtain s' where "kill 1 ?s = Some (None, s')" "sched_at s' {} (Suc 6) (remove1 2000 [2000] @ filter (waits_for 1 (pcbs ?s)) (remove1 2000 [])) ([] @ [2000]) (\<lambda>_. [])"
    using kill_removes [OF A r f(3) _ _ _ b] unfolding w by (auto simp: members_def)
  then show ?thesis using s(1) by auto
qed

end
