(* ===== verification/Sample_Io.thy ===== *)
theory Sample_Io
  imports Devices Sd_Props Process_Props
begin

text \<open>A state of the drivers for samples: a card without faults to come but two, a volume with one sector per cluster, and empty buffers.\<close>

definition sample_volume :: fat32_t where
  "sample_volume = \<lparr>start_blk_idx = 0, end_of_file = 0x0fffffff, BPB_BytsPerSec = 512, BPB_SecPerClus = 1, BPB_RsvdSecCnt = 1, BPB_NumFATs = 1,
     BPB_FATSz32 = 1, BPB_RootClus = 2, fat_cache = 0, fat_mount_point = 0\<rparr>"

definition with_drivers :: "sched \<Rightarrow> io_data" where
  "with_drivers s = sched.extend s
     \<lparr>mmio = sample fresh_card, is_hcs = 1, fat32_data = sample_volume, f_datas = Map.empty, r_buf = ring_buf_init (replicate BUFLEN 0), w_buf = ring_buf_init (replicate BUFLEN 0),
       fb_addr = 0, fb_info = \<lparr>fb_width = 1024, fb_height = 768, fb_pitch = 4096, fb_isrgb = 1\<rparr>, dtb_addr = 0, dtb_len = 0, usable_start = 0, dtb_str_idx = 0, mem_str_idx = 0\<rparr>"

lemma with_drivers_simps [simp]:
  "pcbs (with_drivers s) = pcbs s" "files (with_drivers s) = files s" "ram (with_drivers s) = ram s" "ram_ok (with_drivers s) = ram_ok s"
  "get_current (with_drivers s) = get_current s" "list_data.truncate (with_drivers s) = list_data.truncate s" "irq_ok (with_drivers s) = irq_ok s"
  by (simp_all add: with_drivers_def sched.defs list_data.defs get_current_def irq_ok_def)

end
