(* ===== verification/Tmpfs_Props.thy ===== *)
theory Tmpfs_Props
  imports File Ram_Correct Sample_Io
begin

text \<open>Reading, writing and seeking in a file of the file system in memory, through descriptors.\<close>

section \<open>Sizes\<close>

text \<open>A descriptor of the running process that is open for reading and writing, its position within the file and the file within its block.\<close>

definition rw_file :: "'a vfs_data_scheme \<Rightarrow> int \<Rightarrow> u64 \<Rightarrow> file_t \<Rightarrow> vnode_t \<Rightarrow> bool" where
  "rw_file s fd fp f n \<longleftrightarrow> cur_file fd s = Some fp \<and> files s fp = Some f \<and> vnodes s (f_vnode f) = Some n
     \<and> fops s (f_fops f) = Some tmpfs_fops \<and> (\<exists>m. mounts s (vn_mount n) = Some m \<and> mt_flags m AND MS_RDONLY = 0)
     \<and> f_flags f AND O_WRONLY = 0 \<and> f_pos f \<le> vn_file_size n \<and> vn_file_size n \<le> MAX_FILE_SZ
     \<and> owned s (vn_internal n) MAX_FILE_SZ"

definition accepted :: "u64 \<Rightarrow> u64 \<Rightarrow> u64" where
  "accepted pos len = min len (MAX_FILE_SZ - pos)"

lemma accepted_bounds:
  assumes "pos \<le> MAX_FILE_SZ"
  shows "unat pos + unat (accepted pos len) \<le> 4096" "unat (accepted pos len) \<le> unat len"
    "unat (ucast (accepted pos len) :: u32) = unat (accepted pos len)" "unat (pos + accepted pos len) = unat pos + unat (accepted pos len)"
proof -
  have p: "unat pos \<le> 4096" using assms by (simp add: MAX_FILE_SZ_def word_le_nat_alt)
  have m: "unat (accepted pos len) = min (unat len) (4096 - unat pos)"
    using assms by (simp add: accepted_def MAX_FILE_SZ_def min_def word_le_nat_alt unat_sub)
  then show "unat pos + unat (accepted pos len) \<le> 4096" "unat (accepted pos len) \<le> unat len" using p by simp_all
  then show "unat (pos + accepted pos len) = unat pos + unat (accepted pos len)" by (simp only: unat_word_ariths) simp
  have "unat (accepted pos len) < 2 ^ 32" using m by simp
  then show "unat (ucast (accepted pos len) :: u32) = unat (accepted pos len)"
    by (simp add: unsigned_ucast_eq take_bit_nat_eq_self)
qed

lemma accepted_eq:
  assumes "pos \<le> MAX_FILE_SZ" "unat pos + unat len < 2 ^ 64"
  shows "(if pos + len > MAX_FILE_SZ then MAX_FILE_SZ - pos else len) = accepted pos len"
proof -
  have p: "unat pos \<le> 4096" using assms by (simp add: MAX_FILE_SZ_def word_le_nat_alt)
  have s: "unat (pos + len) = unat pos + unat len" using assms(2) by (simp only: unat_word_ariths) simp
  have d: "unat (4096 - pos) = 4096 - unat pos" using assms(1) by (simp add: MAX_FILE_SZ_def unat_sub)
  show ?thesis using p unfolding accepted_def MAX_FILE_SZ_def min_def word_le_nat_alt word_less_nat_alt s d
    by (auto simp: d word_eq_iff_unsigned [where 'a = nat])
qed

lemma read_back:
  assumes "pos \<le> z" "z \<le> MAX_FILE_SZ" "k = accepted pos len"
  shows "min len (max z (pos + k) - pos) = k"
proof -
  have p: "pos \<le> MAX_FILE_SZ" using assms(1,2) by (rule order_trans)
  note A = accepted_bounds [OF p, of len, folded assms(3)]
  have z: "unat pos \<le> unat z" "unat z \<le> 4096" using assms(1,2) by (simp_all add: word_le_nat_alt MAX_FILE_SZ_def)
  have k: "unat k = min (unat len) (4096 - unat pos)"
    using p by (simp add: assms(3) accepted_def MAX_FILE_SZ_def min_def word_le_nat_alt unat_sub)
  have m: "unat (max z (pos + k)) = max (unat z) (unat pos + unat k)" using A(4) by (simp add: max_def word_le_nat_alt)
  have "unat (max z (pos + k) - pos) = unat (max z (pos + k)) - unat pos" using m z by (intro unat_sub) (simp add: word_le_nat_alt)
  then have "unat (min len (max z (pos + k) - pos)) = min (unat len) (max (unat z) (unat pos + unat k) - unat pos)"
    using m by (simp add: min_def word_le_nat_alt)
  also have "\<dots> = unat k" using k z by (simp add: min_def max_def)
  finally show ?thesis by (simp add: word_eq_iff_unsigned [where 'a = nat])
qed

lemma small_sint:
  assumes "(w :: u64) \<le> 4096"
  shows "0 \<le> sint w" "sint (- 1 - w) < 0"
proof -
  have t: "signed_take_bit 63 x = x" if "- 5000 \<le> x" "x \<le> 4096" for x :: int using that by (intro signed_take_bit_int_eq_self) simp_all
  have u: "uint w \<le> 4096" using assms by (simp add: word_le_def)
  have l: "- 5000 \<le> uint w" by (rule order_trans [of _ 0]) simp_all
  have s: "sint w = uint w" unfolding sint_uint using t [OF l u] by simp
  then show "0 \<le> sint w" by simp
  have "signed_take_bit 63 (- 1 - uint w) = - 1 - uint w" using u order_trans [of "- 1 - uint w" "- 1"] by (intro t) simp_all
  moreover have "- 1 < uint w" by (rule less_le_trans [of _ 0]) simp_all
  ultimately show "sint (- 1 - w) < 0" using s by (simp add: sint_word_ariths)
qed

section \<open>The operations\<close>

lemma tmpfs_write_ok:
  assumes F: "rw_file s fd fp f n" and B: "owned s buf len" "apart (vn_internal n) MAX_FILE_SZ buf len" "unat (f_pos f) + unat len < 2 ^ 64"
    and k: "k = accepted (f_pos f) len"
  shows "tmpfs_write fp buf len s = Some (k, s\<lparr>vnodes := (vnodes s)(f_vnode f \<mapsto> n\<lparr>vn_file_size := max (vn_file_size n) (f_pos f + k)\<rparr>),
     ram := copied (vn_internal n + f_pos f) buf k (ram s), files := (files s)(fp \<mapsto> f\<lparr>f_pos := f_pos f + k\<rparr>)\<rparr>)"
proof -
  have f: "files s fp = Some f" "vnodes s (f_vnode f) = Some n" and o: "owned s (vn_internal n) MAX_FILE_SZ"
    and pos: "f_pos f \<le> MAX_FILE_SZ" using F by (auto simp: rw_file_def)
  note A = accepted_bounds [OF pos, of len, folded k]
  have M: "unat MAX_FILE_SZ = 4096" by (simp add: MAX_FILE_SZ_def)
  let ?n = "n\<lparr>vn_file_size := max (vn_file_size n) (f_pos f + k)\<rparr>" and ?r = "copied (vn_internal n + f_pos f) buf k (ram s)"
  have c: "memcpy_ram (vn_internal n + f_pos f) buf (unat (ucast k :: u32)) t = Some (t\<lparr>ram := copied (vn_internal n + f_pos f) buf k (ram t)\<rparr>)"
    if "ram_ok t = ram_ok s" for t :: "'a vfs_data_scheme"
    using memcpy_ram_word [of t "vn_internal n + f_pos f" k buf] A that owned_part [OF o, of "f_pos f" k] owned_part [OF B(1), of 0 k]
      apart_part [OF B(2), of "f_pos f" k k] M by (simp add: owned_def)
  have "(if f_pos f + k > vn_file_size n then upd_vnode (f_vnode f) (\<lambda>n. n\<lparr>vn_file_size := f_pos f + k\<rparr>) s else Some s)
     = Some (s\<lparr>vnodes := (vnodes s)(f_vnode f \<mapsto> ?n)\<rparr>)"
    using f(2) by (cases s) (auto simp: upd_vnode_def max_def fun_upd_idem)
  then show ?thesis
    using f c accepted_eq [OF pos B(3), folded k] by (simp add: tmpfs_write_def upd_file_def)
qed

lemma tmpfs_read_ok:
  assumes F: "rw_file s fd fp f n" and B: "owned s buf len" "apart (vn_internal n) MAX_FILE_SZ buf len"
    and k: "k = min len (vn_file_size n - f_pos f)"
  shows "tmpfs_read fp buf len s = Some (k, s\<lparr>ram := copied buf (vn_internal n + f_pos f) k (ram s), files := (files s)(fp \<mapsto> f\<lparr>f_pos := f_pos f + k\<rparr>)\<rparr>)"
proof -
  have f: "files s fp = Some f" "vnodes s (f_vnode f) = Some n" and o: "owned s (vn_internal n) MAX_FILE_SZ"
    and pos: "f_pos f \<le> vn_file_size n" "vn_file_size n \<le> MAX_FILE_SZ" using F by (auto simp: rw_file_def)
  have M: "unat MAX_FILE_SZ = 4096" by (simp add: MAX_FILE_SZ_def)
  have u: "unat k = min (unat len) (unat (vn_file_size n) - unat (f_pos f))" using pos k by (simp add: min_def word_le_nat_alt unat_sub)
  have A: "unat (f_pos f) + unat k \<le> 4096" "unat k \<le> unat len" using u pos M by (simp_all add: word_le_nat_alt)
  have k32: "unat (ucast k :: u32) = unat k" using A by (simp add: unsigned_ucast_eq take_bit_nat_eq_self)
  have "memcpy_ram buf (vn_internal n + f_pos f) (unat (ucast k :: u32)) s = Some (s\<lparr>ram := copied buf (vn_internal n + f_pos f) k (ram s)\<rparr>)"
    using memcpy_ram_word [of s buf k "vn_internal n + f_pos f"] A k32 owned_part [OF o, of "f_pos f" k] owned_part [OF B(1), of 0 k]
      apart_part [OF B(2), of "f_pos f" k k] M apart_sym by simp
  moreover have "(if len < vn_file_size n - f_pos f then len else vn_file_size n - f_pos f) = k" by (simp add: k min_def not_less) (metis le_less)
  ultimately show ?thesis using f by (simp add: tmpfs_read_def upd_file_def)
qed

lemma rw_file_seek:
  assumes F: "rw_file s fd fp f n" and p: "pos \<le> vn_file_size n" and I: "irq_ok s"
  shows "lseek64 fd pos SEEK_SET s = Some (0, s\<lparr>files := (files s)(fp \<mapsto> f\<lparr>f_pos := pos\<rparr>)\<rparr>)"
proof -
  have f: "cur_file fd s = Some fp" "files s fp = Some f" "vnodes s (f_vnode f) = Some n" "fops s (f_fops f) = Some tmpfs_fops"
    and n: "vn_file_size n \<le> 4096" using F by (auto simp: rw_file_def MAX_FILE_SZ_def)
  have "0 \<le> sint pos" using small_sint [OF order_trans [OF p n]] by simp
  then have "tmpfs_lseek64 fp pos SEEK_SET (disable_int s) = Some (0, (disable_int s)\<lparr>files := (files s)(fp \<mapsto> f\<lparr>f_pos := pos\<rparr>)\<rparr>)"
    using f p by (simp add: tmpfs_lseek64_def upd_file_def not_less disable_int_def)
  moreover have "enable_int ((disable_int s)\<lparr>files := m\<rparr>) = s\<lparr>files := m\<rparr>" for m
    using I by (cases s) (auto simp: irq_ok_def enable_int_def disable_int_def Let_def)
  ultimately show ?thesis
    using f by (simp add: lseek64_def vfs_lseek64_def file_fops_def call_lseek64_def tmpfs_fops_def disable_int_def)
qed

lemma write_fd_eq:
  assumes F: "rw_file s fd fp f n"
  shows "write_fd fd buf len s = tmpfs_write fp buf len s"
  using assms by (auto simp: rw_file_def write_fd_def vfs_write_def file_fops_def call_write_def tmpfs_fops_def O_RDONLY_def)

lemma read_fd_eq:
  assumes F: "rw_file s fd fp f n"
  shows "read_fd fd buf len s = tmpfs_read fp buf len s"
  using assms by (auto simp: rw_file_def read_fd_def vfs_read_def file_fops_def call_read_def tmpfs_fops_def)

lemma rw_file_upd:
  assumes "rw_file s fd fp f n" "p \<le> z" "z \<le> MAX_FILE_SZ"
  shows "rw_file (s\<lparr>vnodes := (vnodes s)(f_vnode f \<mapsto> n\<lparr>vn_file_size := z\<rparr>), ram := r, files := (files s)(fp \<mapsto> f\<lparr>f_pos := p\<rparr>)\<rparr>)
     fd fp (f\<lparr>f_pos := p\<rparr>) (n\<lparr>vn_file_size := z\<rparr>)"
  using assms by (auto simp: rw_file_def cur_file_def get_current_def owned_def)

section \<open>Properties\<close>

text \<open>
  C15: what is written to a file is read back.  A write at the position of a descriptor accepts what fits into the block of the file, and after a seek to the old position
  a read of the same length returns the bytes that were written.  Nothing else changes: no byte of memory outside the part of the file that is written and the buffer
  that is read into, and the position stays within the file and the file within its block.
\<close>

theorem tmpfs_write_read:
  assumes "rw_file s fd fp f n" "irq_ok s" "owned s buf len" "owned s buf' len"
    "apart (vn_internal n) MAX_FILE_SZ buf len" "apart (vn_internal n) MAX_FILE_SZ buf' len" "unat (f_pos f) + unat len < 2 ^ 64"
    and "k = min len (MAX_FILE_SZ - f_pos f)"
  shows "\<exists>s1 s2 s3. write_fd fd buf len s = Some (k, s1) \<and> lseek64 fd (f_pos f) SEEK_SET s1 = Some (0, s2) \<and> read_fd fd buf' len s2 = Some (k, s3)
     \<and> (\<forall>i. i < k \<longrightarrow> ram s3 (buf' + i) = ram s (buf + i))
     \<and> (\<forall>x. \<not> x - (vn_internal n + f_pos f) < k \<and> \<not> x - buf' < k \<longrightarrow> ram s3 x = ram s x)
     \<and> rw_file s3 fd fp (f\<lparr>f_pos := f_pos f + k\<rparr>) (n\<lparr>vn_file_size := max (vn_file_size n) (f_pos f + k)\<rparr>)"
proof -
  have k: "k = accepted (f_pos f) len" by (simp add: assms(8) accepted_def)
  have pos: "f_pos f \<le> vn_file_size n" "vn_file_size n \<le> MAX_FILE_SZ" "f_pos f \<le> MAX_FILE_SZ" using assms(1) by (auto simp: rw_file_def)
  note A = accepted_bounds [OF pos(3), of len, folded k]
  let ?z = "max (vn_file_size n) (f_pos f + k)" and ?d = "vn_internal n + f_pos f"
  let ?n = "n\<lparr>vn_file_size := ?z\<rparr>"
  let ?s1 = "s\<lparr>vnodes := (vnodes s)(f_vnode f \<mapsto> ?n), ram := copied ?d buf k (ram s), files := (files s)(fp \<mapsto> f\<lparr>f_pos := f_pos f + k\<rparr>)\<rparr>"
  let ?s2 = "s\<lparr>vnodes := (vnodes s)(f_vnode f \<mapsto> ?n), ram := copied ?d buf k (ram s), files := (files s)(fp \<mapsto> f)\<rparr>"
  have z: "f_pos f + k \<le> ?z" "f_pos f \<le> ?z" "?z \<le> MAX_FILE_SZ"
    using pos A(1,4) by (auto simp: max_def word_le_nat_alt MAX_FILE_SZ_def)
  have w: "write_fd fd buf len s = Some (k, ?s1)" using tmpfs_write_ok [OF assms(1,3,5,7) k] write_fd_eq [OF assms(1)] by simp
  have F1: "rw_file ?s1 fd fp (f\<lparr>f_pos := f_pos f + k\<rparr>) ?n" by (rule rw_file_upd [OF assms(1) z(1,3)])
  have l: "lseek64 fd (f_pos f) SEEK_SET ?s1 = Some (0, ?s2)"
    using rw_file_seek [OF F1, of "f_pos f"] z(2) assms(2) by (simp add: irq_ok_def)
  have F2: "rw_file ?s2 fd fp f ?n" using rw_file_upd [OF assms(1) z(2,3), of "copied ?d buf k (ram s)"] by simp
  have "apart (vn_internal ?n) MAX_FILE_SZ buf' len" "owned ?s2 buf' len" using assms(4,6) by (simp_all add: owned_def)
  moreover have k': "k = min len (vn_file_size ?n - f_pos f)"
    using read_back [OF pos(1,2) k] by simp
  ultimately have r: "read_fd fd buf' len ?s2 = Some (k, ?s2\<lparr>ram := copied buf' ?d k (ram ?s2), files := (files ?s2)(fp \<mapsto> f\<lparr>f_pos := f_pos f + k\<rparr>)\<rparr>)"
    using tmpfs_read_ok [OF F2] read_fd_eq [OF F2] by simp
  define s3 where "s3 = ?s2\<lparr>ram := copied buf' ?d k (ram ?s2), files := (files ?s2)(fp \<mapsto> f\<lparr>f_pos := f_pos f + k\<rparr>)\<rparr>"
  have m: "ram s3 = copied buf' ?d k (copied ?d buf k (ram s))" by (simp add: s3_def)
  have F3: "rw_file s3 fd fp (f\<lparr>f_pos := f_pos f + k\<rparr>) ?n"
    using rw_file_upd [OF assms(1) z(1,3), of "copied buf' ?d k (copied ?d buf k (ram s))"] by (simp add: s3_def)
  show ?thesis
    by (intro exI conjI, rule w, rule l, rule r [folded s3_def]) (simp_all add: m copied_def F3)
qed

text \<open>A sample: the idle thread has a file of two bytes open, with the descriptor 3; memory is a block of three pages, the first one the file's.\<close>

definition sample_file :: file_t where
  "sample_file = \<lparr>f_vnode = 4000, f_pos = 1, f_fops = 5000, f_flags = 0, f_ref_count = 1\<rparr>"

definition sample_vnode :: vnode_t where
  "sample_vnode = \<lparr>vn_mount = 6000, vn_vops = 0, vn_fops = 5000, vn_children = zero_list, vn_hidden = False, vn_mode = 0, vn_parent = 0,
     vn_type = FILE, vn_name = replicate STRLEN 0, vn_file_size = 2, vn_internal = 0x10000\<rparr>"

definition sample_fs :: vfs_data where
  "sample_fs = io_data.extend
     (with_drivers (idle_only\<lparr>pcbs := [1000 \<mapsto> idle_pcb\<lparr>p_fd_table := (replicate MAX_NUM_FD 0)[3 := 3000]\<rparr>], files := [3000 \<mapsto> sample_file],
        ram := ucast, ram_ok := (\<lambda>a. a - 0x10000 < 0x3000)\<rparr>))
     \<lparr>vnodes = [4000 \<mapsto> sample_vnode], mounts = [6000 \<mapsto> \<lparr>mt_root = 4000, mt_fs = 0, mt_flags = 0\<rparr>], vops = Map.empty, fops = [5000 \<mapsto> tmpfs_fops],
       filesystems = Map.empty, fs_list = zero_list, stale_vnode = (\<lambda>_. sample_vnode), ramdisk_saddr = 0, ramdisk_eaddr = 0\<rparr>"

lemma sample_fs_ok: "rw_file sample_fs 3 3000 sample_file sample_vnode" "irq_ok sample_fs" "owned sample_fs 0x10000 0x3000"
proof -
  show o: "owned sample_fs 0x10000 0x3000" by (simp add: owned_def sample_fs_def io_data.defs with_drivers_def sched.defs)
  show "irq_ok sample_fs" using nodes_in_irq idle_only_at by (auto simp: sched_at_def irq_ok_def sample_fs_def io_data.defs with_drivers_def sched.defs)
  show "rw_file sample_fs 3 3000 sample_file sample_vnode"
    using owned_part [OF o, of 0 MAX_FILE_SZ]
    by (simp add: rw_file_def cur_file_def get_current_def sample_fs_def io_data.defs with_drivers_def sched.defs sample_file_def sample_vnode_def idle_only_def list_data.defs
        get_int_def MAX_NUM_FD_def MAX_FILE_SZ_def MS_RDONLY_def O_WRONLY_def)
qed

theorem tmpfs_write_read_witness:
  "\<exists>s1 s2 s3. write_fd 3 0x11000 5 sample_fs = Some (5, s1) \<and> lseek64 3 1 SEEK_SET s1 = Some (0, s2) \<and> read_fd 3 0x12000 5 s2 = Some (5, s3)
     \<and> ram s3 0x12004 = 4"
proof -
  have o: "owned sample_fs 0x11000 5" "owned sample_fs 0x12000 5"
    using owned_part [OF sample_fs_ok(3), of "0x1000" 5] owned_part [OF sample_fs_ok(3), of "0x2000" 5] by simp_all
  have a: "apart (vn_internal sample_vnode) MAX_FILE_SZ 0x11000 5" "apart (vn_internal sample_vnode) MAX_FILE_SZ 0x12000 5"
    by (rule apartI; simp add: sample_vnode_def MAX_FILE_SZ_def)+
  have p: "f_pos sample_file = 1" by (simp add: sample_file_def)
  obtain s1 s2 s3 where "write_fd 3 0x11000 5 sample_fs = Some (5, s1)" "lseek64 3 1 SEEK_SET s1 = Some (0, s2)" "read_fd 3 0x12000 5 s2 = Some (5, s3)"
    "\<forall>i. i < 5 \<longrightarrow> ram s3 (0x12000 + i) = ram sample_fs (0x11000 + i)"
    using tmpfs_write_read [OF sample_fs_ok(1,2) o a, of 5] unfolding p by (auto simp: MAX_FILE_SZ_def)
  moreover have "ram sample_fs 0x11004 = 4" by (simp add: sample_fs_def io_data.defs with_drivers_def sched.defs)
  moreover have "(4 :: u64) < 5" "(0x12000 :: u64) + 4 = 0x12004" "(0x11000 :: u64) + 4 = 0x11004" by simp_all
  ultimately show ?thesis by metis
qed

text \<open>
  C19: the check of a seek from the end is made on unsigned numbers and never fails, so a position before the start of the file is accepted: a seek by one more than the size of
  the file backwards succeeds, and the next write of one byte stores it in front of the block of the file, an address that need not belong to any file.
\<close>

theorem seek_end_escapes:
  assumes "rw_file s fd fp f n" "irq_ok s" "ram_ok s buf" "buf \<noteq> vn_internal n - 1"
  shows "\<exists>s1. lseek64 fd (- 1 - vn_file_size n) SEEK_END s = Some (0, s1)
     \<and> (\<not> ram_ok s (vn_internal n - 1) \<longrightarrow> write_fd fd buf 1 s1 = None)
     \<and> (ram_ok s (vn_internal n - 1) \<longrightarrow> (\<exists>s2. write_fd fd buf 1 s1 = Some (1, s2) \<and> ram s2 = (ram s)(vn_internal n - 1 := ram s buf)))"
proof -
  have f: "cur_file fd s = Some fp" "files s fp = Some f" "vnodes s (f_vnode f) = Some n" "fops s (f_fops f) = Some tmpfs_fops"
    and n: "vn_file_size n \<le> 4096" using assms(1) by (auto simp: rw_file_def MAX_FILE_SZ_def)
  let ?s1 = "s\<lparr>files := (files s)(fp \<mapsto> f\<lparr>f_pos := - 1\<rparr>)\<rparr>"
  have "\<not> 0 < sint (- 1 - vn_file_size n)" using small_sint [OF n] by simp
  then have "tmpfs_lseek64 fp (- 1 - vn_file_size n) SEEK_END (disable_int s) = Some (0, (disable_int s)\<lparr>files := (files s)(fp \<mapsto> f\<lparr>f_pos := - 1\<rparr>)\<rparr>)"
    using f by (simp add: tmpfs_lseek64_def upd_file_def disable_int_def SEEK_END_def SEEK_SET_def SEEK_CUR_def)
  moreover have "enable_int ((disable_int s)\<lparr>files := m\<rparr>) = s\<lparr>files := m\<rparr>" for m
    using assms(2) by (cases s) (auto simp: irq_ok_def enable_int_def disable_int_def Let_def)
  ultimately have l: "lseek64 fd (- 1 - vn_file_size n) SEEK_END s = Some (0, ?s1)"
    using f by (simp add: lseek64_def vfs_lseek64_def file_fops_def call_lseek64_def tmpfs_fops_def disable_int_def)
  have "write_fd fd buf 1 ?s1 = tmpfs_write fp buf 1 ?s1"
    using assms(1) by (auto simp: rw_file_def write_fd_def vfs_write_def file_fops_def call_write_def tmpfs_fops_def O_RDONLY_def cur_file_def get_current_def)
  then show ?thesis using l f assms(3,4)
    by (intro exI [of _ ?s1]) (simp add: tmpfs_write_def rd8_def wr8_def upd_file_def)
qed

theorem seek_end_escapes_witness:
  "\<exists>s1. lseek64 3 (- 3) SEEK_END sample_fs = Some (0, s1) \<and> write_fd 3 0x11000 1 s1 = None"
proof -
  have "ram_ok sample_fs 0x11000" "\<not> ram_ok sample_fs (vn_internal sample_vnode - 1)" "vn_file_size sample_vnode = 2"
    by (simp_all add: sample_fs_def io_data.defs with_drivers_def sched.defs sample_vnode_def)
  then show ?thesis using seek_end_escapes [OF sample_fs_ok(1,2), of "0x11000"] by (auto simp: sample_vnode_def)
qed

end
