(* ===== verification/Fault.thy ===== *)
theory Fault
  imports Address_Space
begin

text \<open>
  The handler of synchronous exceptions, \<open>exception_entry\<close> of \<open>interrupt.c\<close>: pages that are mapped on the first access, copy-on-write,
  and the end of a process that accesses an address it must not.  The registers \<open>esr_el1\<close> and \<open>far_el1\<close> are arguments; the number in a message is left out.
  As for the functions of \<open>process.c\<close>, the result says where the processor continues if the handler does not return.
\<close>

definition EC_MASK :: u64 where "EC_MASK = 0xfc000000"
definition EC_DATA_ABORT :: u64 where "EC_DATA_ABORT = 0x24"
definition EC_INSTRUCTION_ABORT :: u64 where "EC_INSTRUCTION_ABORT = 0x20"
definition DFSC_MASK :: u64 where "DFSC_MASK = 0x3c"
definition DFSC_TRANSLATION :: u64 where "DFSC_TRANSLATION = 1"
definition DFSC_PERMISSION :: u64 where "DFSC_PERMISSION = 3"
definition USR_CODE_START :: u64 where "USR_CODE_START = 0"

text \<open>The label \<open>seg_fault\<close>.\<close>

definition seg_fault :: "'a sched_scheme \<Rightarrow> (jump option \<times> 'a sched_scheme) option" where
  "seg_fault s = do {
     (j, s) \<leftarrow> exit (print_msg ''[Segmentation fault]: Kill Process'' (enable_int s));
     Some (j, if j = None then disable_int s else s)
   }"

definition report :: "string \<Rightarrow> 'a sched_scheme \<Rightarrow> 'a sched_scheme" where
  "report m s = disable_int (print_msg m (enable_int s))"

section \<open>Mapping on the first access\<close>

partial_function (option) ref_code :: "u64 \<Rightarrow> u64 \<Rightarrow> u64 \<Rightarrow> 'a sched_scheme \<Rightarrow> 'a sched_scheme option" where
  "ref_code code i sz s =
     (if i < sz then do { s \<leftarrow> ref_page (code + i) s; ref_code code (i + PAGE_SIZE) sz s } else Some s)"

definition map_text :: "pcb_t \<Rightarrow> section_t \<Rightarrow> 'a sched_scheme \<Rightarrow> 'a sched_scheme option" where
  "map_text b c s = do {
     let s_page_idx = USR_CODE_START div PAGE_SIZE;
     let e_page_idx = s_page_idx + (sec_size c - 1) div PAGE_SIZE + 1;
     s \<leftarrow> fill_page_table (p2v_trans_kernel (p_ttbr b)) s_page_idx e_page_idx (p_code b) (PD_USER_ACCESS OR PD_ACCESS) s;
     ref_code (p_code b) 0 (sec_size c) s
   }"

definition map_new_page :: "pcb_t \<Rightarrow> u64 \<Rightarrow> 'a sched_scheme \<Rightarrow> 'a sched_scheme option" where
  "map_new_page b v_fault_addr s = do {
     let s_page_idx = v_fault_addr div PAGE_SIZE;
     (v, s) \<leftarrow> malloc_bytes PAGE_SIZE s;
     let physical_addr = v2p_trans_kernel v;
     s \<leftarrow> fill_page_table (p2v_trans_kernel (p_ttbr b)) s_page_idx (s_page_idx + 1) physical_addr (PD_NX_EL0 OR PD_USER_ACCESS OR PD_ACCESS) s;
     ref_page physical_addr s
   }"

definition translation_fault :: "u64 \<Rightarrow> 'a sched_scheme \<Rightarrow> (jump option \<times> 'a sched_scheme) option" where
  "translation_fault v_fault_addr s = do {
     b \<leftarrow> pcbs s (get_current s);
     (p, s) \<leftarrow> list_find (p_sections b) (\<lambda>p. in_section p v_fault_addr s) s;
     if p = 0 then seg_fault s
     else do {
       c \<leftarrow> sections s p;
       if sec_type c = DEVICE then seg_fault s
       else do {
         s \<leftarrow> (if sec_type c = TEXT then map_text b c s else map_new_page b v_fault_addr s);
         Some (None, report ''[Translation fault]'' s)
       }
     }
   }"

section \<open>Copy-on-write\<close>

definition copy_page :: "u64 \<Rightarrow> u64 \<Rightarrow> 'a sched_scheme \<Rightarrow> 'a sched_scheme option" where
  "copy_page v_fault_addr fault_page s = do {
     (v_new_page, s) \<leftarrow> malloc_bytes PAGE_SIZE s;
     let new_page = v2p_trans_kernel v_new_page;
     s \<leftarrow> memcpy_ram v_new_page (p2v_trans_kernel fault_page) (unat PAGE_SIZE) s;
     s \<leftarrow> replace_page_entry 0 v_fault_addr new_page True s;
     s \<leftarrow> deref_page fault_page s;
     s \<leftarrow> ref_page new_page s;
     Some (report ''[Copy-on-write]'' s)
   }"

definition permission_fault :: "u64 \<Rightarrow> 'a sched_scheme \<Rightarrow> (jump option \<times> 'a sched_scheme) option" where
  "permission_fault v_fault_addr s = do {
     fault_addr \<leftarrow> v2p_trans v_fault_addr 0 s;
     let fault_page = fault_addr AND NOT (PAGE_SIZE - 1);
     (w, s) \<leftarrow> get_w_permission fault_page s;
     if \<not> w then seg_fault s
     else do {
       (c, s) \<leftarrow> get_ref_count fault_page s;
       s \<leftarrow> (if 1 < c then copy_page v_fault_addr fault_page s else replace_page_entry 0 v_fault_addr fault_addr True s);
       Some (None, s)
     }
   }"

definition exception_entry :: "u64 \<Rightarrow> u64 \<Rightarrow> 'a sched_scheme \<Rightarrow> (jump option \<times> 'a sched_scheme) option" where
  "exception_entry esr v_fault_addr s = do {
     let ec = drop_bit 26 (esr AND EC_MASK);
     let dfsc = drop_bit 2 (esr AND DFSC_MASK);
     if ec = EC_DATA_ABORT \<or> ec = EC_INSTRUCTION_ABORT then
       (if dfsc = DFSC_TRANSLATION then translation_fault v_fault_addr s
        else if dfsc = DFSC_PERMISSION then permission_fault v_fault_addr s
        else seg_fault s)
     else Some (None, report ''ESR, EC'' s)
   }"

end
