(* ===== verification/Exec.thy ===== *)
theory Exec
  imports File Fault
begin

text \<open>
  The system call \<open>exec\<close> (\<open>syscall.c\<close>) with the entry into user mode of \<open>exec_prog\<close> (\<open>thread.S\<close>).  The result is the jump into the
  program, or the jump of \<open>exit\<close> if the program does not exist, or the value \<open>-1\<close> if that returns.
\<close>

definition USR_STACK_START :: u64 where "USR_STACK_START = 0xffffffffb000"
definition USR_STACK_END :: u64 where "USR_STACK_END = 0xfffffffff000"

definition exec_prog :: "u64 \<Rightarrow> u64 \<Rightarrow> u64 \<Rightarrow> 'a sched_scheme \<Rightarrow> jump \<times> 'a sched_scheme" where
  "exec_prog x0 x1 x2 s = (\<lparr>j_pc = x0, j_pstate = 0, j_arg = x0\<rparr>, s\<lparr>ttbr0_el1 := x2, sp_el0 := x1\<rparr>)"

text \<open>A process that is already in user mode gives up its sections and its page table.\<close>

definition leave_space :: "u64 \<Rightarrow> 'a sched_scheme \<Rightarrow> 'a sched_scheme option" where
  "leave_space pcb s = do {
     b \<leftarrow> pcbs s pcb;
     if p_el b = 0 then do {
       (l, s) \<leftarrow> free_sections (p_sections b) (p_ttbr b) s;
       s \<leftarrow> upd_pcb pcb (\<lambda>b. b\<lparr>p_sections := l\<rparr>) s;
       free_page_table 3 (p_ttbr b) s
     }
     else Some s
   }"

definition exec :: "u8 list \<Rightarrow> 'a vfs_data_scheme \<Rightarrow> ((int + jump) \<times> 'a vfs_data_scheme) option" where
  "exec name s = do {
     let pcb = get_current s;
     (r, s) \<leftarrow> load_prog name s;
     (case r of
        None \<Rightarrow> do {
          (j, s) \<leftarrow> exit (print_msg ''File not found'' s);
          Some (case j of None \<Rightarrow> Inl (- 1) | Some j \<Rightarrow> Inr j, s)
        }
      | Some (prog_addr, prog_size) \<Rightarrow> do {
          let s = disable_int s;
          s \<leftarrow> leave_space pcb s;
          s \<leftarrow> upd_pcb pcb (\<lambda>b. b\<lparr>p_el := 0, p_pstate := EL0_W_DAIF, p_reg := (p_reg b)[LR := code_at s L__exit],
                p_code := v2p_trans_kernel prog_addr, p_sp_el0 := USR_STACK_END\<rparr>) s;
          (ttbr, s) \<leftarrow> init_ttbr s;
          s \<leftarrow> upd_pcb pcb (\<lambda>b. b\<lparr>p_ttbr := ttbr\<rparr>) s;
          s \<leftarrow> add_section pcb TEXT USR_CODE_START prog_size s;
          s \<leftarrow> add_section pcb STACK USR_STACK_START STACK_EL0_SIZE s;
          let s = enable_int s;
          b \<leftarrow> pcbs s pcb;
          let (j, s) = exec_prog USR_CODE_START USR_STACK_END (p_ttbr b) s;
          Some (Inr j, s)
        })
   }"

end
