(* ===== verification/Printf.thy ===== *)
theory Printf
  imports Strings
begin

text \<open>
  The formatted output of \<open>printf.c\<close>: \<open>printf_\<close>, \<open>sprintf_\<close>, \<open>snprintf_\<close>, \<open>vprintf_\<close>, \<open>vsnprintf_\<close> and the
  functions they share.  The build defines \<open>PRINTF_DISABLE_SUPPORT_FLOAT\<close>, so the conversions of
  floating-point numbers are not part of the program.

  The format is the list of its bytes, terminator included; the \<open>format\<close> pointer is the rest of the list.
  A \<open>va_list\<close> is the list of the remaining arguments.  \<open>width\<close>, \<open>precision\<close> and \<open>flags\<close> are 32-bit words and wrap;
  \<open>idx\<close> and \<open>len\<close> count characters that have been produced and are natural numbers.
  The conversion buffer \<open>buf\<close> is the list of the \<open>len\<close> characters stored so far.
  \<open>long\<close> and \<open>long long\<close> are both 64 bits wide, \<open>char\<close> is unsigned, and \<open>0 - value\<close> wraps on the smallest integer, as in the machine
  code for AArch64.
\<close>

section \<open>Sinks\<close>

abbreviation ch :: "char \<Rightarrow> u8" where "ch c \<equiv> of_char c"

definition FLAGS_ZEROPAD :: u32 where "FLAGS_ZEROPAD = push_bit 0 1"
definition FLAGS_LEFT :: u32 where "FLAGS_LEFT = push_bit 1 1"
definition FLAGS_PLUS :: u32 where "FLAGS_PLUS = push_bit 2 1"
definition FLAGS_SPACE :: u32 where "FLAGS_SPACE = push_bit 3 1"
definition FLAGS_HASH :: u32 where "FLAGS_HASH = push_bit 4 1"
definition FLAGS_UPPERCASE :: u32 where "FLAGS_UPPERCASE = push_bit 5 1"
definition FLAGS_CHAR :: u32 where "FLAGS_CHAR = push_bit 6 1"
definition FLAGS_SHORT :: u32 where "FLAGS_SHORT = push_bit 7 1"
definition FLAGS_LONG :: u32 where "FLAGS_LONG = push_bit 8 1"
definition FLAGS_LONG_LONG :: u32 where "FLAGS_LONG_LONG = push_bit 9 1"
definition FLAGS_PRECISION :: u32 where "FLAGS_PRECISION = push_bit 10 1"

definition PRINTF_NTOA_BUFFER_SIZE :: nat where "PRINTF_NTOA_BUFFER_SIZE = 32"

definition fl :: "u32 \<Rightarrow> u32 \<Rightarrow> bool" where
  "fl flags f \<longleftrightarrow> flags AND f \<noteq> 0"

text \<open>The output functions, and what they write to: the caller's buffer, and the characters sent to the UART.\<close>

datatype out_fct = Out_buffer | Out_null | Out_char

record sink =
  buffer :: "u8 list"
  sent :: "u8 list"

fun out :: "out_fct \<Rightarrow> u8 \<Rightarrow> nat \<Rightarrow> nat \<Rightarrow> sink \<Rightarrow> sink option" where
  "out Out_buffer c idx maxlen s =
     (if idx < maxlen then do { b \<leftarrow> set_at (buffer s) idx c; Some (s\<lparr>buffer := b\<rparr>) } else Some s)"
| "out Out_null c idx maxlen s = Some s"
| "out Out_char c idx maxlen s = (if c \<noteq> 0 then Some (s\<lparr>sent := sent s @ [c]\<rparr>) else Some s)"

section \<open>Helpers\<close>

fun strnlen_s :: "u8 list \<Rightarrow> nat \<Rightarrow> nat option" where
  "strnlen_s [] maxsize = None"
| "strnlen_s (c # str) maxsize =
     (if c \<noteq> 0 \<and> maxsize \<noteq> 0 then map_option Suc (strnlen_s str (maxsize - 1)) else Some 0)"

definition is_digit :: "u8 \<Rightarrow> bool" where
  "is_digit c \<longleftrightarrow> ch CHR ''0'' \<le> c \<and> c \<le> ch CHR ''9''"

fun atoi :: "u32 \<Rightarrow> u8 list \<Rightarrow> (u32 \<times> u8 list) option" where
  "atoi i [] = None"
| "atoi i (c # str) = (if is_digit c then atoi (i * 10 + ucast (c - ch CHR ''0'')) str else Some (i, c # str))"

text \<open>Output of \<open>n\<close> blanks, and of a whole list of characters.\<close>

primrec out_pad :: "out_fct \<Rightarrow> nat \<Rightarrow> nat \<Rightarrow> nat \<Rightarrow> sink \<Rightarrow> (nat \<times> sink) option" where
  "out_pad f 0 idx maxlen s = Some (idx, s)"
| "out_pad f (Suc n) idx maxlen s = do { s \<leftarrow> out f (ch CHR '' '') idx maxlen s; out_pad f n (idx + 1) maxlen s }"

primrec outs :: "out_fct \<Rightarrow> u8 list \<Rightarrow> nat \<Rightarrow> nat \<Rightarrow> sink \<Rightarrow> (nat \<times> sink) option" where
  "outs f [] idx maxlen s = Some (idx, s)"
| "outs f (c # cs) idx maxlen s = do { s \<leftarrow> out f c idx maxlen s; outs f cs (idx + 1) maxlen s }"

definition out_rev :: "out_fct \<Rightarrow> nat \<Rightarrow> nat \<Rightarrow> u8 list \<Rightarrow> u32 \<Rightarrow> u32 \<Rightarrow> sink \<Rightarrow> (nat \<times> sink) option" where
  "out_rev f idx maxlen buf width flags s = do {
     let start_idx = idx;
     (idx, s) \<leftarrow> (if \<not> fl flags FLAGS_LEFT \<and> \<not> fl flags FLAGS_ZEROPAD
                  then out_pad f (unat width - length buf) idx maxlen s else Some (idx, s));
     (idx, s) \<leftarrow> outs f (rev buf) idx maxlen s;
     if fl flags FLAGS_LEFT then out_pad f (unat width - (idx - start_idx)) idx maxlen s else Some (idx, s)
   }"

section \<open>Integers\<close>

text \<open>Append \<open>c\<close> while the buffer is shorter than \<open>n\<close> and not full.\<close>

definition fill_to :: "nat \<Rightarrow> u8 \<Rightarrow> u8 list \<Rightarrow> u8 list" where
  "fill_to n c buf = buf @ replicate (min n PRINTF_NTOA_BUFFER_SIZE - length buf) c"

definition push_char :: "u8 \<Rightarrow> u8 list \<Rightarrow> u8 list" where
  "push_char c buf = (if length buf < PRINTF_NTOA_BUFFER_SIZE then buf @ [c] else buf)"

definition ntoa_width :: "bool \<Rightarrow> u32 \<Rightarrow> u32 \<Rightarrow> u32" where
  "ntoa_width negative width flags =
     (if \<not> fl flags FLAGS_LEFT \<and> width \<noteq> 0 \<and> fl flags FLAGS_ZEROPAD
         \<and> (negative \<or> fl flags (FLAGS_PLUS OR FLAGS_SPACE))
      then width - 1 else width)"

definition ntoa_hash :: "u32 \<Rightarrow> u32 \<Rightarrow> u32 \<Rightarrow> u32 \<Rightarrow> u8 list \<Rightarrow> u8 list" where
  "ntoa_hash base prec width flags buf =
     (let buf = (if \<not> fl flags FLAGS_PRECISION \<and> buf \<noteq> [] \<and> (length buf = unat prec \<or> length buf = unat width)
                 then (let buf = butlast buf in if buf \<noteq> [] \<and> base = 16 then butlast buf else buf)
                 else buf);
          buf = (if base = 16 \<and> \<not> fl flags FLAGS_UPPERCASE then push_char (ch CHR ''x'') buf
                 else if base = 16 \<and> fl flags FLAGS_UPPERCASE then push_char (ch CHR ''X'') buf
                 else if base = 2 then push_char (ch CHR ''b'') buf
                 else buf)
      in push_char (ch CHR ''0'') buf)"

definition ntoa_sign :: "bool \<Rightarrow> u32 \<Rightarrow> u8 list \<Rightarrow> u8 list" where
  "ntoa_sign negative flags buf =
     (if negative then push_char (ch CHR ''-'') buf
      else if fl flags FLAGS_PLUS then push_char (ch CHR ''+'') buf
      else if fl flags FLAGS_SPACE then push_char (ch CHR '' '') buf
      else buf)"

definition ntoa_format ::
  "out_fct \<Rightarrow> nat \<Rightarrow> nat \<Rightarrow> u8 list \<Rightarrow> bool \<Rightarrow> u32 \<Rightarrow> u32 \<Rightarrow> u32 \<Rightarrow> u32 \<Rightarrow> sink \<Rightarrow> (nat \<times> sink) option" where
  "ntoa_format f idx maxlen buf negative base prec width flags s =
     (let width = ntoa_width negative width flags;
          buf = (if \<not> fl flags FLAGS_LEFT then fill_to (unat prec) (ch CHR ''0'') buf else buf);
          buf = (if \<not> fl flags FLAGS_LEFT \<and> fl flags FLAGS_ZEROPAD then fill_to (unat width) (ch CHR ''0'') buf else buf);
          buf = (if fl flags FLAGS_HASH then ntoa_hash base prec width flags buf else buf);
          buf = ntoa_sign negative flags buf
      in out_rev f idx maxlen buf width flags s)"

text \<open>The digits of a number, least significant first: at most \<open>n\<close> of them.\<close>

definition ntoa_digit :: "u32 \<Rightarrow> u64 \<Rightarrow> u8" where
  "ntoa_digit flags d =
     (if d < 10 then ch CHR ''0'' + ucast d
      else (if fl flags FLAGS_UPPERCASE then ch CHR ''A'' else ch CHR ''a'') + ucast d - 10)"

primrec ntoa_loop :: "nat \<Rightarrow> u64 \<Rightarrow> u64 \<Rightarrow> u32 \<Rightarrow> u8 list" where
  "ntoa_loop 0 v base flags = []"
| "ntoa_loop (Suc n) v base flags =
     ntoa_digit flags (v mod base) # (if v div base \<noteq> 0 then ntoa_loop n (v div base) base flags else [])"

definition ntoa_long ::
  "out_fct \<Rightarrow> nat \<Rightarrow> nat \<Rightarrow> u64 \<Rightarrow> bool \<Rightarrow> u64 \<Rightarrow> u32 \<Rightarrow> u32 \<Rightarrow> u32 \<Rightarrow> sink \<Rightarrow> (nat \<times> sink) option" where
  "ntoa_long f idx maxlen v negative base prec width flags s =
     (let flags = (if v = 0 then flags AND NOT FLAGS_HASH else flags);
          buf = (if \<not> fl flags FLAGS_PRECISION \<or> v \<noteq> 0 then ntoa_loop PRINTF_NTOA_BUFFER_SIZE v base flags else [])
      in ntoa_format f idx maxlen buf negative (ucast base) prec width flags s)"

definition ntoa_long_long ::
  "out_fct \<Rightarrow> nat \<Rightarrow> nat \<Rightarrow> u64 \<Rightarrow> bool \<Rightarrow> u64 \<Rightarrow> u32 \<Rightarrow> u32 \<Rightarrow> u32 \<Rightarrow> sink \<Rightarrow> (nat \<times> sink) option" where
  "ntoa_long_long f idx maxlen v negative base prec width flags s =
     (let flags = (if v = 0 then flags AND NOT FLAGS_HASH else flags);
          buf = (if \<not> fl flags FLAGS_PRECISION \<or> v \<noteq> 0 then ntoa_loop PRINTF_NTOA_BUFFER_SIZE v base flags else [])
      in ntoa_format f idx maxlen buf negative (ucast base) prec width flags s)"

section \<open>Directives\<close>

text \<open>Arguments: an \<open>int\<close> or \<open>unsigned int\<close>, a \<open>long\<close>, \<open>long long\<close> or data pointer, or a string.\<close>

datatype arg = AInt u32 | ALong u64 | AStr "u8 list"

fun va_int :: "arg list \<Rightarrow> (u32 \<times> arg list) option" where
  "va_int (AInt v # va) = Some (v, va)"
| "va_int _ = None"

fun va_long :: "arg list \<Rightarrow> (u64 \<times> arg list) option" where
  "va_long (ALong v # va) = Some (v, va)"
| "va_long _ = None"

fun va_str :: "arg list \<Rightarrow> (u8 list \<times> arg list) option" where
  "va_str (AStr v # va) = Some (v, va)"
| "va_str _ = None"

fun parse_flags :: "u32 \<Rightarrow> u8 list \<Rightarrow> (u32 \<times> u8 list) option" where
  "parse_flags flags [] = None"
| "parse_flags flags (c # fmt) =
     (if c = ch CHR ''0'' then parse_flags (flags OR FLAGS_ZEROPAD) fmt
      else if c = ch CHR ''-'' then parse_flags (flags OR FLAGS_LEFT) fmt
      else if c = ch CHR ''+'' then parse_flags (flags OR FLAGS_PLUS) fmt
      else if c = ch CHR '' '' then parse_flags (flags OR FLAGS_SPACE) fmt
      else if c = ch CHR ''#'' then parse_flags (flags OR FLAGS_HASH) fmt
      else Some (flags, c # fmt))"

fun parse_width :: "u32 \<Rightarrow> u8 list \<Rightarrow> arg list \<Rightarrow> (u32 \<times> u32 \<times> u8 list \<times> arg list) option" where
  "parse_width flags [] va = None"
| "parse_width flags (c # fmt) va =
     (if is_digit c then do { (width, fmt) \<leftarrow> atoi 0 (c # fmt); Some (flags, width, fmt, va) }
      else if c = ch CHR ''*'' then do {
        (w, va) \<leftarrow> va_int va;
        Some (if w <s 0 then (flags OR FLAGS_LEFT, - w, fmt, va) else (flags, w, fmt, va))
      }
      else Some (flags, 0, c # fmt, va))"

fun parse_precision :: "u32 \<Rightarrow> u8 list \<Rightarrow> arg list \<Rightarrow> (u32 \<times> u32 \<times> u8 list \<times> arg list) option" where
  "parse_precision flags [] va = None"
| "parse_precision flags (c # fmt) va =
     (if c = ch CHR ''.'' then
        (case fmt of
           [] \<Rightarrow> None
         | c # fmt' \<Rightarrow>
             if is_digit c then do { (p, fmt) \<leftarrow> atoi 0 fmt; Some (flags OR FLAGS_PRECISION, p, fmt, va) }
             else if c = ch CHR ''*'' then do {
               (p, va) \<leftarrow> va_int va;
               Some (flags OR FLAGS_PRECISION, if 0 <s p then p else 0, fmt', va)
             }
             else Some (flags OR FLAGS_PRECISION, 0, fmt, va))
      else Some (flags, 0, c # fmt, va))"

fun parse_length :: "u32 \<Rightarrow> u8 list \<Rightarrow> (u32 \<times> u8 list) option" where
  "parse_length flags [] = None"
| "parse_length flags (c # fmt) =
     (if c = ch CHR ''l'' then
        (case fmt of
           [] \<Rightarrow> None
         | c # fmt' \<Rightarrow> Some (if c = ch CHR ''l'' then (flags OR FLAGS_LONG OR FLAGS_LONG_LONG, fmt') else (flags OR FLAGS_LONG, fmt)))
      else if c = ch CHR ''h'' then
        (case fmt of
           [] \<Rightarrow> None
         | c # fmt' \<Rightarrow> Some (if c = ch CHR ''h'' then (flags OR FLAGS_SHORT OR FLAGS_CHAR, fmt') else (flags OR FLAGS_SHORT, fmt)))
      else if c = ch CHR ''t'' \<or> c = ch CHR ''j'' \<or> c = ch CHR ''z'' then Some (flags OR FLAGS_LONG, fmt)
      else Some (flags, c # fmt))"

text \<open>The conversions of integers: the specifier \<open>c\<close> sets the base and the flags.\<close>

definition int_base :: "u8 \<Rightarrow> u64" where
  "int_base c =
     (if c = ch CHR ''x'' \<or> c = ch CHR ''X'' then 16
      else if c = ch CHR ''o'' then 8
      else if c = ch CHR ''b'' then 2
      else 10)"

definition int_flags :: "u8 \<Rightarrow> u32 \<Rightarrow> u32" where
  "int_flags c flags =
     (let flags = (if int_base c = 10 then flags AND NOT FLAGS_HASH else flags);
          flags = (if c = ch CHR ''X'' then flags OR FLAGS_UPPERCASE else flags);
          flags = (if c \<noteq> ch CHR ''i'' \<and> c \<noteq> ch CHR ''d'' then flags AND NOT (FLAGS_PLUS OR FLAGS_SPACE) else flags)
      in if fl flags FLAGS_PRECISION then flags AND NOT FLAGS_ZEROPAD else flags)"

definition signed_arg :: "u32 \<Rightarrow> u32 \<Rightarrow> u32" where
  "signed_arg flags v =
     (if fl flags FLAGS_CHAR then ucast (ucast v :: u8)
      else if fl flags FLAGS_SHORT then signed_take_bit 15 v
      else v)"

definition unsigned_arg :: "u32 \<Rightarrow> u32 \<Rightarrow> u32" where
  "unsigned_arg flags v =
     (if fl flags FLAGS_CHAR then ucast (ucast v :: u8)
      else if fl flags FLAGS_SHORT then ucast (ucast v :: u16)
      else v)"

definition conv_int ::
  "out_fct \<Rightarrow> u8 \<Rightarrow> u32 \<Rightarrow> u32 \<Rightarrow> u32 \<Rightarrow> arg list \<Rightarrow> nat \<Rightarrow> nat \<Rightarrow> sink \<Rightarrow> (arg list \<times> nat \<times> sink) option" where
  "conv_int f c flags width precision va idx maxlen s =
     (let base = int_base c; flags = int_flags c flags in
      if c = ch CHR ''i'' \<or> c = ch CHR ''d'' then
        (if fl flags FLAGS_LONG_LONG then do {
           (v, va) \<leftarrow> va_long va;
           (idx, s) \<leftarrow> ntoa_long_long f idx maxlen (if 0 <s v then v else 0 - v) (v <s 0) base precision width flags s;
           Some (va, idx, s)
         }
         else if fl flags FLAGS_LONG then do {
           (v, va) \<leftarrow> va_long va;
           (idx, s) \<leftarrow> ntoa_long f idx maxlen (if 0 <s v then v else 0 - v) (v <s 0) base precision width flags s;
           Some (va, idx, s)
         }
         else do {
           (v, va) \<leftarrow> va_int va;
           let v = signed_arg flags v;
           (idx, s) \<leftarrow> ntoa_long f idx maxlen (ucast (if 0 <s v then v else 0 - v)) (v <s 0) base precision width flags s;
           Some (va, idx, s)
         })
      else
        (if fl flags FLAGS_LONG_LONG then do {
           (v, va) \<leftarrow> va_long va;
           (idx, s) \<leftarrow> ntoa_long_long f idx maxlen v False base precision width flags s;
           Some (va, idx, s)
         }
         else if fl flags FLAGS_LONG then do {
           (v, va) \<leftarrow> va_long va;
           (idx, s) \<leftarrow> ntoa_long f idx maxlen v False base precision width flags s;
           Some (va, idx, s)
         }
         else do {
           (v, va) \<leftarrow> va_int va;
           (idx, s) \<leftarrow> ntoa_long f idx maxlen (ucast (unsigned_arg flags v)) False base precision width flags s;
           Some (va, idx, s)
         }))"

definition conv_char ::
  "out_fct \<Rightarrow> u32 \<Rightarrow> u32 \<Rightarrow> arg list \<Rightarrow> nat \<Rightarrow> nat \<Rightarrow> sink \<Rightarrow> (arg list \<times> nat \<times> sink) option" where
  "conv_char f flags width va idx maxlen s = do {
     (idx, s) \<leftarrow> (if \<not> fl flags FLAGS_LEFT then out_pad f (unat width - 1) idx maxlen s else Some (idx, s));
     (v, va) \<leftarrow> va_int va;
     s \<leftarrow> out f (ucast v) idx maxlen s;
     let idx = idx + 1;
     (idx, s) \<leftarrow> (if fl flags FLAGS_LEFT then out_pad f (unat width - 1) idx maxlen s else Some (idx, s));
     Some (va, idx, s)
   }"

fun out_str :: "out_fct \<Rightarrow> bool \<Rightarrow> u32 \<Rightarrow> u8 list \<Rightarrow> nat \<Rightarrow> nat \<Rightarrow> sink \<Rightarrow> (nat \<times> sink) option" where
  "out_str f limited precision [] idx maxlen s = None"
| "out_str f limited precision (c # p) idx maxlen s =
     (if c \<noteq> 0 \<and> (\<not> limited \<or> precision \<noteq> 0) then do {
        s \<leftarrow> out f c idx maxlen s;
        out_str f limited (if limited then precision - 1 else precision) p (idx + 1) maxlen s
      }
      else Some (idx, s))"

definition conv_str ::
  "out_fct \<Rightarrow> u32 \<Rightarrow> u32 \<Rightarrow> u32 \<Rightarrow> arg list \<Rightarrow> nat \<Rightarrow> nat \<Rightarrow> sink \<Rightarrow> (arg list \<times> nat \<times> sink) option" where
  "conv_str f flags width precision va idx maxlen s = do {
     (p, va) \<leftarrow> va_str va;
     l \<leftarrow> strnlen_s p (if precision \<noteq> 0 then unat precision else SIZE_MAX);
     let l = (if fl flags FLAGS_PRECISION then min l (unat precision) else l);
     (idx, s) \<leftarrow> (if \<not> fl flags FLAGS_LEFT then out_pad f (unat width - l) idx maxlen s else Some (idx, s));
     (idx, s) \<leftarrow> out_str f (fl flags FLAGS_PRECISION) precision p idx maxlen s;
     (idx, s) \<leftarrow> (if fl flags FLAGS_LEFT then out_pad f (unat width - l) idx maxlen s else Some (idx, s));
     Some (va, idx, s)
   }"

definition conv_ptr ::
  "out_fct \<Rightarrow> u32 \<Rightarrow> u32 \<Rightarrow> arg list \<Rightarrow> nat \<Rightarrow> nat \<Rightarrow> sink \<Rightarrow> (arg list \<times> nat \<times> sink) option" where
  "conv_ptr f flags precision va idx maxlen s = do {
     (v, va) \<leftarrow> va_long va;
     (idx, s) \<leftarrow> ntoa_long_long f idx maxlen v False 16 precision 16 (flags OR FLAGS_ZEROPAD OR FLAGS_UPPERCASE) s;
     Some (va, idx, s)
   }"

definition conv ::
  "out_fct \<Rightarrow> u8 \<Rightarrow> u32 \<Rightarrow> u32 \<Rightarrow> u32 \<Rightarrow> arg list \<Rightarrow> nat \<Rightarrow> nat \<Rightarrow> sink \<Rightarrow> (arg list \<times> nat \<times> sink) option" where
  "conv f c flags width precision va idx maxlen s =
     (if c \<in> {ch CHR ''d'', ch CHR ''i'', ch CHR ''u'', ch CHR ''x'', ch CHR ''X'', ch CHR ''o'', ch CHR ''b''}
      then conv_int f c flags width precision va idx maxlen s
      else if c = ch CHR ''c'' then conv_char f flags width va idx maxlen s
      else if c = ch CHR ''s'' then conv_str f flags width precision va idx maxlen s
      else if c = ch CHR ''p'' then conv_ptr f flags precision va idx maxlen s
      else if c = ch CHR ''%'' then do { s \<leftarrow> out f (ch CHR ''%'') idx maxlen s; Some (va, idx + 1, s) }
      else do { s \<leftarrow> out f c idx maxlen s; Some (va, idx + 1, s) })"

text \<open>The fields of a directive, up to the specifier character.\<close>

definition parse_spec :: "u8 list \<Rightarrow> arg list \<Rightarrow> (u32 \<times> u32 \<times> u32 \<times> u8 \<times> u8 list \<times> arg list) option" where
  "parse_spec fmt va = do {
     (flags, fmt) \<leftarrow> parse_flags 0 fmt;
     (flags, width, fmt, va) \<leftarrow> parse_width flags fmt va;
     (flags, precision, fmt, va) \<leftarrow> parse_precision flags fmt va;
     (flags, fmt) \<leftarrow> parse_length flags fmt;
     (case fmt of [] \<Rightarrow> None | c # fmt \<Rightarrow> Some (flags, width, precision, c, fmt, va))
   }"

lemma atoi_length: "atoi i fmt = Some (n, fmt') \<Longrightarrow> length fmt' \<le> length fmt"
  by (induction i fmt rule: atoi.induct) (auto split: if_splits)

lemma parse_flags_length: "parse_flags i fmt = Some (n, fmt') \<Longrightarrow> length fmt' \<le> length fmt"
  by (induction i fmt rule: parse_flags.induct) (auto split: if_splits)

lemma parse_width_length: "parse_width i fmt va = Some (n, w, fmt', va') \<Longrightarrow> length fmt' \<le> length fmt"
  by (cases fmt) (auto split: if_splits dest: atoi_length simp: bind_eq_Some_conv)

lemma parse_precision_length: "parse_precision i fmt va = Some (n, w, fmt', va') \<Longrightarrow> length fmt' \<le> length fmt"
  by (cases fmt) (auto split: if_splits list.splits dest: atoi_length simp: bind_eq_Some_conv)

lemma parse_length_length: "parse_length i fmt = Some (n, fmt') \<Longrightarrow> length fmt' \<le> length fmt"
  by (cases fmt) (auto split: if_splits list.splits)

lemma parse_spec_length:
  assumes "parse_spec fmt va = Some (flags, width, precision, c, fmt', va')"
  shows "length fmt' < length fmt"
proof -
  obtain f1 m1 f2 w2 m2 v2 f3 p3 m3 v3 f4 m4 where
    "parse_flags 0 fmt = Some (f1, m1)" "parse_width f1 m1 va = Some (f2, w2, m2, v2)"
    "parse_precision f2 m2 v2 = Some (f3, p3, m3, v3)" "parse_length f3 m3 = Some (f4, m4)"
    "(case m4 of [] \<Rightarrow> None | c # fmt \<Rightarrow> Some (f4, w2, p3, c, fmt, v3)) = Some (flags, width, precision, c, fmt', va')"
    using assms by (auto simp: parse_spec_def bind_eq_Some_conv)
  then show ?thesis
    by (cases m4) (auto dest!: parse_flags_length parse_width_length parse_precision_length parse_length_length)
qed

text \<open>
  The main loop.  As in the source, a directive cut short by the end of the format steps over the terminator (the last
  case of the specifier switch prints it), so the rest of the list is what lies behind it.
\<close>

function vsnprintf_loop ::
  "out_fct \<Rightarrow> u8 list \<Rightarrow> arg list \<Rightarrow> nat \<Rightarrow> nat \<Rightarrow> sink \<Rightarrow> (nat \<times> sink) option" where
  "vsnprintf_loop f [] va idx maxlen s = None"
| "vsnprintf_loop f (c # fmt) va idx maxlen s =
     (if c = 0 then Some (idx, s)
      else if c \<noteq> ch CHR ''%'' then do {
        s \<leftarrow> out f c idx maxlen s;
        vsnprintf_loop f fmt va (idx + 1) maxlen s
      }
      else (case parse_spec fmt va of
          None \<Rightarrow> None
        | Some (flags, width, precision, c, fmt', va) \<Rightarrow>
            (case conv f c flags width precision va idx maxlen s of
               None \<Rightarrow> None
             | Some (va, idx, s) \<Rightarrow> vsnprintf_loop f fmt' va idx maxlen s)))"
  by pat_completeness auto
termination
  by (relation "measure (\<lambda>(f, fmt, va, idx, maxlen, s). length fmt)") (auto dest: parse_spec_length)

definition vsnprintf_out :: "out_fct \<Rightarrow> nat \<Rightarrow> u8 list \<Rightarrow> arg list \<Rightarrow> sink \<Rightarrow> (nat \<times> sink) option" where
  "vsnprintf_out f maxlen fmt va s = do {
     (idx, s) \<leftarrow> vsnprintf_loop f fmt va 0 maxlen s;
     s \<leftarrow> out f 0 (if idx < maxlen then idx else if maxlen = 0 then SIZE_MAX else maxlen - 1) maxlen s;
     Some (idx, s)
   }"

section \<open>Entry points\<close>

definition printf :: "u8 list \<Rightarrow> arg list \<Rightarrow> sink \<Rightarrow> (nat \<times> sink) option" where
  "printf fmt va s = vsnprintf_out Out_char SIZE_MAX fmt va s"

definition vprintf :: "u8 list \<Rightarrow> arg list \<Rightarrow> sink \<Rightarrow> (nat \<times> sink) option" where
  "vprintf fmt va s = vsnprintf_out Out_char SIZE_MAX fmt va s"

text \<open>The functions that write to a buffer; \<open>None\<close> is the null pointer, for which nothing is written.\<close>

definition vsnprintf :: "u8 list option \<Rightarrow> nat \<Rightarrow> u8 list \<Rightarrow> arg list \<Rightarrow> (nat \<times> u8 list option) option" where
  "vsnprintf buf cnt fmt va =
     (case buf of
        None \<Rightarrow> do { (r, s) \<leftarrow> vsnprintf_out Out_null cnt fmt va \<lparr>buffer = [], sent = []\<rparr>; Some (r, None) }
      | Some b \<Rightarrow> do { (r, s) \<leftarrow> vsnprintf_out Out_buffer cnt fmt va \<lparr>buffer = b, sent = []\<rparr>; Some (r, Some (buffer s)) })"

definition snprintf :: "u8 list option \<Rightarrow> nat \<Rightarrow> u8 list \<Rightarrow> arg list \<Rightarrow> (nat \<times> u8 list option) option" where
  "snprintf buf cnt fmt va = vsnprintf buf cnt fmt va"

definition sprintf :: "u8 list option \<Rightarrow> u8 list \<Rightarrow> arg list \<Rightarrow> (nat \<times> u8 list option) option" where
  "sprintf buf fmt va = vsnprintf buf SIZE_MAX fmt va"

end
