(* ===== verification/Printf_Props.thy ===== *)
theory Printf_Props
  imports Printf
begin

text \<open>
  Properties of the formatted output: every conversion produces a list of characters that does not
  depend on where they go, so the buffer functions store what the console functions print,
  truncated to the buffer; and numbers that are printed can be read back.
\<close>

section \<open>Output as a list of characters\<close>

lemma outs_append: "outs f (xs @ ys) idx maxlen s = do { (idx, s) \<leftarrow> outs f xs idx maxlen s; outs f ys idx maxlen s }"
  by (induction xs arbitrary: idx s) (auto split: option.splits simp: Option.bind_assoc)

lemma outs_idx: "outs f cs idx maxlen s = Some (i, s') \<Longrightarrow> i = idx + length cs"
  by (induction cs arbitrary: idx s) (fastforce simp: bind_eq_Some_conv)+

lemma out_pad_outs: "out_pad f n idx maxlen s = outs f (replicate n (ch CHR '' '')) idx maxlen s"
  by (induction n arbitrary: idx s) auto

definition overlay :: "nat \<Rightarrow> u8 list \<Rightarrow> u8 list \<Rightarrow> u8 list" where
  "overlay i cs b = take i b @ cs @ drop (i + length cs) b"

lemma overlay_Nil [simp]: "overlay i [] b = b"
  by (simp add: overlay_def)

lemma overlay_Cons: "i + length cs < length b \<Longrightarrow> overlay (i + 1) cs (b[i := c]) = overlay i (c # cs) b"
  by (simp add: overlay_def take_Suc_conv_app_nth drop_update_cancel)

lemma length_overlay [simp]: "i + length cs \<le> length b \<Longrightarrow> length (overlay i cs b) = length b"
  by (simp add: overlay_def)

lemma outs_buffer:
  "maxlen \<le> length (buffer s) \<Longrightarrow>
     outs Out_buffer cs idx maxlen s = Some (idx + length cs, s\<lparr>buffer := overlay idx (take (maxlen - idx) cs) (buffer s)\<rparr>)"
proof (induction cs arbitrary: idx s)
  case (Cons c cs)
  show ?case
  proof (cases "idx < maxlen")
    case True
    let ?s = "s\<lparr>buffer := (buffer s)[idx := c]\<rparr>"
    have "outs Out_buffer cs (idx + 1) maxlen ?s =
        Some (idx + 1 + length cs, ?s\<lparr>buffer := overlay (idx + 1) (take (maxlen - (idx + 1)) cs) (buffer ?s)\<rparr>)"
      using Cons.prems by (intro Cons.IH) simp
    moreover have "overlay (idx + 1) (take (maxlen - (idx + 1)) cs) ((buffer s)[idx := c]) = overlay idx (take (maxlen - idx) (c # cs)) (buffer s)"
    proof -
      have "take (maxlen - idx) (c # cs) = c # take (maxlen - (idx + 1)) cs" using True by (simp add: take_Cons' )
      then show ?thesis using overlay_Cons [of idx "take (maxlen - (idx + 1)) cs" "buffer s" c] True Cons.prems by simp
    qed
    ultimately show ?thesis using True Cons.prems by simp
  next
    case False
    then show ?thesis using Cons.IH [of s "idx + 1"] Cons.prems by simp
  qed
qed simp

lemma outs_char: "outs Out_char cs idx maxlen s = Some (idx + length cs, s\<lparr>sent := sent s @ filter (\<lambda>c. c \<noteq> 0) cs\<rparr>)"
  by (induction cs arbitrary: idx s) auto

lemma outs_null: "outs Out_null cs idx maxlen s = Some (idx + length cs, s)"
  by (induction cs arbitrary: idx s) auto

section \<open>Conversions\<close>

definition rev_chars :: "u8 list \<Rightarrow> u32 \<Rightarrow> u32 \<Rightarrow> u8 list" where
  "rev_chars buf width flags =
     (let pad = replicate (unat width - length buf) (ch CHR '' '') in
      (if \<not> fl flags FLAGS_LEFT \<and> \<not> fl flags FLAGS_ZEROPAD then pad else []) @ rev buf
      @ (if fl flags FLAGS_LEFT then pad else []))"

lemma out_rev_outs: "out_rev f idx maxlen buf width flags s = outs f (rev_chars buf width flags) idx maxlen s"
proof (cases "fl flags FLAGS_LEFT")
  case True
  have "(do { (i, s) \<leftarrow> outs f (rev buf) idx maxlen s; out_pad f (unat width - (i - idx)) i maxlen s })
      = (do { (i, s) \<leftarrow> outs f (rev buf) idx maxlen s; out_pad f (unat width - length buf) i maxlen s })"
    by (cases "outs f (rev buf) idx maxlen s") (auto dest: outs_idx)
  then show ?thesis using True by (simp add: out_rev_def rev_chars_def outs_append out_pad_outs)
next
  case False
  then show ?thesis by (auto simp: out_rev_def rev_chars_def outs_append out_pad_outs Option.bind_assoc split: option.splits)
qed

definition ntoa_chars :: "u8 list \<Rightarrow> bool \<Rightarrow> u32 \<Rightarrow> u32 \<Rightarrow> u32 \<Rightarrow> u32 \<Rightarrow> u8 list" where
  "ntoa_chars buf negative base prec width flags =
     (let width = ntoa_width negative width flags;
          buf = (if \<not> fl flags FLAGS_LEFT then fill_to (unat prec) (ch CHR ''0'') buf else buf);
          buf = (if \<not> fl flags FLAGS_LEFT \<and> fl flags FLAGS_ZEROPAD then fill_to (unat width) (ch CHR ''0'') buf else buf);
          buf = (if fl flags FLAGS_HASH then ntoa_hash base prec width flags buf else buf)
      in rev_chars (ntoa_sign negative flags buf) width flags)"

lemma ntoa_format_outs:
  "ntoa_format f idx maxlen buf negative base prec width flags s = outs f (ntoa_chars buf negative base prec width flags) idx maxlen s"
  by (simp add: ntoa_format_def ntoa_chars_def Let_def out_rev_outs)

text \<open>
  \<open>emits F\<close>: the characters that the computation \<open>F\<close> outputs, its result, and whether it succeeds do not depend on
  the sink.
\<close>

definition emits :: "(out_fct \<Rightarrow> nat \<Rightarrow> nat \<Rightarrow> sink \<Rightarrow> ('v \<times> nat \<times> sink) option) \<Rightarrow> bool" where
  "emits F \<longleftrightarrow> (\<exists>r. \<forall>f idx maxlen s. F f idx maxlen s = do { (v, cs) \<leftarrow> r; (idx, s) \<leftarrow> outs f cs idx maxlen s; Some (v, idx, s) })"

lemma emits_outs: "emits (\<lambda>f idx maxlen s. do { (idx, s) \<leftarrow> outs f cs idx maxlen s; Some (v, idx, s) })"
  unfolding emits_def by (rule exI [of _ "Some (v, cs)"]) simp

lemma emitsI: "(\<And>f idx maxlen s. F f idx maxlen s = do { (idx, s) \<leftarrow> outs f cs idx maxlen s; Some (v, idx, s) }) \<Longrightarrow> emits F"
  unfolding emits_def by (rule exI [of _ "Some (v, cs)"]) simp

lemma emitsI_None: "(\<And>f idx maxlen s. F f idx maxlen s = None) \<Longrightarrow> emits F"
  unfolding emits_def by (rule exI [of _ None]) simp

lemma emits_None: "emits (\<lambda>f idx maxlen s. None)"
  unfolding emits_def by (rule exI [of _ None]) simp

lemma emits_bind: "(\<And>x. r = Some x \<Longrightarrow> emits (F x)) \<Longrightarrow> emits (\<lambda>f idx maxlen s. Option.bind r (\<lambda>x. F x f idx maxlen s))"
  by (cases r) (auto simp: emits_None)

lemma emits_pair: "emits (F (fst x) (snd x)) \<Longrightarrow> emits (\<lambda>f idx maxlen s. (case x of (a, b) \<Rightarrow> F a b f idx maxlen s))"
  by (cases x) simp

lemma emits_if: "emits F \<Longrightarrow> emits G \<Longrightarrow> emits (\<lambda>f idx maxlen s. if b then F f idx maxlen s else G f idx maxlen s)"
  by (cases b) simp_all

lemma ntoa_long_outs: "\<exists>cs. \<forall>f idx maxlen s. ntoa_long f idx maxlen v neg base prec width flags s = outs f cs idx maxlen s"
  unfolding ntoa_long_def Let_def ntoa_format_outs by blast

lemma ntoa_long_long_outs: "\<exists>cs. \<forall>f idx maxlen s. ntoa_long_long f idx maxlen v neg base prec width flags s = outs f cs idx maxlen s"
  unfolding ntoa_long_long_def Let_def ntoa_format_outs by blast

lemma emits_ntoa:
  "emits (\<lambda>f idx maxlen s. do { (idx, s) \<leftarrow> ntoa_long f idx maxlen v neg base prec width flags s; Some (x, idx, s) })"
  "emits (\<lambda>f idx maxlen s. do { (idx, s) \<leftarrow> ntoa_long_long f idx maxlen v neg base prec width flags s; Some (x, idx, s) })"
proof -
  obtain cs where "ntoa_long f idx maxlen v neg base prec width flags s = outs f cs idx maxlen s" for f idx maxlen s
    using ntoa_long_outs by blast
  then show "emits (\<lambda>f idx maxlen s. do { (idx, s) \<leftarrow> ntoa_long f idx maxlen v neg base prec width flags s; Some (x, idx, s) })"
    using emits_outs by simp
  obtain cs where "ntoa_long_long f idx maxlen v neg base prec width flags s = outs f cs idx maxlen s" for f idx maxlen s
    using ntoa_long_long_outs by blast
  then show "emits (\<lambda>f idx maxlen s. do { (idx, s) \<leftarrow> ntoa_long_long f idx maxlen v neg base prec width flags s; Some (x, idx, s) })"
    using emits_outs by simp
qed

lemma emits_conv_int: "emits (\<lambda>f. conv_int f c flags width precision va)"
  unfolding conv_int_def Let_def
  by (intro emits_if emits_bind emits_pair emits_ntoa)

lemma emits_conv_ptr: "emits (\<lambda>f. conv_ptr f flags precision va)"
  unfolding conv_ptr_def by (intro emits_bind emits_pair emits_ntoa)

lemma outs_one: "(do { s \<leftarrow> out f c idx maxlen s; Some (v, idx + 1, s) }) = (do { (idx, s) \<leftarrow> outs f [c] idx maxlen s; Some (v, idx, s) })"
  by (cases "out f c idx maxlen s") auto

lemma emits_conv_char: "emits (\<lambda>f. conv_char f flags width va)"
proof (cases "va_int va")
  case (Some x)
  let ?pad = "replicate (unat width - 1) (ch CHR '' '')"
  let ?cs = "(if fl flags FLAGS_LEFT then ucast (fst x) # ?pad else ?pad @ [ucast (fst x)])"
  have "conv_char f flags width va idx maxlen s = do { (idx, s) \<leftarrow> outs f ?cs idx maxlen s; Some (snd x, idx, s) }" for f idx maxlen s
    using Some by (cases x; cases "out f (ucast (fst x)) idx maxlen s")
      (auto simp: conv_char_def out_pad_outs outs_append split: option.splits intro!: Option.bind_cong)
  then show ?thesis by (rule emitsI)
next
  case None
  then have "conv_char f flags width va idx maxlen s = None" for f idx maxlen s
    by (auto simp: conv_char_def split: if_splits option.splits bind_splits)
  then show ?thesis by (rule emitsI_None)
qed

lemma out_str_outs: "\<exists>r. \<forall>f idx maxlen s. out_str f limited precision p idx maxlen s = Option.bind r (\<lambda>cs. outs f cs idx maxlen s)"
proof (induction p arbitrary: precision)
  case Nil
  show ?case by (rule exI [of _ None]) simp
next
  case (Cons c p)
  obtain r where r: "out_str f limited (if limited then precision - 1 else precision) p idx maxlen s = Option.bind r (\<lambda>cs. outs f cs idx maxlen s)"
    for f idx maxlen s using Cons.IH by blast
  show ?case
  proof (cases "c \<noteq> 0 \<and> (\<not> limited \<or> precision \<noteq> 0)")
    case True
    have "out_str f limited precision (c # p) idx maxlen s = Option.bind (map_option (Cons c) r) (\<lambda>cs. outs f cs idx maxlen s)"
      for f idx maxlen s
      using True r by (cases r; cases "out f c idx maxlen s") simp_all
    then show ?thesis by blast
  next
    case False
    then show ?thesis by (intro exI [of _ "Some []"]) auto
  qed
qed

lemma bind_pair_None [simp]: "Option.bind r (\<lambda>(a, b). None) = None"
  by (cases r) auto

lemma emits_conv_str: "emits (\<lambda>f. conv_str f flags width precision va)"
proof (cases "va_str va")
  case None
  then show ?thesis by (intro emitsI_None) (simp add: conv_str_def)
next
  case (Some x)
  obtain p va' where x: "x = (p, va')" by (cases x)
  obtain r where r: "out_str f (fl flags FLAGS_PRECISION) precision p idx maxlen s = Option.bind r (\<lambda>cs. outs f cs idx maxlen s)"
    for f idx maxlen s using out_str_outs by blast
  show ?thesis
  proof (cases "strnlen_s p (if precision \<noteq> 0 then unat precision else SIZE_MAX)")
    case None
    then show ?thesis using Some x by (intro emitsI_None) (simp add: conv_str_def)
  next
    case l: (Some l)
    let ?l = "if fl flags FLAGS_PRECISION then min l (unat precision) else l"
    let ?pad = "replicate (unat width - ?l) (ch CHR '' '')"
    show ?thesis
    proof (cases r)
      case None
      have "conv_str f flags width precision va idx maxlen s = None" for f idx maxlen s
        using Some x l r None by (simp add: conv_str_def)
      then show ?thesis by (rule emitsI_None)
    next
      case rr: (Some cs)
      let ?cs = "(if \<not> fl flags FLAGS_LEFT then ?pad else []) @ cs @ (if fl flags FLAGS_LEFT then ?pad else [])"
      have "conv_str f flags width precision va idx maxlen s = do { (idx, s) \<leftarrow> outs f ?cs idx maxlen s; Some (va', idx, s) }" for f idx maxlen s
        using Some x l r rr
        by (cases "fl flags FLAGS_LEFT") (auto simp: conv_str_def out_pad_outs outs_append case_prod_beta intro!: Option.bind_cong)
      then show ?thesis by (rule emitsI)
    qed
  qed
qed

lemma emits_conv: "emits (\<lambda>f. conv f c flags width precision va)"
  unfolding conv_def
  by (intro emits_if emits_conv_int emits_conv_char emits_conv_str emits_conv_ptr)
    (rule emitsI, rule outs_one)+

lemma vsnprintf_loop_outs:
  "\<exists>r. \<forall>f idx maxlen s. vsnprintf_loop f fmt va idx maxlen s = Option.bind r (\<lambda>cs. outs f cs idx maxlen s)"
proof (induction "length fmt" arbitrary: fmt va rule: less_induct)
  case less
  show ?case
  proof (cases fmt)
    case Nil
    then show ?thesis by (intro exI [of _ None]) simp
  next
    case (Cons c rest)
    consider "c = 0" | "c \<noteq> 0" "c \<noteq> ch CHR ''%''" | "c = ch CHR ''%''" "parse_spec rest va = None"
      | flags width precision d fmt' va' where "c = ch CHR ''%''" "parse_spec rest va = Some (flags, width, precision, d, fmt', va')"
      by (metis option.exhaust prod_cases6)
    then show ?thesis
    proof cases
      case 1
      then show ?thesis using Cons by (intro exI [of _ "Some []"]) simp
    next
      case 2
      obtain r where r: "vsnprintf_loop f rest va idx maxlen s = Option.bind r (\<lambda>cs. outs f cs idx maxlen s)" for f idx maxlen s
        using less [of rest va] Cons by auto
      have "vsnprintf_loop f fmt va idx maxlen s = Option.bind (map_option (Cons c) r) (\<lambda>cs. outs f cs idx maxlen s)" for f idx maxlen s
        using Cons 2 r by (cases r; cases "out f c idx maxlen s") simp_all
      then show ?thesis by blast
    next
      case 3
      then show ?thesis using Cons by (intro exI [of _ None]) simp
    next
      case 4
      have "length fmt' < length fmt" using parse_spec_length [OF 4(2)] Cons by simp
      note IH = less [OF this]
      obtain q where q: "conv f d flags width precision va' idx maxlen s = do { (v, cs) \<leftarrow> q; (idx, s) \<leftarrow> outs f cs idx maxlen s; Some (v, idx, s) }"
        for f idx maxlen s using emits_conv [of d flags width precision va'] unfolding emits_def by blast
      show ?thesis
      proof (cases q)
        case None
        have "vsnprintf_loop f fmt va idx maxlen s = None" for f idx maxlen s using Cons 4 q None by simp
        then show ?thesis by (intro exI [of _ None]) simp
      next
        case (Some vc)
        obtain v cs where vc: "vc = (v, cs)" by (cases vc)
        obtain r where r: "vsnprintf_loop f fmt' v idx maxlen s = Option.bind r (\<lambda>cs. outs f cs idx maxlen s)" for f idx maxlen s
          using IH [of v] by blast
        have "vsnprintf_loop f fmt va idx maxlen s = Option.bind (map_option (append cs) r) (\<lambda>cs. outs f cs idx maxlen s)" for f idx maxlen s
          using Cons 4 q Some vc r by (cases r; cases "outs f cs idx maxlen s") (auto simp: outs_append)
        then show ?thesis by blast
      qed
    qed
  qed
qed

section \<open>Numbers\<close>

lemma ntoa_digit_char:
  assumes "unat d < 16" "\<not> fl flags FLAGS_UPPERCASE"
  shows "ntoa_digit flags d = digit_char (unat d)"
proof -
  obtain n where n: "n < 16" "d = of_nat n" "unat d = n" using assms(1) by (metis of_nat_unat ucast_id)
  have "n \<in> {0, 1, 2, 3, 4, 5, 6, 7, 8, 9, 10, 11, 12, 13, 14, 15}" by (rule nat_below_16) (rule n)
  then show ?thesis unfolding n(3) unfolding n(2) using assms(2)
    by (elim insertE emptyE) (simp_all add: ntoa_digit_def digit_char_def)
qed

lemma ntoa_loop_digits:
  assumes "1 < unat base" "unat base \<le> 16" "\<not> fl flags FLAGS_UPPERCASE"
  shows "unat v < unat base ^ m \<Longrightarrow> 0 < m \<Longrightarrow> m \<le> n \<Longrightarrow>
     \<exists>k. 0 < k \<and> k \<le> m \<and> unat v < unat base ^ k \<and> ntoa_loop n v base flags = rev (digits (unat base) k (unat v))"
proof (induction n arbitrary: v m)
  case (Suc n)
  have d: "ntoa_digit flags (v mod base) = digit_char (unat v mod unat base)"
  proof -
    have "unat v mod unat base < unat base" using assms(1) by simp
    then show ?thesis using ntoa_digit_char [of "v mod base" flags] assms(2,3) unfolding unat_mod by linarith
  qed
  show ?case
  proof (cases "v div base = 0")
    case True
    then have "unat v div unat base = 0" by (metis unat_div unat_0)
    then have "unat v < unat base" using assms(1) div_eq_0_iff [of "unat v" "unat base"] by simp
    then show ?thesis using True d Suc.prems by (intro exI [of _ 1]) simp
  next
    case False
    obtain m' where m': "m = Suc m'" using Suc.prems(2) by (cases m) auto
    have dv: "unat (v div base) = unat v div unat base" by (simp add: unat_div)
    have lt: "unat (v div base) < unat base ^ m'"
      using Suc.prems(1) m' dv by (simp add: less_mult_imp_div_less mult.commute)
    have "unat (v div base) \<noteq> 0" using False by (metis unat_eq_zero)
    then have "0 < m'" using lt by (cases m') auto
    then obtain k where k: "0 < k" "k \<le> m'" "unat (v div base) < unat base ^ k"
      "ntoa_loop n (v div base) base flags = rev (digits (unat base) k (unat (v div base)))"
      using Suc.IH [OF lt] Suc.prems(3) m' by auto
    have "unat v < unat base ^ Suc k"
    proof -
      have "unat v div unat base < unat base ^ k" using k(3) dv by simp
      then show ?thesis using assms(1) by (simp add: div_less_iff_less_mult mult.commute)
    qed
    then show ?thesis using False k d m' dv by (intro exI [of _ "Suc k"]) simp
  qed
qed simp

section \<open>Properties\<close>

text \<open>The buffer functions store a prefix of the characters and the terminator.\<close>

lemma vsnprintf_chars:
  assumes r: "\<And>f idx maxlen s. vsnprintf_loop f fmt va idx maxlen s = outs f cs idx maxlen s"
    and c: "0 < cnt" "cnt \<le> length buf"
  shows "vsnprintf (Some buf) cnt fmt va =
     Some (length cs, Some (take (cnt - 1) cs @ 0 # drop (min (length cs) (cnt - 1) + 1) buf))"
proof -
  let ?b = "overlay 0 (take cnt cs) buf"
  have b: "?b = take cnt cs @ drop (min (length cs) cnt) buf" by (simp add: overlay_def)
  let ?t = "if length cs < cnt then length cs else cnt - 1"
  have t: "?t < cnt" "?t = min (length cs) (cnt - 1)" using c by auto
  have "?b[?t := 0] = take (cnt - 1) cs @ 0 # drop (min (length cs) (cnt - 1) + 1) buf"
  proof (cases "length cs < cnt")
    case True
    then have "drop (length cs) buf = buf ! length cs # drop (length cs + 1) buf" using c by (simp add: Cons_nth_drop_Suc)
    then show ?thesis using True b by (simp add: list_update_append)
  next
    case False
    then have "take cnt cs = take (cnt - 1) cs @ [cs ! (cnt - 1)]"
      using c take_Suc_conv_app_nth [of "cnt - 1" cs] by simp
    then show ?thesis using False b c by (simp add: list_update_append)
  qed
  moreover have "length ?b = length buf" using c by simp
  ultimately show ?thesis
    using c t r outs_buffer [of cnt "\<lparr>buffer = buf, sent = []\<rparr>" cs 0]
    by (auto simp: vsnprintf_def vsnprintf_out_def split: if_splits)
qed

text \<open>
  C38: \<open>snprintf\<close> stores exactly the characters that \<open>printf\<close> with the same format and arguments sends to the
  console, cut off at \<open>cnt - 1\<close> characters and terminated, leaves the buffer alone from \<open>cnt\<close> on, and returns the same
  untruncated length.  (The length \<open>printf\<close> returns counts every character, the console gets those that are not null.)
\<close>

theorem snprintf_stores_printf:
  assumes "printf fmt va \<lparr>buffer = b0, sent = []\<rparr> = Some (r, s)" "r = length (sent s)" "0 < cnt" "cnt \<le> length buf"
  shows "snprintf (Some buf) cnt fmt va =
     Some (r, Some (take (cnt - 1) (sent s) @ 0 # drop (min r (cnt - 1) + 1) buf))"
proof -
  obtain q where q: "vsnprintf_loop f fmt va idx maxlen s = Option.bind q (\<lambda>cs. outs f cs idx maxlen s)" for f idx maxlen s
    using vsnprintf_loop_outs by blast
  then obtain cs where "q = Some cs" using assms(1) by (cases q) (auto simp: printf_def vsnprintf_out_def)
  then have cs: "vsnprintf_loop f fmt va idx maxlen s = outs f cs idx maxlen s" for f idx maxlen s using q by simp
  then have "r = length cs" "sent s = filter (\<lambda>c. c \<noteq> 0) cs"
    using assms(1) by (auto simp: printf_def vsnprintf_out_def outs_char)
  then have "sent s = cs" using assms(2) by (metis filter_True length_filter_less less_irrefl)
  then show ?thesis using vsnprintf_chars [OF cs assms(3,4)] \<open>r = length cs\<close> by (simp add: snprintf_def)
qed

lemma no_flags [simp]: "\<not> fl 0 f"
  by (simp add: fl_def)

lemma plain_number:
  assumes "0 < length buf" "length buf \<le> 32"
  shows "ntoa_chars buf False base 0 0 0 = rev buf"
  using assms by (simp add: ntoa_chars_def ntoa_width_def fill_to_def ntoa_sign_def rev_chars_def Let_def PRINTF_NTOA_BUFFER_SIZE_def)

text \<open>The formats \<open>"%u"\<close> and \<open>"%x"\<close>.\<close>

definition fmt_u :: "u8 list" where "fmt_u = [37, 117, 0]"
definition fmt_x :: "u8 list" where "fmt_x = [37, 120, 0]"

lemma loop_number:
  fixes b :: u64
  assumes "c \<in> {117, 120}" "b = (if c = 117 then 10 else 16)" "unat v < unat b ^ m" "0 < m" "m \<le> 32"
  shows "\<exists>k. 0 < k \<and> k \<le> m \<and> unat v < unat b ^ k
     \<and> (\<forall>f idx maxlen s. vsnprintf_loop f [37, c, 0] [AInt v] idx maxlen s = outs f (digits (unat b) k (unat v)) idx maxlen s)"
proof -
  have b: "1 < unat b" "unat b \<le> 16" "int_base c = b" using assms(1,2) by (auto simp: int_base_def)
  have u: "unat (ucast v :: u64) = unat v" using unsigned_less [of v, where 'a = nat]
    by (simp add: unsigned_ucast_eq take_bit_nat_eq_self_iff)
  obtain k where k: "0 < k" "k \<le> m" "unat v < unat b ^ k" "ntoa_loop 32 (ucast v) b 0 = rev (digits (unat b) k (unat v))"
    using ntoa_loop_digits [OF b(1,2) no_flags, of "ucast v" m 32] assms(3-5) u by auto
  have "parse_spec [c, 0] [AInt v] = Some (0, 0, 0, c, [0], [AInt v])"
    using assms(1) by (auto simp: parse_spec_def is_digit_def)
  moreover have "int_flags c 0 = 0" using assms(1) by (auto simp: int_flags_def)
  moreover have "conv f c 0 0 0 [AInt v] idx maxlen s = do { (idx, s) \<leftarrow> outs f (digits (unat b) k (unat v)) idx maxlen s; Some ([], idx, s) }"
    for f idx maxlen s
    using assms(1) b(3) k plain_number [of "rev (digits (unat b) k (unat v))"] assms(5) calculation(2)
    by (auto simp: conv_def conv_int_def Let_def ntoa_long_def ntoa_format_outs unsigned_arg_def PRINTF_NTOA_BUFFER_SIZE_def)
  ultimately have "vsnprintf_loop f [37, c, 0] [AInt v] idx maxlen s = outs f (digits (unat b) k (unat v)) idx maxlen s" for f idx maxlen s
    using assms(1) by (cases "outs f (digits (unat b) k (unat v)) idx maxlen s") auto
  then show ?thesis using k by blast
qed

lemma take_short: "length cs < cnt \<Longrightarrow> take (cnt - 1) cs = cs"
  by (cases cnt) auto

text \<open>
  C39: a 32-bit number printed with \<open>"%u"\<close> into a buffer of at least 11 bytes is a decimal numeral of at most ten digits
  that \<open>str2u32\<close> reads back as the same number.
\<close>

theorem decimal_roundtrip:
  assumes "11 \<le> cnt" "cnt \<le> length buf"
  shows "\<exists>n b. snprintf (Some buf) cnt fmt_u [AInt v] = Some (n, Some b) \<and> 0 < n \<and> n \<le> 10 \<and> b ! n = 0 \<and> str2u32 b n = Some v"
proof -
  have v: "unat v < 10 ^ 10" using unsigned_less [of v, where 'a = nat] by simp
  obtain k where k: "0 < k" "k \<le> 10" "unat v < 10 ^ k"
    "\<And>f idx maxlen s. vsnprintf_loop f [37, 117, 0] [AInt v] idx maxlen s = outs f (digits 10 k (unat v)) idx maxlen s"
    using loop_number [of 117 10 v 10] v by auto
  let ?ds = "digits 10 k (unat v)"
  have "snprintf (Some buf) cnt fmt_u [AInt v] = Some (k, Some (?ds @ 0 # drop (k + 1) buf))"
    using vsnprintf_chars [OF k(4), of cnt buf] assms k(2) take_short [of ?ds cnt] by (simp add: snprintf_def fmt_u_def)
  moreover have "str2u32 (?ds @ 0 # drop (k + 1) buf) k = Some v"
    using str2u32_loop_digits [of k "unat v" "0 # drop (k + 1) buf" 0 0] k(3) by (simp add: str2u32_def)
  moreover have "(?ds @ 0 # drop (k + 1) buf) ! k = 0" by (simp add: nth_append)
  ultimately show ?thesis using k(1,2) by blast
qed

theorem decimal_roundtrip_witness:
  "\<exists>n b. snprintf (Some (replicate 16 1)) 16 fmt_u [AInt 4294967295] = Some (n, Some b) \<and> n \<le> 10 \<and> str2u32 b n = Some 4294967295"
  using decimal_roundtrip [of 16 "replicate 16 1" 4294967295] by auto

text \<open>
  C40: a 32-bit number printed with \<open>"%x"\<close> into a buffer of at least 9 bytes is a hexadecimal numeral of at most eight
  digits that \<open>hstr2u32\<close> reads back as the same number.
\<close>

theorem hex_roundtrip:
  assumes "9 \<le> cnt" "cnt \<le> length buf"
  shows "\<exists>n b. snprintf (Some buf) cnt fmt_x [AInt v] = Some (n, Some b) \<and> 0 < n \<and> n \<le> 8 \<and> b ! n = 0 \<and> hstr2u32 b n = Some v"
proof -
  have v: "unat v < 16 ^ 8" using unsigned_less [of v, where 'a = nat] by simp
  obtain k where k: "0 < k" "k \<le> 8" "unat v < 16 ^ k"
    "\<And>f idx maxlen s. vsnprintf_loop f [37, 120, 0] [AInt v] idx maxlen s = outs f (digits 16 k (unat v)) idx maxlen s"
    using loop_number [of 120 16 v 8] v by auto
  let ?ds = "digits 16 k (unat v)"
  have "snprintf (Some buf) cnt fmt_x [AInt v] = Some (k, Some (?ds @ 0 # drop (k + 1) buf))"
    using vsnprintf_chars [OF k(4), of cnt buf] assms k(2) take_short [of ?ds cnt] by (simp add: snprintf_def fmt_x_def)
  moreover have "hstr2u32 (?ds @ 0 # drop (k + 1) buf) k = Some v"
    using hstr2u32_loop_digits [of k "unat v" "0 # drop (k + 1) buf" 0 0] k(3) by (simp add: hstr2u32_def)
  moreover have "(?ds @ 0 # drop (k + 1) buf) ! k = 0" by (simp add: nth_append)
  ultimately show ?thesis using k(1,2) by blast
qed

theorem hex_roundtrip_witness:
  "\<exists>n b. snprintf (Some (replicate 9 1)) 9 fmt_x [AInt 0xdeadbeef] = Some (n, Some b) \<and> n \<le> 8 \<and> hstr2u32 b n = Some 0xdeadbeef"
  using hex_roundtrip [of 9 "replicate 9 1" "0xdeadbeef"] by auto

text \<open>The console output of \<open>"h%c!"\<close> for the character \<open>i\<close>.\<close>

theorem snprintf_stores_printf_witness:
  "printf [104, 37, 99, 33, 0] [AInt 105] \<lparr>buffer = [], sent = []\<rparr> = Some (3, \<lparr>buffer = [], sent = [104, 105, 33]\<rparr>)
   \<and> snprintf (Some [1, 1, 1, 1]) 3 [104, 37, 99, 33, 0] [AInt 105] = Some (3, Some [104, 105, 0, 1])"
proof -
  have "printf [104, 37, 99, 33, 0] [AInt 105] \<lparr>buffer = [], sent = []\<rparr> = Some (3, \<lparr>buffer = [], sent = [104, 105, 33]\<rparr>)"
    by (simp add: printf_def vsnprintf_out_def parse_spec_def is_digit_def conv_def conv_char_def)
  then show ?thesis
    using snprintf_stores_printf [of "[104, 37, 99, 33, 0]" "[AInt 105]" "[]" 3 "\<lparr>buffer = [], sent = [104, 105, 33]\<rparr>" 3 "[1, 1, 1, 1]"]
    by simp
qed

end
