(* ===== verification/Int_Queue.thy ===== *)
theory Int_Queue
  imports Ring_Buffer
begin

text \<open>
  The timer queue and the task queue of \<open>interrupt.c\<close>.  Both are ring buffers kept sorted by
  insertion: \<open>add_timer\<close> by expiry time, \<open>add_task\<close> by priority (a smaller number is more
  urgent).  \<open>process_task\<close> runs deferred tasks; the handler a task points to is the argument
  \<open>run\<close> of the model, and the counter \<open>cntpct_el0\<close> is an argument of \<open>add_timer\<close>.
\<close>

section \<open>State\<close>

record ('h, 'd) timer_queue_element =
  t_handler :: 'h
  cur_ticks :: u64
  duration_ticks :: u64
  t_data :: 'd

record ('h, 'd) task_queue_element =
  handler :: 'h
  priority :: u32
  data :: 'd

definition WRITE_PRIO :: u32 where "WRITE_PRIO = 0"
definition TIMER_PRIO :: u32 where "TIMER_PRIO = 1"
definition READ_PRIO :: u32 where "READ_PRIO = 2"
definition INIT_PRIO :: u32 where "INIT_PRIO = 2147483647"

record ('h, 'd) intr = cpu +
  timer_queue :: "('h, 'd) timer_queue_element ring_buf"
  task_queue :: "('h, 'd) task_queue_element ring_buf"
  cur_priority :: u32
  cntp_tval :: u64

section \<open>Operations\<close>

text \<open>
  The loop that moves a new element forward in the ring, as it is written in both
  \<open>add_timer\<close> and \<open>add_task\<close>: it returns the buffer and whether the element reached the
  consumer end, where \<open>add_timer\<close> programs the timer.
\<close>

partial_function (option) sift ::
  "('e \<Rightarrow> bool) \<Rightarrow> nat \<Rightarrow> nat \<Rightarrow> 'e list \<Rightarrow> ('e list \<times> bool) option" where
  "sift before cons idx b =
     (let cmp_idx = (idx + BUFLEN - 1) mod BUFLEN in
      if idx = cons then Some (b, True)
      else do {
        e \<leftarrow> get_at b cmp_idx;
        if before e then do {
          tmp \<leftarrow> get_at b idx;
          b \<leftarrow> set_at b idx e;
          b \<leftarrow> set_at b cmp_idx tmp;
          sift before cons ((if idx = 0 then idx + BUFLEN else idx) - 1) b
        } else Some (b, False)
      })"

definition deadline :: "('h, 'd, 'z) timer_queue_element_scheme \<Rightarrow> u64" where
  "deadline e = cur_ticks e + duration_ticks e"

definition add_timer ::
  "u64 \<Rightarrow> 'h \<Rightarrow> u64 \<Rightarrow> 'd \<Rightarrow> ('h, 'd, 'z) intr_scheme \<Rightarrow> ('h, 'd, 'z) intr_scheme option" where
  "add_timer cntpct callback duration dat s = do {
     let idx = producer_idx (timer_queue s);
     let element = \<lparr>t_handler = callback, cur_ticks = cntpct, duration_ticks = duration, t_data = dat\<rparr>;
     (tq, s) \<leftarrow> ring_buf_produce element (timer_queue s, s);
     (b, first) \<leftarrow> sift (\<lambda>e. cntpct + duration < deadline e) (consumer_idx tq) idx (rb_buf tq);
     let s = s\<lparr>timer_queue := tq\<lparr>rb_buf := b\<rparr>\<rparr>;
     Some (if first then s\<lparr>cntp_tval := duration\<rparr> else s)
   }"

partial_function (option) process_task ::
  "(('h, 'd) task_queue_element \<Rightarrow> ('h, 'd, 'z) intr_scheme \<Rightarrow> ('h, 'd, 'z) intr_scheme option)
    \<Rightarrow> ('h, 'd) task_queue_element option \<Rightarrow> ('h, 'd, 'z) intr_scheme \<Rightarrow> ('h, 'd, 'z) intr_scheme option"
  where
  "process_task run task s = do {
     let tmp = cur_priority s;
     picked \<leftarrow>
       (case task of
          Some t \<Rightarrow> Some (Some (t, s))
        | None \<Rightarrow>
            (if ring_buf_empty (task_queue s) then Some None
             else do {
               hd \<leftarrow> get_at (rb_buf (task_queue s)) (consumer_idx (task_queue s));
               if cur_priority s < priority hd then Some None
               else do {
                 (e, tq, s) \<leftarrow> ring_buf_consume (task_queue s, s);
                 Some (Some (e, s\<lparr>task_queue := tq\<rparr>))
               }
             }));
     case picked of
       None \<Rightarrow> Some s
     | Some (element, s) \<Rightarrow> do {
         let s = s\<lparr>cur_priority := priority element\<rparr>;
         s \<leftarrow> run element (enable_int s);
         let s = disable_int s;
         process_task run None (s\<lparr>cur_priority := tmp\<rparr>)
       }
   }"

definition add_task ::
  "(('h, 'd) task_queue_element \<Rightarrow> ('h, 'd, 'z) intr_scheme \<Rightarrow> ('h, 'd, 'z) intr_scheme option)
    \<Rightarrow> 'h \<Rightarrow> u32 \<Rightarrow> 'd \<Rightarrow> ('h, 'd, 'z) intr_scheme \<Rightarrow> ('h, 'd, 'z) intr_scheme option" where
  "add_task run callback prio dat s =
     (let element = \<lparr>handler = callback, priority = prio, data = dat\<rparr> in
      if prio < cur_priority s then process_task run (Some element) s
      else do {
        let idx = producer_idx (task_queue s);
        (tq, s) \<leftarrow> ring_buf_produce element (task_queue s, s);
        (b, _) \<leftarrow> sift (\<lambda>e. prio < priority e) (consumer_idx tq) idx (rb_buf tq);
        Some (s\<lparr>task_queue := tq\<lparr>rb_buf := b\<rparr>\<rparr>)
      })"

section \<open>The insertion loop\<close>

text \<open>What the loop computes on the queue's contents: the element passes those it precedes.\<close>

fun pass_over :: "('e \<Rightarrow> bool) \<Rightarrow> 'e \<Rightarrow> 'e list \<Rightarrow> 'e list" where
  "pass_over before x [] = [x]"
| "pass_over before x (e # es) = (if before e then e # pass_over before x es else x # e # es)"

definition insert_back :: "('e \<Rightarrow> bool) \<Rightarrow> 'e \<Rightarrow> 'e list \<Rightarrow> 'e list" where
  "insert_back before x xs = rev (pass_over before x (rev xs))"

lemma insert_back_Nil [simp]: "insert_back before x [] = [x]"
  by (simp add: insert_back_def)

lemma insert_back_snoc [simp]:
  "insert_back before x (xs @ [e]) =
     (if before e then insert_back before x xs @ [e] else xs @ [e, x])"
  by (simp add: insert_back_def)

lemma set_insert_back [simp]: "set (insert_back before x xs) = insert x (set xs)"
  by (induction xs rule: rev_induct) auto

lemma mset_insert_back: "mset (insert_back before x xs) = add_mset x (mset xs)"
  by (induction xs rule: rev_induct) auto

lemma insert_back_sorted:
  fixes f :: "'e \<Rightarrow> 'k::linorder"
  assumes "sorted (map f xs)"
  shows "insert_back (\<lambda>e. k < f e) x xs =
           takeWhile (\<lambda>e. f e \<le> k) xs @ x # dropWhile (\<lambda>e. f e \<le> k) xs"
  using assms
proof (induction xs rule: rev_induct)
  case Nil
  then show ?case by simp
next
  case (snoc e xs)
  then have IH: "insert_back (\<lambda>e. k < f e) x xs =
           takeWhile (\<lambda>e. f e \<le> k) xs @ x # dropWhile (\<lambda>e. f e \<le> k) xs"
    by (simp add: sorted_append)
  have le: "\<forall>y\<in>set xs. f y \<le> f e" using snoc.prems by (simp add: sorted_append)
  show ?case
  proof (cases "k < f e")
    case True
    show ?thesis
    proof (cases "\<exists>y\<in>set xs. k < f y")
      case True
      then obtain y where y: "y \<in> set xs" "\<not> f y \<le> k" by auto
      then show ?thesis using \<open>k < f e\<close> IH by (simp add: takeWhile_append1 dropWhile_append1)
    next
      case False
      then have "\<forall>y\<in>set xs. f y \<le> k" by auto
      then have "takeWhile (\<lambda>e. f e \<le> k) xs = xs" "dropWhile (\<lambda>e. f e \<le> k) xs = []" by auto
      then show ?thesis using \<open>k < f e\<close> IH \<open>\<forall>y\<in>set xs. f y \<le> k\<close>
        by (simp add: takeWhile_append2 dropWhile_append2 flip: not_less)
    qed
  next
    case False
    then have "\<forall>y\<in>set (xs @ [e]). f y \<le> k" using le by auto
    then have "takeWhile (\<lambda>e. f e \<le> k) (xs @ [e]) = xs @ [e]"
      "dropWhile (\<lambda>e. f e \<le> k) (xs @ [e]) = []"
      by (auto simp only: takeWhile_eq_all_conv dropWhile_eq_Nil_conv)
    then show ?thesis using False by simp
  qed
qed

lemma sorted_insert_middle:
  fixes f :: "'e \<Rightarrow> 'k::linorder"
  assumes "sorted (map f xs)"
  shows "sorted (map f (takeWhile (\<lambda>e. f e \<le> f x) xs @ x # dropWhile (\<lambda>e. f e \<le> f x) xs))"
  using assms
proof (induction xs)
  case Nil
  then show ?case by simp
next
  case (Cons e xs)
  show ?case
  proof (cases "f e \<le> f x")
    case True
    moreover have "\<forall>y \<in> set (takeWhile (\<lambda>e. f e \<le> f x) xs @ x # dropWhile (\<lambda>e. f e \<le> f x) xs). f e \<le> f y"
      using Cons.prems True by (auto dest: set_takeWhileD set_dropWhileD)
    ultimately show ?thesis using Cons by auto
  next
    case False
    then show ?thesis using Cons.prems by auto
  qed
qed

lemma rb_list_update:
  assumes "rb_ok rb" "k < ring_buf_num_e rb"
  shows "rb_list (rb\<lparr>rb_buf := (rb_buf rb)[rb_slot rb k := v]\<rparr>) = (rb_list rb)[k := v]"
    (is "rb_list ?rb' = _")
proof (rule nth_equalityI)
  have n: "ring_buf_num_e ?rb' = ring_buf_num_e rb" by (simp add: ring_buf_num_e_def)
  then show "length (rb_list ?rb') = length ((rb_list rb)[k := v])" by simp
  fix j assume "j < length (rb_list ?rb')"
  then have j: "j < ring_buf_num_e rb" using n by simp
  have slot: "rb_slot ?rb' j = rb_slot rb j" by (simp add: rb_slot_def)
  have "rb_slot rb k = rb_slot rb j \<longleftrightarrow> k = j"
    using rb_slot_inj [OF assms(1)] j assms(2) num_e_lt [of rb] by (meson less_trans)
  then show "rb_list ?rb' ! j = (rb_list rb)[k := v] ! j"
    using j n slot assms by (auto simp: nth_rb_list nth_list_update rb_ok_def)
qed

lemma rb_ok_buf_update [simp]: "rb_ok (rb\<lparr>rb_buf := (rb_buf rb)[i := v]\<rparr>) = rb_ok rb"
  by (simp add: rb_ok_def)

lemma rb_slot_buf [simp]: "rb_slot (rb\<lparr>rb_buf := b\<rparr>) k = rb_slot rb k"
  by (simp add: rb_slot_def)

lemma num_e_buf [simp]: "ring_buf_num_e (rb\<lparr>rb_buf := b\<rparr>) = ring_buf_num_e rb"
  by (simp add: ring_buf_num_e_def)

lemma slot_Suc: "rb_slot rb (Suc k) = (if Suc (rb_slot rb k) = BUFLEN then 0 else Suc (rb_slot rb k))"
  by (simp add: rb_slot_def mod_Suc)

lemma slot_pred:
  "(rb_slot rb (Suc k) + BUFLEN - 1) mod BUFLEN = rb_slot rb k"
  "(if rb_slot rb (Suc k) = 0 then rb_slot rb (Suc k) + BUFLEN else rb_slot rb (Suc k)) - 1 = rb_slot rb k"
  using rb_slot_lt [of rb k] by (auto simp: slot_Suc)

lemma sift_correct:
  assumes "rb_ok rb" "rb_list rb = xs @ x # ys"
  shows "\<exists>b. sift before (consumer_idx rb) (rb_slot rb (length xs)) (rb_buf rb) =
               Some (b, \<forall>e \<in> set xs. before e)
           \<and> rb_ok (rb\<lparr>rb_buf := b\<rparr>)
           \<and> rb_list (rb\<lparr>rb_buf := b\<rparr>) = insert_back before x xs @ ys"
  using assms
proof (induction xs arbitrary: rb ys rule: rev_induct)
  case Nil
  then have "rb_slot rb 0 = consumer_idx rb" by (simp add: rb_slot_def rb_ok_def)
  then show ?case using Nil by (subst sift.simps) simp
next
  case (snoc e xs)
  let ?k = "length xs"
  have num: "ring_buf_num_e rb = ?k + 2 + length ys"
    using snoc.prems(2) by (simp flip: length_rb_list)
  have lt: "?k < BUFLEN" "Suc ?k < BUFLEN" using num num_e_lt [of rb] by linarith+
  have len: "length (rb_buf rb) = BUFLEN" using snoc.prems by (simp add: rb_ok_def)
  have c: "rb_slot rb 0 = consumer_idx rb" using snoc.prems by (simp add: rb_slot_def rb_ok_def)
  have ne: "rb_slot rb (Suc ?k) \<noteq> consumer_idx rb"
    using rb_slot_inj [OF snoc.prems(1), of "Suc ?k" 0] lt c by auto
  have e: "rb_buf rb ! rb_slot rb ?k = e" and x: "rb_buf rb ! rb_slot rb (Suc ?k) = x"
    using snoc.prems(2) num nth_rb_list [of ?k rb] nth_rb_list [of "Suc ?k" rb]
    by (simp_all add: nth_append)
  define rb1 where "rb1 = rb\<lparr>rb_buf := (rb_buf rb)[rb_slot rb (Suc ?k) := e]\<rparr>"
  define rb2 where "rb2 = rb1\<lparr>rb_buf := (rb_buf rb1)[rb_slot rb ?k := x]\<rparr>"
  have "rb_list rb2 = (rb_list rb)[Suc ?k := e, ?k := x]"
    using rb_list_update [of rb "Suc ?k" e] rb_list_update [of rb1 ?k x] snoc.prems num
    by (simp add: rb1_def rb2_def)
  then have l2: "rb_list rb2 = xs @ x # e # ys"
    using snoc.prems(2) by (simp add: list_update_append)
  have ok2: "rb_ok rb2" using snoc.prems(1) by (simp add: rb1_def rb2_def rb_ok_def)
  have same: "consumer_idx rb2 = consumer_idx rb" "rb_slot rb2 k = rb_slot rb k" for k
    by (simp_all add: rb1_def rb2_def)
  have upd: "rb2\<lparr>rb_buf := b\<rparr> = rb\<lparr>rb_buf := b\<rparr>" for b by (simp add: rb1_def rb2_def)
  have b2: "rb_buf rb2 = (rb_buf rb)[rb_slot rb (Suc ?k) := e, rb_slot rb ?k := x]"
    by (simp add: rb1_def rb2_def)
  show ?case
  proof (cases "before e")
    case True
    then have "sift before (consumer_idx rb) (rb_slot rb (Suc ?k)) (rb_buf rb) =
        sift before (consumer_idx rb) (rb_slot rb ?k) (rb_buf rb2)"
      using ne len e x slot_pred [of rb ?k]
      by (subst sift.simps) (simp add: b2 Let_def)
    then show ?thesis using snoc.IH [OF ok2 l2] True by (auto simp: same upd)
  next
    case False
    then have "sift before (consumer_idx rb) (rb_slot rb (Suc ?k)) (rb_buf rb) = Some (rb_buf rb, False)"
      using ne len e slot_pred(1) [of rb ?k]
      by (subst sift.simps) (simp add: Let_def)
    then show ?thesis using snoc.prems False by simp
  qed
qed

section \<open>Adding timers and tasks\<close>

lemma intr_irq_frame [simp, irq_simps]:
  "timer_queue (disable_int s) = timer_queue s" "timer_queue (enable_int s) = timer_queue s"
  "task_queue (disable_int s) = task_queue s" "task_queue (enable_int s) = task_queue s"
  "cur_priority (disable_int s) = cur_priority s" "cur_priority (enable_int s) = cur_priority s"
  "cntp_tval (disable_int s) = cntp_tval s" "cntp_tval (enable_int s) = cntp_tval s"
  "intr.more (disable_int s) = intr.more s" "intr.more (enable_int s) = intr.more s"
  by (simp_all add: disable_int_def enable_int_def Let_def)

text \<open>One production followed by the insertion loop, on any ring.\<close>

lemma produce_sift:
  assumes "rb_ok rb" "length (rb_list rb) < BUFLEN - 1"
  shows "\<exists>rb' b. ring_buf_produce x (rb, s) = Some (rb', enable_int (disable_int s))
     \<and> sift before (consumer_idx rb') (producer_idx rb) (rb_buf rb') =
         Some (b, \<forall>e \<in> set (rb_list rb). before e)
     \<and> rb_ok (rb'\<lparr>rb_buf := b\<rparr>) \<and> rb_list (rb'\<lparr>rb_buf := b\<rparr>) = insert_back before x (rb_list rb)"
proof -
  obtain rb' where rb': "ring_buf_produce x (rb, s) = Some (rb', enable_int (disable_int s))"
    "rb_ok rb'" "rb_list rb' = rb_list rb @ [x]" "consumer_idx rb' = consumer_idx rb"
    using ring_buf_produce_room [OF assms, of x s] by auto
  have "rb_slot rb' (length (rb_list rb)) = producer_idx rb"
    using rb_slot_num_e [OF assms(1)] rb'(4) by (simp add: rb_slot_def)
  then show ?thesis using sift_correct [OF rb'(2), of "rb_list rb" x "[]" before] rb' by auto
qed

text \<open>
  C34: a new timer goes behind every queued timer that expires no later than it, so the
  queue stays sorted by expiry time; the hardware timer is programmed exactly when the new timer
  expires before all others.
\<close>

theorem add_timer_inserts:
  fixes s :: "('h, 'd, 'z) intr_scheme"
  defines "q \<equiv> rb_list (timer_queue s)"
  assumes "rb_ok (timer_queue s)" "length q < BUFLEN - 1" "sorted (map deadline q)"
  shows "\<exists>s'. add_timer cnt h d dat s = Some s' \<and> rb_ok (timer_queue s')
     \<and> rb_list (timer_queue s') =
         takeWhile (\<lambda>e. deadline e \<le> cnt + d) q
         @ \<lparr>t_handler = h, cur_ticks = cnt, duration_ticks = d, t_data = dat\<rparr>
         # dropWhile (\<lambda>e. deadline e \<le> cnt + d) q
     \<and> sorted (map deadline (rb_list (timer_queue s')))
     \<and> cntp_tval s' = (if \<forall>e \<in> set q. cnt + d < deadline e then d else cntp_tval s)
     \<and> task_queue s' = task_queue s \<and> irq_nested_count s' = irq_nested_count s"
proof -
  let ?x = "\<lparr>t_handler = h, cur_ticks = cnt, duration_ticks = d, t_data = dat\<rparr>
      :: ('h, 'd) timer_queue_element"
  have dl: "deadline ?x = cnt + d" by (simp add: deadline_def)
  obtain rb' b where r: "ring_buf_produce ?x (timer_queue s, s) = Some (rb', enable_int (disable_int s))"
    "sift (\<lambda>e. cnt + d < deadline e) (consumer_idx rb') (producer_idx (timer_queue s)) (rb_buf rb') =
       Some (b, \<forall>e \<in> set q. cnt + d < deadline e)"
    "rb_ok (rb'\<lparr>rb_buf := b\<rparr>)"
    "rb_list (rb'\<lparr>rb_buf := b\<rparr>) = insert_back (\<lambda>e. cnt + d < deadline e) ?x q"
    using produce_sift [of "timer_queue s" ?x s "\<lambda>e. cnt + d < deadline e"] assms by auto
  have ins: "insert_back (\<lambda>e. cnt + d < deadline e) ?x q =
      takeWhile (\<lambda>e. deadline e \<le> cnt + d) q @ ?x # dropWhile (\<lambda>e. deadline e \<le> cnt + d) q"
    by (rule insert_back_sorted [OF assms(4)])
  have "sorted (map deadline (insert_back (\<lambda>e. cnt + d < deadline e) ?x q))"
    unfolding ins using sorted_insert_middle [OF assms(4), of ?x] unfolding dl .
  then show ?thesis using r ins by (auto simp: add_timer_def Let_def)
qed

text \<open>
  C35: a task that is not more urgent than the running one is queued, behind every queued task
  that is at least as urgent, so the queue stays sorted by priority and first-in first-out
  among equals.
\<close>

theorem add_task_queues:
  fixes s :: "('h, 'd, 'z) intr_scheme"
  defines "q \<equiv> rb_list (task_queue s)"
  assumes "\<not> p < cur_priority s" "rb_ok (task_queue s)" "length q < BUFLEN - 1" "sorted (map priority q)"
  shows "\<exists>s'. add_task run h p dat s = Some s' \<and> rb_ok (task_queue s')
     \<and> rb_list (task_queue s') =
         takeWhile (\<lambda>e. priority e \<le> p) q
         @ \<lparr>handler = h, priority = p, data = dat\<rparr> # dropWhile (\<lambda>e. priority e \<le> p) q
     \<and> sorted (map priority (rb_list (task_queue s')))
     \<and> cur_priority s' = cur_priority s \<and> intr.more s' = intr.more s
     \<and> irq_nested_count s' = irq_nested_count s"
proof -
  let ?x = "\<lparr>handler = h, priority = p, data = dat\<rparr> :: ('h, 'd) task_queue_element"
  obtain rb' b where r: "ring_buf_produce ?x (task_queue s, s) = Some (rb', enable_int (disable_int s))"
    "sift (\<lambda>e. p < priority e) (consumer_idx rb') (producer_idx (task_queue s)) (rb_buf rb') =
       Some (b, \<forall>e \<in> set q. p < priority e)"
    "rb_ok (rb'\<lparr>rb_buf := b\<rparr>)"
    "rb_list (rb'\<lparr>rb_buf := b\<rparr>) = insert_back (\<lambda>e. p < priority e) ?x q"
    using produce_sift [of "task_queue s" ?x s "\<lambda>e. p < priority e"] assms by auto
  have ins: "insert_back (\<lambda>e. p < priority e) ?x q =
      takeWhile (\<lambda>e. priority e \<le> p) q @ ?x # dropWhile (\<lambda>e. priority e \<le> p) q"
    by (rule insert_back_sorted [OF assms(5)])
  have "sorted (map priority (insert_back (\<lambda>e. p < priority e) ?x q))"
    unfolding ins using sorted_insert_middle [OF assms(5), of ?x] by simp
  then show ?thesis using r ins assms(2) by (auto simp: add_task_def Let_def)
qed

section \<open>Running the queued tasks\<close>

text \<open>
  A handler is quiet when it returns, leaves the task queue, the current priority and the
  interrupt nesting as it found them, and appends itself to the trace kept in the
  extension field of the state.
\<close>

definition quiet ::
  "(('h, 'd) task_queue_element \<Rightarrow> ('h, 'd, ('h, 'd) task_queue_element list) intr_scheme
     \<Rightarrow> ('h, 'd, ('h, 'd) task_queue_element list) intr_scheme option) \<Rightarrow> bool" where
  "quiet run \<longleftrightarrow> (\<forall>e s. \<exists>s'. run e s = Some s' \<and> task_queue s' = task_queue s
     \<and> cur_priority s' = cur_priority s \<and> irq_nested_count s' = irq_nested_count s
     \<and> intr.more s' = intr.more s @ [e])"

lemma quietE:
  assumes "quiet run"
  obtains s' where "run e s = Some s'" "task_queue s' = task_queue s"
    "cur_priority s' = cur_priority s" "irq_nested_count s' = irq_nested_count s"
    "intr.more s' = intr.more s @ [e]"
  using assms unfolding quiet_def by blast

lemma process_task_Some:
  assumes "quiet run"
  shows "\<exists>s1. process_task run (Some t) s = process_task run None s1
     \<and> task_queue s1 = task_queue s \<and> cur_priority s1 = cur_priority s
     \<and> irq_nested_count s1 = irq_nested_count s \<and> intr.more s1 = intr.more s @ [t]"
proof -
  obtain s1 where s1: "run t (enable_int (s\<lparr>cur_priority := priority t\<rparr>)) = Some s1"
    "task_queue s1 = task_queue s" "irq_nested_count s1 = irq_nested_count s - 1"
    "intr.more s1 = intr.more s @ [t]"
    by (rule quietE [OF assms, of t "enable_int (s\<lparr>cur_priority := priority t\<rparr>)"]) simp
  show ?thesis
    by (rule exI [of _ "(disable_int s1)\<lparr>cur_priority := cur_priority s\<rparr>"])
      (simp add: process_task.simps [of run "Some t"] s1)
qed


text \<open>A handler that only records that it ran, and an idle interrupt state.\<close>

definition trace_run ::
  "(nat, nat) task_queue_element \<Rightarrow> (nat, nat, (nat, nat) task_queue_element list) intr_scheme
     \<Rightarrow> (nat, nat, (nat, nat) task_queue_element list) intr_scheme option" where
  "trace_run e s = Some (s\<lparr>intr.more := intr.more s @ [e]\<rparr>)"

definition idle_intr :: "(nat, nat, (nat, nat) task_queue_element list) intr_scheme" where
  "idle_intr = \<lparr>irq_nested_count = 1, daif_masked = True, console = [],
     timer_queue = ring_buf_init (replicate BUFLEN \<lparr>t_handler = 0, cur_ticks = 0, duration_ticks = 0, t_data = 0\<rparr>),
     task_queue = ring_buf_init (replicate BUFLEN \<lparr>handler = 0, priority = 0, data = 0\<rparr>),
     cur_priority = INIT_PRIO, cntp_tval = 0, \<dots> = []\<rparr>"

lemma idle_intr_queues:
  "rb_ok (timer_queue idle_intr)" "rb_list (timer_queue idle_intr) = []"
  "rb_ok (task_queue idle_intr)" "rb_list (task_queue idle_intr) = []"
  by (simp_all add: idle_intr_def ring_buf_init_ok)

theorem add_timer_inserts_witness:
  "\<exists>s'. add_timer 100 7 50 9 idle_intr = Some s' \<and> length (rb_list (timer_queue s')) = 1 \<and> cntp_tval s' = 50"
  using add_timer_inserts [of idle_intr 100 7 50 9] idle_intr_queues by (auto simp: BUFLEN_def simp del: length_rb_list)

theorem add_task_queues_witness:
  "\<exists>s'. add_task trace_run 7 INIT_PRIO 9 idle_intr = Some s' \<and> length (rb_list (task_queue s')) = 1"
  using add_task_queues [of INIT_PRIO idle_intr trace_run 7 9] idle_intr_queues
  by (auto simp: BUFLEN_def idle_intr_def simp del: length_rb_list)


end
