(* ===== verification/Vmem_Correct.thy ===== *)
theory Vmem_Correct
  imports Vmem Mem_Budget Ram_Correct
begin

text \<open>
  Facts on page tables: which entries a translation reads, and what the change of one of them means for this translation and for others.
\<close>

unbundle bit_operations_syntax

section \<open>The entries that a walk reads\<close>

function trace :: "nat \<Rightarrow> u64 \<Rightarrow> u64 \<Rightarrow> u64 \<Rightarrow> 'a vm_data_scheme \<Rightarrow> u64 list" where
  "trace i entry idx_mask va s =
     (let p = (entry AND TABLE_ADDR_MASK) OR push_bit 3 (drop_bit (39 - i * 9) (va AND idx_mask))
      in p # (case pt_read p s of
            None \<Rightarrow> []
          | Some e \<Rightarrow> if e AND 1 = 0 \<or> e AND 2 = 0 \<or> 3 \<le> i then [] else trace (i + 1) e (drop_bit 9 idx_mask) va s))"
  by pat_completeness auto
termination
  by (relation "measure (\<lambda>(i, _). 3 - i)") auto

declare trace.simps [simp del]

definition trace_of :: "u64 \<Rightarrow> u64 \<Rightarrow> 'a vm_data_scheme \<Rightarrow> u64 list" where
  "trace_of va ttbr s = trace 0 (root_table va ttbr s) 0xff8000000000 va s"

lemma walk_frame:
  "\<forall>p \<in> set (trace i entry im va s). pt_mem s' p = pt_mem s p \<Longrightarrow>
     walk i entry im om va s' = walk i entry im om va s \<and> trace i entry im va s' = trace i entry im va s"
proof (induction i entry im om va s rule: walk.induct)
  case (1 i entry im om va s)
  let ?p = "(entry AND TABLE_ADDR_MASK) OR push_bit 3 (drop_bit (39 - i * 9) (va AND im))"
  have p: "pt_mem s' ?p = pt_mem s ?p" using "1.prems" by (subst (asm) trace.simps) (simp add: Let_def)
  show ?case
  proof (cases "pt_mem s ?p")
    case None
    then show ?thesis using p by (simp add: walk.simps [of i] trace.simps [of i] Let_def pt_read_def)
  next
    case (Some e)
    show ?thesis
    proof (cases "e AND 1 = 0 \<or> e AND 2 = 0 \<or> 3 \<le> i")
      case True
      then show ?thesis using p Some by (auto simp: walk.simps [of i] trace.simps [of i] Let_def pt_read_def)
    next
      case False
      have "\<forall>q \<in> set (trace (i + 1) e (drop_bit 9 im) va s). pt_mem s' q = pt_mem s q"
        using "1.prems" False Some by (subst (asm) trace.simps) (simp add: Let_def pt_read_def)
      then show ?thesis using "1.IH" [OF refl refl refl, of e] False Some p
        by (auto simp: walk.simps [of i] trace.simps [of i] Let_def pt_read_def)
    qed
  qed
qed

lemma walk_leaf:
  "walk i entry im om va s = Some (Some (p, e, m)) \<Longrightarrow>
     pt_mem s p = Some e \<and> e AND 1 \<noteq> 0 \<and> trace i entry im va s \<noteq> [] \<and> last (trace i entry im va s) = p"
proof (induction i entry im om va s rule: walk.induct)
  case (1 i entry im om va s)
  let ?p = "(entry AND TABLE_ADDR_MASK) OR push_bit 3 (drop_bit (39 - i * 9) (va AND im))"
  obtain d where d: "pt_mem s ?p = Some d" "d AND 1 \<noteq> 0"
    using "1.prems" by (subst (asm) walk.simps) (auto simp: Let_def pt_read_def split: bind_splits if_splits)
  show ?case
  proof (cases "d AND 2 = 0 \<or> 3 \<le> i")
    case True
    then show ?thesis using "1.prems" d by (auto simp: walk.simps [of i] trace.simps [of i] Let_def pt_read_def)
  next
    case False
    then show ?thesis using "1.prems" "1.IH" [OF refl refl refl, of d] d
      by (auto simp: walk.simps [of i] trace.simps [of i] Let_def pt_read_def)
  qed
qed

text \<open>A new leaf of the same kind at the end of the walk.\<close>

lemma walk_replace:
  "walk i entry im om va s = Some (Some (p, e, m)) \<Longrightarrow> p \<notin> set (butlast (trace i entry im va s)) \<Longrightarrow> e' AND 1 \<noteq> 0 \<Longrightarrow> e' AND 2 = e AND 2 \<Longrightarrow>
     walk i entry im om va (pt_write p e' s) = Some (Some (p, e', m))"
proof (induction i entry im om va s rule: walk.induct)
  case (1 i entry im om va s)
  let ?p = "(entry AND TABLE_ADDR_MASK) OR push_bit 3 (drop_bit (39 - i * 9) (va AND im))"
  obtain d where d: "pt_mem s ?p = Some d" "d AND 1 \<noteq> 0"
    using "1.prems"(1) by (subst (asm) walk.simps) (auto simp: Let_def pt_read_def split: bind_splits if_splits)
  show ?case
  proof (cases "d AND 2 = 0 \<or> 3 \<le> i")
    case True
    then show ?thesis using "1.prems" d by (auto simp: walk.simps [of i] Let_def pt_read_def pt_write_def)
  next
    case False
    have t: "trace i entry im va s = ?p # trace (i + 1) d (drop_bit 9 im) va s"
      using False d by (subst trace.simps) (auto simp: Let_def pt_read_def)
    have w: "walk (i + 1) d (drop_bit 9 im) (drop_bit 9 om) va s = Some (Some (p, e, m))"
      using "1.prems"(1) False d by (subst (asm) walk.simps) (auto simp: Let_def pt_read_def)
    have ne: "p \<noteq> ?p" "p \<notin> set (butlast (trace (i + 1) d (drop_bit 9 im) va s))" using "1.prems"(2) t walk_leaf [OF w] by auto
    have "walk (i + 1) d (drop_bit 9 im) (drop_bit 9 om) va (pt_write p e' s) = Some (Some (p, e', m))"
      using "1.IH" [OF refl refl refl, of d] False d w ne "1.prems"(3,4) by (simp add: pt_read_def)
    then show ?thesis using d False ne(1) by (subst walk.simps) (auto simp: Let_def pt_read_def pt_write_def)
  qed
qed

section \<open>The new entry\<close>

definition new_entry :: "u64 \<Rightarrow> u64 \<Rightarrow> bool \<Rightarrow> u64" where
  "new_entry e new_addr w = ((if w then e AND NOT PD_RDONLY else e OR PD_RDONLY) AND NOT TABLE_ADDR_MASK) OR (new_addr AND TABLE_ADDR_MASK)"

lemma new_entry_bits:
  "new_entry e a w AND 1 = e AND 1" "new_entry e a w AND 2 = e AND 2" "new_entry e a w AND TABLE_ADDR_MASK = a AND TABLE_ADDR_MASK"
  "new_entry e a w AND PD_RDONLY = (if w then 0 else PD_RDONLY)"
proof -
  show "new_entry e a w AND 1 = e AND 1" "new_entry e a w AND 2 = e AND 2" "new_entry e a w AND TABLE_ADDR_MASK = a AND TABLE_ADDR_MASK"
    by (intro bit_word_eqI; auto simp: new_entry_def TABLE_ADDR_MASK_def PD_RDONLY_def bit_simps)+
  have "PD_RDONLY AND TABLE_ADDR_MASK = 0" by (simp add: PD_RDONLY_def TABLE_ADDR_MASK_def)
  then have "\<not> (bit PD_RDONLY n \<and> bit TABLE_ADDR_MASK n)" for n by (metis bit_and_iff bit_0_eq bot_apply bot_bool_def)
  then show "new_entry e a w AND PD_RDONLY = (if w then 0 else PD_RDONLY)"
    by (intro bit_word_eqI) (auto simp: new_entry_def bit_simps)
qed

lemma replace_page_entry_ok:
  assumes "walk 0 (root_table va ttbr s) 0xff8000000000 0x7fffffffff va s = Some (Some (p, e, m))" "p \<notin> set (butlast (trace_of va ttbr s))"
  shows "replace_page_entry ttbr va a w s = Some (pt_write p (new_entry e a w) s)"
    "v2p_trans va ttbr (pt_write p (new_entry e a w) s) = Some ((a AND TABLE_ADDR_MASK) OR (va AND m))"
proof -
  show "replace_page_entry ttbr va a w s = Some (pt_write p (new_entry e a w) s)"
    using assms(1) by (simp add: replace_page_entry_def new_entry_def Let_def)
  let ?s = "pt_write p (new_entry e a w) s"
  have r: "root_table va ttbr ?s = root_table va ttbr s" by (simp add: root_table_def pt_write_def)
  have "walk 0 (root_table va ttbr s) 0xff8000000000 0x7fffffffff va ?s = Some (Some (p, new_entry e a w, m))"
    using walk_replace [OF assms(1), of "new_entry e a w"] assms(2) walk_leaf [OF assms(1)] by (simp add: trace_of_def new_entry_bits)
  then show "v2p_trans va ttbr ?s = Some ((a AND TABLE_ADDR_MASK) OR (va AND m))"
    by (simp add: v2p_trans_def r new_entry_bits)
qed

lemma v2p_trans_frame:
  assumes "p \<notin> set (trace_of va ttbr s)"
  shows "v2p_trans va ttbr (pt_write p e s) = v2p_trans va ttbr s"
  using walk_frame [of 0 "root_table va ttbr s" "0xff8000000000" va s "pt_write p e s" "0x7fffffffff"] assms
  by (auto simp: v2p_trans_def trace_of_def pt_write_def root_table_def)

end
