(* ===== verification/Fault_Props.thy ===== *)
theory Fault_Props
  imports Fault Vmem_Correct Process_Props
begin

text \<open>
  Copy-on-write: the handling of a write to a page that is shared.
\<close>

unbundle bit_operations_syntax

section \<open>Page addresses\<close>

definition page_at :: "nat \<Rightarrow> u64" where
  "page_at i = of_nat i * PAGE_SIZE"

lemma addr_mask: "TABLE_ADDR_MASK = push_bit 12 (mask 36)" "PAGE_SIZE - 1 = mask 12" "0xfff = (mask 12 :: u64)"
  by (simp_all add: TABLE_ADDR_MASK_def PAGE_SIZE_def mask_eq_exp_minus_1)

lemma page_at_push: "page_at i = push_bit 12 (of_nat i)"
  by (simp add: page_at_def PAGE_SIZE_def push_bit_eq_mult)

lemma page_at_mask:
  assumes "i < 2 ^ 30"
  shows "page_at i AND TABLE_ADDR_MASK = page_at i"
proof (rule bit_word_eqI)
  fix n assume "n < LENGTH(64)"
  have "n < 48" if "bit i (n - 12)"
  proof (rule ccontr)
    assume "\<not> n < 48"
    then have "30 \<le> n - 12" by simp
    then show False using that assms by (metis bit_take_bit_iff not_le take_bit_nat_eq_self)
  qed
  then show "bit (page_at i AND TABLE_ADDR_MASK) n = bit (page_at i) n"
    by (auto simp: page_at_push addr_mask(1) bit_simps)
qed

lemma page_of_addr: "((e AND TABLE_ADDR_MASK) OR (va AND 0xfff)) AND NOT (PAGE_SIZE - 1) = e AND TABLE_ADDR_MASK"
  unfolding addr_mask by (rule bit_word_eqI) (auto simp: bit_simps)

section \<open>Page references\<close>

lemma page_refs:
  assumes "irq_ok s" "i < length (usr_pages s)" "i < 2 ^ 30"
  shows "get_w_permission (page_at i) s = Some (w_permission (usr_pages s ! i) \<noteq> 0, s)"
    "get_ref_count (page_at i) s = Some (ref_count (usr_pages s ! i), s)"
    "ref_page (page_at i) s = Some (s\<lparr>usr_pages := (usr_pages s)[i := (usr_pages s ! i)\<lparr>ref_count := ref_count (usr_pages s ! i) + 1\<rparr>]\<rparr>)"
    "1 < ref_count (usr_pages s ! i) \<Longrightarrow>
       deref_page (page_at i) s = Some (s\<lparr>usr_pages := (usr_pages s)[i := (usr_pages s ! i)\<lparr>ref_count := ref_count (usr_pages s ! i) - 1\<rparr>]\<rparr>)"
proof -
  note al = page_aligned [OF assms(3) order_refl, folded page_at_def]
  show "get_w_permission (page_at i) s = Some (w_permission (usr_pages s ! i) \<noteq> 0, s)"
    "get_ref_count (page_at i) s = Some (ref_count (usr_pages s ! i), s)"
    "ref_page (page_at i) s = Some (s\<lparr>usr_pages := (usr_pages s)[i := (usr_pages s ! i)\<lparr>ref_count := ref_count (usr_pages s ! i) + 1\<rparr>]\<rparr>)"
    using al assms(1,2) by (simp_all add: get_w_permission_def get_ref_count_def ref_page_def critical_section_id Let_def)
  assume r: "1 < ref_count (usr_pages s ! i)"
  have "0 < ref_count (usr_pages s ! i)" "ref_count (usr_pages s ! i) - 1 \<noteq> 0" using r le_less_trans [OF _ r, of 0] by auto
  then show "deref_page (page_at i) s = Some (s\<lparr>usr_pages := (usr_pages s)[i := (usr_pages s ! i)\<lparr>ref_count := ref_count (usr_pages s ! i) - 1\<rparr>]\<rparr>)"
    using al assms(1,2) by (simp add: deref_page_def Let_def)
qed

section \<open>A new page\<close>

lemma dyn_live_vm [simp]:
  "dyn_live (s\<lparr>usr_pages := ps\<rparr>) L = dyn_live s L" "dyn_live (s\<lparr>pt_mem := t\<rparr>) L = dyn_live s L" "dyn_live (s\<lparr>ram := r\<rparr>) L = dyn_live s L"
  "dyn_live (s\<lparr>ram_ok := b\<rparr>) L = dyn_live s L" "dyn_live (print_msg m s) L = dyn_live s L"
  by (simp_all add: dyn_live_def dyn_rel_def buddy_ok_def irq_ok_def live_ranges_def print_msg_def)

lemma dyn_live_irq: "dyn_live s L \<Longrightarrow> irq_ok s"
  by (auto simp: dyn_live_def dyn_rel_def buddy_ok_def)

lemma report_eq:
  assumes "irq_ok s" "daif_masked s"
  shows "report m s = print_msg m s"
  using assms by (cases s) (auto simp: report_def irq_ok_def enable_int_def disable_int_def print_msg_def Let_def)

text \<open>What an allocation leaves alone.\<close>

definition vm_kept :: "'a vm_data_scheme \<Rightarrow> 'a vm_data_scheme \<Rightarrow> bool" where
  "vm_kept s s' \<longleftrightarrow> irq_nested_count s' = irq_nested_count s \<and> daif_masked s' = daif_masked s \<and> usr_pages s' = usr_pages s
     \<and> num_pages_exp s' = num_pages_exp s \<and> list_nodes s' = list_nodes s \<and> pt_mem s' = pt_mem s \<and> ttbr0_el1 s' = ttbr0_el1 s
     \<and> ttbr1_el1 s' = ttbr1_el1 s \<and> ram s' = ram s \<and> vm_data.more s' = vm_data.more s"

lemma page_below:
  assumes "dyn_live s L" "x \<in> L" "fst x = j * 4096"
  shows "j < 2 ^ num_pages_exp s" "num_pages_exp s \<le> 30"
proof -
  obtain PL C where R: "dyn_rel PL C s" and x: "x \<in> live_ranges PL C s" using assms by (auto simp: dyn_live_def)
  obtain i e where i: "used_at (arr s) i e" "e \<le> num_pages_exp s" "fst x + snd x \<le> (i + 2 ^ e) * 4096"
    using live_block_kind [OF R x] by blast
  have "i + 2 ^ e \<le> 2 ^ num_pages_exp s"
    using block_fits [OF dyn_pages(2) [OF R], of i] i(1,2) dyn_pages(1) [OF R] by (simp add: used_at_def is_head_def)
  then have "(i + 2 ^ e) * 4096 \<le> 2 ^ num_pages_exp s * 4096" by (rule mult_le_mono1)
  then have "j * 4096 < 2 ^ num_pages_exp s * 4096" using i(3) assms(3) dyn_live_range(1) [OF assms(1,2)] by linarith
  then show "j < 2 ^ num_pages_exp s" by simp
  show "num_pages_exp s \<le> 30" by (rule dyn_pages(1) [OF R])
qed

lemma new_page:
  assumes L: "dyn_live s L" and sp: "spare s L (Suc k)"
  shows "\<exists>j x s'. malloc_bytes PAGE_SIZE s = Some (p2v_trans_kernel (page_at j), s') \<and> x \<notin> L \<and> fst x = j * 4096 \<and> 4096 \<le> snd x \<and> snd x \<le> 8192
     \<and> dyn_live s' (insert x L) \<and> j < 2 ^ num_pages_exp s \<and> vm_kept s s'
     \<and> ram_ok s' = (\<lambda>a. a - p2v_trans_kernel (page_at j) < PAGE_SIZE \<or> ram_ok s a)"
proof -
  have sz: "PAGE_SIZE \<noteq> 0" "unat PAGE_SIZE = 4096" by (simp_all add: PAGE_SIZE_def)
  obtain x s1 where x: "malloc PAGE_SIZE s = Some (kptr x, s1)" "x \<notin> L" "dyn_live s1 (insert x L)" "4096 \<le> snd x" "outside s s1" "snd x \<le> 8192"
    using heap.alloc_law [OF L sz(1)] spare_room [OF L sp, of 4096] unfolding sz(2) by auto
  obtain j where j: "fst x = j * 4096" using block_aligned [OF x(3), of x] x(4) by (auto elim: dvdE simp: mult.commute)
  have p: "kptr x = p2v_trans_kernel (page_at j)" by (simp add: kptr_def j page_at_def PAGE_SIZE_def)
  have "kptr x \<noteq> 0" using kptr_not_null [OF x(3)] by simp
  let ?s = "s1\<lparr>ram_ok := (\<lambda>a. a - p2v_trans_kernel (page_at j) < PAGE_SIZE \<or> ram_ok s1 a)\<rparr>"
  have m: "list_nodes s1 = list_nodes s" "list_data.more s1 = list_data.more s" using more_nodes outsideD(5) [OF x(5)] by auto
  have v: "pt_mem s1 = pt_mem s" "ttbr0_el1 s1 = ttbr0_el1 s" "ttbr1_el1 s1 = ttbr1_el1 s" "ram s1 = ram s" "ram_ok s1 = ram_ok s"
    "vm_data.more s1 = vm_data.more s"
    using m(2) by (cases s; cases s1; simp)+
  have "malloc_bytes PAGE_SIZE s = Some (p2v_trans_kernel (page_at j), ?s)"
    using x(1) p \<open>kptr x \<noteq> 0\<close> by (simp add: malloc_bytes_def)
  moreover have "vm_kept s ?s" using outsideD [OF x(5)] m(1) v by (simp add: vm_kept_def)
  moreover have "j < 2 ^ num_pages_exp s" using page_below(1) [OF x(3) _ j] outsideD(6) [OF x(5)] by simp
  ultimately show ?thesis using x(2-4,6) j v(5) by (intro exI [of _ j] exI [of _ x] exI [of _ ?s]) simp
qed

lemma pages_apart:
  assumes "i < 2 ^ 30" "j < 2 ^ 30" "i \<noteq> j"
  shows "apart (p2v_trans_kernel (page_at i)) PAGE_SIZE (p2v_trans_kernel (page_at j)) PAGE_SIZE"
proof -
  have u: "unat (p2v_trans_kernel (page_at m)) = 0xffff000000000000 + m * 4096" if "m < 2 ^ 30" for m
  proof -
    have "page_at m = of_nat (m * 4096)" by (simp add: page_at_def PAGE_SIZE_def)
    then have "p2v_trans_kernel (page_at m) = of_nat (0xffff000000000000 + m * 4096)"
      by (simp add: p2v_trans_kernel_def V_KERNEL_SPACE_def)
    moreover have "0xffff000000000000 + m * 4096 < 2 ^ LENGTH(64)" using that by simp
    ultimately show ?thesis using unat_of_nat_small [of "0xffff000000000000 + m * 4096", where 'a = 64] by metis
  qed
  have s: "unat PAGE_SIZE = 4096" by (simp add: PAGE_SIZE_def)
  show ?thesis
  proof (cases "i < j")
    case True
    then show ?thesis using assms(1,2) by (intro apartI) (simp_all add: u s)
  next
    case False
    then show ?thesis using assms by (intro apart_sym [OF apartI]) (simp_all add: u s)
  qed
qed

section \<open>Copy-on-write\<close>

text \<open>One process goes over from page \<open>i\<close> to page \<open>j\<close>.\<close>

definition moved_ref :: "nat \<Rightarrow> nat \<Rightarrow> page list \<Rightarrow> page list" where
  "moved_ref i j ps = ps[i := (ps ! i)\<lparr>ref_count := ref_count (ps ! i) - 1\<rparr>, j := (ps ! j)\<lparr>ref_count := ref_count (ps ! j) + 1\<rparr>]"

lemma copy_page_ok:
  assumes L: "dyn_live s L" and sp: "spare s L (Suc k)" and irq: "daif_masked s" and n: "length (usr_pages s) = 2 ^ num_pages_exp s"
    and W: "walk 0 (root_table va 0 s) 0xff8000000000 0x7fffffffff va s = Some (Some (p, e, m))" "p \<notin> set (butlast (trace_of va 0 s))"
    and i: "y \<in> L" "{i * 4096..<(i + 1) * 4096} \<subseteq> range_of y" "i < 2 ^ num_pages_exp s" "owned s (p2v_trans_kernel (page_at i)) PAGE_SIZE"
    and r: "1 < ref_count (usr_pages s ! i)"
  shows "\<exists>j x s'. copy_page va (page_at i) s = Some s' \<and> x \<notin> L \<and> fst x = j * 4096 \<and> j \<noteq> i \<and> j < 2 ^ num_pages_exp s \<and> dyn_live s' (insert x L)
     \<and> ram s' = copied (p2v_trans_kernel (page_at j)) (p2v_trans_kernel (page_at i)) PAGE_SIZE (ram s)
     \<and> pt_mem s' = (pt_mem s)(p \<mapsto> new_entry e (page_at j) True) \<and> ttbr0_el1 s' = ttbr0_el1 s \<and> ttbr1_el1 s' = ttbr1_el1 s
     \<and> usr_pages s' = moved_ref i j (usr_pages s)"
proof -
  obtain j x h where x: "malloc_bytes PAGE_SIZE s = Some (p2v_trans_kernel (page_at j), h)" "x \<notin> L" "fst x = j * 4096" "4096 \<le> snd x"
    "dyn_live h (insert x L)" "j < 2 ^ num_pages_exp s" "vm_kept s h" "ram_ok h = (\<lambda>a. a - p2v_trans_kernel (page_at j) < PAGE_SIZE \<or> ram_ok s a)"
    using new_page [OF L sp] by (elim exE conjE)
  note K = x(7) [unfolded vm_kept_def]
  have ji: "j \<noteq> i"
  proof
    assume "j = i"
    then have "i * 4096 \<in> range_of x \<inter> range_of y" using x(3,4) i(2) by (auto simp: range_of_def)
    then show False using heap.apart_law [OF x(5), of x y] x(2) i(1) by auto
  qed
  have b: "i < 2 ^ 30" "j < 2 ^ 30"
    using i(3) x(6) page_below(2) [OF x(5) _ x(3)] K power_increasing [of "num_pages_exp s" 30 "2::nat"] by auto
  have hirq: "irq_ok h" by (rule dyn_live_irq [OF x(5)])
  let ?r = "copied (p2v_trans_kernel (page_at j)) (p2v_trans_kernel (page_at i)) PAGE_SIZE (ram s)"
  let ?t = "(pt_mem s)(p \<mapsto> new_entry e (page_at j) True)"
  let ?u = "(usr_pages s)[i := (usr_pages s ! i)\<lparr>ref_count := ref_count (usr_pages s ! i) - 1\<rparr>]"
  have 1: "memcpy_ram (p2v_trans_kernel (page_at j)) (p2v_trans_kernel (page_at i)) (unat PAGE_SIZE) h = Some (h\<lparr>ram := ?r\<rparr>)"
    using memcpy_ram_word [of h "p2v_trans_kernel (page_at j)" PAGE_SIZE "p2v_trans_kernel (page_at i)"] pages_apart [OF b(2,1) ji] i(4) x(8) K
    by (simp add: owned_def)
  let ?h1 = "h\<lparr>ram := ?r\<rparr>"
  have root: "root_table va 0 ?h1 = root_table va 0 s" using K by (simp add: root_table_def)
  have same: "walk 0 (root_table va 0 s) 0xff8000000000 0x7fffffffff va ?h1 = walk 0 (root_table va 0 s) 0xff8000000000 0x7fffffffff va s"
    "trace 0 (root_table va 0 s) 0xff8000000000 va ?h1 = trace 0 (root_table va 0 s) 0xff8000000000 va s"
    using walk_frame [of 0 "root_table va 0 s" "0xff8000000000" va s ?h1 "0x7fffffffff"] K by auto
  have 2: "replace_page_entry 0 va (page_at j) True ?h1 = Some (?h1\<lparr>pt_mem := ?t\<rparr>)"
    using replace_page_entry_ok(1) [of va 0 ?h1 p e m "page_at j" True] W K unfolding root same trace_of_def by (simp add: pt_write_def)
  have 3: "deref_page (page_at i) (?h1\<lparr>pt_mem := ?t\<rparr>) = Some (?h1\<lparr>pt_mem := ?t, usr_pages := ?u\<rparr>)"
    using page_refs(4) [of "?h1\<lparr>pt_mem := ?t\<rparr>" i] hirq n i(3) b(1) r K by (simp add: irq_ok_def)
  let ?h = "?h1\<lparr>pt_mem := ?t, usr_pages := moved_ref i j (usr_pages s)\<rparr>"
  have 4: "ref_page (page_at j) (?h1\<lparr>pt_mem := ?t, usr_pages := ?u\<rparr>) = Some ?h"
    using page_refs(3) [of "?h1\<lparr>pt_mem := ?t, usr_pages := ?u\<rparr>" j] hirq n x(6) b(2) ji by (simp add: irq_ok_def moved_ref_def)
  have "v2p_trans_kernel (p2v_trans_kernel (page_at j)) = page_at j" by (simp add: v2p_trans_kernel_def p2v_trans_kernel_def)
  moreover have "report m ?h = print_msg m ?h" for m using hirq irq K by (intro report_eq) (simp_all add: irq_ok_def)
  ultimately have "copy_page va (page_at i) s = Some (print_msg ''[Copy-on-write]'' ?h)"
    using x(1) 1 2 3 4 by (simp add: copy_page_def Let_def)
  moreover have "dyn_live (print_msg ''[Copy-on-write]'' ?h) (insert x L)" using x(5) by simp
  ultimately show ?thesis
    using x(2,3,6) K ji by (intro exI [of _ j] exI [of _ x] exI [of _ "print_msg ''[Copy-on-write]'' ?h"]) (simp add: print_msg_def)
qed

text \<open>The page \<open>i\<close>, part of a live block, is mapped at \<open>va\<close> by the entry at \<open>p\<close>, is shared, and may be written.\<close>

definition shared_page :: "'a vm_data_scheme \<Rightarrow> (nat \<times> nat) set \<Rightarrow> u64 \<Rightarrow> u64 \<Rightarrow> nat \<Rightarrow> bool" where
  "shared_page s L va p i \<longleftrightarrow> (\<exists>e. walk 0 (root_table va 0 s) 0xff8000000000 0x7fffffffff va s = Some (Some (p, e, 0xfff)) \<and> e AND TABLE_ADDR_MASK = page_at i)
     \<and> p \<notin> set (butlast (trace_of va 0 s)) \<and> (\<exists>y \<in> L. {i * 4096..<(i + 1) * 4096} \<subseteq> range_of y) \<and> i < 2 ^ num_pages_exp s
     \<and> owned s (p2v_trans_kernel (page_at i)) PAGE_SIZE \<and> w_permission (usr_pages s ! i) \<noteq> 0 \<and> 1 < ref_count (usr_pages s ! i)"

lemma live_exp: "dyn_live s L \<Longrightarrow> num_pages_exp s \<le> 30"
  using dyn_pages(1) by (auto simp: dyn_live_def)

lemma v2p_trans_cong:
  assumes "pt_mem h = pt_mem s" "ttbr0_el1 h = ttbr0_el1 s" "ttbr1_el1 h = ttbr1_el1 s"
  shows "v2p_trans va ttbr h = v2p_trans va ttbr s"
proof -
  have "root_table va ttbr h = root_table va ttbr s" using assms(2,3) by (simp add: root_table_def)
  then show ?thesis using walk_frame [of 0 "root_table va ttbr s" "0xff8000000000" va s h "0x7fffffffff"] assms(1) by (simp add: v2p_trans_def)
qed

section \<open>Properties\<close>

text \<open>
  C10: copy-on-write.  A write to a shared page that may be written is answered with a private copy: a page of fresh memory holds the same bytes and the faulting address
  translates to it, at the same offset and writable, while the shared page keeps its contents and every other address keeps its translation.
  The shared page loses one reference and the copy gains one.
\<close>

theorem copy_on_write:
  assumes "dyn_live s L" "spare s L (Suc k)" "daif_masked s" "length (usr_pages s) = 2 ^ num_pages_exp s" "shared_page s L va p i"
    "drop_bit 26 (esr AND EC_MASK) = EC_DATA_ABORT" "drop_bit 2 (esr AND DFSC_MASK) = DFSC_PERMISSION"
  shows "\<exists>j x d s'. exception_entry esr va s = Some (None, s') \<and> x \<notin> L \<and> fst x = j * 4096 \<and> j \<noteq> i \<and> dyn_live s' (insert x L)
     \<and> v2p_trans va 0 s = Some (page_at i OR (va AND 0xfff)) \<and> v2p_trans va 0 s' = Some (page_at j OR (va AND 0xfff))
     \<and> pt_mem s' = (pt_mem s)(p \<mapsto> d) \<and> d AND PD_RDONLY = 0
     \<and> (\<forall>va' ttbr. p \<notin> set (trace_of va' ttbr s) \<longrightarrow> v2p_trans va' ttbr s' = v2p_trans va' ttbr s)
     \<and> (\<forall>n. n < PAGE_SIZE \<longrightarrow> ram s' (p2v_trans_kernel (page_at j) + n) = ram s (p2v_trans_kernel (page_at i) + n))
     \<and> (\<forall>z. \<not> z - p2v_trans_kernel (page_at j) < PAGE_SIZE \<longrightarrow> ram s' z = ram s z)
     \<and> usr_pages s' = moved_ref i j (usr_pages s)"
proof -
  obtain e y where W: "walk 0 (root_table va 0 s) 0xff8000000000 0x7fffffffff va s = Some (Some (p, e, 0xfff))" and e: "e AND TABLE_ADDR_MASK = page_at i"
    and p: "p \<notin> set (butlast (trace_of va 0 s))" and i: "y \<in> L" "{i * 4096..<(i + 1) * 4096} \<subseteq> range_of y" "i < 2 ^ num_pages_exp s"
      "owned s (p2v_trans_kernel (page_at i)) PAGE_SIZE" and r: "w_permission (usr_pages s ! i) \<noteq> 0" "1 < ref_count (usr_pages s ! i)"
    using assms(5) by (auto simp: shared_page_def)
  obtain j x s' where cp: "copy_page va (page_at i) s = Some s'" and c: "x \<notin> L" "fst x = j * 4096" "j \<noteq> i" "j < 2 ^ num_pages_exp s" "dyn_live s' (insert x L)"
    "ram s' = copied (p2v_trans_kernel (page_at j)) (p2v_trans_kernel (page_at i)) PAGE_SIZE (ram s)" "pt_mem s' = (pt_mem s)(p \<mapsto> new_entry e (page_at j) True)"
    "ttbr0_el1 s' = ttbr0_el1 s" "ttbr1_el1 s' = ttbr1_el1 s" "usr_pages s' = moved_ref i j (usr_pages s)"
    using copy_page_ok [OF assms(1-4) W p i r(2)] by (elim exE conjE)
  have b: "m < 2 ^ 30" if "m < 2 ^ num_pages_exp s" for m :: nat
    using that live_exp [OF assms(1)] power_increasing [of "num_pages_exp s" 30 "2::nat"] by simp
  have v: "v2p_trans va 0 s = Some (page_at i OR (va AND 0xfff))" using W e by (simp add: v2p_trans_def)
  have f: "(page_at i OR (va AND 0xfff)) AND NOT (PAGE_SIZE - 1) = page_at i" using page_of_addr [of e va] e by simp
  have "permission_fault va s = Some (None, s')"
    unfolding permission_fault_def v using page_refs(1,2) [OF dyn_live_irq [OF assms(1)], of i] assms(4) i(3) b [OF i(3)] r f cp
    by simp
  then have 1: "exception_entry esr va s = Some (None, s')"
    using assms(6,7) by (simp add: exception_entry_def DFSC_TRANSLATION_def DFSC_PERMISSION_def)
  have 2: "v2p_trans va' ttbr s' = v2p_trans va' ttbr (pt_write p (new_entry e (page_at j) True) s)" for va' ttbr
    using c(7-9) by (intro v2p_trans_cong) (simp_all add: pt_write_def)
  have 3: "v2p_trans va 0 s' = Some (page_at j OR (va AND 0xfff))"
    using replace_page_entry_ok(2) [OF W p, of "page_at j" True] page_at_mask [OF b [OF c(4)]] by (simp add: 2)
  have 4: "v2p_trans va' ttbr s' = v2p_trans va' ttbr s" if "p \<notin> set (trace_of va' ttbr s)" for va' ttbr
    using v2p_trans_frame [OF that] 2 by simp
  show ?thesis
    using 1 c v 3 4 new_entry_bits(4) [of e "page_at j" True]
    by (intro exI [of _ j] exI [of _ x] exI [of _ "new_entry e (page_at j) True"] exI [of _ s'] conjI) (simp_all add: copied_def)
qed

text \<open>A sample: one page of memory, referenced twice, is mapped read-only at the address 0.\<close>

definition shared_tables :: "nat \<Rightarrow> u64 \<rightharpoonup> u64" where
  "shared_tables j = [0x100000 \<mapsto> 0x101003, 0x101000 \<mapsto> 0x102003, 0x102000 \<mapsto> 0x103003, 0x103000 \<mapsto> (page_at j OR 0x83)]"

definition shared_state :: "nat \<Rightarrow> 'a vm_data_scheme \<Rightarrow> 'a vm_data_scheme" where
  "shared_state j s = disable_int (s\<lparr>usr_pages := (replicate 8 \<lparr>ref_count = 0, w_permission = 0\<rparr>)[j := \<lparr>ref_count = 2, w_permission = 1\<rparr>],
     pt_mem := shared_tables j, ttbr0_el1 := 0x100000\<rparr>)"

lemma page_at_or:
  assumes "j < 2 ^ 30"
  shows "(page_at j OR 0x83) AND 1 = 1" "(page_at j OR 0x83) AND 2 = 2" "(page_at j OR 0x83) AND TABLE_ADDR_MASK = page_at j"
proof -
  show "(page_at j OR 0x83) AND TABLE_ADDR_MASK = page_at j"
    using page_at_mask [OF assms] by (simp add: bit.conj_disj_distrib2) (simp add: TABLE_ADDR_MASK_def)
  show "(page_at j OR 0x83) AND 1 = 1" "(page_at j OR 0x83) AND 2 = 2"
    by (rule bit_word_eqI; auto simp: page_at_push bit_simps)+
qed

lemma shared_state_walk:
  assumes "j < 2 ^ 30"
  shows "walk 0 (root_table 0 0 (shared_state j s)) 0xff8000000000 0x7fffffffff 0 (shared_state j s) = Some (Some (0x103000, page_at j OR 0x83, 0xfff))"
    "trace_of 0 0 (shared_state j s) = [0x100000, 0x101000, 0x102000, 0x103000]"
proof -
  have m: "pt_mem (shared_state j s) = shared_tables j" "root_table 0 0 (shared_state j s) = 0x100000"
    by (simp_all add: shared_state_def root_table_def disable_int_def)
  show "walk 0 (root_table 0 0 (shared_state j s)) 0xff8000000000 0x7fffffffff 0 (shared_state j s) = Some (Some (0x103000, page_at j OR 0x83, 0xfff))"
    unfolding m(2) using page_at_or [OF assms] by (simp add: walk.simps pt_read_def m(1) shared_tables_def TABLE_ADDR_MASK_def Let_def)
  show "trace_of 0 0 (shared_state j s) = [0x100000, 0x101000, 0x102000, 0x103000]"
    unfolding trace_of_def m(2) using page_at_or [OF assms] by (simp add: trace.simps pt_read_def m(1) shared_tables_def TABLE_ADDR_MASK_def Let_def)
qed

lemma idle_only_heap: "dyn_live idle_only {}" "spare idle_only {} (Suc 7)" "num_pages_exp idle_only = 3"
proof -
  have "dyn_data.truncate idle_only = fresh_heap" by (simp add: idle_only_def no_lists_def list_data.defs dyn_data.defs fresh_heap_def)
  then show "dyn_live idle_only {}" using dyn_live_truncate [of idle_only] fresh_heap_ok(1) by simp
  show "num_pages_exp idle_only = 3" by (simp add: idle_only_def no_lists_def list_data.defs dyn_data.defs fresh_heap_def)
  then show "spare idle_only {} (Suc 7)" by (simp add: spare_def mem_used_def)
qed

lemma shared_state_ok:
  assumes h: "dyn_live h {x}" "fst x = j * 4096" "4096 \<le> snd x" "snd x \<le> 8192" "num_pages_exp h = 3"
    and o: "owned h (p2v_trans_kernel (page_at j)) PAGE_SIZE" and j: "j < 8"
  shows "dyn_live (shared_state j h) {x}" "spare (shared_state j h) {x} (Suc 5)" "daif_masked (shared_state j h)"
    "length (usr_pages (shared_state j h)) = 2 ^ num_pages_exp (shared_state j h)" "shared_page (shared_state j h) {x} 0 0x103000 j"
proof -
  have "dyn_live (h\<lparr>usr_pages := u, pt_mem := t, ttbr0_el1 := r\<rparr>) {x}" for u t r
    using h(1) by (simp add: dyn_live_def dyn_rel_def buddy_ok_def irq_ok_def live_ranges_def)
  then show "dyn_live (shared_state j h) {x}" unfolding shared_state_def by (rule dyn_live_int)
  have n: "num_pages_exp (shared_state j h) = 3" using h(5) by (simp add: shared_state_def disable_int_def)
  have "pages_of x \<le> 2" using h(4) by (simp add: pages_of_def)
  then show "spare (shared_state j h) {x} (Suc 5)" using n by (simp add: spare_def mem_used_def)
  show "daif_masked (shared_state j h)" by (simp add: shared_state_def)
  have u: "usr_pages (shared_state j h) = (replicate 8 \<lparr>ref_count = 0, w_permission = 0\<rparr>)[j := \<lparr>ref_count = 2, w_permission = 1\<rparr>]"
    by (simp add: shared_state_def)
  then show "length (usr_pages (shared_state j h)) = 2 ^ num_pages_exp (shared_state j h)" using n by simp
  have "owned (shared_state j h) (p2v_trans_kernel (page_at j)) PAGE_SIZE" using o by (simp add: owned_def shared_state_def disable_int_def)
  then show "shared_page (shared_state j h) {x} 0 0x103000 j"
    unfolding shared_page_def using shared_state_walk [of j h] page_at_or(3) [of j] j u n h(2,3) by (auto simp: range_of_def)
qed

theorem copy_on_write_witness:
  "\<exists>(s :: sched) i j s'. i \<noteq> j \<and> exception_entry 0x9000000c 0 s = Some (None, s') \<and> v2p_trans 0 0 s = Some (page_at i) \<and> v2p_trans 0 0 s' = Some (page_at j)"
proof -
  obtain i x h where x: "x \<notin> {}" "fst x = i * 4096" "4096 \<le> snd x" "snd x \<le> 8192" "dyn_live h {x}" "i < 2 ^ num_pages_exp idle_only" "vm_kept idle_only h"
    "ram_ok h = (\<lambda>a. a - p2v_trans_kernel (page_at i) < PAGE_SIZE \<or> ram_ok idle_only a)"
    using new_page [OF idle_only_heap(1,2)] by auto
  have h: "num_pages_exp h = 3" "i < 8" "owned h (p2v_trans_kernel (page_at i)) PAGE_SIZE"
    using x(6-8) idle_only_heap(3) by (simp_all add: vm_kept_def owned_def)
  have esr: "drop_bit 26 (0x9000000c AND EC_MASK) = EC_DATA_ABORT" "drop_bit 2 (0x9000000c AND DFSC_MASK) = DFSC_PERMISSION"
    by (simp_all add: EC_MASK_def EC_DATA_ABORT_def DFSC_MASK_def DFSC_PERMISSION_def)
  obtain j s' where "exception_entry 0x9000000c 0 (shared_state i h) = Some (None, s')" "j \<noteq> i"
    "v2p_trans 0 0 (shared_state i h) = Some (page_at i OR (0 AND 0xfff))" "v2p_trans 0 0 s' = Some (page_at j OR (0 AND 0xfff))"
    using copy_on_write [OF shared_state_ok [OF x(5,2-4) h(1,3,2)] esr] by (elim exE conjE)
  then show ?thesis by (intro exI [of _ "shared_state i h"] exI [of _ i] exI [of _ j] exI [of _ s']) simp
qed

end
