(* ===== verification/Fs_Tree.thy ===== *)
theory Fs_Tree
  imports File List_Family Ram_Correct
begin

text \<open>
  The tree of vnodes: \<open>fs_at s K k ds T\<close> says that the vnodes of \<open>s\<close> are \<open>ds\<close> and that the children of each one are listed by \<open>T\<close>.
  Creating a vnode is an insertion into this tree, and \<open>tmpfs_lookup\<close> is the search in it.
\<close>

section \<open>Invariant\<close>

definition kids :: "'a vfs_data_scheme \<Rightarrow> u64 \<Rightarrow> klist" where
  "kids s d = vn_children (the (vnodes s d))"

definition name_ok :: "u8 list \<Rightarrow> bool" where
  "name_ok bs \<longleftrightarrow> length bs = STRLEN \<and> 0 \<in> set bs"

definition fs_at :: "'a vfs_data_scheme \<Rightarrow> (nat \<times> nat) set \<Rightarrow> nat \<Rightarrow> u64 list \<Rightarrow> (u64 \<Rightarrow> u64 list) \<Rightarrow> bool" where
  "fs_at s K k ds T \<longleftrightarrow> nodes_in s K k \<and> distinct ds \<and> set ds = dom (vnodes s) \<and> set ds \<subseteq> kptr ` K
     \<and> lists_at (list_nodes s) (map (kids s) ds) (map T ds)
     \<and> (\<forall>d \<in> set ds. d \<noteq> 0 \<and> set (T d) \<subseteq> set ds \<and> name_ok (vn_name (the (vnodes s d))))"

text \<open>The visible child with a given name: the null pointer if there is none.\<close>

definition named :: "'a vfs_data_scheme \<Rightarrow> u8 list \<Rightarrow> u64 \<Rightarrow> bool" where
  "named s name c \<longleftrightarrow> \<not> vn_hidden (the (vnodes s c)) \<and> cstr (vn_name (the (vnodes s c))) = cstr name"

definition child_of :: "'a vfs_data_scheme \<Rightarrow> (u64 \<Rightarrow> u64 list) \<Rightarrow> u64 \<Rightarrow> u8 list \<Rightarrow> u64" where
  "child_of s T d name = (case find (named s name) (T d) of None \<Rightarrow> 0 | Some c \<Rightarrow> c)"

lemma fs_atD:
  assumes "fs_at s K k ds T"
  shows "nodes_in s K k" "distinct ds" "set ds = dom (vnodes s)" "set ds \<subseteq> kptr ` K" "lists_at (list_nodes s) (map (kids s) ds) (map T ds)"
    "\<And>d. d \<in> set ds \<Longrightarrow> d \<noteq> 0" "\<And>d. d \<in> set ds \<Longrightarrow> set (T d) \<subseteq> set ds" "\<And>d. d \<in> set ds \<Longrightarrow> name_ok (vn_name (the (vnodes s d)))"
  using assms unfolding fs_at_def by blast+

lemma nodes_in_upd [simp]:
  "nodes_in (s\<lparr>vnodes := v\<rparr>) K k = nodes_in s K k" "nodes_in (s\<lparr>ram_ok := b\<rparr>) K k = nodes_in s K k"
  by (simp_all add: nodes_in_def node_heap_def spare_def dyn_live_def dyn_rel_def buddy_ok_def irq_ok_def live_ranges_def)

lemma fs_list:
  assumes "fs_at s K k ds T" "d \<in> set ds"
  obtains i as where "i < length ds" "ds ! i = d" "list_at (list_nodes s) (kids s d) as (T d)"
proof -
  obtain i where i: "i < length ds" "ds ! i = d" using assms(2) by (auto simp: in_set_conv_nth)
  have "lists_at (list_nodes s) (map (kids s) ds) (map T ds)" using assms(1) by (simp add: fs_at_def)
  then obtain ass where "list_at (list_nodes s) (map (kids s) ds ! i) (ass ! i) (map T ds ! i)" using i(1) unfolding lists_at_def lists_on_def by auto
  then show thesis using that [of i "ass ! i"] i by simp
qed

section \<open>Lookup\<close>

lemma tree_child:
  assumes "vnodes s c = Some n" "name_ok (vn_name n)" "0 \<in> set name"
  shows "vfs_tree_child c name s = Some (named s name c)"
proof -
  have "length (vn_name n) \<le> SIZE_MAX" using assms(2) by (simp add: name_ok_def STRLEN_def SIZE_MAX_def)
  then have "strcmp (vn_name n) name = Some (if cstr (vn_name n) = cstr name then 0 else if cstr (vn_name n) < cstr name then - 1 else 1)"
    using strncmp_cstr [of "vn_name n" name] assms(2,3) by (simp add: strcmp_def name_ok_def)
  then show ?thesis using assms(1) by (simp add: vfs_tree_child_def named_def)
qed

lemma tmpfs_lookup_ok:
  assumes F: "fs_at s K k ds T" and d: "d \<in> set ds" and name: "0 \<in> set name"
  shows "tmpfs_lookup d name s = Some (child_of s T d name, s)"
proof -
  obtain i as where L: "list_at (list_nodes s) (kids s d) as (T d)" using fs_list [OF F d] by metis
  obtain n where n: "vnodes s d = Some n" using fs_atD(3) [OF F] d by auto
  have "\<forall>c \<in> set (T d). vfs_tree_child c name s = Some (named s name c)"
  proof
    fix c assume "c \<in> set (T d)"
    then have c: "c \<in> set ds" using fs_atD(7) [OF F d] by blast
    then obtain m where m: "vnodes s c = Some m" using fs_atD(3) [OF F] by auto
    then have "name_ok (vn_name m)" using fs_atD(8) [OF F c] by simp
    with m show "vfs_tree_child c name s = Some (named s name c)" using name by (rule tree_child)
  qed
  moreover have "irq_ok s" using nodes_in_irq [OF fs_atD(1) [OF F]] .
  ultimately show ?thesis using list_find_ok [OF L] n by (simp add: tmpfs_lookup_def child_of_def kids_def)
qed

section \<open>Creation\<close>

text \<open>A request of at most a page, counted as two pages, and its release.\<close>

lemma nodes_in_borrow:
  assumes N: "nodes_in s K (k + 2)" and sz: "sz \<noteq> 0" "unat sz \<le> 4096"
  shows "\<exists>x s' s2. malloc sz s = Some (kptr x, s') \<and> kptr x \<noteq> 0 \<and> kptr x \<notin> kptr ` K \<and> nodes_in s' (insert x K) k
     \<and> list_nodes s' = list_nodes s \<and> outside s s' \<and> free (kptr x) s' = Some s2 \<and> nodes_in s2 K (k + 2) \<and> list_nodes s2 = list_nodes s \<and> outside s' s2 \<and> unat sz \<le> snd x"
proof -
  obtain L where L: "node_heap s L" "K = {x \<in> L. kptr x \<notin> dom (list_nodes s)}" "spare s L (k + 2)"
    using N unfolding nodes_in_def by blast
  obtain M where M: "M \<subseteq> L" "dom (list_nodes s) = kptr ` M" and live: "dyn_live s L" using L(1) by (auto simp: node_heap_def)
  obtain x s' where x: "malloc sz s = Some (kptr x, s')" "x \<notin> L" "dyn_live s' (insert x L)" "snd x \<le> max 16 (2 * unat sz)" "outside s s'" "unat sz \<le> snd x"
    using heap.alloc_law [OF live sz(1)] spare_room [OF live, of "k + 1" "unat sz"] L(3) sz(2) by auto
  obtain s2 where s2: "free (kptr x) s' = Some s2" "dyn_live s2 L" "outside s' s2"
    using heap.release_law [OF x(3), of x] x(2) by auto
  have m: "list_nodes s' = list_nodes s" "list_nodes s2 = list_nodes s" using more_nodes outsideD(5) [OF x(5)] outsideD(5) [OF s2(3)] by metis+
  have new: "kptr y \<noteq> kptr x" if "y \<in> L" for y using inj_onD [OF kptr_inj [OF x(3)], of y x] x(2) that by auto
  have "pages_of x \<le> 2" using x(4) sz(2) by (simp add: pages_of_def)
  moreover have "mem_used (insert x L) = pages_of x + mem_used L"
    using live_finite [OF live] x(2) by (simp add: mem_used_def)
  ultimately have "spare s' (insert x L) k" using L(3) outsideD(6) [OF x(5)] by (simp add: spare_def)
  moreover have "node_heap s' (insert x L)" using x(3) M m by (auto simp: node_heap_def)
  moreover have "kptr x \<notin> dom (list_nodes s')" unfolding m M(2) using new M(1) by (metis imageE subsetD)
  then have "insert x K = {y \<in> insert x L. kptr y \<notin> dom (list_nodes s')}" unfolding L(2) m by auto
  ultimately have "nodes_in s' (insert x K) k" unfolding nodes_in_def by blast
  moreover have "node_heap s2 L" "spare s2 L (k + 2)" "K = {y \<in> L. kptr y \<notin> dom (list_nodes s2)}"
    using s2(2) M m L(2,3) outsideD(6) [OF x(5)] outsideD(6) [OF s2(3)] by (auto simp: node_heap_def spare_def)
  then have "nodes_in s2 K (k + 2)" unfolding nodes_in_def by blast
  moreover have "kptr x \<notin> kptr ` K" unfolding L(2) using new by (metis (no_types, lifting) imageE mem_Collect_eq)
  moreover have "kptr x \<noteq> 0" using kptr_not_null [OF x(3)] by simp
  ultimately show ?thesis using x(1,5,6) s2(1,3) m by blast
qed

lemma nodes_in_alloc:
  assumes N: "nodes_in s K (k + 2)" and sz: "sz \<noteq> 0" "unat sz \<le> 4096"
  shows "\<exists>x s'. malloc sz s = Some (kptr x, s') \<and> kptr x \<noteq> 0 \<and> kptr x \<notin> kptr ` K \<and> nodes_in s' (insert x K) k
     \<and> list_nodes s' = list_nodes s \<and> outside s s' \<and> unat sz \<le> snd x"
  using nodes_in_borrow [OF assms] by blast

text \<open>The vnode that \<open>init_vnode\<close> makes of \<open>n\<close> in the directory \<open>d\<close>.\<close>

definition fresh_vnode :: "u64 \<Rightarrow> vnode_t \<Rightarrow> file_type \<Rightarrow> u8 list \<Rightarrow> vnode_t \<Rightarrow> vnode_t" where
  "fresh_vnode d dn type nm n = n\<lparr>vn_mount := vn_mount dn, vn_fops := vn_fops dn, vn_vops := vn_vops dn, vn_parent := d, vn_type := type,
     vn_hidden := False, vn_children := zero_list, vn_name := nm, vn_file_size := 0\<rparr>"

lemma strcpy_name:
  assumes "length dst = STRLEN" "0 \<in> set name" "length (cstr name) < STRLEN"
  shows "\<exists>nm. strcpy dst name = Some nm \<and> cstr nm = cstr name \<and> name_ok nm"
proof -
  let ?nm = "cstr name @ 0 # drop (Suc (length (cstr name))) dst"
  have "length (cstr name) \<le> SIZE_MAX" using assms(3) by (simp add: STRLEN_def SIZE_MAX_def)
  then have "strcpy dst name = Some ?nm" using strncpy_cstr [OF assms(2), of SIZE_MAX dst] assms by (simp add: strcpy_def min_absorb2)
  moreover have "0 \<notin> set (cstr name)" by (auto simp: cstr_def dest: set_takeWhileD)
  then have "cstr ?nm = cstr name" by (rule cstr_append0)
  moreover have "name_ok ?nm" using assms by (simp add: name_ok_def)
  ultimately show ?thesis by blast
qed

lemma more_vnodes: "list_data.more s' = list_data.more s \<Longrightarrow> vnodes s' = vnodes s"
  by (cases s; cases s') simp

lemma init_vnode_ok:
  assumes N: "nodes_in s K (Suc k)" and A: "lists_at (list_nodes s) hs vss" "i < length hs" "hs ! i = vn_children dn"
    and d: "vnodes s d = Some dn" "d \<noteq> 0" and t: "vnodes s t = Some n" "t \<noteq> 0" "t \<noteq> d" "length (vn_name n) = STRLEN"
    and name: "0 \<in> set name" "length (cstr name) < STRLEN"
  shows "\<exists>l nm s'. init_vnode d t type name s = Some (0, s') \<and> nodes_in s' K k \<and> lists_at (list_nodes s') (hs[i := l]) (vss[i := vss ! i @ [t]])
     \<and> vnodes s' = (vnodes s)(d \<mapsto> dn\<lparr>vn_children := l\<rparr>, t \<mapsto> fresh_vnode d dn type nm n) \<and> cstr nm = cstr name \<and> name_ok nm
     \<and> list_outside s (s'\<lparr>vnodes := vnodes s\<rparr>)"
proof -
  let ?s = "(disable_int s)\<lparr>vnodes := (vnodes s)(t \<mapsto> n\<lparr>vn_mount := vn_mount dn, vn_fops := vn_fops dn, vn_vops := vn_vops dn\<rparr>)\<rparr>"
  have 0: "vnodes (disable_int s) = vnodes s" "list_nodes (disable_int s) = list_nodes s" by (simp_all add: disable_int_def)
  have "nodes_in ?s K (Suc k)" using nodes_in_int(1) [OF N] by simp
  moreover have "lists_at (list_nodes ?s) hs vss" using A(1) 0 by simp
  ultimately obtain l h where p: "list_push (hs ! i) t ?s = Some (l, h)" "nodes_in h K k" "lists_at (list_nodes h) (hs[i := l]) (vss[i := vss ! i @ [t]])"
    "list_outside ?s h" using lists_push [of ?s K k hs vss i t] A(2) by blast
  obtain nm where nm: "strcpy (vn_name n) name = Some nm" "cstr nm = cstr name" "name_ok nm" using strcpy_name [OF t(4) name] by blast
  have m: "list_data.more h = list_data.more ?s" and irq: "irq_nested_count h = irq_nested_count ?s" "daif_masked h = daif_masked ?s" using p(4) by (auto simp: list_outside_def)
  have v: "vnodes h = (vnodes s)(t \<mapsto> n\<lparr>vn_mount := vn_mount dn, vn_fops := vn_fops dn, vn_vops := vn_vops dn\<rparr>)"
    using more_vnodes [OF m] by simp
  let ?v = "(vnodes s)(d \<mapsto> dn\<lparr>vn_children := l\<rparr>, t \<mapsto> fresh_vnode d dn type nm n)"
  have "init_vnode d t type name s = Some (0, enable_int (h\<lparr>vnodes := ?v\<rparr>))"
    using d t p(1) A(3) nm(1) v 0
    by (simp add: init_vnode_def push_child_def upd_vnode_def fresh_vnode_def Let_def fun_upd_twist)
  moreover have "nodes_in (enable_int (h\<lparr>vnodes := ?v\<rparr>)) K k" using p(2) irq by (intro nodes_in_int(2)) simp_all
  moreover have "list_outside s ((enable_int (h\<lparr>vnodes := ?v\<rparr>))\<lparr>vnodes := vnodes s\<rparr>)"
    using p(4) nodes_in_irq [OF N] by (cases s; cases h) (auto simp: list_outside_def irq_ok_def disable_int_def enable_int_def Let_def)
  ultimately show ?thesis using p(3) nm(2,3)
    by (intro exI [of _ l] exI [of _ nm] exI [of _ "enable_int (h\<lparr>vnodes := ?v\<rparr>)"]) (simp add: enable_int_def Let_def)
qed

section \<open>Insertion into the tree\<close>

lemma lists_at_snoc:
  assumes "lists_at m hs vss"
  shows "lists_at m (hs @ [zero_list]) (vss @ [[]])"
proof -
  obtain ass where a: "lists_on m hs ass vss" using assms by (auto simp: lists_at_def)
  have "list_at m zero_list [] []" by (simp add: list_at_def zero_list_def)
  then have "lists_on m (hs @ [zero_list]) (ass @ [[]]) (vss @ [[]])"
    using a by (auto simp: lists_on_def nth_append less_Suc_eq)
  then show ?thesis unfolding lists_at_def by blast
qed

lemma map_update_distinct: "distinct xs \<Longrightarrow> i < length xs \<Longrightarrow> (map f xs)[i := v] = map (f(xs ! i := v)) xs"
  by (auto intro!: nth_equalityI simp: nth_list_update nth_eq_iff_index_eq)

lemma fs_insert:
  assumes F: "fs_at s K k ds T" and i: "i < length ds" "vnodes s (ds ! i) = Some dn" and t: "t \<notin> set ds" "t \<noteq> 0"
    and v: "vnodes s' = (vnodes s)(ds ! i \<mapsto> dn\<lparr>vn_children := l\<rparr>, t \<mapsto> nt)" "vn_children nt = zero_list" "name_ok (vn_name nt)"
    and L: "lists_at (list_nodes s') ((map (kids s) ds)[i := l]) ((map T ds)[i := T (ds ! i) @ [t]])"
    and N: "nodes_in s' K' k'" "insert t (kptr ` K) \<subseteq> kptr ` K'"
  shows "fs_at s' K' k' (ds @ [t]) (T(ds ! i := T (ds ! i) @ [t], t := []))"
proof -
  let ?T = "T(ds ! i := T (ds ! i) @ [t], t := [])"
  note D = fs_atD [OF F]
  have kd: "kids s' c = (if c = t then zero_list else if c = ds ! i then l else kids s c)" for c
    using v(1,2) t by (auto simp: kids_def)
  have d: "ds ! i \<in> set ds" "ds ! i \<noteq> t" using i(1) t(1) by auto
  have "map (kids s') ds = (map (kids s) ds)[i := l]" unfolding map_update_distinct [OF D(2) i(1)] using t(1) by (auto simp: kd)
  then have 1: "map (kids s') (ds @ [t]) = (map (kids s) ds)[i := l] @ [zero_list]" by (simp add: kd [of t])
  have "map ?T ds = (map T ds)[i := T (ds ! i) @ [t]]" unfolding map_update_distinct [OF D(2) i(1)] using t(1) by auto
  then have 2: "map ?T (ds @ [t]) = (map T ds)[i := T (ds ! i) @ [t]] @ [[]]" by simp
  have "lists_at (list_nodes s') (map (kids s') (ds @ [t])) (map ?T (ds @ [t]))" unfolding 1 2 by (rule lists_at_snoc [OF L])
  moreover have "set (ds @ [t]) = dom (vnodes s')" using D(3) v(1) d by auto
  moreover have "set (ds @ [t]) \<subseteq> kptr ` K'" using D(4) N(2) by auto
  moreover have "c \<noteq> 0 \<and> set (?T c) \<subseteq> set (ds @ [t]) \<and> name_ok (vn_name (the (vnodes s' c)))" if "c \<in> set (ds @ [t])" for c
  proof (cases "c = t")
    case True
    then show ?thesis using t v by simp
  next
    case False
    then have c: "c \<in> set ds" using that by simp
    then have "name_ok (vn_name (the (vnodes s' c)))" using D(8) [OF c] v(1) i(2) False by auto
    then show ?thesis using D(6,7) [OF c] False by auto
  qed
  ultimately show ?thesis unfolding fs_at_def using N(1) D(2) t(1) by simp
qed

text \<open>What the insertion means for the search.\<close>

lemma find_snoc: "find P (xs @ [x]) = (case find P xs of None \<Rightarrow> if P x then Some x else None | Some y \<Rightarrow> Some y)"
  by (induction xs) auto

lemma child_of_insert:
  assumes F: "fs_at s K k ds T" and i: "i < length ds" "vnodes s (ds ! i) = Some dn" and t: "t \<notin> set ds" "t \<noteq> 0"
    and v: "vnodes s' = (vnodes s)(ds ! i \<mapsto> dn\<lparr>vn_children := l\<rparr>, t \<mapsto> nt)" "\<not> vn_hidden nt"
    and c: "c \<in> set ds" and T': "T' = T(ds ! i := T (ds ! i) @ [t], t := [])"
  shows "child_of s' T' c name = (if c = ds ! i \<and> cstr (vn_name nt) = cstr name \<and> child_of s T c name = 0 then t else child_of s T c name)"
proof -
  note D = fs_atD [OF F]
  have n: "named s' name x = named s name x" if "x \<in> set ds" for x
    using that t(1) i v(1) by (auto simp: named_def)
  have sub: "set (T c) \<subseteq> set ds" "c \<noteq> t" using D(7) [OF c] c t(1) by auto
  have f: "find (named s' name) (T c) = find (named s name) (T c)" using sub(1) n by (intro find_cong) auto
  have z: "find (named s name) (T c) = None \<longleftrightarrow> child_of s T c name = 0"
  proof (cases "find (named s name) (T c)")
    case (Some x)
    then have "x \<in> set ds" using sub(1) by (auto simp: find_Some_iff)
    then show ?thesis using Some D(6) by (simp add: child_of_def)
  qed (simp add: child_of_def)
  have nt: "named s' name t \<longleftrightarrow> cstr (vn_name nt) = cstr name" using v by (simp add: named_def)
  show ?thesis
  proof (cases "c = ds ! i")
    case True
    have "find (named s' name) (T c @ [t]) = (case find (named s name) (T c) of None \<Rightarrow> if cstr (vn_name nt) = cstr name then Some t else None | Some x \<Rightarrow> Some x)"
      using f nt by (simp add: find_snoc)
    then have "child_of s' T' c name = (case find (named s name) (T c) of None \<Rightarrow> if cstr (vn_name nt) = cstr name then t else 0 | Some x \<Rightarrow> x)"
      using True sub(2) by (simp add: child_of_def T' split: option.split)
    then show ?thesis using True z by (cases "find (named s name) (T c)") (simp_all add: child_of_def)
  next
    case False
    then show ?thesis using sub(2) f by (simp add: child_of_def T')
  qed
qed

section \<open>The creation of a vnode\<close>

lemma malloc_vnode_ok:
  assumes F: "fs_at s K (k + 2) ds T"
  shows "\<exists>t n K' s'. malloc_vnode s = Some (t, s') \<and> t \<noteq> 0 \<and> t \<notin> set ds \<and> nodes_in s' K' k \<and> kptr ` K' = insert t (kptr ` K)
     \<and> list_nodes s' = list_nodes s \<and> vnodes s' = (vnodes s)(t \<mapsto> n) \<and> length (vn_name n) = STRLEN"
proof -
  note D = fs_atD [OF F]
  obtain x h where x: "malloc 336 s = Some (kptr x, h)" "kptr x \<noteq> 0" "kptr x \<notin> kptr ` K" "nodes_in h (insert x K) k"
    "list_nodes h = list_nodes s" "outside s h"
    using nodes_in_alloc [OF D(1), of 336] by auto
  let ?n = "(stale_vnode h (kptr x))\<lparr>vn_name := bytes_at (kptr x + 60) STRLEN h\<rparr>"
  have "vnodes h = vnodes s" using more_vnodes more_nodes outsideD(5) [OF x(6)] by blast
  then have "malloc_vnode s = Some (kptr x, h\<lparr>vnodes := (vnodes s)(kptr x \<mapsto> ?n)\<rparr>)" using x(1,2) by (simp add: malloc_vnode_def)
  moreover have "kptr x \<notin> set ds" using x(3) D(4) by blast
  moreover have "length (vn_name ?n) = STRLEN" by (simp add: bytes_at_def)
  ultimately show ?thesis using x(2,4,5)
    by (intro exI [of _ "kptr x"] exI [of _ ?n] exI [of _ "insert x K"] exI [of _ "h\<lparr>vnodes := (vnodes s)(kptr x \<mapsto> ?n)\<rparr>"]) simp
qed

lemma tmpfs_block:
  assumes N: "nodes_in s K (k + 2)" and t: "vnodes s t = Some n"
  shows "\<exists>p K' s'. (do { (p, s) \<leftarrow> malloc_bytes MAX_FILE_SZ s; s \<leftarrow> upd_vnode t (\<lambda>n. n\<lparr>vn_internal := p\<rparr>) s; Some (if p = 0 then - 1 else 0 :: int, s) }) = Some (0, s')
     \<and> p \<noteq> 0 \<and> nodes_in s' K' k \<and> kptr ` K \<subseteq> kptr ` K' \<and> list_nodes s' = list_nodes s \<and> vnodes s' = (vnodes s)(t \<mapsto> n\<lparr>vn_internal := p\<rparr>)
     \<and> owned s' p MAX_FILE_SZ"
proof -
  obtain x h where x: "malloc MAX_FILE_SZ s = Some (kptr x, h)" "kptr x \<noteq> 0" "nodes_in h (insert x K) k" "list_nodes h = list_nodes s" "outside s h"
    using nodes_in_alloc [OF N, of MAX_FILE_SZ] by (auto simp: MAX_FILE_SZ_def)
  have v: "vnodes h = vnodes s" using more_vnodes more_nodes outsideD(5) [OF x(5)] by blast
  let ?h = "h\<lparr>ram_ok := (\<lambda>a. a - kptr x < MAX_FILE_SZ \<or> ram_ok h a), vnodes := (vnodes s)(t \<mapsto> n\<lparr>vn_internal := kptr x\<rparr>)\<rparr>"
  have "(do { (p, s) \<leftarrow> malloc_bytes MAX_FILE_SZ s; s \<leftarrow> upd_vnode t (\<lambda>n. n\<lparr>vn_internal := p\<rparr>) s; Some (if p = 0 then - 1 else 0 :: int, s) }) = Some (0, ?h)"
    using x(1,2) v t by (simp add: malloc_bytes_def upd_vnode_def)
  moreover have "owned ?h (kptr x) MAX_FILE_SZ" by (simp add: owned_def)
  ultimately show ?thesis using x(2-4) by (intro exI [of _ "kptr x"] exI [of _ "insert x K"] exI [of _ ?h]) auto
qed

lemma tmpfs_init_rest:
  assumes "init_vnode d t type name s = Some (0, s2)" "nodes_in s2 K (k + 2)" "vnodes s2 t = Some n"
  shows "\<exists>p K' s'. tmpfs_init_vnode d t type name s = Some (0, s') \<and> nodes_in s' K' k \<and> kptr ` K \<subseteq> kptr ` K' \<and> list_nodes s' = list_nodes s2
     \<and> vnodes s' = (vnodes s2)(t \<mapsto> n\<lparr>vn_internal := p\<rparr>) \<and> (type = FILE \<longrightarrow> owned s' p MAX_FILE_SZ)"
proof (cases "type = FILE")
  case True
  obtain p K' s' where 3: "(do { (p, s) \<leftarrow> malloc_bytes MAX_FILE_SZ s2; s \<leftarrow> upd_vnode t (\<lambda>n. n\<lparr>vn_internal := p\<rparr>) s; Some (if p = 0 then - 1 else 0 :: int, s) }) = Some (0, s')"
    "nodes_in s' K' k" "kptr ` K \<subseteq> kptr ` K'" "list_nodes s' = list_nodes s2" "vnodes s' = (vnodes s2)(t \<mapsto> n\<lparr>vn_internal := p\<rparr>)" "owned s' p MAX_FILE_SZ"
    using tmpfs_block [OF assms(2,3)] by (elim exE conjE)
  then have "tmpfs_init_vnode d t type name s = Some (0, s')" using assms(1) True by (simp add: tmpfs_init_vnode_def)
  then show ?thesis using 3(2-6) by blast
next
  case False
  have "tmpfs_init_vnode d t type name s = Some (0, s2)" using assms(1) False by (simp add: tmpfs_init_vnode_def)
  moreover have "vnodes s2 = (vnodes s2)(t \<mapsto> n\<lparr>vn_internal := vn_internal n\<rparr>)" using assms(3) by auto
  ultimately show ?thesis using nodes_in_mono [OF assms(2), of k] False by (intro exI [of _ "vn_internal n"] exI [of _ K] exI [of _ s2]) simp
qed

lemma tmpfs_create_ok:
  assumes F: "fs_at s K (k + 5) ds T" and i: "i < length ds" "ds ! i = d" and name: "0 \<in> set name" "length (cstr name) < STRLEN"
  shows "\<exists>t dn l nt K' s'. tmpfs_create d name type s = Some (0, t, s') \<and> t \<notin> set ds \<and> t \<noteq> 0 \<and> vnodes s d = Some dn
     \<and> vnodes s' = (vnodes s)(d \<mapsto> dn\<lparr>vn_children := l\<rparr>, t \<mapsto> nt) \<and> fs_at s' K' k (ds @ [t]) (T(d := T d @ [t], t := []))
     \<and> \<not> vn_hidden nt \<and> cstr (vn_name nt) = cstr name \<and> vn_type nt = type \<and> vn_parent nt = d \<and> vn_file_size nt = 0 \<and> (type = FILE \<longrightarrow> owned s' (vn_internal nt) MAX_FILE_SZ)"
proof -
  note D = fs_atD [OF F]
  have d: "d \<in> set ds" using i by auto
  obtain dn where dn: "vnodes s d = Some dn" using D(3) d by auto
  have "(k + 3) + 2 = k + 5" by simp
  then have "fs_at s K ((k + 3) + 2) ds T" using F by metis
  then obtain t n K1 s1 where 1: "malloc_vnode s = Some (t, s1)" "t \<noteq> 0" "t \<notin> set ds" "nodes_in s1 K1 (k + 3)" "kptr ` K1 = insert t (kptr ` K)"
    "list_nodes s1 = list_nodes s" "vnodes s1 = (vnodes s)(t \<mapsto> n)" "length (vn_name n) = STRLEN"
    using malloc_vnode_ok [of s K "k + 3" ds T] by blast
  have td: "t \<noteq> d" using 1(3) d by blast
  have N1: "nodes_in s1 K1 (Suc (k + 2))" using 1(4) by (simp add: numeral_eq_Suc)
  have L1: "lists_at (list_nodes s1) (map (kids s) ds) (map T ds)" using D(5) 1(6) by simp
  obtain l nm s2 where 2: "init_vnode d t type name s1 = Some (0, s2)" "nodes_in s2 K1 (k + 2)"
    "lists_at (list_nodes s2) ((map (kids s) ds)[i := l]) ((map T ds)[i := map T ds ! i @ [t]])"
    "vnodes s2 = (vnodes s1)(d \<mapsto> dn\<lparr>vn_children := l\<rparr>, t \<mapsto> fresh_vnode d dn type nm n)" "cstr nm = cstr name" "name_ok nm"
    using init_vnode_ok [OF N1 L1 _ _ _ D(6) [OF d] _ 1(2) td 1(8) name, of i dn type] i dn 1(7) td by (auto simp: kids_def)
  let ?nt = "fresh_vnode d dn type nm n"
  have v2: "vnodes s2 = (vnodes s)(d \<mapsto> dn\<lparr>vn_children := l\<rparr>, t \<mapsto> ?nt)" using 2(4) 1(7) td by (simp add: fun_upd_twist)
  have L2: "lists_at (list_nodes s2) ((map (kids s) ds)[i := l]) ((map T ds)[i := T (ds ! i) @ [t]])" using 2(3) i(1) by simp
  have nt: "vnodes s2 t = Some ?nt" using v2 by simp
  have "\<exists>p K' s'. tmpfs_init_vnode d t type name s1 = Some (0, s') \<and> nodes_in s' K' k \<and> kptr ` K1 \<subseteq> kptr ` K' \<and> list_nodes s' = list_nodes s2
     \<and> vnodes s' = (vnodes s2)(t \<mapsto> ?nt\<lparr>vn_internal := p\<rparr>) \<and> (type = FILE \<longrightarrow> owned s' p MAX_FILE_SZ)"
    by (rule tmpfs_init_rest [OF 2(1,2) nt])
  then obtain p K' s' where r: "tmpfs_init_vnode d t type name s1 = Some (0, s')" "vnodes s' = (vnodes s2)(t \<mapsto> ?nt\<lparr>vn_internal := p\<rparr>)"
    and 3: "nodes_in s' K' k" "kptr ` K1 \<subseteq> kptr ` K'" "list_nodes s' = list_nodes s2" "type = FILE \<longrightarrow> owned s' p MAX_FILE_SZ" by (elim exE conjE)
  have 4: "tmpfs_create d name type s = Some (0, t, s')" "vnodes s' = (vnodes s)(d \<mapsto> dn\<lparr>vn_children := l\<rparr>, t \<mapsto> ?nt\<lparr>vn_internal := p\<rparr>)"
    using r 1(1) v2 by (simp_all add: tmpfs_create_def)
  let ?n = "?nt\<lparr>vn_internal := p\<rparr>"
  have f: "vn_children ?n = zero_list" "vn_name ?n = nm" "\<not> vn_hidden ?n" "vn_type ?n = type" "vn_parent ?n = d" "vn_file_size ?n = 0" "vn_internal ?n = p"
    by (simp_all add: fresh_vnode_def)
  have "fs_at s' K' k (ds @ [t]) (T(ds ! i := T (ds ! i) @ [t], t := []))"
    using fs_insert [OF F i(1), of dn t s' l ?n K' k] dn i(2) 1(2,3,5) 3(1-3) 4(2) f(1,2) 2(6) L2 by auto
  then show ?thesis using 4 3(4) 1(2,3) dn f 2(5) i(2)
    by (intro exI [of _ t] exI [of _ dn] exI [of _ l] exI [of _ ?n] exI [of _ K'] exI [of _ s']) simp
qed

end
