(* ===== verification/Ram_Store.thy ===== *)
theory Ram_Store
  imports Ram_Correct
begin

text \<open>Bytes stored in memory one by one.\<close>

definition stored :: "u64 \<Rightarrow> u8 list \<Rightarrow> (u64 \<Rightarrow> u8) \<Rightarrow> u64 \<Rightarrow> u8" where
  "stored a bs m = (\<lambda>x. if unat (x - a) < length bs then bs ! unat (x - a) else m x)"

lemma stored_Cons:
  assumes "length (b # bs) < 2 ^ 64"
  shows "stored (a + 1) bs (m(a := b)) = stored a (b # bs) m"
proof
  fix x
  show "stored (a + 1) bs (m(a := b)) x = stored a (b # bs) m x"
  proof (cases "x = a")
    case True
    have "unat (- 1 :: u64) = 2 ^ 64 - 1" by (simp add: unsigned_minus_1_eq_mask mask_eq_exp_minus_1)
    then show ?thesis using assms True by (simp add: stored_def)
  next
    case False
    then have u: "unat (x - a) = Suc (unat (x - a - 1))" using unat_minus_one [of "x - a"] by (simp add: unat_gt_0)
    have e: "x - (a + 1) = x - a - 1" by simp
    show ?thesis unfolding stored_def e using u False by simp
  qed
qed

lemma owned_step:
  assumes "owned s a (of_nat (Suc n))" "Suc n < 2 ^ 64"
  shows "ram_ok s a" "owned s (a + 1) (of_nat n)"
proof -
  note L = less_Suc_word [OF assms(2)]
  show "ram_ok s a" using assms(1) L [of 0] by (auto simp: owned_def simp del: of_nat_Suc)
  show "owned s (a + 1) (of_nat n)"
    unfolding owned_def
  proof (intro allI impI)
    fix x assume "x - (a + 1) < of_nat n"
    then have "x - a < of_nat (Suc n)" using L [of "x - a"] by (simp add: algebra_simps del: of_nat_Suc)
    then show "ram_ok s x" using assms(1) by (auto simp: owned_def simp del: of_nat_Suc)
  qed
qed

end
