(* ===== verification/Fat32_Correct.thy ===== *)
theory Fat32_Correct
  imports Fs_Tree Sample_Io Ram_Store
begin

text \<open>
  Reading a file of a FAT32 volume: the sectors of its chain of clusters are read from the card into blocks of memory of their own, and a read copies from these blocks.
  The invariant \<open>cache_at\<close> says which blocks the cache of a file consists of.
\<close>

section \<open>Memory\<close>

lemma store_bytes_ok:
  "length bs < 2 ^ 64 \<Longrightarrow> owned s a (of_nat (length bs)) \<Longrightarrow> store_bytes a bs s = Some (s\<lparr>ram := stored a bs (ram s)\<rparr>)"
proof (induction bs arbitrary: a s)
  case Nil
  then show ?case by (cases s) (simp add: stored_def)
next
  case (Cons b bs)
  have n: "Suc (length bs) < 2 ^ 64" using Cons.prems(1) by simp
  let ?s = "s\<lparr>ram := (ram s)(a := b)\<rparr>"
  have ok: "ram_ok s a" "owned ?s (a + 1) (of_nat (length bs))" using owned_step [of s a "length bs"] Cons.prems(2) n by (simp_all add: owned_def)
  then have "store_bytes (a + 1) bs ?s = Some (?s\<lparr>ram := stored (a + 1) bs (ram ?s)\<rparr>)" using Cons.IH [of ?s "a + 1"] ok(2) n by (simp del: fun_upd_apply)
  then show ?case using ok stored_Cons [of b bs a "ram s"] Cons.prems(1) by (simp add: wr8_def del: fun_upd_apply)
qed

section \<open>Live memory\<close>

lemma live_bound:
  assumes "dyn_live s L" "x \<in> L"
  shows "fst x + snd x \<le> 2 ^ 42"
proof -
  obtain PL C where R: "dyn_rel PL C s" and x: "x \<in> live_ranges PL C s" using assms by (auto simp: dyn_live_def)
  obtain i e where i: "used_at (arr s) i e" "e \<le> num_pages_exp s" "fst x + snd x \<le> (i + 2 ^ e) * 4096"
    using live_block_kind [OF R x] by blast
  have "is_head (arr s) i" "bexp (arr s ! i) = e" using i(1,2) dyn_pages(1) [OF R] by (auto simp: used_at_def is_head_def)
  then have "i + 2 ^ e \<le> 2 ^ num_pages_exp s" using block_fits [OF dyn_pages(2) [OF R]] by metis
  also have "\<dots> \<le> 2 ^ 30" using dyn_pages(1) [OF R] by (intro power_increasing) simp_all
  finally show ?thesis using i(3) by simp
qed

lemma kptr_unat:
  assumes "fst x \<le> 2 ^ 42"
  shows "unat (kptr x) = 0xffff000000000000 + fst x"
proof -
  have "kptr x = of_nat (0xffff000000000000 + fst x)" by (simp add: kptr_def p2v_trans_kernel_def V_KERNEL_SPACE_def)
  moreover have "0xffff000000000000 + fst x < 2 ^ LENGTH(64)" using assms by simp
  ultimately show ?thesis using unat_of_nat_small [of "0xffff000000000000 + fst x", where 'a = 64] by metis
qed

lemma nodes_in_live: "nodes_in s K k \<Longrightarrow> \<exists>L. dyn_live s L \<and> K \<subseteq> L"
  by (auto simp: nodes_in_def node_heap_def)

lemma kptr_apart:
  assumes "nodes_in s K k" "x \<in> K" "y \<in> K" "x \<noteq> y" "unat n \<le> snd x" "unat m \<le> snd y"
  shows "apart (kptr x) n (kptr y) m"
proof -
  obtain L where L: "dyn_live s L" "x \<in> L" "y \<in> L" using nodes_in_live [OF assms(1)] assms(2,3) by blast
  have b: "fst x + snd x \<le> 2 ^ 42" "fst y + snd y \<le> 2 ^ 42" using live_bound [OF L(1)] L(2,3) by auto
  have u: "unat (kptr x) = 0xffff000000000000 + fst x" "unat (kptr y) = 0xffff000000000000 + fst y" using b kptr_unat by auto
  have z: "0 < snd x" "0 < snd y" using dyn_live_range(1) [OF L(1)] L(2,3) by auto
  have "range_of x \<inter> range_of y = {}" using heap.apart_law [OF L assms(4)] .
  then have "fst x + snd x \<le> fst y \<or> fst y + snd y \<le> fst x"
    using z by (auto simp: range_of_def disjoint_iff)
  then show ?thesis
  proof
    assume "fst x + snd x \<le> fst y"
    then show ?thesis using u b assms(5,6) by (intro apartI) simp_all
  next
    assume "fst y + snd y \<le> fst x"
    then show ?thesis using u b assms(5,6) by (intro apart_sym [OF apartI]) simp_all
  qed
qed

section \<open>The cache of a file\<close>

text \<open>What loading a file leaves alone.\<close>

definition kept :: "'a vfs_data_scheme \<Rightarrow> 'a vfs_data_scheme \<Rightarrow> bool" where
  "kept s s' \<longleftrightarrow> fat32_data s' = fat32_data s \<and> is_hcs s' = is_hcs s \<and> vnodes s' = vnodes s \<and> files s' = files s \<and> (\<forall>a. ram_ok s a \<longrightarrow> ram_ok s' a)"

text \<open>The cache with the descriptor \<open>md\<close> consists of the blocks \<open>ps\<close>.\<close>

definition cache_at :: "'a vfs_data_scheme \<Rightarrow> (nat \<times> nat) set \<Rightarrow> nat \<Rightarrow> u64 \<Rightarrow> u64 list \<Rightarrow> bool" where
  "cache_at s K k md ps \<longleftrightarrow> nodes_in s K k \<and> (\<exists>m. f_datas s md = Some m \<and> lists_at (list_nodes s) [content_cache m] [ps])
     \<and> (\<forall>p \<in> set ps. \<exists>x \<in> K. p = kptr x \<and> 512 \<le> snd x \<and> owned s p 512)"

lemma io_more:
  assumes "list_data.more s' = list_data.more s"
  shows "ram s' = ram s" "ram_ok s' = ram_ok s" "fat32_data s' = fat32_data s" "is_hcs s' = is_hcs s" "mmio s' = mmio s" "f_datas s' = f_datas s" "files s' = files s"
  using assms by (cases s; cases s'; simp)+

lemma nodes_in_ram [simp]:
  "nodes_in (s\<lparr>ram := m\<rparr>) K k = nodes_in s K k" "nodes_in (s\<lparr>ram_ok := r\<rparr>) K k = nodes_in s K k" "nodes_in (s\<lparr>f_datas := f\<rparr>) K k = nodes_in s K k"
  "nodes_in (s\<lparr>mmio := d\<rparr>) K k = nodes_in s K k"
  using nodes_in_truncated [of s] nodes_in_truncated [of "s\<lparr>ram := m\<rparr>"] nodes_in_truncated [of "s\<lparr>ram_ok := r\<rparr>"]
    nodes_in_truncated [of "s\<lparr>f_datas := f\<rparr>"] nodes_in_truncated [of "s\<lparr>mmio := d\<rparr>"] by (simp_all add: list_data.defs)

lemma add_new_cache_sec_ok:
  assumes C: "cache_at s K (k + 3) md ps" and v: "BPB_BytsPerSec (fat32_data s) = 512"
  shows "\<exists>x s'. add_new_cache_sec md s = Some (kptr x, s') \<and> x \<notin> K \<and> 512 \<le> snd x \<and> owned s' (kptr x) 512 \<and> cache_at s' (insert x K) k md (ps @ [kptr x])
     \<and> kept s s' \<and> mmio s' = mmio s \<and> ram s' = stored (kptr x) (replicate 512 0) (ram s)"
proof -
  obtain m where m: "f_datas s md = Some m" "lists_at (list_nodes s) [content_cache m] [ps]" and N: "nodes_in s K (k + 3)"
    and P: "\<forall>p \<in> set ps. \<exists>x \<in> K. p = kptr x \<and> 512 \<le> snd x \<and> owned s p 512" using C by (auto simp: cache_at_def)
  obtain x h where x: "malloc 512 s = Some (kptr x, h)" "kptr x \<noteq> 0" "kptr x \<notin> kptr ` K" "nodes_in h (insert x K) (k + 1)" "list_nodes h = list_nodes s" "outside s h" "512 \<le> snd x"
    using nodes_in_alloc [of s K "k + 1" 512] N by (auto simp: numeral_3_eq_3)
  have hm: "list_data.more h = list_data.more s" using more_nodes outsideD(5) [OF x(6)] by blast
  note h = io_more [OF hm] more_vnodes [OF hm]
  let ?h = "h\<lparr>ram_ok := (\<lambda>a. a - kptr x < 512 \<or> ram_ok h a)\<rparr>"
  let ?g = "?h\<lparr>ram := stored (kptr x) (replicate 512 0) (ram h)\<rparr>"
  have o: "owned ?h (kptr x) 512" by (simp add: owned_def)
  have st: "store_bytes (kptr x) (replicate 512 0) ?h = Some ?g" using store_bytes_ok [of "replicate 512 0" ?h "kptr x"] o by simp
  have "nodes_in ?g (insert x K) (Suc k)" using x(4) by simp
  moreover have "lists_at (list_nodes ?g) [content_cache m] [ps]" using m(2) x(5) by simp
  ultimately obtain l g where p: "list_push (content_cache m) (kptr x) ?g = Some (l, g)" "nodes_in g (insert x K) k" "lists_at (list_nodes g) [l] [ps @ [kptr x]]" "list_outside ?g g"
    using lists_push [of ?g "insert x K" k "[content_cache m]" "[ps]" 0 "kptr x"] by auto
  have gm: "list_data.more g = list_data.more ?g" using p(4) by (simp add: list_outside_def)
  note g = io_more [OF gm] more_vnodes [OF gm]
  let ?s = "g\<lparr>f_datas := (f_datas s)(md \<mapsto> m\<lparr>content_cache := l\<rparr>)\<rparr>"
  have "malloc_bytes 512 s = Some (kptr x, ?h)" using x(1,2) by (simp add: malloc_bytes_def)
  then have "add_new_cache_sec md s = Some (kptr x, ?s)"
    using v x(2) st p(1) m(1) g(6) h(3,6) by (simp add: add_new_cache_sec_def BytsPerSec_def upd_f_data_def)
  moreover have "ram_ok ?s = (\<lambda>a. a - kptr x < 512 \<or> ram_ok s a)" using g(2) h(2) by simp
  then have ow: "owned ?s (kptr x) 512" "\<And>p. owned s p 512 \<Longrightarrow> owned ?s p 512" "\<forall>a. ram_ok s a \<longrightarrow> ram_ok ?s a" by (simp_all add: owned_def)
  moreover have "kept s ?s" using g h ow(3) by (simp add: kept_def)
  moreover have "cache_at ?s (insert x K) k md (ps @ [kptr x])" unfolding cache_at_def using p(2,3) P ow x(7) by auto
  moreover have "x \<notin> K" using x(3) by blast
  ultimately show ?thesis using x(7) g(1,5) h(1,5) by (intro exI [of _ x] exI [of _ ?s]) simp
qed

lemma length_bytes_of: "length (bytes_of ws) = 4 * length ws"
  by (induction ws) (simp_all add: bytes_of_def)

lemma stored_again:
  assumes "length bs = length cs"
  shows "stored a bs (stored a cs m) = stored a bs m"
  using assms by (auto simp: stored_def)

text \<open>One step of loading.\<close>

lemma load_sector:
  assumes C: "cache_at s K (k + 3) md ps" and v: "BPB_BytsPerSec (fat32_data s) = 512" and B: "card_at B (mmio s)"
  shows "\<exists>x s1 s'. add_new_cache_sec md s = Some (kptr x, s1) \<and> fat32_data s1 = fat32_data s \<and> readblock_at i (kptr x) s1 = Some s' \<and> x \<notin> K \<and> 512 \<le> snd x
     \<and> cache_at s' (insert x K) k md (ps @ [kptr x]) \<and> kept s s' \<and> card_at B (mmio s') \<and> ram s' = stored (kptr x) (bytes_of (B (block_addr (is_hcs s) i))) (ram s)"
proof -
  obtain x s1 where a: "add_new_cache_sec md s = Some (kptr x, s1)" "x \<notin> K" "512 \<le> snd x" "owned s1 (kptr x) 512" "cache_at s1 (insert x K) k md (ps @ [kptr x])"
    "kept s s1" "mmio s1 = mmio s" "ram s1 = stored (kptr x) (replicate 512 0) (ram s)" using add_new_cache_sec_ok [OF C v] by (elim exE conjE)
  let ?bs = "bytes_of (B (block_addr (is_hcs s) i))"
  obtain d where d: "readblock (is_hcs s) i (mmio s) = Some (B (block_addr (is_hcs s) i), d)" "card_at B d" using readblock_card [OF B] by blast
  have l: "length ?bs = 512" using B by (simp add: length_bytes_of card_at_def blocks_ok_def)
  let ?s = "s1\<lparr>mmio := d, ram := stored (kptr x) ?bs (ram s)\<rparr>"
  have "store_bytes (kptr x) ?bs (s1\<lparr>mmio := d\<rparr>) = Some ?s"
    using store_bytes_ok [of ?bs "s1\<lparr>mmio := d\<rparr>" "kptr x"] l a(4,8) stored_again [of ?bs "replicate 512 0"] by (simp add: owned_def)
  then have "readblock_at i (kptr x) s1 = Some ?s" using d(1) a(6,7) by (simp add: readblock_at_def kept_def)
  moreover have "cache_at ?s (insert x K) k md (ps @ [kptr x])" using a(5) by (simp add: cache_at_def owned_def)
  moreover have "kept s ?s" "fat32_data s1 = fat32_data s" using a(6) by (simp_all add: kept_def)
  ultimately show ?thesis using a(1-3) d(2) by (intro exI [of _ x] exI [of _ s1] exI [of _ ?s]) simp
qed

section \<open>Loading a chain of clusters\<close>

text \<open>The next \<open>n\<close> sectors from sector \<open>i\<close> of cluster \<open>c\<close> on, with \<open>p\<close> sectors per cluster, and whether the chain in the table \<open>F\<close> is long enough.\<close>

fun sectors :: "(u32 \<Rightarrow> u32) \<Rightarrow> nat \<Rightarrow> u32 \<Rightarrow> nat \<Rightarrow> nat \<Rightarrow> (u32 \<times> nat) list" where
  "sectors F p c i 0 = []"
| "sectors F p c i (Suc n) =
     (if i < p then (c, i) # sectors F p c (i + 1) n
      else (F c AND FAT_VAL_MASK, 0) # sectors F p (F c AND FAT_VAL_MASK) 1 n)"

fun chain_ok :: "(u32 \<Rightarrow> u32) \<Rightarrow> u32 \<Rightarrow> nat \<Rightarrow> u32 \<Rightarrow> nat \<Rightarrow> nat \<Rightarrow> bool" where
  "chain_ok F e p c i 0 = True"
| "chain_ok F e p c i (Suc n) =
     (if i < p then chain_ok F e p c (i + 1) n
      else F c \<noteq> e \<and> chain_ok F e p (F c AND FAT_VAL_MASK) 1 n)"

lemma length_sectors [simp]: "length (sectors F p c i n) = n"
  by (induction n arbitrary: c i) simp_all

text \<open>The block of a sector.\<close>

definition sector_block :: "'a vfs_data_scheme \<Rightarrow> u32 \<times> nat \<Rightarrow> u32" where
  "sector_block s ci = block_addr (is_hcs s) (start_blk_idx (fat32_data s) + FirstSectorofCluster (fst ci) s + of_nat (snd ci))"

text \<open>The allocation table is a block of live memory, and the entries of the clusters \<open>C\<close>, which include their successors, are \<open>F\<close>.\<close>

definition fat_at :: "'a vfs_data_scheme \<Rightarrow> (nat \<times> nat) set \<Rightarrow> (u32 \<Rightarrow> u32) \<Rightarrow> u32 set \<Rightarrow> bool" where
  "fat_at s K F C \<longleftrightarrow> (\<exists>z \<in> K. fat_cache (fat32_data s) = kptr z \<and> (\<forall>c \<in> C. 4 * unat c + 4 \<le> snd z))
     \<and> (\<forall>c \<in> C. get_fat_entry c s = Some (F c) \<and> (F c \<noteq> end_of_file (fat32_data s) \<longrightarrow> F c AND FAT_VAL_MASK \<in> C))"

text \<open>Memory in live blocks is kept.\<close>

definition ram_kept :: "(nat \<times> nat) set \<Rightarrow> 'a vm_data_scheme \<Rightarrow> 'a vm_data_scheme \<Rightarrow> bool" where
  "ram_kept K s s' \<longleftrightarrow> (\<forall>y \<in> K. \<forall>a. unat (a - kptr y) < snd y \<longrightarrow> ram s' a = ram s a)"

lemma ram_kept_stored:
  assumes "nodes_in s K' k" "K' = insert x K" "x \<notin> K" "length bs \<le> snd x" "ram s' = stored (kptr x) bs (ram s0)"
  shows "ram_kept K s0 s'"
  unfolding ram_kept_def
proof (intro ballI allI impI)
  fix y a assume y: "y \<in> K" "unat (a - kptr y) < snd y"
  obtain L where L: "dyn_live s L" "K' \<subseteq> L" using nodes_in_live [OF assms(1)] by blast
  have b: "snd x \<le> 2 ^ 42" "snd y \<le> 2 ^ 42" using live_bound [OF L(1), of x] live_bound [OF L(1), of y] L(2) assms(2) y(1) by auto
  have u: "unat (of_nat (snd x) :: u64) = snd x" "unat (of_nat (snd y) :: u64) = snd y" using b by (simp_all add: unat_of_nat_small)
  have "apart (kptr x) (of_nat (snd x)) (kptr y) (of_nat (snd y))"
    using kptr_apart [OF assms(1), of x y "of_nat (snd x)" "of_nat (snd y)"] assms(2,3) y(1) u by auto
  then have "\<not> unat (a - kptr x) < snd x" using y(2) u unfolding apart_def word_less_nat_alt by metis
  then show "ram s' a = ram s0 a" using assms(4,5) by (simp add: stored_def)
qed

lemma fat_index:
  fixes c :: u32 and j :: u64
  assumes "unat j < 4"
  shows "unat (4 * ucast c + j) = 4 * unat c + unat j"
proof -
  have "4 * ucast c + j = (of_nat (4 * unat c + unat j) :: u64)" by simp
  moreover have "4 * unat c + unat j < 2 ^ LENGTH(64)" using assms unsigned_less [of c, where 'a = nat] by simp
  ultimately show ?thesis using unat_of_nat_small [of "4 * unat c + unat j", where 'a = 64] by metis
qed

lemma rd32_frame:
  assumes "rd32 a s = Some v" "\<And>j. j < 4 \<Longrightarrow> ram_ok s (a + j) \<Longrightarrow> ram_ok s' (a + j)" "\<And>j. j < 4 \<Longrightarrow> ram s' (a + j) = ram s (a + j)"
  shows "rd32 a s' = Some v"
proof -
  have r: "rd8 (a + j) s' = rd8 (a + j) s" if "j < 4" "rd8 (a + j) s \<noteq> None" for j
    using assms(2,3) [of j] that by (auto simp: rd8_def split: if_splits)
  show ?thesis using assms(1) r [of 0] r [of 1] r [of 2] r [of 3] by (auto simp: rd32_def split: Option.bind_splits)
qed

lemma fat_at_frame:
  assumes F: "fat_at s K F C" and "kept s s'" "ram_kept K s s'" "K \<subseteq> K'"
  shows "fat_at s' K' F C"
proof -
  obtain z where z: "z \<in> K" "fat_cache (fat32_data s) = kptr z" "\<forall>c \<in> C. 4 * unat c + 4 \<le> snd z" using F by (auto simp: fat_at_def)
  have k: "fat32_data s' = fat32_data s" "\<And>a. ram_ok s a \<Longrightarrow> ram_ok s' a" using assms(2) by (simp_all add: kept_def)
  have "get_fat_entry c s' = Some (F c)" if c: "c \<in> C" for c
  proof -
    have r: "ram s' (fat_entry_addr c s + j) = ram s (fat_entry_addr c s + j)" if "j < 4" for j
    proof -
      have j: "unat j < 4" using that by (simp add: word_less_nat_alt)
      have e: "fat_entry_addr c s + j - kptr z = 4 * ucast c + j" using z(2) by (simp add: fat_entry_addr_def)
      have "unat (fat_entry_addr c s + j - kptr z) < snd z" unfolding e fat_index [OF j] using bspec [OF z(3) c] j by linarith
      then show ?thesis using assms(3) z(1) by (simp add: ram_kept_def)
    qed
    have "rd32 (fat_entry_addr c s) s = Some (F c)" using F c by (simp add: fat_at_def get_fat_entry_def)
    then have "rd32 (fat_entry_addr c s) s' = Some (F c)" by (rule rd32_frame [OF _ k(2) r])
    then show ?thesis using k(1) by (simp add: get_fat_entry_def fat_entry_addr_def)
  qed
  then show ?thesis using F z(1,3) assms(4) k(1) by (auto simp: fat_at_def)
qed

text \<open>The blocks \<open>xs\<close> hold the sectors \<open>cs\<close> of the card.\<close>

definition holds :: "'a vm_data_scheme \<Rightarrow> (nat \<times> nat) list \<Rightarrow> u8 list list \<Rightarrow> bool" where
  "holds s xs bss \<longleftrightarrow> length xs = length bss \<and> (\<forall>j < length xs. \<forall>a. unat (a - kptr (xs ! j)) < 512 \<longrightarrow> ram s a = (bss ! j) ! unat (a - kptr (xs ! j)))"

definition sector_bytes :: "(u32 \<Rightarrow> u32 list) \<Rightarrow> 'a vfs_data_scheme \<Rightarrow> (u32 \<times> nat) list \<Rightarrow> u8 list list" where
  "sector_bytes B s cs = map (\<lambda>ci. bytes_of (B (sector_block s ci))) cs"

lemma sector_bytes_kept: "kept s s' \<Longrightarrow> sector_bytes B s' cs = sector_bytes B s cs"
  by (simp add: sector_bytes_def sector_block_def kept_def FirstSectorofCluster_def FirstDataSector_def)

lemma holds_Cons:
  assumes "holds s' xs bss" "512 \<le> snd x" "ram_kept (insert x K) s s'" "ram s = stored (kptr x) bs m" "length bs = 512"
  shows "holds s' (x # xs) (bs # bss)"
  unfolding holds_def
proof (intro conjI allI impI)
  fix j a assume j: "j < length (x # xs)" "unat (a - kptr ((x # xs) ! j)) < 512"
  show "ram s' a = ((bs # bss) ! j) ! unat (a - kptr ((x # xs) ! j))"
  proof (cases j)
    case 0
    then have "ram s' a = ram s a" using assms(2,3) j(2) by (simp add: ram_kept_def)
    then show ?thesis using 0 j(2) assms(4,5) by (simp add: stored_def)
  next
    case (Suc i)
    then show ?thesis using assms(1) j by (simp add: holds_def)
  qed
qed (use assms(1) in \<open>simp add: holds_def\<close>)

lemma kept_trans: "kept s s1 \<Longrightarrow> kept s1 s2 \<Longrightarrow> kept s s2"
  by (auto simp: kept_def)

lemma ram_kept_trans: "ram_kept K s s1 \<Longrightarrow> ram_kept K' s1 s2 \<Longrightarrow> K \<subseteq> K' \<Longrightarrow> ram_kept K s s2"
  unfolding ram_kept_def by (metis subsetD)

text \<open>Everything that loading \<open>n\<close> sectors needs and gives.\<close>

definition volume_at :: "'a vfs_data_scheme \<Rightarrow> (nat \<times> nat) set \<Rightarrow> (u32 \<Rightarrow> u32 list) \<Rightarrow> (u32 \<Rightarrow> u32) \<Rightarrow> u32 set \<Rightarrow> bool" where
  "volume_at s K B F C \<longleftrightarrow> BPB_BytsPerSec (fat32_data s) = 512 \<and> 0 < SecPerClus s \<and> card_at B (mmio s) \<and> fat_at s K F C"

definition loaded :: "'a vfs_data_scheme \<Rightarrow> (nat \<times> nat) set \<Rightarrow> nat \<Rightarrow> (u32 \<Rightarrow> u32 list) \<Rightarrow> (u32 \<Rightarrow> u32) \<Rightarrow> u32 set \<Rightarrow> u64 \<Rightarrow> u64 list \<Rightarrow> (u32 \<times> nat) list
     \<Rightarrow> (nat \<times> nat) list \<Rightarrow> 'a vfs_data_scheme \<Rightarrow> bool" where
  "loaded s K k B F C md ps cs xs s' \<longleftrightarrow> cache_at s' (set xs \<union> K) k md (ps @ map kptr xs) \<and> volume_at s' (set xs \<union> K) B F C
     \<and> kept s s' \<and> ram_kept K s s' \<and> holds s' xs (sector_bytes B s cs) \<and> set xs \<inter> K = {}"

lemma load_loop_end:
  assumes V: "volume_at s K B F C" and c: "c \<in> C" and n: "vnodes s node = Some nd" "vn_type nd = FILE" "vn_file_size nd \<le> of_nat (sec_cnt * 512)"
  shows "load_loop node md c i sec_cnt s = Some s"
proof -
  have b: "BytsPerSec s = 512" "0 < SecPerClus s" using V by (simp_all add: volume_at_def BytsPerSec_def)
  have "load_loop node md c' 0 sec_cnt s = Some s" for c' using n b by (subst load_loop.simps) simp
  moreover have "get_fat_entry c s = Some (F c)" using V c by (simp add: volume_at_def fat_at_def)
  ultimately show ?thesis using n b by (subst load_loop.simps) simp
qed

lemma load_loop_step:
  assumes V: "volume_at s K B F C" and CA: "cache_at s K (k + 3) md ps" and i: "i < SecPerClus s"
    and n: "vnodes s node = Some nd" "\<not> vn_file_size nd \<le> of_nat (sec_cnt * 512)"
  obtains x s' where "load_loop node md c i sec_cnt s = load_loop node md c (i + 1) (sec_cnt + 1) s'" "x \<notin> K" "512 \<le> snd x"
    "cache_at s' (insert x K) k md (ps @ [kptr x])" "volume_at s' (insert x K) B F C" "kept s s'" "ram_kept K s s'"
    "ram s' = stored (kptr x) (bytes_of (B (sector_block s (c, i)))) (ram s)"
proof -
  have b: "BPB_BytsPerSec (fat32_data s) = 512" "BytsPerSec s = 512" "card_at B (mmio s)" "fat_at s K F C" "0 < SecPerClus s" using V by (simp_all add: volume_at_def BytsPerSec_def)
  obtain x s1 s' where x: "add_new_cache_sec md s = Some (kptr x, s1)" "fat32_data s1 = fat32_data s"
    "readblock_at (start_blk_idx (fat32_data s) + FirstSectorofCluster c s + of_nat i) (kptr x) s1 = Some s'" "x \<notin> K" "512 \<le> snd x"
    "cache_at s' (insert x K) k md (ps @ [kptr x])" "kept s s'" "card_at B (mmio s')"
    "ram s' = stored (kptr x) (bytes_of (B (block_addr (is_hcs s) (start_blk_idx (fat32_data s) + FirstSectorofCluster c s + of_nat i)))) (ram s)"
    using load_sector [OF CA b(1,3), of "start_blk_idx (fat32_data s) + FirstSectorofCluster c s + of_nat i"] by (elim exE conjE)
  have "FirstSectorofCluster c s1 = FirstSectorofCluster c s" using x(2) by (simp add: FirstSectorofCluster_def FirstDataSector_def)
  then have "load_loop node md c i sec_cnt s = load_loop node md c (i + 1) (sec_cnt + 1) s'"
    using x(1-3) b(2) i n by (subst load_loop.simps) simp
  moreover have "length (bytes_of (B (sector_block s (c, i)))) = 512" using b(3) by (simp add: length_bytes_of card_at_def blocks_ok_def)
  then have "ram_kept K s s'"
    using x(6,9,5) ram_kept_stored [of s' "insert x K" k x K "bytes_of (B (sector_block s (c, i)))" s' s] x(4) by (simp add: cache_at_def sector_block_def)
  moreover have "volume_at s' (insert x K) B F C"
    using x(7,8) b fat_at_frame [OF b(4) x(7) calculation(2), of "insert x K"] by (auto simp: volume_at_def kept_def SecPerClus_def)
  ultimately show thesis using that [of s' x] x(4-7,9) by (simp add: sector_block_def)
qed

lemma load_loop_ok:
  "volume_at s K B F C \<Longrightarrow> cache_at s K (k + 3 * n) md ps \<Longrightarrow> c \<in> C \<Longrightarrow> i \<le> SecPerClus s \<Longrightarrow> chain_ok F (end_of_file (fat32_data s)) (SecPerClus s) c i n \<Longrightarrow>
   vnodes s node = Some nd \<Longrightarrow> vn_type nd = FILE \<Longrightarrow> (\<And>j. j < sec_cnt + n \<Longrightarrow> \<not> vn_file_size nd \<le> of_nat (j * 512)) \<Longrightarrow> vn_file_size nd \<le> of_nat ((sec_cnt + n) * 512) \<Longrightarrow>
   \<exists>xs s'. load_loop node md c i sec_cnt s = Some s' \<and> loaded s K k B F C md ps (sectors F (SecPerClus s) c i n) xs s'"
proof (induction n arbitrary: s K ps c i sec_cnt)
  case 0
  then have "load_loop node md c i sec_cnt s = Some s" using load_loop_end by simp
  then show ?case using 0 by (intro exI [of _ "[]"] exI [of _ s]) (simp add: loaded_def kept_def ram_kept_def holds_def sector_bytes_def)
next
  case (Suc n)
  have step: "\<exists>xs s'. load_loop node md c i sec_cnt s = Some s' \<and> loaded s K k B F C md ps ((c, i) # sectors F (SecPerClus s) c (i + 1) n) xs s'"
    if i: "i < SecPerClus s" and ch: "chain_ok F (end_of_file (fat32_data s)) (SecPerClus s) c (i + 1) n" and c: "c \<in> C" for c i
  proof -
    have CA: "cache_at s K (k + 3 * n + 3) md ps" using Suc.prems(2) by (simp add: add.commute add.left_commute)
    have nd: "\<not> vn_file_size nd \<le> of_nat (sec_cnt * 512)" using Suc.prems(8) by simp
    obtain x s1 where x: "load_loop node md c i sec_cnt s = load_loop node md c (i + 1) (sec_cnt + 1) s1" "x \<notin> K" "512 \<le> snd x"
      "cache_at s1 (insert x K) (k + 3 * n) md (ps @ [kptr x])" "volume_at s1 (insert x K) B F C" "kept s s1" "ram_kept K s s1"
      "ram s1 = stored (kptr x) (bytes_of (B (sector_block s (c, i)))) (ram s)"
      using load_loop_step [OF Suc.prems(1) CA i Suc.prems(6) nd] by metis
    have k: "SecPerClus s1 = SecPerClus s" "fat32_data s1 = fat32_data s" "vnodes s1 = vnodes s" using x(6) by (simp_all add: kept_def SecPerClus_def)
    obtain xs s' where r: "load_loop node md c (i + 1) (sec_cnt + 1) s1 = Some s'"
      "loaded s1 (insert x K) k B F C md (ps @ [kptr x]) (sectors F (SecPerClus s) c (i + 1) n) xs s'"
      using Suc.IH [OF x(5,4) c, of "i + 1" "sec_cnt + 1"] i ch Suc.prems(6-9) unfolding k by auto
    have B: "card_at B (mmio s)" using Suc.prems(1) by (simp add: volume_at_def)
    have "length (bytes_of (B (sector_block s (c, i)))) = 512" using B by (simp add: length_bytes_of card_at_def blocks_ok_def)
    moreover have sb: "sector_bytes B s ((c, i) # sectors F (SecPerClus s) c (i + 1) n) = bytes_of (B (sector_block s (c, i))) # sector_bytes B s1 (sectors F (SecPerClus s) c (i + 1) n)"
      unfolding sector_bytes_kept [OF x(6)] by (simp add: sector_bytes_def)
    moreover have L: "cache_at s' (set xs \<union> insert x K) k md ((ps @ [kptr x]) @ map kptr xs)" "volume_at s' (set xs \<union> insert x K) B F C" "kept s1 s'" "ram_kept (insert x K) s1 s'"
      "holds s' xs (sector_bytes B s1 (sectors F (SecPerClus s) c (i + 1) n))" "set xs \<inter> insert x K = {}" using r(2) unfolding loaded_def by blast+
    ultimately have H: "holds s' (x # xs) (sector_bytes B s ((c, i) # sectors F (SecPerClus s) c (i + 1) n))"
      using holds_Cons [OF L(5) x(3) L(4) x(8)] by metis
    have "cache_at s' (set (x # xs) \<union> K) k md (ps @ map kptr (x # xs))" "volume_at s' (set (x # xs) \<union> K) B F C" "set (x # xs) \<inter> K = {}" using L(1,2,6) x(2) by auto
    then have "loaded s K k B F C md ps ((c, i) # sectors F (SecPerClus s) c (i + 1) n) (x # xs) s'"
      unfolding loaded_def using H kept_trans [OF x(6) L(3)] ram_kept_trans [OF x(7) L(4)] by blast
    then show ?thesis using x(1) r(1) by metis
  qed
  show ?case
  proof (cases "i < SecPerClus s")
    case True
    then show ?thesis using step [OF True _ Suc.prems(3)] Suc.prems(5) by simp
  next
    case False
    let ?c = "F c AND FAT_VAL_MASK"
    have p: "0 < SecPerClus s" and e: "get_fat_entry c s = Some (F c)" "F c \<noteq> end_of_file (fat32_data s) \<Longrightarrow> ?c \<in> C"
      using Suc.prems(1,3) by (simp_all add: volume_at_def fat_at_def)
    have ch: "F c \<noteq> end_of_file (fat32_data s)" "chain_ok F (end_of_file (fat32_data s)) (SecPerClus s) ?c (0 + 1) n" using Suc.prems(5) False by simp_all
    have "load_loop node md c i sec_cnt s = load_loop node md ?c 0 sec_cnt s" using Suc.prems(6) False e(1) ch(1) by (subst load_loop.simps) simp
    then show ?thesis using step [OF p ch(2) e(2) [OF ch(1)]] False by simp
  qed
qed

end
