(* ===== verification/Fat32_Read.thy ===== *)
theory Fat32_Read
  imports Fat32_Correct
begin

text \<open>Reading a file of the card: the loop of \<open>fat32_read\<close> over the cached sectors copies the bytes of the chain of clusters.\<close>

section \<open>Reading\<close>

text \<open>Arithmetic on small unsigned numbers.\<close>

lemma small_of_nat:
  assumes "a < 2 ^ 63" "b < 2 ^ 63"
  shows "(of_nat a :: u64) < of_nat b \<longleftrightarrow> a < b" "(of_nat a :: u64) \<le> of_nat b \<longleftrightarrow> a \<le> b" "(of_nat a :: u64) mod of_nat b = of_nat (a mod b)" "(of_nat a :: u64) div of_nat b = of_nat (a div b)"
proof -
  have u: "unat (of_nat a :: u64) = a" "unat (of_nat b :: u64) = b" using assms by (simp_all add: unat_of_nat_small)
  then show "(of_nat a :: u64) < of_nat b \<longleftrightarrow> a < b" "(of_nat a :: u64) \<le> of_nat b \<longleftrightarrow> a \<le> b" by (simp_all add: word_less_nat_alt word_le_nat_alt)
  have r: "unat (of_nat (a mod b) :: u64) = a mod b" "unat (of_nat (a div b) :: u64) = a div b"
    using assms le_less_trans [OF mod_less_eq_dividend [of a b] assms(1)] le_less_trans [OF div_le_dividend [of a b] assms(1)] by (simp_all add: unat_of_nat_small)
  show "(of_nat a :: u64) mod of_nat b = of_nat (a mod b)" unfolding word_eq_iff_unsigned [where 'a = nat] by (simp add: unat_mod u r)
  show "(of_nat a :: u64) div of_nat b = of_nat (a div b)" unfolding word_eq_iff_unsigned [where 'a = nat] by (simp add: unat_div u r)
qed

lemma list_nth_node:
  assumes "list_at m l as vs" "j < length as"
  shows "\<exists>n. m (as ! j) = Some n \<and> n_ptr n = vs ! j \<and> n_next n = (if Suc j < length as then Some (as ! Suc j) else None)"
proof -
  have l: "length as = length vs" using list_at_length [OF assms(1)] .
  have "as = take j as @ as ! j # drop (Suc j) as" "vs = take j vs @ vs ! j # drop (Suc j) vs" using assms(2) l by (simp_all add: id_take_nth_drop)
  then have "list_at m l (take j as @ as ! j # drop (Suc j) as) (take j vs @ vs ! j # drop (Suc j) vs)" using assms(1) by simp
  then obtain n where "m (as ! j) = Some n" "n_ptr n = vs ! j" "n_next n = (if drop (Suc j) as = [] then None else Some (hd (drop (Suc j) as)))"
    by (rule list_at_node) (use assms(2) l in simp)
  moreover have "drop (Suc j) as = [] \<longleftrightarrow> \<not> Suc j < length as" "Suc j < length as \<Longrightarrow> hd (drop (Suc j) as) = as ! Suc j" by (simp_all add: hd_drop_conv_nth not_less)
  ultimately show ?thesis by simp
qed

lemma skip_nodes_ok:
  assumes L: "list_at (list_nodes s) l as vs"
  shows "j + d < length as \<Longrightarrow> skip_nodes d (Some (as ! j)) s = Some (Some (as ! (j + d)))"
proof (induction d arbitrary: j)
  case (Suc d)
  obtain n where "list_nodes s (as ! j) = Some n" "n_next n = Some (as ! Suc j)" using list_nth_node [OF L, of j] Suc.prems by auto
  then show ?case using Suc.IH [of "Suc j"] Suc.prems by simp
qed simp

lemma concat_nth_512:
  assumes "\<forall>bs \<in> set bss. length bs = 512" "i < 512 * length bss"
  shows "concat bss ! i = (bss ! (i div 512)) ! (i mod 512)"
  using assms
proof (induction bss arbitrary: i)
  case (Cons b bss)
  show ?case
  proof (cases "i < 512")
    case True
    then show ?thesis using Cons.prems(1) by (simp add: nth_append)
  next
    case False
    then have "concat (b # bss) ! i = concat bss ! (i - 512)" using Cons.prems(1) by (simp add: nth_append)
    also have "\<dots> = (bss ! ((i - 512) div 512)) ! ((i - 512) mod 512)" using Cons False by simp
    also have "(i - 512) mod 512 = i mod 512" using False by (simp add: le_mod_geq)
    also have "(i - 512) div 512 = i div 512 - 1" using False by (simp add: le_div_geq)
    also have "bss ! (i div 512 - 1) = (b # bss) ! (i div 512)" using False by (simp add: nth_Cons' div_eq_0_iff)
    finally show ?thesis .
  qed
qed simp


text \<open>The file on the cache: its size is \<open>z\<close>, the position \<open>pos\<close>, and its bytes are \<open>bss\<close>.\<close>

definition reading :: "'a vfs_data_scheme \<Rightarrow> u64 \<Rightarrow> u64 \<Rightarrow> file_t \<Rightarrow> nat \<Rightarrow> nat \<Rightarrow> klist \<Rightarrow> u64 list \<Rightarrow> (nat \<times> nat) list \<Rightarrow> u8 list list \<Rightarrow> bool" where
  "reading s file node f z pos l as xs bss \<longleftrightarrow> files s file = Some f \<and> f_pos f = of_nat pos \<and> (\<exists>nd. vnodes s node = Some nd \<and> vn_file_size nd = of_nat z)
     \<and> BytsPerSec s = 512 \<and> z < 2 ^ 32 \<and> z \<le> 512 * length xs \<and> list_at (list_nodes s) l as (map kptr xs) \<and> holds s xs bss \<and> (\<forall>bs \<in> set bss. length bs = 512) \<and> (\<forall>x \<in> set xs. owned s (kptr x) 512)"

text \<open>The bytes that a turn of the loop copies.\<close>

definition read_part :: "nat \<Rightarrow> nat \<Rightarrow> nat \<Rightarrow> nat \<Rightarrow> nat" where
  "read_part n r z pos = min (min (n - r) (512 - pos mod 512)) (z - pos)"

lemma small_min:
  assumes "a < 2 ^ 63" "b < 2 ^ 63"
  shows "(if of_nat a < (of_nat b :: u64) then of_nat a else of_nat b) = (of_nat (min a b) :: u64)"
  using small_of_nat(1) [OF assms] by (simp add: min_def)

lemma read_sz_ok:
  assumes "r < n" "n < 2 ^ 32" "pos < z" "z < 2 ^ 32"
  shows "(let sz = (if (of_nat n :: u64) - of_nat r < of_nat BLK_SZ - of_nat (pos mod 512) then (of_nat n :: u64) - of_nat r else of_nat BLK_SZ - of_nat (pos mod 512))
     in if sz < of_nat z - of_nat pos then sz else of_nat z - of_nat pos) = (of_nat (read_part n r z pos) :: u64)"
proof -
  have d: "(of_nat n :: u64) - of_nat r = of_nat (n - r)" "(of_nat BLK_SZ :: u64) - of_nat (pos mod 512) = of_nat (512 - pos mod 512)" "(of_nat z :: u64) - of_nat pos = of_nat (z - pos)"
    using assms by (simp_all add: of_nat_diff BLK_SZ_def less_imp_le)
  have b: "n - r < 2 ^ 63" "512 - pos mod 512 < 2 ^ 63" "z - pos < 2 ^ 63" "min (n - r) (512 - pos mod 512) < 2 ^ 63" using assms by auto
  show ?thesis unfolding d read_part_def Let_def small_min [OF b(1,2)] by (rule small_min [OF b(4,3)])
qed

lemma read_part_bounds:
  assumes "r < n" "pos < z"
  shows "0 < read_part n r z pos" "read_part n r z pos \<le> n - r" "pos mod 512 + read_part n r z pos \<le> 512" "pos + read_part n r z pos \<le> z"
  using assms mod_less_divisor [of 512 pos] by (auto simp: read_part_def min_def)

text \<open>The bytes of the file from \<open>pos\<close> at the address \<open>p\<close>, \<open>k\<close> of them; two consecutive pieces make one.\<close>

definition filled :: "u8 list \<Rightarrow> u64 \<Rightarrow> nat \<Rightarrow> nat \<Rightarrow> (u64 \<Rightarrow> u8) \<Rightarrow> u64 \<Rightarrow> u8" where
  "filled bs p k pos m a = (if unat (a - p) < k then bs ! (pos + unat (a - p)) else m a)"

lemma filled_twice:
  assumes "k < 2 ^ 32" "d \<le> k"
  shows "filled bs (p + of_nat d) (k - d) (pos + d) (filled bs p d pos m) = filled bs p k pos m"
proof
  fix a :: u64
  have u: "unat (of_nat d :: u64) = d" using assms by (intro unat_of_nat_small) simp
  have e: "a - (p + of_nat d) = (a - p) - of_nat d" by simp
  show "filled bs (p + of_nat d) (k - d) (pos + d) (filled bs p d pos m) a = filled bs p k pos m a"
  proof (cases "d \<le> unat (a - p)")
    case True
    then have "unat (a - (p + of_nat d)) = unat (a - p) - d" unfolding e using u unat_sub [of "of_nat d" "a - p"] by (simp add: word_le_nat_alt)
    then show ?thesis using True assms(2) by (auto simp: filled_def)
  next
    case False
    have "unat (a - (p + of_nat d)) = unat (a - p) + 2 ^ 64 - d" unfolding e using False u by (simp add: unat_sub_if_size word_size)
    then have "\<not> unat (a - (p + of_nat d)) < k - d" using assms by simp
    then show ?thesis using False assms by (simp add: filled_def)
  qed
qed

text \<open>What the sectors hold at a position of the file.\<close>

lemma holds_pos:
  assumes "holds s xs bss" "\<forall>bs \<in> set bss. length bs = 512" "pos div 512 < length xs" "pos mod 512 + i < 512" "a - kptr (xs ! (pos div 512)) = of_nat (pos mod 512 + i)"
  shows "ram s a = concat bss ! (pos + i)"
proof -
  have u: "unat (a - kptr (xs ! (pos div 512))) = pos mod 512 + i" unfolding assms(5) using assms(4) by (intro unat_of_nat_small) simp
  have e: "pos + i = 512 * (pos div 512) + (pos mod 512 + i)" by simp
  have g: "(512 * q + j) div 512 = q" "(512 * q + j) mod 512 = j" "q < l \<Longrightarrow> 512 * q + j < 512 * l" if "j < 512" for q j l :: nat using that by simp_all
  have "(pos + i) div 512 = pos div 512" "(pos + i) mod 512 = pos mod 512 + i" using g [OF assms(4), of "pos div 512"] unfolding e [symmetric] by simp_all
  moreover have "pos + i < 512 * length bss" using g(3) [OF assms(4,3)] assms(1) unfolding e [symmetric] by (simp add: holds_def)
  ultimately show ?thesis using concat_nth_512 [OF assms(2)] assms(1,3,4) u by (simp add: holds_def)
qed

text \<open>The copy of one turn.\<close>

lemma read_copy:
  assumes R: "reading s file node f z pos l as xs bss" and n: "r < n" "n < 2 ^ 32" "pos < z"
    and o: "owned s p (of_nat (n - r))" and ap: "\<forall>x \<in> set xs. apart p (of_nat (n - r)) (kptr x) 512"
  defines "d \<equiv> read_part n r z pos"
  shows "memcpy_ram p (kptr (xs ! (pos div 512)) + of_nat (pos mod 512)) d s = Some (s\<lparr>ram := filled (concat bss) p d pos (ram s)\<rparr>)"
proof -
  let ?x = "xs ! (pos div 512)" and ?off = "of_nat (pos mod 512) :: u64"
  note b = read_part_bounds [OF n(1,3), folded d_def]
  have q: "pos div 512 < length xs" using R n(3) by (simp add: reading_def less_mult_imp_div_less mult.commute)
  have u: "unat (of_nat d :: u64) = d" "unat (of_nat (n - r) :: u64) = n - r" "unat ?off = pos mod 512"
    using b n(2) by (auto intro!: unat_of_nat_small simp del: of_nat_diff)
  have "owned s (p + 0) (of_nat d)" by (rule owned_part [OF o]) (simp add: u b(2))
  then have o1: "owned s p (of_nat d)" by simp
  have o2: "owned s (kptr ?x + ?off) (of_nat d)" using R q b(3) by (intro owned_part [of s "kptr ?x" 512]) (simp_all add: reading_def u)
  have "apart (kptr ?x + ?off) (of_nat d) p (of_nat d)"
    using apart_sym [OF bspec [OF ap, of ?x]] q b(2,3) by (intro apart_part [of "kptr ?x" 512 p "of_nat (n - r)"]) (simp_all add: u)
  then have "memcpy_ram p (kptr ?x + ?off) d s = Some (s\<lparr>ram := copied p (kptr ?x + ?off) (of_nat d) (ram s)\<rparr>)"
    using memcpy_ram_ok [OF _ o1 o2 apart_sym] b(2) n(2) by simp
  moreover have "copied p (kptr ?x + ?off) (of_nat d) (ram s) a = filled (concat bss) p d pos (ram s) a" for a
  proof (cases "unat (a - p) < d")
    case True
    have "(kptr ?x + ?off + (a - p)) - kptr ?x = of_nat (pos mod 512 + unat (a - p))" by simp
    then have "ram s (kptr ?x + ?off + (a - p)) = concat bss ! (pos + unat (a - p))" using R q True b(3) by (intro holds_pos) (simp_all add: reading_def)
    then show ?thesis using True u(1) by (simp add: copied_def filled_def word_less_nat_alt)
  qed (use u(1) in \<open>simp add: copied_def filled_def word_less_nat_alt\<close>)
  ultimately show ?thesis by (simp add: ext)
qed

text \<open>One turn of the loop.\<close>

lemma read_turn:
  assumes R: "reading s file node f z pos l as xs bss" and n: "r < n" "n < 2 ^ 32" "pos < z"
    and o: "owned s (buf + of_nat r) (of_nat (n - r))" and ap: "\<forall>x \<in> set xs. apart (buf + of_nat r) (of_nat (n - r)) (kptr x) 512"
  defines "d \<equiv> read_part n r z pos"
  defines "s' \<equiv> s\<lparr>ram := filled (concat bss) (buf + of_nat r) d pos (ram s), files := (files s)(file \<mapsto> f\<lparr>f_pos := of_nat (pos + d)\<rparr>)\<rparr>"
  shows "read_loop_fat file node buf (of_nat n) (of_nat r) (Some (as ! (pos div 512))) s
     = (if z \<le> pos + d then Some (of_nat (r + d), s')
        else read_loop_fat file node buf (of_nat n) (of_nat (r + d)) (if Suc (pos div 512) < length as then Some (as ! Suc (pos div 512)) else None) s')"
proof -
  note b = read_part_bounds [OF n(1,3), folded d_def]
  obtain nd where D: "files s file = Some f" "f_pos f = of_nat pos" "vnodes s node = Some nd" "vn_file_size nd = of_nat z" "BytsPerSec s = 512" "z < 2 ^ 32" "z \<le> 512 * length xs"
    "list_at (list_nodes s) l as (map kptr xs)" using R by (auto simp: reading_def)
  have q: "pos div 512 < length xs" "pos div 512 < length as" using D(7,8) n(3) list_at_length [OF D(8)] by (simp_all add: less_mult_imp_div_less mult.commute)
  obtain e where e: "list_nodes s (as ! (pos div 512)) = Some e" "n_ptr e = kptr (xs ! (pos div 512))"
    "n_next e = (if Suc (pos div 512) < length as then Some (as ! Suc (pos div 512)) else None)" using list_nth_node [OF D(8) q(2)] q(1) by auto
  have off: "sec_off (f_pos f) s = Some (of_nat (pos mod 512))" using D(2,5,6) n(3) small_of_nat(3) [of pos 512] by (simp add: sec_off_def)
  note sz = read_sz_ok [OF n(1,2,3) D(6), folded d_def D(2,4), unfolded Let_def]
  have c: "unat (ucast (of_nat d :: u64) :: u32) = d" using b(3) by (simp add: unsigned_ucast_eq unsigned_of_nat take_bit_nat_eq_self)
  note cp = read_copy [OF R n o ap, folded d_def]
  have lt: "(of_nat r :: u64) < of_nat n" "(of_nat z :: u64) \<le> of_nat pos + of_nat d \<longleftrightarrow> z \<le> pos + d"
    using n small_of_nat(1) [of r n] small_of_nat(2) [of z "pos + d"] D(6) b(4) by simp_all
  have "read_loop_fat file node buf (of_nat n) (of_nat r) (Some (as ! (pos div 512))) s
     = memcpy_ram (buf + of_nat r) (n_ptr e + of_nat (pos mod 512)) (unat (ucast (of_nat d :: u64) :: u32)) s \<bind> (\<lambda>s.
       upd_file file (\<lambda>f. f\<lparr>f_pos := f_pos f + of_nat d\<rparr>) s \<bind> (\<lambda>s. files s file \<bind> (\<lambda>f.
       if vn_file_size nd \<le> f_pos f then Some (of_nat r + of_nat d, s)
       else list_nodes s (as ! (pos div 512)) \<bind> (\<lambda>e. read_loop_fat file node buf (of_nat n) (of_nat r + of_nat d) (n_next e) s))))"
    by (subst read_loop_fat.simps) (simp only: D(1,3) e(1) off sz lt(1) if_True Let_def Option.bind.bind_lunit)
  then show ?thesis using D(1,2,4) e c cp lt(2) unfolding s'_def by (simp add: upd_file_def)
qed

lemma apart_shorter:
  assumes "apart p (of_nat n) b m" "k \<le> n" "n < 2 ^ 32"
  shows "apart p (of_nat k) b m"
proof -
  have "(of_nat k :: u64) \<le> of_nat n" using assms by (subst small_of_nat) simp_all
  then show ?thesis using assms(1) by (auto simp: apart_def dest: less_le_trans)
qed

lemma reading_step:
  assumes R: "reading s file node f z pos l as xs bss" and k: "k < 2 ^ 32" and ap: "\<forall>x \<in> set xs. apart p (of_nat k) (kptr x) 512"
  shows "reading (s\<lparr>ram := filled bs p k j (ram s), files := (files s)(file \<mapsto> f\<lparr>f_pos := of_nat q\<rparr>)\<rparr>) file node (f\<lparr>f_pos := of_nat q\<rparr>) z q l as xs bss"
proof -
  have u: "unat (of_nat k :: u64) = k" using k by (intro unat_of_nat_small) simp
  have "filled bs p k j (ram s) a = ram s a" if "i < length xs" "unat (a - kptr (xs ! i)) < 512" for i a
    using bspec [OF ap nth_mem [OF that(1)]] that(2) u by (auto simp: filled_def apart_def word_less_nat_alt)
  then have "holds s xs bss \<Longrightarrow> holds (s\<lparr>ram := filled bs p k j (ram s), files := (files s)(file \<mapsto> f\<lparr>f_pos := of_nat q\<rparr>)\<rparr>) xs bss" by (simp add: holds_def)
  then show ?thesis using R by (simp add: reading_def owned_def BytsPerSec_def)
qed

lemma read_loop_done: "read_loop_fat file node buf len len cur s = Some (len, s)"
  by (subst read_loop_fat.simps) simp

text \<open>The position after a turn that neither fills the buffer nor ends the file is the next sector.\<close>

lemma read_part_next:
  assumes "r < n" "pos < z" "r + read_part n r z pos < n" "pos + read_part n r z pos < z"
  shows "(pos + read_part n r z pos) div 512 = Suc (pos div 512)"
proof -
  have "pos mod 512 + read_part n r z pos = 512" using assms mod_less_divisor [of 512 pos] by (auto simp: read_part_def min_def split: if_splits)
  then have "pos + read_part n r z pos = 512 * Suc (pos div 512)" using mult_div_mod_eq [of 512 pos] unfolding mult_Suc_right by linarith
  then show ?thesis by (metis nonzero_mult_div_cancel_left zero_neq_numeral)
qed

text \<open>The loop copies the bytes up to the end of the file or of the buffer, and moves the position.\<close>

lemma read_loop_fat_ok:
  assumes "reading s file node f z pos l as xs bss" "r < n" "n < 2 ^ 32" "pos < z"
    "owned s (buf + of_nat r) (of_nat (n - r))" "\<forall>x \<in> set xs. apart (buf + of_nat r) (of_nat (n - r)) (kptr x) 512"
  defines "k \<equiv> min (n - r) (z - pos)"
  shows "read_loop_fat file node buf (of_nat n) (of_nat r) (Some (as ! (pos div 512))) s
    = Some (of_nat (r + k), s\<lparr>ram := filled (concat bss) (buf + of_nat r) k pos (ram s), files := (files s)(file \<mapsto> f\<lparr>f_pos := of_nat (pos + k)\<rparr>)\<rparr>)"
  using assms(1-6) unfolding k_def
proof (induction "z - pos" arbitrary: pos r s f rule: less_induct)
  case less
  let ?d = "read_part n r z pos" and ?p = "buf + of_nat r"
  let ?s = "s\<lparr>ram := filled (concat bss) ?p ?d pos (ram s), files := (files s)(file \<mapsto> f\<lparr>f_pos := of_nat (pos + ?d)\<rparr>)\<rparr>"
  note b = read_part_bounds [OF less.prems(2,4)]
  note t = read_turn [OF less.prems]
  have u: "unat (of_nat (n - r) :: u64) = n - r" "unat (of_nat ?d :: u64) = ?d" "unat (of_nat (n - (r + ?d)) :: u64) = n - (r + ?d)"
    using less.prems(3) b by (auto intro!: unat_of_nat_small simp del: of_nat_diff)
  show ?case
  proof (cases "z \<le> pos + ?d \<or> r + ?d = n")
    case True
    then have "min (n - r) (z - pos) = ?d" using b by linarith
    moreover have "read_loop_fat file node buf (of_nat n) (of_nat (r + ?d)) cur ?s = Some (of_nat (r + ?d), ?s)" if "\<not> z \<le> pos + ?d" for cur
      using that True read_loop_done by metis
    ultimately show ?thesis unfolding t by presburger
  next
    case False
    then have lt: "r + ?d < n" "pos + ?d < z" using b less.prems(2) by linarith+
    note nx = read_part_next [OF less.prems(2,4) lt]
    have R: "reading ?s file node (f\<lparr>f_pos := of_nat (pos + ?d)\<rparr>) z (pos + ?d) l as xs bss"
      by (rule reading_step [OF less.prems(1)]) (use b(2) less.prems(3) apart_shorter [OF _ b(2)] less.prems(6) in auto)
    have la: "length as = length xs" using R list_at_length [of "list_nodes ?s" l as "map kptr xs"] by (simp add: reading_def)
    have "pos + ?d < 512 * length xs" using R lt(2) by (simp add: reading_def)
    then have len: "Suc (pos div 512) < length as" unfolding la nx [symmetric] by (simp add: less_mult_imp_div_less mult.commute)
    have p: "buf + of_nat (r + ?d) = ?p + of_nat ?d" by (simp add: add.assoc)
    have o: "owned ?s (?p + of_nat ?d) (of_nat (n - (r + ?d)))" using owned_part [OF less.prems(5), of "of_nat ?d" "of_nat (n - (r + ?d))"] lt(1) u by (simp add: owned_def del: of_nat_diff)
    have ap: "\<forall>x \<in> set xs. apart (?p + of_nat ?d) (of_nat (n - (r + ?d))) (kptr x) 512"
      using apart_part [OF bspec [OF less.prems(6)], of _ "of_nat ?d" "of_nat (n - (r + ?d))" 512] lt(1) u by (simp del: of_nat_diff of_nat_add)
    note ih = less.hyps [OF _ R lt(1) less.prems(3) lt(2), unfolded p, OF _ o ap]
    have k: "?d + min (n - (r + ?d)) (z - (pos + ?d)) = min (n - r) (z - pos)" using b lt by linarith
    have fl: "filled (concat bss) (?p + of_nat ?d) (min (n - (r + ?d)) (z - (pos + ?d))) (pos + ?d) (filled (concat bss) ?p ?d pos (ram s)) = filled (concat bss) ?p (min (n - r) (z - pos)) pos (ram s)"
      using filled_twice [of "min (n - r) (z - pos)" ?d "concat bss" ?p pos "ram s"] k less.prems(3) by (metis add_diff_cancel_left' le_add1 less_imp_diff_less min.strict_coboundedI1)
    have "read_loop_fat file node buf (of_nat n) (of_nat r) (Some (as ! (pos div 512))) s = read_loop_fat file node buf (of_nat n) (of_nat (r + ?d)) (Some (as ! ((pos + ?d) div 512))) ?s"
      unfolding t nx using lt(2) len by (simp del: of_nat_add)
    also have "\<dots> = Some (of_nat (r + ?d + min (n - (r + ?d)) (z - (pos + ?d))), ?s\<lparr>ram := filled (concat bss) (?p + of_nat ?d) (min (n - (r + ?d)) (z - (pos + ?d))) (pos + ?d) (ram ?s),
        files := (files ?s)(file \<mapsto> f\<lparr>f_pos := of_nat (pos + ?d)\<rparr>\<lparr>f_pos := of_nat (pos + ?d + min (n - (r + ?d)) (z - (pos + ?d)))\<rparr>)\<rparr>)"
      using b(1) less.prems(4) by (intro ih) linarith
    also have "\<dots> = Some (of_nat (r + (?d + min (n - (r + ?d)) (z - (pos + ?d)))), s\<lparr>ram := filled (concat bss) (?p + of_nat ?d) (min (n - (r + ?d)) (z - (pos + ?d))) (pos + ?d) (filled (concat bss) ?p ?d pos (ram s)),
        files := (files s)(file \<mapsto> f\<lparr>f_pos := of_nat (pos + (?d + min (n - (r + ?d)) (z - (pos + ?d))))\<rparr>)\<rparr>)"
      by (simp add: add.assoc)
    finally show ?thesis unfolding fl k .
  qed
qed

end
