(* ===== verification/Path_Correct.thy ===== *)
theory Path_Correct
  imports Fs_Tree
begin

text \<open>
  The resolution of paths by \<open>find_parent_vnode\<close> is a descent in the tree of vnodes along the components of the path.
\<close>

section \<open>Tokens of a path\<close>

definition is_slash :: "u8 \<Rightarrow> bool" where
  "is_slash c \<longleftrightarrow> c = 47"

text \<open>The tokens \<open>ts\<close> are still to come; the token \<open>c\<close> is held at position \<open>j\<close>.\<close>

definition toks :: "strtok_ctx \<Rightarrow> u8 list list \<Rightarrow> bool" where
  "toks ctx ts \<longleftrightarrow> (ts = [] \<and> strtok_len ctx \<le> strtok_idx ctx
     \<or> (\<exists>pre rest post. strtok_str ctx = pre @ rest @ 0 # post \<and> strtok_idx ctx = length pre \<and> strtok_len ctx = length pre + length rest + 1
          \<and> 0 \<notin> set rest \<and> ts = split_at is_slash rest))"

definition held :: "strtok_ctx \<Rightarrow> nat \<Rightarrow> u8 list \<Rightarrow> bool" where
  "held ctx j c \<longleftrightarrow> (\<exists>pre post. take (strtok_idx ctx) (strtok_str ctx) = pre @ c @ 0 # post \<and> length pre = j \<and> 0 \<notin> set c)"

lemma slash_delim: "0 \<in> set slash" "c \<in> set (cstr slash) \<longleftrightarrow> is_slash c"
  by (auto simp: slash_def literal_def cstr_def is_slash_def)

lemma held_str:
  assumes "held ctx j c"
  shows "0 \<in> set (drop j (strtok_str ctx))" "cstr (drop j (strtok_str ctx)) = c" "length c < length (strtok_str ctx)"
proof -
  obtain pre post where p: "take (strtok_idx ctx) (strtok_str ctx) = pre @ c @ 0 # post" "length pre = j" "0 \<notin> set c" using assms by (auto simp: held_def)
  have "strtok_str ctx = pre @ c @ 0 # post @ drop (strtok_idx ctx) (strtok_str ctx)"
    using append_take_drop_id [of "strtok_idx ctx" "strtok_str ctx"] p(1) by simp
  then have d: "drop j (strtok_str ctx) = c @ 0 # post @ drop (strtok_idx ctx) (strtok_str ctx)" using p(2) by (metis append_eq_conv_conj)
  then show "0 \<in> set (drop j (strtok_str ctx))" "cstr (drop j (strtok_str ctx)) = c" using cstr_append0 [OF p(3)] by simp_all
  have "length (drop j (strtok_str ctx)) > length c" unfolding d by simp
  then show "length c < length (strtok_str ctx)" by simp
qed

lemma toks_step:
  assumes r: "strtok_str ctx = pre @ rest @ 0 # post" "strtok_len ctx = length pre + length rest + 1" "0 \<notin> set rest" "t # ts = split_at is_slash rest"
  shows "\<exists>c u. strtok_str ctx = pre @ t @ c # u \<and> (c = 0 \<or> is_slash c) \<and> length t \<le> length rest \<and> (\<forall>x \<in> set t. x \<noteq> 0 \<and> \<not> is_slash x)
     \<and> toks (ctx\<lparr>strtok_str := pre @ t @ 0 # u, strtok_idx := length pre + length t + 1\<rparr>) ts"
proof -
  let ?t = "takeWhile (\<lambda>c. \<not> is_slash c) rest" and ?u = "dropWhile (\<lambda>c. \<not> is_slash c) rest"
  have tS: "\<forall>x \<in> set ?t. \<not> is_slash x" "\<forall>x \<in> set ?t. x \<noteq> 0 \<and> \<not> is_slash x" using r(3) set_takeWhileD by metis+
  show ?thesis
  proof (cases ?u)
    case Nil
    then have e: "rest = ?t" by (metis takeWhile_dropWhile_id append_Nil2)
    have "split_at is_slash rest = [rest]" using split_at_none tS(1) e by metis
    then have ts: "ts = []" "t = rest" using r(4) by simp_all
    have "\<forall>x \<in> set t. x \<noteq> 0 \<and> \<not> is_slash x" using tS(2) e ts(2) by metis
    then show ?thesis using r(1,2) ts by (intro exI [of _ 0] exI [of _ post]) (simp add: toks_def)
  next
    case (Cons c u)
    have e: "rest = ?t @ c # u" using Cons takeWhile_dropWhile_id by metis
    have c: "is_slash c" using Cons by (metis hd_dropWhile list.distinct(1) list.sel(1))
    have "split_at is_slash rest = ?t # split_at is_slash u" using split_at_hit [OF tS(1) c] e by metis
    then have ts: "ts = split_at is_slash u" "t = ?t" using r(4) by simp_all
    have e': "rest = t @ c # u" "\<forall>x \<in> set t. x \<noteq> 0 \<and> \<not> is_slash x" using e ts(2) tS(2) by metis+
    let ?ctx = "ctx\<lparr>strtok_str := pre @ t @ 0 # u @ 0 # post, strtok_idx := length pre + length t + 1\<rparr>"
    have "toks ?ctx ts" unfolding toks_def using ts(1) r(2,3) e'(1)
      by (intro disjI2 exI [of _ "pre @ t @ [0]"] exI [of _ u] exI [of _ post]) simp
    then show ?thesis using r(1) c e' by (intro exI [of _ c] exI [of _ "u @ 0 # post"]) simp
  qed
qed

lemma strtok_next:
  assumes "toks ctx (t # ts)"
  shows "\<exists>i ctx'. strtok_r None slash ctx = Some (Some i, ctx') \<and> toks ctx' ts \<and> held ctx' i t \<and> (\<forall>j c. held ctx j c \<longrightarrow> held ctx' j c)
     \<and> length (strtok_str ctx') = length (strtok_str ctx)"
proof -
  obtain pre rest post where r: "strtok_str ctx = pre @ rest @ 0 # post" "strtok_idx ctx = length pre" "strtok_len ctx = length pre + length rest + 1"
    "0 \<notin> set rest" "t # ts = split_at is_slash rest" using assms by (auto simp: toks_def)
  obtain c u where cu: "strtok_str ctx = pre @ t @ c # u" "c = 0 \<or> is_slash c" "length t \<le> length rest" "\<forall>x \<in> set t. x \<noteq> 0 \<and> \<not> is_slash x"
    "toks (ctx\<lparr>strtok_str := pre @ t @ 0 # u, strtok_idx := length pre + length t + 1\<rparr>) ts"
    using toks_step [OF r(1,3-5)] by blast
  let ?ctx = "ctx\<lparr>strtok_str := pre @ t @ 0 # u, strtok_idx := length pre + length t + 1\<rparr>"
  have "strtok_r None slash ctx = Some (Some (length pre), ?ctx)"
    using strtok_scan_hit [OF slash_delim(1) cu(1), of "length rest + 1"] cu(2-4) r(2,3) slash_delim(2) by (simp add: strtok_r_def)
  moreover have "held ?ctx (length pre) t" unfolding held_def using cu(4)
    by (intro exI [of _ pre] exI [of _ "[]"]) auto
  moreover have "held ?ctx j d" if h: "held ctx j d" for j d
  proof -
    obtain p q where "pre = p @ d @ 0 # q" "length p = j" "0 \<notin> set d" using h cu(1) r(2) by (auto simp: held_def)
    then show ?thesis unfolding held_def by (intro exI [of _ p] exI [of _ "q @ t @ [0]"]) simp
  qed
  moreover have "length (strtok_str ?ctx) = length (strtok_str ctx)" using cu(1) by simp
  ultimately show ?thesis using cu(5) by blast
qed

lemma split_at_not_Nil: "split_at P xs \<noteq> []"
  by (cases xs) (auto split: list.split)

lemma strtok_end:
  assumes "toks ctx []"
  shows "strtok_r None slash ctx = Some (None, ctx)"
proof -
  have "strtok_len ctx \<le> strtok_idx ctx" using assms split_at_not_Nil [of is_slash] unfolding toks_def by metis
  then show ?thesis by (simp add: strtok_r_def)
qed

section \<open>The descent\<close>

text \<open>
  Every vnode belongs to a mount whose operations look names up with \<open>tmpfs_lookup\<close>.
\<close>

definition mounts_ok :: "'a vfs_data_scheme \<Rightarrow> u64 list \<Rightarrow> bool" where
  "mounts_ok s ds \<longleftrightarrow> (\<forall>d \<in> set ds. \<exists>vo. mount_vops (vn_mount (the (vnodes s d))) s = Some vo \<and> vo_lookup vo = Some F_tmpfs_lookup)"

text \<open>
  The path continues from \<open>cur\<close>, in the directory \<open>par\<close>, under the name \<open>c\<close>, with the components \<open>cs\<close>.  An empty component ends it.  \<open>Inl\<close> is the
  name of a directory that does not exist; a last component that does not exist gives the null pointer.
\<close>

fun descend :: "'a vfs_data_scheme \<Rightarrow> (u64 \<Rightarrow> u64 list) \<Rightarrow> u64 \<Rightarrow> u64 \<Rightarrow> u8 list \<Rightarrow> u8 list list \<Rightarrow> u8 list + u64 \<times> u64 \<times> u8 list" where
  "descend s T cur par c [] = Inr (cur, par, c)"
| "descend s T cur par c (t # ts) =
     (if t = [] then Inr (cur, par, c)
      else if child_of s T cur t = 0 then if ts = [] then Inr (0, cur, t) else Inl t
      else descend s T (child_of s T cur t) cur t ts)"

text \<open>The results agree, with the component of the code as the bytes from its position on.\<close>

fun path_res :: "u8 list + u64 \<times> u64 \<times> u8 list \<Rightarrow> u8 list + u64 \<times> u64 \<times> u8 list \<Rightarrow> bool" where
  "path_res (Inl bs) (Inl c) \<longleftrightarrow> cstr bs = c \<and> 0 \<in> set bs"
| "path_res (Inr (n, p, bs)) (Inr (n', p', c)) \<longleftrightarrow> n = n' \<and> p = p' \<and> cstr bs = c \<and> 0 \<in> set bs \<and> length c < STRLEN"
| "path_res _ _ \<longleftrightarrow> False"

lemma child_of_cstr: "cstr bs = cstr c \<Longrightarrow> child_of s T d bs = child_of s T d c"
  by (simp add: child_of_def named_def [abs_def])

lemma child_of_in:
  assumes F: "fs_at s K k ds T" and "d \<in> set ds" "child_of s T d c \<noteq> 0"
  shows "child_of s T d c \<in> set ds"
proof (cases "find (named s c) (T d)")
  case (Some x)
  then have "x \<in> set (T d)" by (auto simp: find_Some_iff)
  then show ?thesis using fs_atD(7) [OF assms(1,2)] Some by (auto simp: child_of_def)
qed (use assms(3) in \<open>simp add: child_of_def\<close>)

lemma path_skip:
  assumes "toks ctx (t # ts)" "t \<noteq> []"
  obtains i ctx' where "path_loop False j cur par mnt ctx s = path_loop True i cur par mnt ctx' s" "toks ctx' ts" "held ctx' i t"
    "length (strtok_str ctx') = length (strtok_str ctx)"
proof -
  obtain i ctx' where n: "strtok_r None slash ctx = Some (Some i, ctx')" "toks ctx' ts" "held ctx' i t" "length (strtok_str ctx') = length (strtok_str ctx)"
    using strtok_next [OF assms(1)] by blast
  have "strlen (drop i (strtok_str ctx')) = Some (length t)" using strlen_cstr [OF held_str(1) [OF n(3)]] held_str(2) [OF n(3)] by simp
  then have "path_loop False j cur par mnt ctx s = path_loop True i cur par mnt ctx' s"
    using n(1) assms(2) by (subst (1 2) path_loop.simps) simp
  then show thesis using that n by blast
qed

lemma path_stop:
  assumes "toks ctx ts" "ts = [] \<or> hd ts = []" "held ctx j c" "length (strtok_str ctx) = STRLEN"
  shows "\<exists>r. path_loop False j cur par mnt ctx s = Some (r, s) \<and> path_res r (Inr (cur, par, c))"
proof (cases ts)
  case Nil
  then show ?thesis using strtok_end assms held_str [OF assms(3)] by (subst path_loop.simps) auto
next
  case (Cons t us)
  obtain i ctx' where n: "strtok_r None slash ctx = Some (Some i, ctx')" "held ctx' i t" "held ctx' j c" "length (strtok_str ctx') = length (strtok_str ctx)"
    using strtok_next [of ctx t us] assms(1,3) Cons by blast
  have "strlen (drop i (strtok_str ctx')) = Some 0" using strlen_cstr [OF held_str(1) [OF n(2)]] held_str(2) [OF n(2)] assms(2) Cons by simp
  then show ?thesis using n(1,4) held_str [OF n(3)] assms(4) by (subst path_loop.simps) simp
qed

lemma cstr_free: "0 \<notin> set c \<Longrightarrow> cstr c = c"
  by (auto simp: cstr_def)

text \<open>One step with a component in hand, and the loop.\<close>

lemma path_lookup:
  assumes F: "fs_at s K k ds T" and M: "mounts_ok s ds" and cur: "cur \<in> set ds" and h: "held ctx j c"
  shows "\<exists>vo. mount_vops (vn_mount (the (vnodes s cur))) s = Some vo \<and> vo_lookup vo = Some F_tmpfs_lookup
     \<and> tmpfs_lookup cur (drop j (strtok_str ctx)) s = Some (child_of s T cur c, s)"
proof -
  have "cstr c = c" using h by (auto simp: held_def intro: cstr_free)
  then have "tmpfs_lookup cur (drop j (strtok_str ctx)) s = Some (child_of s T cur c, s)"
    using tmpfs_lookup_ok [OF F cur held_str(1) [OF h]] child_of_cstr [of "drop j (strtok_str ctx)" c] held_str(2) [OF h] by simp
  then show ?thesis using M cur by (auto simp: mounts_ok_def)
qed

lemma path_missing:
  assumes F: "fs_at s K k ds T" and M: "mounts_ok s ds" and cur: "cur \<in> set ds" and h: "held ctx j c" "toks ctx ts" "length (strtok_str ctx) = STRLEN"
    and x: "child_of s T cur c = 0"
  shows "\<exists>r. path_loop True j cur par (vn_mount (the (vnodes s cur))) ctx s = Some (r, s) \<and> path_res r (if ts = [] then Inr (0, cur, c) else Inl c)"
proof (cases ts)
  case Nil
  then show ?thesis using path_lookup [OF F M cur h(1)] x strtok_end [of ctx] h held_str [OF h(1)]
    by (subst path_loop.simps) (auto simp: call_lookup_def)
next
  case (Cons t us)
  obtain i ctx' where n: "strtok_r None slash ctx = Some (Some i, ctx')" "held ctx' j c" using strtok_next [of ctx t us] h(1,2) Cons by blast
  then show ?thesis using path_lookup [OF F M cur h(1)] x held_str [OF n(2)] Cons
    by (subst path_loop.simps) (auto simp: call_lookup_def)
qed

lemma path_found:
  assumes F: "fs_at s K k ds T" and M: "mounts_ok s ds" and cur: "cur \<in> set ds" and h: "held ctx j c" and x: "child_of s T cur c \<noteq> 0"
  shows "path_loop True j cur par (vn_mount (the (vnodes s cur))) ctx s
     = path_loop False j (child_of s T cur c) cur (vn_mount (the (vnodes s (child_of s T cur c)))) ctx s"
proof -
  obtain n where "vnodes s (child_of s T cur c) = Some n" using child_of_in [OF F cur x] fs_atD(3) [OF F] by auto
  then show ?thesis using path_lookup [OF F M cur h] x by (subst path_loop.simps) (auto simp: call_lookup_def)
qed

lemma path_loop_True:
  assumes F: "fs_at s K k ds T" and M: "mounts_ok s ds"
  shows "cur \<in> set ds \<Longrightarrow> held ctx j c \<Longrightarrow> toks ctx ts \<Longrightarrow> length (strtok_str ctx) = STRLEN \<Longrightarrow> c \<noteq> [] \<Longrightarrow>
     \<exists>r. path_loop True j cur par (vn_mount (the (vnodes s cur))) ctx s = Some (r, s) \<and> path_res r (descend s T cur p c' (c # ts))"
proof (induction ts arbitrary: cur ctx j c par p c')
  case Nil
  then show ?case using path_missing [OF F M Nil.prems(1-4)] path_found [OF F M Nil.prems(1,2)] path_stop [OF Nil.prems(3) _ Nil.prems(2,4)]
    by (cases "child_of s T cur c = 0") simp_all
next
  case (Cons t ts)
  let ?x = "child_of s T cur c"
  show ?case
  proof (cases "?x = 0 \<or> t = []")
    case True
    then show ?thesis using path_missing [OF F M Cons.prems(1-4)] path_found [OF F M Cons.prems(1,2)] path_stop [OF Cons.prems(3) _ Cons.prems(2,4)] Cons.prems(5)
      by (cases "?x = 0") simp_all
  next
    case False
    then have t: "t \<noteq> []" "?x \<noteq> 0" by simp_all
    obtain i ctx' where n: "path_loop False j ?x cur (vn_mount (the (vnodes s ?x))) ctx s = path_loop True i ?x cur (vn_mount (the (vnodes s ?x))) ctx' s"
      "toks ctx' ts" "held ctx' i t" "length (strtok_str ctx') = STRLEN" using path_skip [OF Cons.prems(3) t(1)] Cons.prems(4) by metis
    have "descend s T cur p c' (c # t # ts) = descend s T ?x cur c (t # ts)" using t(2) Cons.prems(5) by simp
    then show ?thesis using Cons.IH [OF child_of_in [OF F Cons.prems(1) t(2)] n(3,2,4) t(1), of cur cur c] path_found [OF F M Cons.prems(1,2) t(2), of par] n(1) by simp
  qed
qed

lemma path_loop_False:
  assumes F: "fs_at s K k ds T" and M: "mounts_ok s ds" and "cur \<in> set ds" "held ctx j c" "toks ctx ts" "length (strtok_str ctx) = STRLEN"
  shows "\<exists>r. path_loop False j cur par (vn_mount (the (vnodes s cur))) ctx s = Some (r, s) \<and> path_res r (descend s T cur par c ts)"
proof (cases "ts = [] \<or> hd ts = []")
  case True
  have "descend s T cur par c ts = Inr (cur, par, c)" using True by (cases ts) auto
  then show ?thesis using path_stop [OF assms(5) True assms(4,6)] by simp
next
  case False
  then obtain t us where t: "ts = t # us" "t \<noteq> []" by (cases ts) auto
  obtain i ctx' where n: "path_loop False j cur par (vn_mount (the (vnodes s cur))) ctx s = path_loop True i cur par (vn_mount (the (vnodes s cur))) ctx' s"
    "toks ctx' us" "held ctx' i t" "length (strtok_str ctx') = STRLEN" using path_skip [OF assms(5) [unfolded t(1)] t(2)] assms(6) by metis
  show ?thesis using path_loop_True [OF F M assms(3) n(3,2,4) t(2), of par par c] n(1) t(1) by simp
qed

section \<open>The whole resolution\<close>

lemma strcmp_literal:
  assumes "0 \<in> set bs" "length str < 100"
  shows "\<exists>r. strcmp (literal str) bs = Some r \<and> (r = 0 \<longleftrightarrow> cstr (literal str) = cstr bs)"
proof -
  have "0 \<in> set (literal str)" "length (literal str) \<le> SIZE_MAX" using assms(2) by (simp_all add: literal_def SIZE_MAX_def)
  then show ?thesis using strncmp_cstr [of "literal str" bs SIZE_MAX] assms(1) by (auto simp: strcmp_def)
qed

text \<open>The first component selects the root, the parent of the current directory, or the current directory.\<close>

definition start_at :: "'a vfs_data_scheme \<Rightarrow> u64 \<Rightarrow> u8 list \<Rightarrow> u64 \<times> bool" where
  "start_at s wd c = (if c = [] then (rootfs_root s, False)
     else if c = [46, 46] then (vn_parent (the (vnodes s wd)), False)
     else (wd, c \<noteq> [46]))"

definition resolve :: "'a vfs_data_scheme \<Rightarrow> (u64 \<Rightarrow> u64 list) \<Rightarrow> u64 \<Rightarrow> u8 list list \<Rightarrow> u8 list + u64 \<times> u64 \<times> u8 list" where
  "resolve s T wd cs = (case start_at s wd (hd cs) of
     (cur, skip) \<Rightarrow> descend s T cur (vn_parent (the (vnodes s cur))) (hd cs) (if skip then cs else tl cs))"

lemma path_start_ok:
  assumes "pcbs s (get_current s) = Some b" "vnodes s (p_cur_dir b) = Some n" "0 \<in> set bs" "cstr bs = c"
  shows "path_start bs s = Some (start_at s (p_cur_dir b) c)"
proof -
  have l: "cstr (literal '''') = []" "cstr (literal ''..'') = [46, 46]" "cstr (literal ''.'') = [46]"
    by (simp_all add: literal_def cstr_def)
  obtain r1 r2 r3 where "strcmp (literal '''') bs = Some r1" "r1 = 0 \<longleftrightarrow> [] = c" "strcmp (literal ''..'') bs = Some r2" "r2 = 0 \<longleftrightarrow> [46, 46] = c"
    "strcmp (literal ''.'') bs = Some r3" "r3 = 0 \<longleftrightarrow> [46] = c"
    using strcmp_literal [OF assms(3), of "''''"] strcmp_literal [OF assms(3), of "''..''"] strcmp_literal [OF assms(3), of "''.''"] unfolding l assms(4) by auto
  then show ?thesis using assms(1,2) by (auto simp: path_start_def start_at_def)
qed

lemma strtok_first:
  assumes "0 \<in> set str" "length (cstr str) < STRLEN" "length (strtok_str ctx) = STRLEN"
  shows "\<exists>i ctx'. strtok_r (Some str) slash ctx = Some (Some i, ctx') \<and> held ctx' i (hd (split_at is_slash (cstr str)))
     \<and> toks ctx' (tl (split_at is_slash (cstr str))) \<and> length (strtok_str ctx') = STRLEN"
proof -
  let ?post = "drop (Suc (length (cstr str))) (strtok_str ctx)"
  let ?ctx = "ctx\<lparr>strtok_str := cstr str @ 0 # ?post, strtok_idx := 0, strtok_len := length (cstr str) + 1\<rparr>"
  have "length (cstr str) \<le> SIZE_MAX" using assms(2) by (simp add: STRLEN_def SIZE_MAX_def)
  then have "strcpy (strtok_str ctx) str = Some (cstr str @ 0 # ?post)"
    using strncpy_cstr [OF assms(1), of SIZE_MAX "strtok_str ctx"] assms(2,3) by (simp add: strcpy_def min_absorb2)
  then have e: "strtok_r (Some str) slash ctx = strtok_r None slash ?ctx" using strlen_cstr [OF assms(1)] by (simp add: strtok_r_def)
  have "0 \<notin> set (cstr str)" by (auto simp: cstr_def dest: set_takeWhileD)
  then have "toks ?ctx (split_at is_slash (cstr str))" unfolding toks_def by (intro disjI2 exI [of _ "[]"] exI [of _ "cstr str"] exI [of _ ?post]) simp
  moreover obtain t ts where t: "split_at is_slash (cstr str) = t # ts" using split_at_not_Nil by (metis neq_Nil_conv)
  ultimately have "toks ?ctx (t # ts)" by simp
  moreover have "length (strtok_str ?ctx) = STRLEN" using assms(2,3) by simp
  ultimately show ?thesis using strtok_next [of ?ctx t ts] e t by auto
qed

lemma path_run:
  assumes F: "fs_at s K k ds T" and M: "mounts_ok s ds" and b: "pcbs s (get_current s) = Some b" "p_cur_dir b \<in> set ds"
    and h: "held ctx i c" "toks ctx cs" "length (strtok_str ctx) = STRLEN" and st: "start_at s (p_cur_dir b) c = (cur, skip)" "cur \<in> set ds"
  shows "\<exists>n r. path_start (drop i (strtok_str ctx)) s = Some (cur, skip) \<and> vnodes s cur = Some n
     \<and> path_loop skip i cur (vn_parent n) (vn_mount n) ctx s = Some (r, s) \<and> path_res r (resolve s T (p_cur_dir b) (c # cs))"
proof -
  obtain m where m: "vnodes s (p_cur_dir b) = Some m" using b(2) fs_atD(3) [OF F] by auto
  obtain n where n: "vnodes s cur = Some n" using st(2) fs_atD(3) [OF F] by auto
  have "path_start (drop i (strtok_str ctx)) s = Some (cur, skip)" using path_start_ok [OF b(1) m held_str(1,2) [OF h(1)]] st(1) by simp
  moreover have "\<exists>r. path_loop skip i cur (vn_parent n) (vn_mount n) ctx s = Some (r, s) \<and> path_res r (resolve s T (p_cur_dir b) (c # cs))"
  proof (cases skip)
    case True
    then have "c \<noteq> []" using st(1) by (auto simp: start_at_def)
    then show ?thesis using path_loop_True [OF F M st(2) h, of "vn_parent n" "vn_parent n" c] True n st(1) by (simp add: resolve_def)
  next
    case False
    then show ?thesis using path_loop_False [OF F M st(2) h, of "vn_parent n"] n st(1) by (simp add: resolve_def)
  qed
  ultimately show ?thesis using n by blast
qed

lemma child_of_vnodes: "vnodes s' = vnodes s \<Longrightarrow> child_of s' T = child_of s T"
  by (intro ext) (simp add: child_of_def named_def [abs_def])

lemma descend_vnodes:
  assumes "vnodes s' = vnodes s"
  shows "descend s' T cur par c ts = descend s T cur par c ts"
  by (induction ts arbitrary: cur par c) (simp_all add: child_of_vnodes [OF assms])

lemma resolve_cong:
  assumes "vnodes s' = vnodes s" "rootfs_root s' = rootfs_root s"
  shows "resolve s' T wd cs = resolve s T wd cs"
  using assms(2) by (simp add: resolve_def start_at_def descend_vnodes [OF assms(1)] assms(1))

lemma fs_at_frame:
  assumes "fs_at s K k ds T" "vnodes s' = vnodes s" "list_nodes s' = list_nodes s" "nodes_in s' K' k'" "K \<subseteq> K'"
  shows "fs_at s' K' k' ds T"
proof -
  have "set ds \<subseteq> kptr ` K'" using fs_atD(4) [OF assms(1)] assms(5) by blast
  then show ?thesis using assms(1,4) unfolding fs_at_def kids_def [abs_def] assms(2,3) by blast
qed

lemma vfs_outside:
  assumes "outside s s'"
  shows "vnodes s' = vnodes s" "mounts s' = mounts s" "vops s' = vops s" "rootfs_root s' = rootfs_root s" "pcbs s' = pcbs s" "tpidr_el1 s' = tpidr_el1 s"
    "list_nodes s' = list_nodes s"
  using outsideD(5) [OF assms] by (cases s; cases s'; simp)+

lemma find_parent_vnode_ok:
  assumes F: "fs_at s K (k + 2) ds T" and M: "mounts_ok s ds" and b: "pcbs s (get_current s) = Some b" "p_cur_dir b \<in> set ds"
    and path: "0 \<in> set path" "length (cstr path) < STRLEN" "split_at is_slash (cstr path) = c # cs" and st: "fst (start_at s (p_cur_dir b) c) \<in> set ds"
  shows "\<exists>x s1 s2 r. fs_at s1 (insert x K) k ds T \<and> outside (disable_int s) s1 \<and> fs_at s2 K (k + 2) ds T \<and> outside s1 s2 \<and> path_res r (resolve s T (p_cur_dir b) (c # cs))
     \<and> find_parent_vnode path s = (case r of
          Inl bs \<Rightarrow> Some (None, print_msg (text_of bs @ '': No such directory'') (enable_int s1))
        | Inr (n, p, bs) \<Rightarrow> do { component \<leftarrow> strcpy (replicate STRLEN 0) bs; Some (Some (n, p, component), enable_int s2) })"
proof -
  let ?d = "disable_int s"
  have d: "vnodes ?d = vnodes s" "mounts ?d = mounts s" "vops ?d = vops s" "rootfs_root ?d = rootfs_root s" "pcbs ?d = pcbs s" "tpidr_el1 ?d = tpidr_el1 s"
    "list_nodes ?d = list_nodes s" by (simp_all add: disable_int_def)
  obtain x s1 s2 where x: "malloc 264 ?d = Some (kptr x, s1)" "kptr x \<noteq> 0" "nodes_in s1 (insert x K) k" "outside ?d s1"
    "free (kptr x) s1 = Some s2" "nodes_in s2 K (k + 2)" "outside s1 s2"
    using nodes_in_borrow [OF nodes_in_int(1) [OF fs_atD(1) [OF F]], of 264] by auto
  note e = vfs_outside [OF x(4), unfolded d] and e2 = vfs_outside [OF x(7)]
  have F1: "fs_at s1 (insert x K) k ds T" using fs_at_frame [OF F e(1,7) x(3)] by blast
  have F2: "fs_at s2 K (k + 2) ds T" using e2 e by (intro fs_at_frame [OF F _ _ x(6)]) auto
  have M1: "mounts_ok s1 ds" using M e by (simp add: mounts_ok_def mount_vops_def)
  have b1: "pcbs s1 (get_current s1) = Some b" using b(1) e by (simp add: get_current_def)
  have sa: "start_at s1 = start_at s" using e by (intro ext) (simp add: start_at_def)
  obtain cur skip where st1: "start_at s1 (p_cur_dir b) c = (cur, skip)" "cur \<in> set ds" using st sa by (cases "start_at s (p_cur_dir b) c") auto
  obtain i ctx where t: "strtok_r (Some path) slash \<lparr>strtok_str = bytes_at (kptr x) STRLEN s1, strtok_idx = 0, strtok_len = 0\<rparr> = Some (Some i, ctx)"
    "held ctx i c" "toks ctx cs" "length (strtok_str ctx) = STRLEN"
    using strtok_first [OF path(1,2), of "\<lparr>strtok_str = bytes_at (kptr x) STRLEN s1, strtok_idx = 0, strtok_len = 0\<rparr>"] path(3) by (auto simp: bytes_at_def)
  obtain n r where p: "path_start (drop i (strtok_str ctx)) s1 = Some (cur, skip)" "vnodes s1 cur = Some n"
    "path_loop skip i cur (vn_parent n) (vn_mount n) ctx s1 = Some (r, s1)" "path_res r (resolve s1 T (p_cur_dir b) (c # cs))"
    using path_run [OF F1 M1 b1 b(2) t(2-4) st1] by (elim exE conjE)
  have "strtok_start path slash ?d = Some (kptr x, i, ctx, s1)" using x(1,2) t(1) by (simp add: strtok_start_def)
  then have "find_parent_vnode path s = (case r of
          Inl bs \<Rightarrow> Some (None, print_msg (text_of bs @ '': No such directory'') (enable_int s1))
        | Inr (n, p, bs) \<Rightarrow> do { component \<leftarrow> strcpy (replicate STRLEN 0) bs; Some (Some (n, p, component), enable_int s2) })"
    using p(1-3) x(5) by (simp add: find_parent_vnode_def split: sum.split prod.split)
  moreover have "path_res r (resolve s T (p_cur_dir b) (c # cs))" using p(4) resolve_cong [OF e(1,4)] by simp
  ultimately show ?thesis using F1 F2 x(4,7) by blast
qed

end
