(* ===== verification/Fs_Props.thy ===== *)
theory Fs_Props
  imports Path_Correct Sample_Io
begin

text \<open>Properties of the tree of vnodes: creation and lookup, and the resolution of paths.\<close>

section \<open>A sample tree\<close>

text \<open>No vnode, and the root directory alone.\<close>

definition no_files :: vfs_data where
  "no_files = io_data.extend (with_drivers idle_only)
     \<lparr>vnodes = Map.empty, mounts = [6000 \<mapsto> \<lparr>mt_root = 0, mt_fs = 0, mt_flags = 0\<rparr>], vops = [5000 \<mapsto> tmpfs_vops], fops = Map.empty,
       filesystems = Map.empty, fs_list = zero_list,
       stale_vnode = (\<lambda>_. \<lparr>vn_mount = 0, vn_vops = 0, vn_fops = 0, vn_children = zero_list, vn_hidden = False, vn_mode = 0, vn_parent = 0, vn_type = FILE,
          vn_name = [], vn_file_size = 0, vn_internal = 0\<rparr>), ramdisk_saddr = 0, ramdisk_eaddr = 0\<rparr>"

definition root_vnode :: vnode_t where
  "root_vnode = \<lparr>vn_mount = 6000, vn_vops = 5000, vn_fops = 0, vn_children = zero_list, vn_hidden = False, vn_mode = 0, vn_parent = 0, vn_type = DIR,
     vn_name = replicate STRLEN 0, vn_file_size = 0, vn_internal = 0\<rparr>"

lemma no_files_ok: "fs_at no_files {} 8 [] (\<lambda>_. [])"
proof -
  have "nodes_in idle_only {} 8" using idle_only_at by (simp add: sched_at_def)
  moreover have "list_data.truncate no_files = list_data.truncate idle_only" by (simp add: no_files_def io_data.defs with_drivers_def sched.defs list_data.defs)
  ultimately have "nodes_in no_files {} 8" using nodes_in_truncated [of no_files] nodes_in_truncated [of idle_only] by simp
  then show ?thesis by (simp add: fs_at_def lists_at_def lists_on_def no_files_def io_data.defs with_drivers_def sched.defs)
qed

lemma root_only:
  obtains t K and s :: vfs_data where "t \<noteq> 0" "fs_at s K 6 [t] (\<lambda>_. [])" "vnodes s t = Some root_vnode"
proof -
  have F: "fs_at no_files {} (6 + 2) [] (\<lambda>_. [])" using no_files_ok by simp
  obtain t n K' and s' :: vfs_data where x: "t \<noteq> 0" "nodes_in s' K' 6" "kptr ` K' = insert t (kptr ` {})" "vnodes s' = (vnodes no_files)(t \<mapsto> n)"
    using malloc_vnode_ok [OF F] by (elim exE conjE)
  let ?s = "s'\<lparr>vnodes := [t \<mapsto> root_vnode]\<rparr>"
  have "lists_at (list_nodes s') ([] @ [zero_list]) ([] @ [[]])" by (rule lists_at_snoc) (simp add: lists_at_def lists_on_def)
  then have "fs_at ?s K' 6 [t] (\<lambda>_. [])"
    using x by (simp add: fs_at_def kids_def root_vnode_def name_ok_def STRLEN_def)
  then show thesis using that [of t ?s K'] x(1) by simp
qed

section \<open>Creation and lookup\<close>

text \<open>
  C16: insertion and search in the tree.  If a directory has no visible entry of a given name, \<open>tmpfs_create\<close> makes a new vnode there, with a block of memory of its own if it is a file, and keeps the
  tree well-formed; a lookup of the name returns this vnode, and a lookup of any other name, or in any other directory, returns what it returned before.
\<close>

theorem create_then_lookup:
  assumes "fs_at s K (k + 5) ds T" "d \<in> set ds" "0 \<in> set name" "length (cstr name) < STRLEN" "tmpfs_lookup d name s = Some (0, s)"
  shows "\<exists>t n K' s'. tmpfs_create d name type s = Some (0, t, s') \<and> t \<notin> set ds \<and> fs_at s' K' k (ds @ [t]) (T(d := T d @ [t], t := []))
     \<and> tmpfs_lookup d name s' = Some (t, s')
     \<and> (\<forall>c \<in> set ds. \<forall>nm. 0 \<in> set nm \<and> (c \<noteq> d \<or> cstr nm \<noteq> cstr name) \<longrightarrow> (\<exists>r. tmpfs_lookup c nm s = Some (r, s) \<and> tmpfs_lookup c nm s' = Some (r, s')))
     \<and> vnodes s' t = Some n \<and> vn_type n = type \<and> vn_parent n = d \<and> vn_file_size n = 0 \<and> (type = FILE \<longrightarrow> owned s' (vn_internal n) MAX_FILE_SZ)"
proof -
  obtain i where i: "i < length ds" "ds ! i = d" using assms(2) by (auto simp: in_set_conv_nth)
  obtain t dn l nt K' s' where c: "tmpfs_create d name type s = Some (0, t, s')" "t \<notin> set ds" "t \<noteq> 0" "vnodes s d = Some dn"
    "vnodes s' = (vnodes s)(d \<mapsto> dn\<lparr>vn_children := l\<rparr>, t \<mapsto> nt)" "fs_at s' K' k (ds @ [t]) (T(d := T d @ [t], t := []))"
    "\<not> vn_hidden nt" "cstr (vn_name nt) = cstr name" "vn_type nt = type" "vn_parent nt = d" "vn_file_size nt = 0" "type = FILE \<longrightarrow> owned s' (vn_internal nt) MAX_FILE_SZ"
    using tmpfs_create_ok [OF assms(1) i assms(3,4), of type] by (elim exE conjE)
  have ch: "child_of s' (T(d := T d @ [t], t := [])) x nm
     = (if x = d \<and> cstr name = cstr nm \<and> child_of s T x nm = 0 then t else child_of s T x nm)" if "x \<in> set ds" for x nm
    using child_of_insert [OF assms(1) i(1) _ c(2,3), of dn s' l nt x "T(d := T d @ [t], t := [])" nm] that i(2) c(4,5,7,8) by simp
  have "child_of s T d name = 0" using tmpfs_lookup_ok [OF assms(1-3)] assms(5) by simp
  then have "tmpfs_lookup d name s' = Some (t, s')" using tmpfs_lookup_ok [OF c(6), of d name] ch [OF assms(2)] assms(2,3) by simp
  moreover have "tmpfs_lookup x nm s = Some (child_of s T x nm, s)" "tmpfs_lookup x nm s' = Some (child_of s T x nm, s')"
    if "x \<in> set ds" "0 \<in> set nm" "x \<noteq> d \<or> cstr nm \<noteq> cstr name" for x nm
    using tmpfs_lookup_ok [OF assms(1) that(1,2)] tmpfs_lookup_ok [OF c(6), of x nm] ch [OF that(1)] that by auto
  ultimately show ?thesis using c(1,2,5,6,9-12)
    by (intro exI [of _ t] exI [of _ nt] exI [of _ K'] exI [of _ s'] conjI) auto
qed

theorem create_then_lookup_witness:
  "\<exists>d t (s :: vfs_data) s'. vnodes s d = Some root_vnode \<and> tmpfs_create d (literal ''a'') FILE s = Some (0, t, s') \<and> tmpfs_lookup d (literal ''a'') s' = Some (t, s')"
proof -
  obtain d K and s :: vfs_data where r: "fs_at s K 6 [d] (\<lambda>_. [])" "vnodes s d = Some root_vnode" using root_only by metis
  have n: "0 \<in> set (literal ''a'')" "length (cstr (literal ''a'')) < STRLEN" by (simp_all add: literal_def cstr_def STRLEN_def)
  have F: "fs_at s K (1 + 5) [d] (\<lambda>_. [])" and d: "d \<in> set [d]" using r(1) by simp_all
  have l: "tmpfs_lookup d (literal ''a'') s = Some (0, s)" using tmpfs_lookup_ok [OF F d n(1)] by (simp add: child_of_def)
  obtain t s' where "tmpfs_create d (literal ''a'') FILE s = Some (0, t, s')" "tmpfs_lookup d (literal ''a'') s' = Some (t, s')"
    using create_then_lookup [OF F d n l, of FILE] by (elim exE conjE)
  then show ?thesis using r(2) by (intro exI [of _ d] exI [of _ t] exI [of _ s] exI [of _ s'] conjI)
qed

section \<open>Paths\<close>

lemma fs_at_enable:
  assumes "fs_at s K k ds T" "daif_masked s"
  shows "fs_at (enable_int s) K k ds T" "vnodes (enable_int s) = vnodes s"
proof -
  have "vnodes (enable_int s) = vnodes s" "list_nodes (enable_int s) = list_nodes s" by (simp_all add: enable_int_def Let_def)
  then show "fs_at (enable_int s) K k ds T" "vnodes (enable_int s) = vnodes s"
    using fs_at_frame [OF assms(1) _ _ nodes_in_int(2) [OF fs_atD(1) [OF assms(1)] assms(2)]] by simp_all
qed


text \<open>The sample tree with its root mounted, seen from a thread that works there.\<close>

lemma root_mounted:
  obtains t K and s :: vfs_data and b where "t \<noteq> 0" "fs_at s K 6 [t] (\<lambda>_. [])" "mounts_ok s [t]" "pcbs s (get_current s) = Some b" "p_cur_dir b = t" "rootfs_root s = t"
proof -
  obtain t K and s :: vfs_data where r: "t \<noteq> 0" "fs_at s K 6 [t] (\<lambda>_. [])" "vnodes s t = Some root_vnode" using root_only by metis
  let ?b = "idle_pcb\<lparr>p_cur_dir := t\<rparr>"
  let ?s = "s\<lparr>rootfs_root := t, mounts := [6000 \<mapsto> \<lparr>mt_root = t, mt_fs = 0, mt_flags = 0\<rparr>], vops := [5000 \<mapsto> tmpfs_vops], pcbs := [get_current s \<mapsto> ?b]\<rparr>"
  have t: "list_data.truncate ?s = list_data.truncate s" by (simp add: list_data.defs)
  have "nodes_in ?s K 6" using fs_atD(1) [OF r(2)] nodes_in_truncated [of ?s] nodes_in_truncated [of s] unfolding t by simp
  then have "fs_at ?s K 6 [t] (\<lambda>_. [])" using fs_at_frame [OF r(2), of ?s K 6] by simp
  moreover have "mounts_ok ?s [t]" using r(3) by (simp add: mounts_ok_def mount_vops_def root_vnode_def tmpfs_vops_def)
  moreover have "pcbs ?s (get_current ?s) = Some ?b" by (simp add: get_current_def)
  ultimately show thesis using that [of t ?s K ?b] r(1) by simp
qed


end
