(* ===== verification/Fat32_Props.thy ===== *)
theory Fat32_Props
  imports Fat32_Read Fs_Props
begin

text \<open>Properties of the FAT32 driver.\<close>

section \<open>Reading a file\<close>

text \<open>The bytes in the first \<open>n\<close> sectors of the chain from cluster \<open>c\<close> on.\<close>

definition chain_bytes :: "(u32 \<Rightarrow> u32 list) \<Rightarrow> (u32 \<Rightarrow> u32) \<Rightarrow> 'a vfs_data_scheme \<Rightarrow> u32 \<Rightarrow> nat \<Rightarrow> u8 list" where
  "chain_bytes B F s c n = concat (sector_bytes B s (sectors F (SecPerClus s) c 0 n))"

text \<open>A file of \<open>z\<close> bytes on the card, nothing of which is in memory: its chain starts with the cluster \<open>c\<close>, and there is memory for its sectors.\<close>

definition file_on_card :: "'a vfs_data_scheme \<Rightarrow> (nat \<times> nat) set \<Rightarrow> (u32 \<Rightarrow> u32 list) \<Rightarrow> (u32 \<Rightarrow> u32) \<Rightarrow> u32 set \<Rightarrow> u64 \<Rightarrow> u32 \<Rightarrow> nat \<Rightarrow> bool" where
  "file_on_card s K B F C node c z \<longleftrightarrow> volume_at s K B F C \<and> c \<in> C \<and> z < 2 ^ 32 \<and> chain_ok F (end_of_file (fat32_data s)) (SecPerClus s) c 0 ((z + 511) div 512)
     \<and> (\<exists>nd m. vnodes s node = Some nd \<and> vn_type nd = FILE \<and> vn_file_size nd = of_nat z \<and> f_datas s (vn_internal nd) = Some m \<and> clus_idx m = c \<and> list_empty (content_cache m)
          \<and> cache_at s K (3 * ((z + 511) div 512)) (vn_internal nd) [])"

lemma load_content_ok:
  assumes V: "volume_at s K B F C" and CA: "cache_at s K (3 * ((z + 511) div 512)) (vn_internal nd) []" and c: "clus_idx m \<in> C"
    and ch: "chain_ok F (end_of_file (fat32_data s)) (SecPerClus s) (clus_idx m) 0 ((z + 511) div 512)"
    and n: "vnodes s node = Some nd" "vn_type nd = FILE" "vn_file_size nd = of_nat z" "z < 2 ^ 32" "f_datas s (vn_internal nd) = Some m"
  shows "\<exists>xs s'. load_content node s = Some s' \<and> loaded s K 0 B F C (vn_internal nd) [] (sectors F (SecPerClus s) (clus_idx m) 0 ((z + 511) div 512)) xs s'"
proof -
  let ?n = "(z + 511) div 512"
  have "\<not> vn_file_size nd \<le> of_nat (j * 512)" if "j < ?n" for j
    using that n(3,4) small_of_nat(2) [of z "j * 512"] by (simp del: of_nat_mult)
  moreover have "vn_file_size nd \<le> of_nat (?n * 512)"
    using n(3,4) small_of_nat(2) [of z "?n * 512"] by (simp del: of_nat_mult)
  ultimately show ?thesis
    using load_loop_ok [of s K B F C 0 ?n "vn_internal nd" "[]" "clus_idx m" 0 node nd 0] V CA c ch n(1,2,5) by (simp add: load_content_def)
qed

lemma loaded_reading:
  assumes L: "loaded s K 0 B F C md [] cs xs s'" and f: "files s file = Some f" "f_pos f = of_nat pos" and n: "vnodes s node = Some nd" "vn_file_size nd = of_nat z" "z < 2 ^ 32" "z \<le> 512 * length cs"
  obtains m as where "f_datas s' md = Some m" "reading s' file node f z pos (content_cache m) as xs (sector_bytes B s cs)" "head (content_cache m) = (if as = [] then None else Some (hd as))" "length as = length cs"
proof -
  have C: "cache_at s' (set xs \<union> K) 0 md (map kptr xs)" and V: "volume_at s' (set xs \<union> K) B F C" and k: "kept s s'" and H: "holds s' xs (sector_bytes B s cs)"
    using L by (simp_all add: loaded_def)
  obtain m where m: "f_datas s' md = Some m" "lists_at (list_nodes s') [content_cache m] [map kptr xs]" and P: "\<forall>x \<in> set xs. owned s' (kptr x) 512" using C by (auto simp: cache_at_def)
  obtain as where as: "list_at (list_nodes s') (content_cache m) as (map kptr xs)" using m(2) by (auto simp: lists_at_def lists_on_def)
  have l: "length xs = length cs" using H by (simp add: holds_def sector_bytes_def)
  have "\<forall>bs \<in> set (sector_bytes B s cs). length bs = 512" using V by (auto simp: sector_bytes_def length_bytes_of volume_at_def card_at_def blocks_ok_def)
  moreover have "BytsPerSec s' = 512" using V by (simp add: volume_at_def BytsPerSec_def)
  ultimately have "reading s' file node f z pos (content_cache m) as xs (sector_bytes B s cs)"
    using f n l k as H P by (simp add: reading_def kept_def)
  then show thesis using that [OF m(1)] list_at_head [OF as] list_at_length [OF as] l by simp
qed

lemma nodes_kptr_inj:
  assumes "nodes_in s K k" "x \<in> K" "y \<in> K" "kptr x = kptr y"
  shows "x = y"
proof (rule ccontr)
  obtain L where L: "dyn_live s L" "K \<subseteq> L" using nodes_in_live [OF assms(1)] by blast
  then have "1 \<le> snd x" "1 \<le> snd y" using dyn_live_range(1) [OF L(1), of x] dyn_live_range(1) [OF L(1), of y] assms(2,3) by auto
  moreover assume "x \<noteq> y"
  ultimately have "apart (kptr x) 1 (kptr x) 1" using kptr_apart [OF assms(1-3), of 1 1] assms(4) by simp
  then show False by (metis apart_def diff_self zero_less_one word_neq_0_conv zero_neq_one)
qed

lemma loaded_apart:
  assumes "loaded s K k B F C md [] cs xs s'" "w \<in> K" "len \<le> snd w" "len < 2 ^ 32"
  shows "\<forall>x \<in> set xs. apart (kptr w) (of_nat len) (kptr x) 512"
proof
  fix x assume x: "x \<in> set xs"
  have C: "cache_at s' (set xs \<union> K) k md (map kptr xs)" "set xs \<inter> K = {}" using assms(1) by (simp_all add: loaded_def)
  obtain y where y: "y \<in> set xs \<union> K" "kptr x = kptr y" "512 \<le> snd y" using C(1) x unfolding cache_at_def by (metis image_eqI image_set)
  have N: "nodes_in s' (set xs \<union> K) k" using C(1) by (simp add: cache_at_def)
  have "x = y" using nodes_kptr_inj [OF N _ y(1,2)] x by blast
  moreover have "x \<noteq> w" using C(2) x assms(2) by blast
  moreover have "unat (of_nat len :: u64) = len" using assms(4) by (intro unat_of_nat_small) simp
  ultimately show "apart (kptr w) (of_nat len) (kptr x) 512" using kptr_apart [OF N, of w x "of_nat len" 512] assms(2,3) x y(3) by simp
qed

text \<open>
  C11: reading a file of the card.  The volume is mounted, its allocation table is in memory, and nothing of the file is cached.  Then \<open>fat32_read\<close> loads the sectors along the chain of clusters and
  returns, fills the buffer with the bytes of the chain from the position on, up to the end of the file or of the buffer, returns their number and moves the position; no vnode and no block of the card changes.
\<close>

theorem fat32_read_file:
  assumes F: "file_on_card s K B F C (f_vnode f) c z" and f: "files s file = Some f" "f_pos f = of_nat pos" "pos < z"
    and w: "w \<in> K" "0 < len" "len \<le> snd w" "len < 2 ^ 32" "owned s (kptr w) (of_nat len)"
  defines "k \<equiv> min len (z - pos)"
  shows "\<exists>s'. fat32_read file (kptr w) (of_nat len) s = Some (of_nat k, s') \<and> (\<forall>i < k. ram s' (kptr w + of_nat i) = chain_bytes B F s c ((z + 511) div 512) ! (pos + i))
     \<and> files s' = (files s)(file \<mapsto> f\<lparr>f_pos := of_nat (pos + k)\<rparr>) \<and> vnodes s' = vnodes s \<and> card_at B (mmio s')"
proof -
  let ?n = "(z + 511) div 512"
  let ?cs = "sectors F (SecPerClus s) c 0 ?n"
  obtain nd m where V: "volume_at s K B F C" and c: "clus_idx m = c" "c \<in> C" and ch: "chain_ok F (end_of_file (fat32_data s)) (SecPerClus s) c 0 ?n" and z: "z < 2 ^ 32"
    and n: "vnodes s (f_vnode f) = Some nd" "vn_type nd = FILE" "vn_file_size nd = of_nat z" "f_datas s (vn_internal nd) = Some m"
    and m: "list_empty (content_cache m)" "cache_at s K (3 * ?n) (vn_internal nd) []" using F unfolding file_on_card_def by blast
  obtain xs s1 where l: "load_content (f_vnode f) s = Some s1" "loaded s K 0 B F C (vn_internal nd) [] ?cs xs s1"
    using load_content_ok [OF V m(2) _ _ n(1-3) z n(4)] c ch by auto
  have zn: "z \<le> 512 * length ?cs" by simp
  obtain m' as where r: "f_datas s1 (vn_internal nd) = Some m'" "reading s1 file (f_vnode f) f z pos (content_cache m') as xs (sector_bytes B s ?cs)"
    "head (content_cache m') = (if as = [] then None else Some (hd as))" "length as = ?n"
    using loaded_reading [OF l(2) f(1,2) n(1,3) z zn] by (metis length_sectors)
  have k: "kept s s1" "card_at B (mmio s1)" using l(2) by (simp_all add: loaded_def volume_at_def)
  have q: "pos div 512 < length as" using r(4) f(3) by simp
  have L: "list_at (list_nodes s1) (content_cache m') as (map kptr xs)" using r(2) by (simp add: reading_def)
  have "as \<noteq> []" using q by auto
  then have sk: "skip_nodes (pos div 512) (head (content_cache m')) s1 = Some (Some (as ! (pos div 512)))" using skip_nodes_ok [OF L, of 0 "pos div 512"] q r(3) by (simp add: hd_conv_nth)
  have o: "owned s1 (kptr w) (of_nat len)" using w(5) k(1) by (simp add: owned_def kept_def)
  note rl = read_loop_fat_ok [OF r(2), of 0 len "kptr w", simplified, OF w(2) _ f(3) o loaded_apart [OF l(2) w(1,3,4)]]
  have b: "BytsPerSec s = 512" using V by (simp add: volume_at_def BytsPerSec_def)
  have le: "load_if_empty (0 < vn_file_size nd) (vn_internal nd) (f_vnode f) s = Some s1"
    using n(3,4) m(1) l(1) small_of_nat(1) [of 0 z] z f(3) by (simp add: load_if_empty_def)
  have ws: "unat (ucast (f_pos f div of_nat 512) :: u32) = pos div 512"
    using f(2,3) z small_of_nat(4) [of pos 512] by (simp add: unsigned_ucast_eq unsigned_of_nat take_bit_nat_eq_self)
  let ?s = "s1\<lparr>ram := filled (chain_bytes B F s c ?n) (kptr w) k pos (ram s1), files := (files s1)(file \<mapsto> f\<lparr>f_pos := of_nat (pos + k)\<rparr>)\<rparr>"
  have "read_loop_fat file (f_vnode f) (kptr w) (of_nat len) 0 (Some (as ! (pos div 512))) s1 = Some (of_nat k, ?s)" using rl w(4) unfolding k_def chain_bytes_def by simp
  then have "fat32_read file (kptr w) (of_nat len) s = Some (of_nat k, ?s)" using f(1) b n(1) le r(1) sk ws by (simp add: fat32_read_def)
  moreover have "ram ?s (kptr w + of_nat i) = chain_bytes B F s c ?n ! (pos + i)" if "i < k" for i
  proof -
    have "unat (of_nat i :: u64) = i" using that w(4) unfolding k_def by (intro unat_of_nat_small) simp
    then show ?thesis using that by (simp add: filled_def)
  qed
  ultimately show ?thesis using k by (intro exI [of _ ?s]) (simp add: kept_def)
qed

text \<open>A volume with a file of ten bytes, in cluster 2, and a buffer.\<close>

definition fat_vnode :: vnode_t where
  "fat_vnode = \<lparr>vn_mount = 6000, vn_vops = 0, vn_fops = 0, vn_children = zero_list, vn_hidden = False, vn_mode = 0, vn_parent = 0, vn_type = FILE,
     vn_name = replicate STRLEN 0, vn_file_size = 10, vn_internal = 2000\<rparr>"

definition with_volume :: "u64 \<Rightarrow> vfs_data \<Rightarrow> vfs_data" where
  "with_volume t s = s\<lparr>ram := (\<lambda>a. if a - t = 11 then 15 else 255), ram_ok := (\<lambda>_. True), is_hcs := 1, fat32_data := sample_volume\<lparr>fat_cache := t\<rparr>,
     f_datas := [2000 \<mapsto> \<lparr>dirty = False, clus_idx = 2, content_cache = zero_list\<rparr>], vnodes := [1000 \<mapsto> fat_vnode],
     files := [3000 \<mapsto> \<lparr>f_vnode = 1000, f_pos = 4, f_fops = 0, f_flags = 0, f_ref_count = 1\<rparr>]\<rparr>"

lemma nodes_in_volume: "nodes_in (with_volume t s) K k = nodes_in s K k"
  using nodes_in_truncated [of s] nodes_in_truncated [of "with_volume t s"] by (simp add: with_volume_def list_data.defs)

lemma with_volume_ok:
  assumes N: "nodes_in s {x, w} 4" and x: "512 \<le> snd x" and d: "mmio s = sample fresh_card"
  shows "file_on_card (with_volume (kptr x) s) {x, w} (h_blocks fresh_card) (\<lambda>_. 0x0fffffff) {2} 1000 2 10"
proof -
  let ?s = "with_volume (kptr x) s"
  have "card_at (h_blocks fresh_card) (sample fresh_card)"
    using sample_obeys [of fresh_card] by (auto simp: card_at_def blocks_ok_def fresh_card_def prompt_def)
  moreover have "get_fat_entry 2 ?s = Some 0x0fffffff" by (simp add: get_fat_entry_def fat_entry_addr_def with_volume_def rd32_def rd8_def le32_def)
  then have "fat_at ?s {x, w} (\<lambda>_. 0x0fffffff) {2}" using x by (simp add: fat_at_def with_volume_def sample_volume_def)
  ultimately have "volume_at ?s {x, w} (h_blocks fresh_card) (\<lambda>_. 0x0fffffff) {2}"
    using d by (simp add: volume_at_def with_volume_def sample_volume_def SecPerClus_def)
  moreover have "lists_at (list_nodes ?s) [zero_list] [[]]" using lists_at_snoc [of "list_nodes ?s" "[]" "[]"] by (simp add: lists_at_def lists_on_def)
  moreover have "nodes_in ?s {x, w} 3" using nodes_in_mono [OF N] nodes_in_volume by simp
  ultimately show ?thesis
    by (simp add: file_on_card_def cache_at_def SecPerClus_def with_volume_def sample_volume_def fat_vnode_def list_empty_def zero_list_def)
qed

lemma volume_sample:
  obtains x w and s :: vfs_data where "nodes_in s {x, w} 4" "512 \<le> snd x" "512 \<le> snd w" "mmio s = sample fresh_card"
proof -
  have N: "nodes_in no_files {} (6 + 2)" using no_files_ok by (simp add: fs_at_def)
  obtain x and h :: vfs_data where x: "nodes_in h {x} (4 + 2)" "512 \<le> snd x" "outside no_files h" using nodes_in_alloc [OF N, of 512] by auto
  obtain w and g :: vfs_data where w: "nodes_in g {w, x} 4" "512 \<le> snd w" "outside h g" using nodes_in_alloc [OF x(1), of 512] by auto
  have "list_data.more g = list_data.more no_files" using more_nodes outsideD(5) [OF x(3)] outsideD(5) [OF w(3)] by metis
  then have "mmio g = mmio no_files" by (rule io_more(5))
  then have "mmio g = sample fresh_card" by (simp add: no_files_def io_data.defs with_drivers_def sched.defs)
  then show thesis using that [of g x w] x(2) w(1,2) by (simp add: insert_commute)
qed

theorem fat32_read_file_witness:
  "\<exists>(s :: vfs_data) s' b. fat32_read 3000 b 100 s = Some (6, s') \<and> ram s' b = 2 \<and> ram s' (b + 1) = 0 \<and> ram s' (b + 4) = 2"
proof -
  obtain x w and s :: vfs_data where s: "nodes_in s {x, w} 4" "512 \<le> snd x" "512 \<le> snd w" "mmio s = sample fresh_card" by (rule volume_sample)
  let ?s = "with_volume (kptr x) s" and ?f = "\<lparr>f_vnode = 1000, f_pos = 4, f_fops = 0, f_flags = 0, f_ref_count = 1\<rparr>"
  have F: "file_on_card ?s {x, w} (h_blocks fresh_card) (\<lambda>_. 0x0fffffff) {2} (f_vnode ?f) 2 10" using with_volume_ok [OF s(1,2,4)] by simp
  obtain s' where r: "fat32_read 3000 (kptr w) 100 ?s = Some (6, s')" "\<forall>i < 6. ram s' (kptr w + of_nat i) = chain_bytes (h_blocks fresh_card) (\<lambda>_. 0x0fffffff) ?s 2 1 ! (4 + i)"
    using fat32_read_file [OF F, of 3000 4 w 100] s(3) by (auto simp: with_volume_def owned_def)
  have b: "chain_bytes (h_blocks fresh_card) (\<lambda>_. 0x0fffffff) ?s 2 1 = bytes_of (replicate 128 2)"
    by (simp add: chain_bytes_def sector_bytes_def SecPerClus_def sector_block_def FirstSectorofCluster_def FirstDataSector_def with_volume_def sample_volume_def fresh_card_def block_addr_def)
  have "take 12 (bytes_of (replicate 128 2)) = [2, 0, 0, 0, 2, 0, 0, 0, 2, 0, 0, 0 :: u8]" by code_simp
  then have "bytes_of (replicate 128 2) ! j = [2, 0, 0, 0, 2, 0, 0, 0, 2, 0, 0, 0 :: u8] ! j" if "j < 12" for j using that by (metis nth_take)
  then have "ram s' (kptr w) = 2" "ram s' (kptr w + 1) = 0" "ram s' (kptr w + 4) = 2" using spec [OF r(2), of 0] spec [OF r(2), of 1] spec [OF r(2), of 4] unfolding b by simp_all
  then show ?thesis using r(1) by blast
qed

end
