(* ===== verification/Mini_Uart.thy ===== *)
theory Mini_Uart
  imports Mmio
begin

text \<open>
  The registers of the mini UART, which the kernel and the bootloader access at the same physical addresses, the kernel through its virtual addresses, and the serial line.

  A byte access to a register is an access to its low byte.  The line is not part of the program: it is abstracted to the bytes that are still to arrive, the bytes sent, and
  the number of polls before the next byte is there or can be sent.  A device is such a line if each access to a register is a step of it.
\<close>

section \<open>Registers\<close>

definition get8 :: "u64 \<Rightarrow> device \<Rightarrow> u8 \<times> device" where
  "get8 a d = (case get32 a d of (v, d) \<Rightarrow> (ucast v, d))"

definition set8 :: "u64 \<Rightarrow> u8 \<Rightarrow> device \<Rightarrow> device" where
  "set8 a c d = set32 a (ucast c) d"

text \<open>\<open>v\<close> is the start of the space in which the program runs.\<close>

definition GPFSEL1 :: "u64 \<Rightarrow> u64" where "GPFSEL1 v = 0x3f200004 + v"
definition GPPUD :: "u64 \<Rightarrow> u64" where "GPPUD v = 0x3f200094 + v"
definition GPPUDCLK0 :: "u64 \<Rightarrow> u64" where "GPPUDCLK0 v = 0x3f200098 + v"
definition AUXENB :: "u64 \<Rightarrow> u64" where "AUXENB v = 0x3f215004 + v"
definition AUX_MU_CNTL_REG :: "u64 \<Rightarrow> u64" where "AUX_MU_CNTL_REG v = 0x3f215060 + v"
definition AUX_MU_IER_REG :: "u64 \<Rightarrow> u64" where "AUX_MU_IER_REG v = 0x3f215044 + v"
definition AUX_MU_LCR_REG :: "u64 \<Rightarrow> u64" where "AUX_MU_LCR_REG v = 0x3f21504c + v"
definition AUX_MU_MCR_REG :: "u64 \<Rightarrow> u64" where "AUX_MU_MCR_REG v = 0x3f215050 + v"
definition AUX_MU_BAUD_REG :: "u64 \<Rightarrow> u64" where "AUX_MU_BAUD_REG v = 0x3f215068 + v"
definition AUX_MU_IIR_REG :: "u64 \<Rightarrow> u64" where "AUX_MU_IIR_REG v = 0x3f215048 + v"
definition AUX_MU_LSR_REG :: "u64 \<Rightarrow> u64" where "AUX_MU_LSR_REG v = 0x3f215054 + v"
definition AUX_MU_IO_REG :: "u64 \<Rightarrow> u64" where "AUX_MU_IO_REG v = 0x3f215040 + v"

text \<open>\<open>uart_init\<close>, the same in both programs.\<close>

definition uart_setup :: "u64 \<Rightarrow> device \<Rightarrow> device" where
  "uart_setup v d =
     (let (x, d) = get32 (GPFSEL1 v) d;
          x = x AND NOT (push_bit 12 7 OR push_bit 15 7);
          x = x OR (push_bit 12 2 OR push_bit 15 2);
          d = set32 (GPFSEL1 v) x d;
          (x, d) = get32 (GPPUD v) d;
          d = set32 (GPPUD v) (x AND NOT 3) d;
          d = set32 (GPPUDCLK0 v) (push_bit 14 1 OR push_bit 15 1) d;
          d = set32 (GPPUD v) 0 d;
          d = set32 (GPPUDCLK0 v) 0 d;
          d = set32 (AUXENB v) 1 d;
          d = set32 (AUX_MU_CNTL_REG v) 0 d;
          d = set32 (AUX_MU_IER_REG v) 0 d;
          d = set32 (AUX_MU_LCR_REG v) 3 d;
          d = set32 (AUX_MU_MCR_REG v) 0 d;
          d = set32 (AUX_MU_BAUD_REG v) 270 d;
          d = set32 (AUX_MU_IIR_REG v) 6 d
      in set32 (AUX_MU_CNTL_REG v) 3 d)"

section \<open>The serial line\<close>

record line =
  l_in :: "u8 list"
  l_out :: "u8 list"
  l_rx :: nat
  l_tx :: nat

definition line_get :: "u64 \<Rightarrow> line \<Rightarrow> u64 \<Rightarrow> u32 \<Rightarrow> line \<Rightarrow> bool" where
  "line_get v l r x l' \<longleftrightarrow>
     (if r = AUX_MU_LSR_REG v then (x AND 1 \<noteq> 0 \<longleftrightarrow> l_rx l = 0 \<and> l_in l \<noteq> []) \<and> (x AND 32 \<noteq> 0 \<longleftrightarrow> l_tx l = 0) \<and> l' = l\<lparr>l_rx := l_rx l - 1, l_tx := l_tx l - 1\<rparr>
      else if r = AUX_MU_IO_REG v \<and> l_rx l = 0 \<and> l_in l \<noteq> [] then ucast x = hd (l_in l) \<and> (\<exists>n. l' = l\<lparr>l_in := tl (l_in l), l_rx := n\<rparr>)
      else l' = l)"

definition line_set :: "u64 \<Rightarrow> line \<Rightarrow> u64 \<Rightarrow> u32 \<Rightarrow> line \<Rightarrow> bool" where
  "line_set v l r x l' \<longleftrightarrow>
     (if r = AUX_MU_IO_REG v \<and> l_tx l = 0 then \<exists>n. l' = l\<lparr>l_out := l_out l @ [ucast x], l_tx := n\<rparr> else l' = l)"

coinductive serial :: "u64 \<Rightarrow> line \<Rightarrow> device \<Rightarrow> bool" where
  serialI: "(\<And>r. \<exists>l'. line_get v l r (fst (dev_get d r)) l' \<and> serial v l' (snd (dev_get d r))) \<Longrightarrow>
    (\<And>r x. \<exists>l'. line_set v l r x l' \<and> serial v l' (dev_set d r x)) \<Longrightarrow> serial v l d"

lemma serial_get:
  assumes "serial v l d"
  obtains x d' l' where "get32 r d = (x, d')" "line_get v l r x l'" "serial v l' d'"
  using assms by (cases rule: serial.cases) (metis get32_def prod.collapse)

lemma serial_set:
  assumes "serial v l d"
  obtains l' where "line_set v l r x l'" "serial v l' (set32 r x d)"
  using assms by (cases rule: serial.cases) (metis set32_def)

text \<open>A line without delays.\<close>

fun wire_get :: "u64 \<Rightarrow> u8 list \<Rightarrow> u64 \<Rightarrow> u32 \<times> u8 list" where
  "wire_get v bs r =
     (if r = AUX_MU_LSR_REG v then (if bs = [] then 32 else 33, bs)
      else if r = AUX_MU_IO_REG v then (case bs of [] \<Rightarrow> (0, []) | b # bs \<Rightarrow> (ucast b, bs))
      else (0, bs))"

primcorec wire :: "u64 \<Rightarrow> u8 list \<Rightarrow> device" where
  "dev_get (wire v bs) = (\<lambda>r. map_prod id (wire v) (wire_get v bs r))"
| "dev_set (wire v bs) = (\<lambda>r x. wire v bs)"

lemma ucast_u8 [simp]: "ucast (ucast b :: u32) = (b :: u8)"
  by (rule bit_word_eqI) (auto simp: bit_simps)

lemma wire_serial: "serial v \<lparr>l_in = bs, l_out = ts, l_rx = 0, l_tx = 0\<rparr> (wire v bs)"
proof (coinduction arbitrary: bs ts)
  case serial
  have g: "\<exists>l'. line_get v \<lparr>l_in = bs, l_out = ts, l_rx = 0, l_tx = 0\<rparr> r (fst (wire_get v bs r)) l' \<and> (\<exists>bs' ts'. l' = \<lparr>l_in = bs', l_out = ts', l_rx = 0, l_tx = 0\<rparr> \<and> snd (wire_get v bs r) = bs')" for r
    by (cases bs) (auto simp: line_get_def AUX_MU_LSR_REG_def AUX_MU_IO_REG_def)
  have st: "\<exists>l'. line_set v \<lparr>l_in = bs, l_out = ts, l_rx = 0, l_tx = 0\<rparr> r x l' \<and> (\<exists>ts'. l' = \<lparr>l_in = bs, l_out = ts', l_rx = 0, l_tx = 0\<rparr>)" for r x
    by (auto simp: line_set_def)
  show ?case
    using g st by (auto simp: simp del: wire_get.simps) (metis+)
qed

end
