(* ===== verification/Bootloader.thy ===== *)
theory Bootloader
  imports Mini_Uart Vnode
begin

text \<open>
  The bootloader, \<open>bootloader/main.c\<close> and \<open>bootloader/io.c\<close>, which receives the kernel over the serial line, and \<open>send_kernel.py\<close>, which sends it.

  The bootloader runs without address translation.  The image at \<open>_skernel\<close> is the list of the bytes received.  A function that does not return, since it polls a device that is never
  ready, has the value \<^term>\<open>None\<close>, and so has a loop whose \<open>int\<close> counter would pass its greatest value.
\<close>

section \<open>The serial port\<close>

partial_function (option) wait_lsr :: "u32 \<Rightarrow> device \<Rightarrow> device option" where
  "wait_lsr bits d =
     (case get32 (AUX_MU_LSR_REG 0) d of (x, d) \<Rightarrow> if x AND bits \<noteq> 0 then Some d else wait_lsr bits d)"

definition boot_write_char :: "u8 \<Rightarrow> device \<Rightarrow> device option" where
  "boot_write_char c d = do { d \<leftarrow> wait_lsr (push_bit 5 1) d; Some (set8 (AUX_MU_IO_REG 0) c d) }"

fun uart_write_string :: "u8 list \<Rightarrow> device \<Rightarrow> device option" where
  "uart_write_string [] d = None"
| "uart_write_string (c # cs) d = (if c = 0 then Some d else do { d \<leftarrow> boot_write_char c d; uart_write_string cs d })"

fun read_raw_loop :: "nat \<Rightarrow> device \<Rightarrow> (u8 list \<times> device) option" where
  "read_raw_loop 0 d = Some ([], d)"
| "read_raw_loop (Suc n) d = do {
     d \<leftarrow> wait_lsr 1 d;
     let (c, d) = get8 (AUX_MU_IO_REG 0) d;
     (cs, d) \<leftarrow> read_raw_loop n d;
     Some (c # cs, d)
   }"

definition uart_read_raw :: "u32 \<Rightarrow> device \<Rightarrow> (u8 list \<times> device) option" where
  "uart_read_raw sz d = (if 2 ^ 31 \<le> unat sz then None else read_raw_loop (unat sz) d)"

section \<open>Receiving the kernel\<close>

definition MAGIC :: u32 where "MAGIC = 0x544f4f42"

definition line_text :: "string \<Rightarrow> u8 list" where
  "line_text t = literal (t @ [CHR 0x0d, CHR 0x0a])"

text \<open>The four bytes of \<open>buf\<close> as a number.\<close>

definition read_u32 :: "device \<Rightarrow> (u32 \<times> device) option" where
  "read_u32 d = do { (bs, d) \<leftarrow> uart_read_raw 4 d; Some (le32 (bs ! 0) (bs ! 1) (bs ! 2) (bs ! 3), d) }"

definition image_sum :: "u8 list \<Rightarrow> u32" where
  "image_sum bs = foldl (\<lambda>sm b. sm + ucast b) 0 bs"

text \<open>The loop of \<open>main\<close>; it ends with the jump to the image.\<close>

partial_function (option) receive_loop :: "device \<Rightarrow> (u8 list \<times> device) option" where
  "receive_loop d = do {
     d \<leftarrow> uart_write_string (line_text ''Receiving kernel image...'') d;
     (magic, d) \<leftarrow> read_u32 d;
     (data_len, d) \<leftarrow> read_u32 d;
     (check, d) \<leftarrow> read_u32 d;
     (img, d) \<leftarrow> uart_read_raw data_len d;
     if magic \<noteq> MAGIC then do { d \<leftarrow> uart_write_string (line_text ''Invalid file'') d; receive_loop d }
     else if image_sum img \<noteq> check then do { d \<leftarrow> uart_write_string (line_text ''File corrupted'') d; receive_loop d }
     else do { d \<leftarrow> uart_write_string (line_text ''File received'') d; Some (img, d) }
   }"

definition boot_main :: "device \<Rightarrow> (u8 list \<times> device) option" where
  "boot_main d = receive_loop (uart_setup 0 d)"

section \<open>Sending the kernel\<close>

definition checksum :: "u8 list \<Rightarrow> int" where
  "checksum bs = foldl (\<lambda>ret b. ret + uint b) 0 bs AND 0xffffffff"

text \<open>\<open>struct.pack\<close> of three unsigned numbers, which raises an exception if one is out of range.\<close>

definition pack_I :: "int list \<Rightarrow> u8 list option" where
  "pack_I ns = (if list_all (\<lambda>n. 0 \<le> n \<and> n < 2 ^ 32) ns then Some (bytes_of (map of_int ns)) else None)"

definition send_kernel :: "u8 list \<Rightarrow> u8 list option" where
  "send_kernel kernel_data = do {
     header \<leftarrow> pack_I [0x544f4f42, int (length kernel_data), checksum kernel_data];
     Some (header @ kernel_data)
   }"

section \<open>The transfer\<close>

lemma line_get_reg:
  "line_get v l (AUX_MU_LSR_REG v) x l' \<longleftrightarrow> (x AND 1 \<noteq> 0 \<longleftrightarrow> l_rx l = 0 \<and> l_in l \<noteq> []) \<and> (x AND 32 \<noteq> 0 \<longleftrightarrow> l_tx l = 0) \<and> l' = l\<lparr>l_rx := l_rx l - 1, l_tx := l_tx l - 1\<rparr>"
  "line_get v l (AUX_MU_IO_REG v) x l' \<longleftrightarrow> (if l_rx l = 0 \<and> l_in l \<noteq> [] then ucast x = hd (l_in l) \<and> (\<exists>n. l' = l\<lparr>l_in := tl (l_in l), l_rx := n\<rparr>) else l' = l)"
  by (simp_all add: line_get_def AUX_MU_LSR_REG_def AUX_MU_IO_REG_def)

lemma wait_rx:
  "serial 0 l d \<Longrightarrow> l_in l \<noteq> [] \<Longrightarrow> \<exists>d' n. wait_lsr 1 d = Some d' \<and> serial 0 (l\<lparr>l_rx := 0, l_tx := n\<rparr>) d'"
proof (induction "l_rx l" arbitrary: l d)
  case 0
  obtain x d' l' where g: "get32 (AUX_MU_LSR_REG 0) d = (x, d')" "line_get 0 l (AUX_MU_LSR_REG 0) x l'" "serial 0 l' d'" using 0(2) by (rule serial_get)
  have "x AND 1 \<noteq> 0" "l' = l\<lparr>l_rx := 0, l_tx := l_tx l - 1\<rparr>" using g(2) 0(1,3) by (simp_all add: line_get_reg)
  then show ?case using g(1,3) by (subst wait_lsr.simps) auto
next
  case (Suc m)
  obtain x d' l' where g: "get32 (AUX_MU_LSR_REG 0) d = (x, d')" "line_get 0 l (AUX_MU_LSR_REG 0) x l'" "serial 0 l' d'" using Suc.prems(1) by (rule serial_get)
  have l: "x AND 1 = 0" "l' = l\<lparr>l_rx := m, l_tx := l_tx l - 1\<rparr>" using g(2) Suc.hyps(2) by (auto simp: line_get_reg)
  then obtain d'' n where "wait_lsr 1 d' = Some d''" "serial 0 (l'\<lparr>l_rx := 0, l_tx := n\<rparr>) d''" using Suc.hyps(1) [of l' d'] g(3) Suc.prems(2) by auto
  then show ?case using g(1) l by (subst wait_lsr.simps) auto
qed

lemma wait_tx:
  "serial 0 l d \<Longrightarrow> \<exists>d' n. wait_lsr 32 d = Some d' \<and> serial 0 (l\<lparr>l_rx := n, l_tx := 0\<rparr>) d'"
proof (induction "l_tx l" arbitrary: l d)
  case 0
  obtain x d' l' where g: "get32 (AUX_MU_LSR_REG 0) d = (x, d')" "line_get 0 l (AUX_MU_LSR_REG 0) x l'" "serial 0 l' d'" using 0(2) by (rule serial_get)
  have "x AND 32 \<noteq> 0" "l' = l\<lparr>l_rx := l_rx l - 1, l_tx := 0\<rparr>" using g(2) 0(1) by (simp_all add: line_get_reg)
  then show ?case using g(1,3) by (subst wait_lsr.simps) auto
next
  case (Suc m)
  obtain x d' l' where g: "get32 (AUX_MU_LSR_REG 0) d = (x, d')" "line_get 0 l (AUX_MU_LSR_REG 0) x l'" "serial 0 l' d'" using Suc.prems(1) by (rule serial_get)
  have l: "x AND 32 = 0" "l' = l\<lparr>l_rx := l_rx l - 1, l_tx := m\<rparr>" using g(2) Suc.hyps(2) by (auto simp: line_get_reg)
  then obtain d'' n where "wait_lsr 32 d' = Some d''" "serial 0 (l'\<lparr>l_rx := n, l_tx := 0\<rparr>) d''" using Suc.hyps(1) [of l' d'] g(3) by auto
  then show ?case using g(1) l by (subst wait_lsr.simps) auto
qed

text \<open>What the program sees of the line: the bytes to come and the bytes sent.\<close>

definition on_line :: "u8 list \<Rightarrow> u8 list \<Rightarrow> device \<Rightarrow> bool" where
  "on_line bs ts d \<longleftrightarrow> (\<exists>l. serial 0 l d \<and> l_in l = bs \<and> l_out l = ts)"

lemma write_char_ok:
  assumes "on_line bs ts d"
  shows "\<exists>d'. boot_write_char c d = Some d' \<and> on_line bs (ts @ [c]) d'"
proof -
  obtain l where l: "serial 0 l d" "l_in l = bs" "l_out l = ts" using assms by (auto simp: on_line_def)
  obtain d' n where w: "wait_lsr 32 d = Some d'" "serial 0 (l\<lparr>l_rx := n, l_tx := 0\<rparr>) d'" using wait_tx [OF l(1)] by blast
  obtain l' where s: "line_set 0 (l\<lparr>l_rx := n, l_tx := 0\<rparr>) (AUX_MU_IO_REG 0) (ucast c) l'" "serial 0 l' (set32 (AUX_MU_IO_REG 0) (ucast c) d')" using w(2) by (rule serial_set)
  have "l_in l' = bs" "l_out l' = ts @ [c]" using s(1) l(2,3) by (auto simp: line_set_def)
  then show ?thesis using w(1) s(2) by (auto simp: boot_write_char_def set8_def on_line_def)
qed

lemma write_string_ok: "on_line bs ts d \<Longrightarrow> 0 \<in> set cs \<Longrightarrow> \<exists>d'. uart_write_string cs d = Some d' \<and> on_line bs (ts @ cstr cs) d'"
proof (induction cs arbitrary: d ts)
  case (Cons c cs)
  show ?case
  proof (cases "c = 0")
    case False
    obtain d1 where d1: "boot_write_char c d = Some d1" "on_line bs (ts @ [c]) d1" using write_char_ok [OF Cons.prems(1)] by blast
    obtain d2 where "uart_write_string cs d1 = Some d2" "on_line bs ((ts @ [c]) @ cstr cs) d2" using Cons.IH [OF d1(2)] Cons.prems(2) False by auto
    then show ?thesis using d1(1) False by (simp add: cstr_Cons)
  qed (use Cons.prems(1) in \<open>simp add: cstr_Cons\<close>)
qed simp

lemma read_raw_loop_ok: "on_line (cs @ bs) ts d \<Longrightarrow> \<exists>d'. read_raw_loop (length cs) d = Some (cs, d') \<and> on_line bs ts d'"
proof (induction cs arbitrary: d)
  case (Cons c cs)
  obtain l where l: "serial 0 l d" "l_in l = c # cs @ bs" "l_out l = ts" using Cons.prems by (auto simp: on_line_def)
  obtain d1 n where w: "wait_lsr 1 d = Some d1" "serial 0 (l\<lparr>l_rx := 0, l_tx := n\<rparr>) d1" using wait_rx [OF l(1)] l(2) by auto
  obtain x d2 l2 where g: "get32 (AUX_MU_IO_REG 0) d1 = (x, d2)" "line_get 0 (l\<lparr>l_rx := 0, l_tx := n\<rparr>) (AUX_MU_IO_REG 0) x l2" "serial 0 l2 d2" using w(2) by (rule serial_get)
  have x: "ucast x = c" "l_in l2 = cs @ bs" "l_out l2 = ts" using g(2) l(2,3) by (auto simp: line_get_reg)
  obtain d3 where "read_raw_loop (length cs) d2 = Some (cs, d3)" "on_line bs ts d3" using Cons.IH [of d2] g(3) x by (auto simp: on_line_def)
  then show ?case using w(1) g(1) x(1) by (simp add: get8_def)
qed (auto simp: on_line_def)

lemma le32_bytes: "le32 (ucast w) (ucast (drop_bit 8 w)) (ucast (drop_bit 16 w)) (ucast (drop_bit 24 w)) = w"
proof (rule bit_word_eqI)
  fix n assume "n < LENGTH(32)"
  then consider "n < 8" | "8 \<le> n" "n < 16" | "16 \<le> n" "n < 24" | "24 \<le> n" "n < 32" by fastforce
  then show "bit (le32 (ucast w) (ucast (drop_bit 8 w)) (ucast (drop_bit 16 w)) (ucast (drop_bit 24 w))) n = bit w n"
    by cases (auto simp: le32_def bit_simps)
qed

lemma read_u32_ok:
  assumes "on_line (bytes_of [w] @ bs) ts d"
  shows "\<exists>d'. read_u32 d = Some (w, d') \<and> on_line bs ts d'"
proof -
  obtain d' where r: "read_raw_loop (length (bytes_of [w])) d = Some (bytes_of [w], d')" "on_line bs ts d'" using read_raw_loop_ok [OF assms] by blast
  have "length (bytes_of [w]) = 4" by (simp add: bytes_of_def)
  then have "uart_read_raw 4 d = Some (bytes_of [w], d')" using r(1) by (simp add: uart_read_raw_def)
  then show ?thesis using r(2) le32_bytes [of w] by (simp add: read_u32_def bytes_of_def)
qed

text \<open>A message on the line: a magic number, a checksum and an image.  It is rejected if one of the numbers is wrong.\<close>

type_synonym frame = "u32 \<times> u32 \<times> u8 list"

definition frame_bytes :: "frame \<Rightarrow> u8 list" where
  "frame_bytes = (\<lambda>(m, c, img). bytes_of [m] @ bytes_of [of_nat (length img)] @ bytes_of [c] @ img)"

definition rejected :: "frame \<Rightarrow> bool" where
  "rejected = (\<lambda>(m, c, img). m \<noteq> MAGIC \<or> image_sum img \<noteq> c)"

definition greeting :: "u8 list" where
  "greeting = cstr (line_text ''Receiving kernel image...'')"

definition verdict :: "frame \<Rightarrow> u8 list" where
  "verdict = (\<lambda>(m, c, img). cstr (line_text (if m \<noteq> MAGIC then ''Invalid file'' else if image_sum img \<noteq> c then ''File corrupted'' else ''File received'')))"

lemma line_text_0: "0 \<in> set (line_text t)"
  by (simp add: line_text_def literal_def)

lemma receive_turn:
  assumes "on_line (frame_bytes f @ bs) ts d" "f = (m, c, img)" "length img < 2 ^ 31"
  shows "\<exists>d'. receive_loop d = (if rejected f then receive_loop d' else Some (img, d')) \<and> on_line bs (ts @ greeting @ verdict f) d'"
proof -
  let ?n = "of_nat (length img) :: u32"
  have s: "on_line (bytes_of [m] @ bytes_of [?n] @ bytes_of [c] @ img @ bs) ts d" using assms(1,2) by (simp add: frame_bytes_def)
  have u: "unat ?n = length img" using assms(3) by (intro unat_of_nat_small) simp
  obtain d1 where d1: "uart_write_string (line_text ''Receiving kernel image...'') d = Some d1" "on_line (bytes_of [m] @ bytes_of [?n] @ bytes_of [c] @ img @ bs) (ts @ greeting) d1"
    using write_string_ok [OF s line_text_0] by (auto simp: greeting_def)
  obtain d2 where d2: "read_u32 d1 = Some (m, d2)" "on_line (bytes_of [?n] @ bytes_of [c] @ img @ bs) (ts @ greeting) d2" using read_u32_ok [OF d1(2)] by blast
  obtain d3 where d3: "read_u32 d2 = Some (?n, d3)" "on_line (bytes_of [c] @ img @ bs) (ts @ greeting) d3" using read_u32_ok [OF d2(2)] by blast
  obtain d4 where d4: "read_u32 d3 = Some (c, d4)" "on_line (img @ bs) (ts @ greeting) d4" using read_u32_ok [OF d3(2)] by blast
  obtain d5 where d5: "read_raw_loop (length img) d4 = Some (img, d5)" "on_line bs (ts @ greeting) d5" using read_raw_loop_ok [OF d4(2)] by blast
  have r: "uart_read_raw ?n d4 = Some (img, d5)" using d5(1) assms(3) unfolding uart_read_raw_def u by simp
  obtain d6 where d6: "uart_write_string (line_text (if m \<noteq> MAGIC then ''Invalid file'' else if image_sum img \<noteq> c then ''File corrupted'' else ''File received'')) d5 = Some d6"
    "on_line bs ((ts @ greeting) @ verdict f) d6" using write_string_ok [OF d5(2) line_text_0] assms(2) by (auto simp: verdict_def)
  have "receive_loop d = (if rejected f then receive_loop d6 else Some (img, d6))"
    using d1(1) d2(1) d3(1) d4(1) r d6(1) assms(2) by (subst receive_loop.simps) (auto simp: rejected_def)
  then show ?thesis using d6(2) by auto
qed

lemma receive_rejects:
  "on_line (concat (map frame_bytes fs) @ bs) ts d \<Longrightarrow> \<forall>f \<in> set fs. rejected f \<and> length (snd (snd f)) < 2 ^ 31 \<Longrightarrow>
   \<exists>d'. receive_loop d = receive_loop d' \<and> on_line bs (ts @ concat (map (\<lambda>f. greeting @ verdict f) fs)) d'"
proof (induction fs arbitrary: d ts)
  case (Cons f fs)
  obtain m c img where f: "f = (m, c, img)" by (cases f)
  obtain d1 where d1: "receive_loop d = receive_loop d1" "on_line (concat (map frame_bytes fs) @ bs) (ts @ greeting @ verdict f) d1"
    using receive_turn [of f "concat (map frame_bytes fs) @ bs" ts d m c img] Cons.prems f by auto
  show ?case using Cons.IH [OF d1(2)] Cons.prems(2) d1(1) by auto
qed auto

lemma setup_line:
  assumes "on_line bs ts d"
  shows "on_line bs ts (uart_setup 0 d)"
proof -
  have st: "on_line bs ts (set32 r x d)" if a: "on_line bs ts d" "r \<noteq> AUX_MU_IO_REG 0" for r x d
  proof -
    obtain l where l: "serial 0 l d" "l_in l = bs" "l_out l = ts" using a(1) by (auto simp: on_line_def)
    obtain l' where "line_set 0 l r x l'" "serial 0 l' (set32 r x d)" using l(1) by (rule serial_set)
    then show ?thesis using a(2) l(2,3) by (auto simp: line_set_def on_line_def)
  qed
  have gt: "on_line bs ts (snd (get32 r d))" if a: "on_line bs ts d" "r \<noteq> AUX_MU_IO_REG 0" for r d
  proof -
    obtain l where l: "serial 0 l d" "l_in l = bs" "l_out l = ts" using a(1) by (auto simp: on_line_def)
    obtain x d' l' where "get32 r d = (x, d')" "line_get 0 l r x l'" "serial 0 l' d'" using l(1) by (rule serial_get)
    then show ?thesis using a(2) l(2,3) by (auto simp: line_get_def on_line_def split: if_splits)
  qed
  note regs = GPFSEL1_def GPPUD_def GPPUDCLK0_def AUXENB_def AUX_MU_CNTL_REG_def AUX_MU_IER_REG_def AUX_MU_LCR_REG_def AUX_MU_MCR_REG_def AUX_MU_BAUD_REG_def AUX_MU_IIR_REG_def AUX_MU_IO_REG_def
  show ?thesis
    unfolding uart_setup_def Let_def case_prod_beta by (intro st gt assms) (simp_all add: regs)
qed

lemma image_sum_checksum: "image_sum bs = of_int (checksum bs)"
proof -
  have "of_int (foldl (\<lambda>ret b. ret + uint b) n bs) = (foldl (\<lambda>sm b. sm + ucast b) (of_int n) bs :: u32)" for n
    by (induction bs arbitrary: n) simp_all
  from this [of 0] have "image_sum bs = of_int (foldl (\<lambda>ret b. ret + uint b) 0 bs)" by (simp add: image_sum_def)
  also have "\<dots> = of_int (take_bit 32 (foldl (\<lambda>ret b. ret + uint b) 0 bs))" by (simp add: word_of_int_eq_iff)
  also have "take_bit 32 x = x AND 0xffffffff" for x :: int by (simp add: take_bit_eq_mask mask_eq_exp_minus_1)
  finally show ?thesis by (simp add: checksum_def)
qed

lemma send_kernel_frame:
  assumes "send_kernel img = Some msg"
  shows "\<exists>c. msg = frame_bytes (MAGIC, c, img) \<and> \<not> rejected (MAGIC, c, img)"
proof -
  have "msg = bytes_of [0x544f4f42, of_nat (length img), of_int (checksum img)] @ img"
    using assms by (auto simp: send_kernel_def pack_I_def split: if_splits)
  then have "msg = frame_bytes (MAGIC, of_int (checksum img), img)" by (simp add: frame_bytes_def bytes_of_def MAGIC_def)
  then show ?thesis using image_sum_checksum [of img] by (auto simp: rejected_def)
qed

text \<open>
  C13: the kernel that \<open>send_kernel.py\<close> sends is the one the bootloader starts.  Whatever messages with a wrong magic number or a wrong checksum arrive first, and with whatever finite delays of the line,
  the bootloader reports each of them, goes on, and then receives and starts exactly the image sent; it has read no byte behind it.
\<close>

theorem boot_receives:
  assumes "on_line (concat (map frame_bytes bad) @ msg @ rest) ts d" "send_kernel img = Some msg" "length img < 2 ^ 31"
    "\<forall>f \<in> set bad. rejected f \<and> length (snd (snd f)) < 2 ^ 31"
  shows "\<exists>d'. boot_main d = Some (img, d') \<and> on_line rest (ts @ concat (map (\<lambda>f. greeting @ verdict f) bad) @ greeting @ cstr (line_text ''File received'')) d'"
proof -
  obtain c where c: "msg = frame_bytes (MAGIC, c, img)" "\<not> rejected (MAGIC, c, img)" using send_kernel_frame [OF assms(2)] by blast
  obtain d1 where d1: "boot_main d = receive_loop d1" "on_line (msg @ rest) (ts @ concat (map (\<lambda>f. greeting @ verdict f) bad)) d1"
    using receive_rejects [OF setup_line [OF assms(1)] assms(4)] by (auto simp: boot_main_def)
  have "verdict (MAGIC, c, img) = cstr (line_text ''File received'')" using c(2) by (simp add: verdict_def rejected_def)
  then show ?thesis using receive_turn [OF d1(2) [unfolded c(1)] refl assms(3)] c(2) d1(1) by auto
qed

theorem boot_receives_witness:
  "\<exists>d'. boot_main (wire 0 (bytes_of [7, 1, 9] @ [9] @ bytes_of [MAGIC, 3, 300] @ [45, 0, 255] @ [8])) = Some ([45, 0, 255], d')"
proof -
  let ?bs = "bytes_of [7, 1, 9] @ [9] @ bytes_of [MAGIC, 3, 300] @ [45, 0, 255] @ [8 :: u8]"
  have "on_line ?bs [] (wire 0 ?bs)" using wire_serial [of 0 ?bs "[]"] unfolding on_line_def by force
  moreover have "?bs = concat (map frame_bytes [(7, 9, [9])]) @ (bytes_of [MAGIC, 3, 300] @ [45, 0, 255]) @ [8]" by (simp add: frame_bytes_def bytes_of_def)
  ultimately have l: "on_line (concat (map frame_bytes [(7, 9, [9])]) @ (bytes_of [MAGIC, 3, 300] @ [45, 0, 255]) @ [8]) [] (wire 0 ?bs)" by metis
  have "send_kernel [45, 0, 255] = Some (bytes_of [MAGIC, 3, 300] @ [45, 0, 255])" by code_simp
  moreover have "rejected (7, 9, [9])" by (simp add: rejected_def MAGIC_def)
  ultimately show ?thesis using boot_receives [OF l, of "[45, 0, 255]"] by auto
qed

end
