(* ===== verification/Uart.thy ===== *)
theory Uart
  imports Devices Mini_Uart
begin

text \<open>
  The interrupt-driven UART driver, \<open>uart.c\<close> and \<open>uart.h\<close>, and the deferred tasks of its interrupts, \<open>tx_int_task\<close> and \<open>rx_int_task\<close> of \<open>interrupt.c\<close>.

  A call of \<open>uart_read\<close> or \<open>uart_write\<close> that has to wait ends with the jump to the next thread (\<open>Inl\<close>); the thread goes on with the second part of the function when it gets the processor back.
\<close>

section \<open>Registers\<close>

definition IRQs1 :: u64 where "IRQs1 = 0x3f00b210 + V_KERNEL_SPACE"

text \<open>A register is read, some bits are set and others cleared, and it is written.\<close>

definition adjust :: "u64 \<Rightarrow> u32 \<Rightarrow> u32 \<Rightarrow> device \<Rightarrow> device" where
  "adjust r on off d = (case get32 r d of (x, d) \<Rightarrow> set32 r ((x OR on) AND NOT off) d)"

definition enable_read_int :: "device \<Rightarrow> device" where "enable_read_int = adjust (AUX_MU_IER_REG V_KERNEL_SPACE) 1 0"
definition disable_read_int :: "device \<Rightarrow> device" where "disable_read_int = adjust (AUX_MU_IER_REG V_KERNEL_SPACE) 0 1"
definition enable_write_int :: "device \<Rightarrow> device" where "enable_write_int = adjust (AUX_MU_IER_REG V_KERNEL_SPACE) 2 0"
definition disable_write_int :: "device \<Rightarrow> device" where "disable_write_int = adjust (AUX_MU_IER_REG V_KERNEL_SPACE) 0 2"
definition clear_read_fifo :: "device \<Rightarrow> device" where "clear_read_fifo = adjust (AUX_MU_IIR_REG V_KERNEL_SPACE) 2 0"
definition clear_write_fifo :: "device \<Rightarrow> device" where "clear_write_fifo = adjust (AUX_MU_IIR_REG V_KERNEL_SPACE) 4 0"

definition on_mmio :: "(device \<Rightarrow> device) \<Rightarrow> 'a io_data_scheme \<Rightarrow> 'a io_data_scheme" where
  "on_mmio f s = s\<lparr>mmio := f (mmio s)\<rparr>"

section \<open>Initialisation\<close>

definition uart_init :: "'a io_data_scheme \<Rightarrow> 'a io_data_scheme" where
  "uart_init = on_mmio (uart_setup V_KERNEL_SPACE)"

text \<open>The arrays behind the buffers are static.\<close>

definition enable_uart_int :: "'a io_data_scheme \<Rightarrow> 'a io_data_scheme" where
  "enable_uart_int s =
     (let s = on_mmio (set32 (AUX_MU_IER_REG V_KERNEL_SPACE) 12) s;
          s = on_mmio (adjust IRQs1 (push_bit 29 1) 0) s;
          s = s\<lparr>r_buf := ring_buf_init (replicate BUFLEN 0), w_buf := ring_buf_init (replicate BUFLEN 0)\<rparr>
      in enable_int s)"

section \<open>Writing\<close>

definition uart_write_char :: "u8 \<Rightarrow> 'a io_data_scheme \<Rightarrow> 'a io_data_scheme option" where
  "uart_write_char c s = do {
     (rb, s) \<leftarrow> ring_buf_produce c (w_buf s, s);
     Some (on_mmio enable_write_int (s\<lparr>w_buf := rb\<rparr>))
   }"

fun write_chars :: "u64 \<Rightarrow> nat \<Rightarrow> 'a io_data_scheme \<Rightarrow> 'a io_data_scheme option" where
  "write_chars p 0 s = Some s"
| "write_chars p (Suc n) s = do { c \<leftarrow> rd8 p s; s \<leftarrow> uart_write_char c s; write_chars (p + 1) n s }"

definition uart_write_rest :: "u64 \<Rightarrow> u64 \<Rightarrow> 'a io_data_scheme \<Rightarrow> (u64 \<times> 'a io_data_scheme) option" where
  "uart_write_rest buf sz s = do { s \<leftarrow> write_chars buf (unat sz) s; Some (sz, s) }"

definition uart_write :: "u64 \<Rightarrow> u64 \<Rightarrow> 'a io_data_scheme \<Rightarrow> ((jump + u64) \<times> 'a io_data_scheme) option" where
  "uart_write buf sz s = do {
     (j, s) \<leftarrow> (if of_nat (ring_buf_remain_e (w_buf s)) < sz then wait W sz s else Some (None, s));
     (case j of
        Some j \<Rightarrow> Some (Inl j, s)
      | None \<Rightarrow> do { (n, s) \<leftarrow> uart_write_rest buf sz s; Some (Inr n, s) })
   }"

section \<open>Reading\<close>

definition read_char :: "'a io_data_scheme \<Rightarrow> (u8 \<times> 'a io_data_scheme) option" where
  "read_char s = do { (c, rb, s) \<leftarrow> ring_buf_consume (r_buf s, s); Some (c, s\<lparr>r_buf := rb\<rparr>) }"

fun read_chars :: "u64 \<Rightarrow> nat \<Rightarrow> 'a io_data_scheme \<Rightarrow> 'a io_data_scheme option" where
  "read_chars p 0 s = Some s"
| "read_chars p (Suc n) s = do { (c, s) \<leftarrow> read_char s; s \<leftarrow> wr8 p c s; read_chars (p + 1) n s }"

definition uart_read_rest :: "u64 \<Rightarrow> u64 \<Rightarrow> 'a io_data_scheme \<Rightarrow> (u64 \<times> 'a io_data_scheme) option" where
  "uart_read_rest buf sz s = do { s \<leftarrow> read_chars buf (unat sz) s; Some (sz, on_mmio disable_read_int s) }"

definition uart_read :: "u64 \<Rightarrow> u64 \<Rightarrow> 'a io_data_scheme \<Rightarrow> ((jump + u64) \<times> 'a io_data_scheme) option" where
  "uart_read buf sz s = do {
     let s = on_mmio enable_read_int s;
     (j, s) \<leftarrow> (if of_nat (ring_buf_num_e (r_buf s)) < sz then wait R sz s else Some (None, s));
     (case j of
        Some j \<Rightarrow> Some (Inl j, s)
      | None \<Rightarrow> do { (n, s) \<leftarrow> uart_read_rest buf sz s; Some (Inr n, s) })
   }"

text \<open>
  \<open>uart_read_string\<close> into a local array: a backspace goes one position back.  The loop ends at the last position of the array, or with a line end.
\<close>

partial_function (option) read_string_loop :: "nat \<Rightarrow> u8 list \<Rightarrow> u64 \<Rightarrow> 'a io_data_scheme \<Rightarrow> (nat \<times> u8 list \<times> 'a io_data_scheme) option" where
  "read_string_loop i str sz s =
     (if i < unat (sz - 1) then do {
        (c, s) \<leftarrow> read_char s;
        if c = 0x7f \<or> c = 8 then
          (if 0 < i then read_string_loop (i - 1) str sz (print_msg [CHR 0x08, CHR '' '', CHR 0x08] s)
           else read_string_loop 0 str sz s)
        else if c = 13 then Some (i, str, print_msg [CHR 0x0d, CHR 0x0a] s)
        else if c = 0 \<or> c = 10 then do { s \<leftarrow> uart_write_char c s; Some (i, str, s) }
        else do { s \<leftarrow> uart_write_char c s; str \<leftarrow> set_at str i c; read_string_loop (i + 1) str sz s }
      }
      else Some (i, str, s))"

definition uart_read_string :: "u8 list \<Rightarrow> u64 \<Rightarrow> 'a io_data_scheme \<Rightarrow> (nat \<times> u8 list \<times> 'a io_data_scheme) option" where
  "uart_read_string str sz s = do {
     let s = on_mmio enable_read_int s;
     (i, str, s) \<leftarrow> read_string_loop 0 str sz s;
     str \<leftarrow> set_at str i 0;
     Some (i, str, on_mmio disable_read_int s)
   }"

section \<open>Interrupt tasks\<close>

text \<open>The first waiting thread goes on if what it waits for is there: \<open>n\<close> is the number of bytes, or of free places.\<close>

definition wake_first :: "event \<Rightarrow> nat \<Rightarrow> 'a io_data_scheme \<Rightarrow> 'a io_data_scheme option" where
  "wake_first e n s =
     (if list_empty (wait_queue s e) then Some s
      else do {
        p \<leftarrow> list_top (wait_queue s e) s;
        b \<leftarrow> pcbs s p;
        if p_wait_data b \<le> of_nat n then do {
          (p, l, s) \<leftarrow> list_pop (wait_queue s e) s;
          wait_to_ready p (s\<lparr>wait_queue := (wait_queue s)(e := l)\<rparr>)
        }
        else Some s
      })"

definition tx_int_task :: "u8 \<Rightarrow> 'a io_data_scheme \<Rightarrow> 'a io_data_scheme option" where
  "tx_int_task c s = do {
     let s = on_mmio (set8 (AUX_MU_IO_REG V_KERNEL_SPACE) c) s;
     s \<leftarrow> wake_first W (ring_buf_remain_e (w_buf s)) s;
     Some (if ring_buf_empty (w_buf s) then s else on_mmio enable_write_int s)
   }"

definition rx_int_task :: "u8 \<Rightarrow> 'a io_data_scheme \<Rightarrow> 'a io_data_scheme option" where
  "rx_int_task c s = do {
     (rb, s) \<leftarrow> ring_buf_produce c (r_buf s, s);
     let s = s\<lparr>r_buf := rb\<rparr>;
     s \<leftarrow> wake_first R (ring_buf_num_e (r_buf s)) s;
     Some (on_mmio enable_read_int s)
   }"

end
