(* ===== verification/Uart_Props.thy ===== *)
theory Uart_Props
  imports Uart Sample_Io Ram_Store
begin

text \<open>The driver hands the bytes that arrive to the thread that waits for them.\<close>

section \<open>Frames\<close>

lemma q_frame_io:
  fixes s :: "'a io_data_scheme"
  assumes "q_frame s s'"
  shows "r_buf s' = r_buf s" "w_buf s' = w_buf s" "mmio s' = mmio s" "ram s' = ram s" "ram_ok s' = ram_ok s"
  using assms unfolding q_frame_def list_outside_def by (cases s; cases s'; simp)+

lemma sched_at_io [simp]:
  fixes s :: "'a io_data_scheme"
  shows "sched_at (s\<lparr>mmio := d\<rparr>) K k = sched_at s K k" "sched_at (s\<lparr>r_buf := rb\<rparr>) K k = sched_at s K k" "sched_at (s\<lparr>w_buf := rb\<rparr>) K k = sched_at s K k"
    "sched_at (s\<lparr>ram := m\<rparr>) K k = sched_at s K k" "sched_at (on_mmio f s) K k = sched_at s K k"
  by (rule sched_at_truncate; simp add: list_data.defs queues_def on_mmio_def)+

lemma on_mmio_fields [simp]:
  "r_buf (on_mmio f s) = r_buf s" "w_buf (on_mmio f s) = w_buf s" "pcbs (on_mmio f s) = pcbs s" "ram (on_mmio f s) = ram s" "ram_ok (on_mmio f s) = ram_ok s" "get_current (on_mmio f s) = get_current s"
  "irq_ok (on_mmio f s) = irq_ok s"
  by (simp_all add: on_mmio_def get_current_def irq_ok_def)

lemma switch_io:
  fixes s :: "'a io_data_scheme"
  assumes "sched_at s K k (p # rs) ds ws" "pcbs s prv = Some b" "pcbs s p = Some n" "p \<noteq> prv" "list_empty (p_signal_queue n)" "switch_to_next prv s = Some (j, s')"
  shows "r_buf s' = r_buf s \<and> ram s' = ram s \<and> ram_ok s' = ram_ok s"
proof -
  obtain l s1 where r: "list_pop (ready_queue s) s = Some (p, l, s1)" "q_frame s (s1\<lparr>ready_queue := l\<rparr>)" using pop_ready_ok [OF assms(1)] by blast
  have "run_next prv p (s1\<lparr>ready_queue := l\<rparr>) = Some (j, s')" using assms(6) r(1) by (simp add: switch_to_next_def)
  then show ?thesis using assms(2-5) q_frameD(5) [OF r(2)] q_frame_io(1,4,5) [OF r(2)]
    by (auto simp: run_next_def set_current_def switch_to_def disable_int_def enable_int_def Let_def split: if_splits)
qed

section \<open>Waking the first thread\<close>

lemma wait_to_ready_ok:
  assumes A: "sched_at s K (Suc k) rs ds ws" and b: "pcbs s p = Some b"
  shows "\<exists>s'. wait_to_ready p s = Some s' \<and> sched_at s' K k (rs @ [p]) ds ws \<and> pcbs s' = (pcbs s)(p \<mapsto> woken b) \<and> q_frame s (s'\<lparr>pcbs := pcbs s\<rparr>)"
proof -
  let ?s = "(disable_int s)\<lparr>pcbs := (pcbs s)(p \<mapsto> woken b)\<rparr>"
  have "sched_at ?s K (Suc k) rs ds ws" using sched_at_int(1) [OF A] by simp
  from push_ready_ok [OF this, of p] obtain t where t: "push_ready p ?s = Some t" "sched_at t K k (rs @ [p]) ds ws" "q_frame ?s t" by blast
  have "q_frame (disable_int s) (t\<lparr>pcbs := pcbs s\<rparr>)" using t(3) by (cases s; cases t) (simp add: q_frame_def list_outside_def disable_int_def)
  then have "q_frame s (enable_int (t\<lparr>pcbs := pcbs s\<rparr>))" by (rule critical_frame [OF sched_irq [OF A]])
  moreover have "enable_int (t\<lparr>pcbs := pcbs s\<rparr>) = (enable_int t)\<lparr>pcbs := pcbs s\<rparr>" by (simp add: enable_int_def Let_def)
  moreover have "wait_to_ready p s = Some (enable_int t)" using b t(1) by (simp add: wait_to_ready_def upd_pcb_def woken_def)
  moreover have "daif_masked t" using q_frameD(2) [OF t(3)] by (simp add: disable_int_def)
  then have "sched_at (enable_int t) K k (rs @ [p]) ds ws" using sched_at_int(2) [OF t(2)] by simp
  moreover have "pcbs t = (pcbs s)(p \<mapsto> woken b)" using q_frameD(5) [OF t(3)] by simp
  ultimately show ?thesis by auto
qed

lemma wait_first_pop:
  assumes "sched_at s K k rs ds ws" "ws e = p # ps"
  shows "\<exists>l s1. list_pop (wait_queue s e) s = Some (p, l, s1) \<and> sched_at (s1\<lparr>wait_queue := (wait_queue s1)(e := l)\<rparr>) K (Suc k) rs ds (ws(e := ps))
     \<and> q_frame s (s1\<lparr>wait_queue := (wait_queue s1)(e := l)\<rparr>)"
proof -
  have A: "nodes_in s K k" "lists_at (list_nodes s) (queues s) [rs, ds, ws PROC, ws R, ws W]" using assms by (auto simp: sched_at_def)
  have "[rs, ds, ws PROC, ws R, ws W] ! ev_idx e = p # ps" unfolding wait_queue_idx assms(2) ..
  then obtain l s1 where p: "list_pop (wait_queue s e) s = Some (p, l, s1)" "nodes_in s1 K (Suc k)"
    "lists_at (list_nodes s1) ((queues s)[ev_idx e := l]) [rs, ds, (ws(e := ps)) PROC, (ws(e := ps)) R, (ws(e := ps)) W]" "list_outside s s1"
    using lists_pop [OF A, of "ev_idx e" p ps] by (simp only: wait_queue_idx) auto
  have "queues s1 = queues s" by (simp add: queues_def more_queues [OF p(4)])
  then have "sched_at (s1\<lparr>wait_queue := (wait_queue s1)(e := l)\<rparr>) K (Suc k) rs ds (ws(e := ps))"
    using p(3) wait_queue_idx(4) [of s1 e l] by (intro lists_at_queue [OF p(2)]) (simp_all add: list_data.defs del: fun_upd_apply)
  then show ?thesis using p(1) q_frame_intro(3) [OF p(4)] by blast
qed

lemma wait_first_top:
  assumes "sched_at s K k rs ds ws" "ws e = p # ps"
  shows "\<not> list_empty (wait_queue s e)" "list_top (wait_queue s e) s = Some p"
proof -
  obtain ass where "lists_on (list_nodes s) (queues s) ass [rs, ds, ws PROC, ws R, ws W]" using assms(1) by (auto simp: sched_at_def lists_at_def)
  then have "list_at (list_nodes s) (queues s ! ev_idx e) (ass ! ev_idx e) ([rs, ds, ws PROC, ws R, ws W] ! ev_idx e)" using wait_queue_idx(1) [of e s] by (simp only: lists_on_def)
  then have l: "list_at (list_nodes s) (wait_queue s e) (ass ! ev_idx e) (p # ps)" unfolding wait_queue_idx assms(2) .
  then obtain a as where a: "ass ! ev_idx e = a # as" using list_at_length [OF l] by (cases "ass ! ev_idx e") auto
  obtain n where "list_nodes s a = Some n" "n_ptr n = p" using list_at_node [of "list_nodes s" "wait_queue s e" "[]" a as "[]" p ps] l a by auto
  then show "\<not> list_empty (wait_queue s e)" "list_top (wait_queue s e) s = Some p" using list_at_head [OF l] a by (simp_all add: list_empty_def list_top_def)
qed

lemma wake_first_ok:
  assumes A: "sched_at s K k rs ds ws" and q: "ws e = p # ps" and b: "pcbs s p = Some b" and n: "n < 2 ^ 32"
  shows "\<exists>s'. wake_first e n s = Some s' \<and> (if unat (p_wait_data b) \<le> n then sched_at s' K k (rs @ [p]) ds (ws(e := ps)) \<and> pcbs s' = (pcbs s)(p \<mapsto> woken b) \<and> q_frame s (s'\<lparr>pcbs := pcbs s\<rparr>) else s' = s)"
proof -
  have u: "p_wait_data b \<le> of_nat n \<longleftrightarrow> unat (p_wait_data b) \<le> n" using n unat_of_nat_small [of n, where 'a = 64] by (simp add: word_le_nat_alt)
  note tp = wait_first_top [OF A q]
  show ?thesis
  proof (cases "unat (p_wait_data b) \<le> n")
    case True
    obtain l s1 where l: "list_pop (wait_queue s e) s = Some (p, l, s1)" "sched_at (s1\<lparr>wait_queue := (wait_queue s1)(e := l)\<rparr>) K (Suc k) rs ds (ws(e := ps))"
      "q_frame s (s1\<lparr>wait_queue := (wait_queue s1)(e := l)\<rparr>)" using wait_first_pop [OF A q] by blast
    have "pcbs (s1\<lparr>wait_queue := (wait_queue s1)(e := l)\<rparr>) = pcbs s" using q_frameD(5) [OF l(3)] .
    then obtain s' where w: "wait_to_ready p (s1\<lparr>wait_queue := (wait_queue s1)(e := l)\<rparr>) = Some s'" "sched_at s' K k (rs @ [p]) ds (ws(e := ps))" "pcbs s' = (pcbs s)(p \<mapsto> woken b)"
      "q_frame (s1\<lparr>wait_queue := (wait_queue s1)(e := l)\<rparr>) (s'\<lparr>pcbs := pcbs s\<rparr>)" using wait_to_ready_ok [OF l(2), of p b] b by auto
    then show ?thesis using True u tp b l(1) q_frame_trans [OF l(3) w(4)] by (simp add: wake_first_def)
  qed (use u tp b in \<open>simp add: wake_first_def\<close>)
qed

section \<open>Bytes that arrive\<close>

text \<open>The queues, and the bytes in the read buffer.\<close>

definition uart_at :: "'a io_data_scheme \<Rightarrow> (nat \<times> nat) set \<Rightarrow> nat \<Rightarrow> u64 list \<Rightarrow> u64 list \<Rightarrow> (event \<Rightarrow> u64 list) \<Rightarrow> u8 list \<Rightarrow> bool" where
  "uart_at s K k rs ds ws xs \<longleftrightarrow> sched_at s K k rs ds ws \<and> rb_ok (r_buf s) \<and> rb_list (r_buf s) = xs"

lemma rx_int_task_ok:
  assumes U: "uart_at s K k rs ds ws xs" and q: "ws R = p # ps" and b: "pcbs s p = Some b" and n: "Suc (length xs) < BUFLEN"
  shows "\<exists>s'. rx_int_task c s = Some s' \<and> ram s' = ram s \<and> ram_ok s' = ram_ok s
     \<and> (if unat (p_wait_data b) \<le> Suc (length xs) then uart_at s' K k (rs @ [p]) ds (ws(R := ps)) (xs @ [c]) \<and> pcbs s' = (pcbs s)(p \<mapsto> woken b)
        else uart_at s' K k rs ds ws (xs @ [c]) \<and> pcbs s' = pcbs s)"
proof -
  have A: "sched_at s K k rs ds ws" and rb: "rb_ok (r_buf s)" "rb_list (r_buf s) = xs" using U by (auto simp: uart_at_def)
  have i: "enable_int (disable_int s) = s" using critical_section_id [OF sched_irq [OF A]] .
  obtain rb' where r: "ring_buf_produce c (r_buf s, s) = Some (rb', s)" "rb_ok rb'" "rb_list rb' = xs @ [c]" using ring_buf_produce_room [OF rb(1), of c s] rb(2) less_diff_conv [of "length xs" BUFLEN 1] n unfolding i by auto
  let ?s = "s\<lparr>r_buf := rb'\<rparr>"
  have m: "ring_buf_num_e rb' = Suc (length xs)" using r(3) length_rb_list [of rb'] by simp
  have "sched_at ?s K k rs ds ws" "pcbs ?s p = Some b" "Suc (length xs) < 2 ^ 32" using A b n by (simp_all add: BUFLEN_def)
  from wake_first_ok [OF this(1) q this(2,3)] obtain s' where w: "wake_first R (Suc (length xs)) ?s = Some s'"
    "if unat (p_wait_data b) \<le> Suc (length xs) then sched_at s' K k (rs @ [p]) ds (ws(R := ps)) \<and> pcbs s' = (pcbs ?s)(p \<mapsto> woken b) \<and> q_frame ?s (s'\<lparr>pcbs := pcbs ?s\<rparr>) else s' = ?s" by blast
  have f: "ram s' = ram s" "ram_ok s' = ram_ok s" "r_buf s' = rb'"
    using w(2) q_frame_io(1,4,5) [of ?s "s'\<lparr>pcbs := pcbs ?s\<rparr>"] by (auto split: if_splits)
  have "rx_int_task c s = Some (on_mmio enable_read_int s')" using r(1) m w(1) by (simp add: rx_int_task_def)
  then show ?thesis using w(2) f r(2,3) A by (auto simp: uart_at_def)
qed

fun feed :: "u8 list \<Rightarrow> 'a io_data_scheme \<Rightarrow> 'a io_data_scheme option" where
  "feed [] s = Some s"
| "feed (c # cs) s = do { s \<leftarrow> rx_int_task c s; feed cs s }"

lemma feed_append: "feed (cs @ cs') s = feed cs s \<bind> feed cs'"
  by (induction cs arbitrary: s) (auto split: Option.bind_splits)

text \<open>As long as there are not enough bytes, the thread waits.\<close>

lemma feed_waits:
  "uart_at s K k rs ds ws xs \<Longrightarrow> ws R = p # ps \<Longrightarrow> pcbs s p = Some b \<Longrightarrow> length xs + length cs < unat (p_wait_data b) \<Longrightarrow> length xs + length cs < BUFLEN \<Longrightarrow>
   \<exists>s'. feed cs s = Some s' \<and> uart_at s' K k rs ds ws (xs @ cs) \<and> pcbs s' = pcbs s \<and> ram s' = ram s \<and> ram_ok s' = ram_ok s"
proof (induction cs arbitrary: s xs)
  case (Cons c cs)
  obtain s1 where s1: "rx_int_task c s = Some s1" "ram s1 = ram s" "ram_ok s1 = ram_ok s" "uart_at s1 K k rs ds ws (xs @ [c])" "pcbs s1 = pcbs s"
    using rx_int_task_ok [OF Cons.prems(1-3), of c] Cons.prems(4,5) by auto
  show ?case using Cons.IH [OF s1(4) Cons.prems(2)] Cons.prems(3-5) s1 by auto
qed simp

lemma read_chars_ok:
  "irq_ok s \<Longrightarrow> rb_ok (r_buf s) \<Longrightarrow> rb_list (r_buf s) = xs @ ys \<Longrightarrow> owned s p (of_nat (length xs)) \<Longrightarrow> length xs < 2 ^ 64 \<Longrightarrow>
   \<exists>rb'. read_chars p (length xs) s = Some (s\<lparr>ram := stored p xs (ram s), r_buf := rb'\<rparr>) \<and> rb_ok rb' \<and> rb_list rb' = ys"
proof (induction xs arbitrary: s p)
  case Nil
  then show ?case by (intro exI [of _ "r_buf s"]) (simp add: stored_def)
next
  case (Cons x xs)
  have n: "Suc (length xs) < 2 ^ 64" using Cons.prems(5) by simp
  obtain rb1 where r: "ring_buf_consume (r_buf s, s) = Some (x, rb1, s)" "rb_ok rb1" "rb_list rb1 = xs @ ys"
    using ring_buf_consume_first [OF Cons.prems(2), of x "xs @ ys" s] Cons.prems(3) critical_section_id [OF Cons.prems(1)] by auto
  let ?s = "s\<lparr>r_buf := rb1, ram := (ram s)(p := x)\<rparr>"
  have o: "ram_ok s p" "owned ?s (p + 1) (of_nat (length xs))" using owned_step [of s p "length xs"] Cons.prems(4) n by (simp_all add: owned_def)
  have "irq_ok ?s" using Cons.prems(1) by (simp add: irq_ok_def)
  then obtain rb' where "read_chars (p + 1) (length xs) ?s = Some (?s\<lparr>ram := stored (p + 1) xs (ram ?s), r_buf := rb'\<rparr>)" "rb_ok rb'" "rb_list rb' = ys"
    using Cons.IH [of ?s "p + 1"] r(2,3) o(2) n by (auto simp del: fun_upd_apply)
  then show ?case using r(1) o(1) stored_Cons [of x xs p "ram s"] Cons.prems(5) by (intro exI [of _ rb']) (simp add: read_char_def wr8_def del: fun_upd_apply)
qed

section \<open>A blocked reader\<close>

lemma reader_blocks:
  assumes U: "uart_at s K (Suc k) (r # rs) ds ws xs" and w: "ws R = []" and c: "get_current s = t" "pcbs s t = Some b" and q: "pcbs s r = Some n" "r \<noteq> t" "list_empty (p_signal_queue n)"
    and len: "length xs < unat sz"
  shows "\<exists>s1 b1. uart_read buf sz s = Some (Inl \<lparr>j_pc = p_pc n, j_pstate = p_pstate n, j_arg = p_args n\<rparr>, s1) \<and> uart_at s1 K (Suc k) rs ds (ws(R := [t])) xs
     \<and> pcbs s1 t = Some b1 \<and> p_wait_data b1 = sz \<and> ram s1 = ram s \<and> ram_ok s1 = ram_ok s"
proof -
  let ?s = "on_mmio enable_read_int s"
  have A: "sched_at ?s K (Suc k) (r # rs) ds ws" and rb: "rb_ok (r_buf ?s)" "rb_list (r_buf ?s) = xs" using U by (simp_all add: uart_at_def)
  have few: "of_nat (ring_buf_num_e (r_buf ?s)) < sz"
    using len rb(2) length_rb_list [of "r_buf ?s"] num_e_lt [of "r_buf ?s"] unat_of_nat_small [of "ring_buf_num_e (r_buf ?s)", where 'a = 64] by (simp add: word_less_nat_alt BUFLEN_def)
  obtain u where u: "wait R sz ?s = map_option (\<lambda>(j, s). (Some j, s)) (switch_to_next t u)" "sched_at u K k (r # rs) ds (ws(R := [t]))" "pcbs u = (pcbs s)(t \<mapsto> waiting ?s R sz b)"
    "q_frame ?s (u\<lparr>pcbs := pcbs ?s\<rparr>)" using wait_ok [OF A, of t b R sz] c w by auto
  have ut: "pcbs u t = Some (waiting ?s R sz b)" "pcbs u r = Some n" using u(3) q(1,2) by simp_all
  obtain s1 where s1: "switch_to_next t u = Some (\<lparr>j_pc = p_pc n, j_pstate = p_pstate n, j_arg = p_args n\<rparr>, s1)" "sched_at s1 K (Suc k) rs ds (ws(R := [t]))"
    "pcbs s1 = (pcbs u)(t \<mapsto> saved u (waiting ?s R sz b), r \<mapsto> n\<lparr>p_state := RUN\<rparr>)" using switch_to_next_ok [OF u(2) ut q(2,3)] by blast
  have f: "r_buf s1 = r_buf s" "ram s1 = ram s" "ram_ok s1 = ram_ok s"
    using switch_io [OF u(2) ut q(2,3) s1(1)] q_frame_io(1,4,5) [OF u(4)] by simp_all
  have "uart_at s1 K (Suc k) rs ds (ws(R := [t])) xs" using s1(2) f(1) rb by (simp add: uart_at_def)
  moreover have "pcbs s1 t = Some (saved u (waiting ?s R sz b))" "p_wait_data (saved u (waiting ?s R sz b)) = sz" using s1(3) q(2) by (simp_all add: saved_def waiting_def parked_def)
  moreover have "uart_read buf sz s = Some (Inl \<lparr>j_pc = p_pc n, j_pstate = p_pstate n, j_arg = p_args n\<rparr>, s1)" using few u(1) s1(1) by (simp add: uart_read_def)
  ultimately show ?thesis using f(2,3) by blast
qed

lemma reader_woken:
  assumes U: "uart_at s K k rs ds ws xs" "ws R = [t]" "pcbs s t = Some b" and n: "unat (p_wait_data b) = length xs + length cs" "length xs + length cs < BUFLEN" "cs \<noteq> []"
  shows "\<exists>s'. feed cs s = Some s' \<and> uart_at s' K k (rs @ [t]) ds (ws(R := [])) (xs @ cs) \<and> ram s' = ram s \<and> ram_ok s' = ram_ok s"
proof -
  obtain bs c where c: "cs = bs @ [c]" using n(3) by (cases cs rule: rev_cases) auto
  obtain s2 where s2: "feed bs s = Some s2" "uart_at s2 K k rs ds ws (xs @ bs)" "pcbs s2 = pcbs s" "ram s2 = ram s" "ram_ok s2 = ram_ok s"
    using feed_waits [OF U, of bs] n c by auto
  have l: "Suc (length (xs @ bs)) = unat (p_wait_data b)" using n(1) c by simp
  obtain s3 where "rx_int_task c s2 = Some s3" "ram s3 = ram s2" "ram_ok s3 = ram_ok s2" "uart_at s3 K k (rs @ [t]) ds (ws(R := [])) ((xs @ bs) @ [c])"
    using rx_int_task_ok [OF s2(2) U(2), of b c] s2(3) U(3) l n(1,2) by (auto simp del: fun_upd_apply)
  then show ?thesis using s2 c feed_append [of bs "[c]" s] by (intro exI [of _ s3]) simp
qed



end
