(* ===== verification/Device_Tree.thy ===== *)
theory Device_Tree
  imports Reserve Vnode
begin

text \<open>
  The device tree, \<open>device_tree.c\<close>: a traversal of the flattened tree in memory, which calls a function for every node and every property until it returns true.  The functions that \<open>main\<close>
  passes are \<open>initramfs_start\<close> and \<open>initramfs_end\<close> of \<open>ramdisk.c\<close> and \<open>mem_region\<close> of \<open>mem.c\<close>; \<open>reserve_mem_regions\<close> reserves what they found.

  An invalid token is reported again and again, so the traversal does not return.
\<close>

section \<open>Reading the tree\<close>

definition FDT_BEGIN_NODE :: u32 where "FDT_BEGIN_NODE = 1"
definition FDT_END_NODE :: u32 where "FDT_END_NODE = 2"
definition FDT_PROP :: u32 where "FDT_PROP = 3"
definition FDT_NOP :: u32 where "FDT_NOP = 4"
definition FDT_END :: u32 where "FDT_END = 9"

definition rd_be :: "u64 \<Rightarrow> 'a vm_data_scheme \<Rightarrow> u32 option" where
  "rd_be p s = map_option big2host (rd32 p s)"

definition dtb_get_len :: "'a io_data_scheme \<Rightarrow> 'a io_data_scheme option" where
  "dtb_get_len s = do { n \<leftarrow> rd_be (dtb_addr s + 4) s; Some (s\<lparr>dtb_len := ucast n\<rparr>) }"

text \<open>The name of a node up to the \<open>@\<close>, copied to an array of \<open>n\<close> characters; a longer name runs over its end.\<close>

fun node_name :: "nat \<Rightarrow> u64 \<Rightarrow> 'a vm_data_scheme \<Rightarrow> u8 list option" where
  "node_name 0 p s = None"
| "node_name (Suc n) p s = do {
     c \<leftarrow> rd8 p s;
     if c = 0 \<or> c = 64 then Some [0] else do { cs \<leftarrow> node_name n (p + 1) s; Some (c # cs) }
   }"

text \<open>The string at an address, with its terminator.\<close>

partial_function (option) string_at :: "u64 \<Rightarrow> 'a vm_data_scheme \<Rightarrow> u8 list option" where
  "string_at p s = do {
     c \<leftarrow> rd8 p s;
     if c = 0 then Some [0] else do { cs \<leftarrow> string_at (p + 1) s; Some (c # cs) }
   }"

section \<open>Traversal\<close>

partial_function (option) fdt_loop :: "(u64 \<Rightarrow> u8 list \<Rightarrow> 'a io_data_scheme \<Rightarrow> (bool \<times> 'a io_data_scheme) option) \<Rightarrow> u64 \<Rightarrow> 'a io_data_scheme \<Rightarrow> 'a io_data_scheme option" where
  "fdt_loop func p s = do {
     token \<leftarrow> rd_be p s;
     if token = FDT_BEGIN_NODE then do {
       name \<leftarrow> node_name 32 (p + 4) s;
       (found, s) \<leftarrow> func p name s;
       if found then Some s
       else do {
         str \<leftarrow> string_at (p + 4) s;
         fdt_loop func (p + ((4 + of_nat (length str) + 3) AND NOT 3)) s
       }
     }
     else if token = FDT_PROP then do {
       strs \<leftarrow> rd_be (dtb_addr s + 12) s;
       nameoff \<leftarrow> rd_be (p + 8) s;
       name \<leftarrow> string_at (dtb_addr s + ucast strs + ucast nameoff) s;
       (found, s) \<leftarrow> func p name s;
       if found then Some s
       else do {
         len \<leftarrow> rd_be (p + 4) s;
         let total_len = 4 + 8 + len;
         fdt_loop func (p + ucast ((total_len + 3) AND NOT 3)) s
       }
     }
     else if token = FDT_END_NODE \<or> token = FDT_NOP then fdt_loop func (p + 4) s
     else if token = FDT_END then do { (_, s) \<leftarrow> func p [0] s; Some s }
     else fdt_loop func p (print_msg ''Invalid fdt token'' s)
   }"

definition fdt_traverse :: "(u64 \<Rightarrow> u8 list \<Rightarrow> 'a io_data_scheme \<Rightarrow> (bool \<times> 'a io_data_scheme) option) \<Rightarrow> 'a io_data_scheme \<Rightarrow> 'a io_data_scheme option" where
  "fdt_traverse func s = do {
     magic \<leftarrow> rd_be (dtb_addr s) s;
     let s = (if magic \<noteq> 0xd00dfeed then print_msg ''Invalid .dtb file'' s else s);
     off \<leftarrow> rd_be (dtb_addr s + 8) s;
     fdt_loop func (dtb_addr s + ucast off) s
   }"

section \<open>Paths\<close>

text \<open>The end of the component of a path that starts at \<open>i\<close>, and whether it is the last one.\<close>

function comp_end :: "u8 list \<Rightarrow> nat \<Rightarrow> (nat \<times> bool) option" where
  "comp_end path i =
     (if i < length path then (if path ! i = 47 then Some (i, False) else if path ! i = 0 then Some (i, True) else comp_end path (i + 1))
      else None)"
  by pat_completeness auto
termination
  by (relation "measure (\<lambda>(path, i). length path - i)") auto

declare comp_end.simps [simp del]

text \<open>The part that the functions share: the index in the path, which may step over the first slash, the end of the component, and whether it is the last one and whether it is the name.\<close>

definition path_match :: "u8 list \<Rightarrow> nat \<Rightarrow> u8 list \<Rightarrow> (nat \<times> nat \<times> bool \<times> bool) option" where
  "path_match path idx name = do {
     let idx = (if idx = 0 \<and> path ! idx = 47 then 1 else idx);
     (i, lst) \<leftarrow> comp_end path idx;
     r \<leftarrow> strcmp (drop idx (path[i := 0])) name;
     Some (idx, i, lst, r = 0)
   }"

definition initramfs_process_node ::
  "u64 \<Rightarrow> u8 list \<Rightarrow> u8 list \<Rightarrow> (u64 \<Rightarrow> 'a vfs_data_scheme \<Rightarrow> 'a vfs_data_scheme) \<Rightarrow> 'a vfs_data_scheme \<Rightarrow> (bool \<times> 'a vfs_data_scheme) option" where
  "initramfs_process_node p name path put s = do {
     token \<leftarrow> rd_be p s;
     if token = FDT_END then Some (False, s\<lparr>dtb_str_idx := 0\<rparr>)
     else if token \<noteq> FDT_BEGIN_NODE \<and> token \<noteq> FDT_PROP then Some (False, s)
     else do {
       (idx, i, lst, same) \<leftarrow> path_match path (dtb_str_idx s) name;
       let s = s\<lparr>dtb_str_idx := idx\<rparr>;
       if same then
         (if lst then do {
            v \<leftarrow> rd_be (p + 12) s;
            Some (True, (put (p2v_trans_kernel (ucast v)) s)\<lparr>dtb_str_idx := 0\<rparr>)
          }
          else Some (False, s\<lparr>dtb_str_idx := i + 1\<rparr>))
       else Some (False, s)
     }
   }"

definition initramfs_start :: "u64 \<Rightarrow> u8 list \<Rightarrow> 'a vfs_data_scheme \<Rightarrow> (bool \<times> 'a vfs_data_scheme) option" where
  "initramfs_start p name s = initramfs_process_node p name (literal ''/chosen/linux,initrd-start'') (\<lambda>v s. s\<lparr>ramdisk_saddr := v\<rparr>) s"

definition initramfs_end :: "u64 \<Rightarrow> u8 list \<Rightarrow> 'a vfs_data_scheme \<Rightarrow> (bool \<times> 'a vfs_data_scheme) option" where
  "initramfs_end p name s = initramfs_process_node p name (literal ''/chosen/linux,initrd-end'') (\<lambda>v s. s\<lparr>ramdisk_eaddr := v\<rparr>) s"

definition mem_region :: "u64 \<Rightarrow> u8 list \<Rightarrow> 'a io_data_scheme \<Rightarrow> (bool \<times> 'a io_data_scheme) option" where
  "mem_region p name s = do {
     token \<leftarrow> rd_be p s;
     if token = FDT_END then Some (False, s\<lparr>mem_str_idx := 0\<rparr>)
     else if token \<noteq> FDT_BEGIN_NODE \<and> token \<noteq> FDT_PROP then Some (False, s)
     else do {
       (idx, i, lst, same) \<leftarrow> path_match (literal ''/memory/reg'') (mem_str_idx s) name;
       let s = s\<lparr>mem_str_idx := idx\<rparr>;
       if same then
         (if lst then do {
            st \<leftarrow> rd_be (p + 12) s;
            en \<leftarrow> rd_be (p + 16) s;
            Some (True, s\<lparr>usable_start := ucast st, usable_end := ucast en, mem_str_idx := 0\<rparr>)
          }
          else Some (False, s\<lparr>mem_str_idx := i + 1\<rparr>))
       else Some (False, s)
     }
   }"

section \<open>Reserved regions\<close>

definition SPIN_TABLE_START :: u64 where "SPIN_TABLE_START = 0"
definition SPIN_TABLE_END :: u64 where "SPIN_TABLE_END = 0x1000"
definition PGD_ADDR :: u64 where "PGD_ADDR = 0x100000"

text \<open>The symbols \<open>_stext\<close> and \<open>_estack\<close> of the linker script are arguments.\<close>

definition reserve_mem_regions :: "u64 \<Rightarrow> u64 \<Rightarrow> 'a vfs_data_scheme \<Rightarrow> 'a vfs_data_scheme option" where
  "reserve_mem_regions stext estack s = do {
     s \<leftarrow> memory_reserve SPIN_TABLE_START SPIN_TABLE_END s;
     s \<leftarrow> memory_reserve (v2p_trans_kernel stext) (v2p_trans_kernel estack) s;
     s \<leftarrow> memory_reserve PGD_ADDR (PUD_ADDR + PAGE_SIZE) s;
     s \<leftarrow> memory_reserve (v2p_trans_kernel (heap_start s)) (v2p_trans_kernel (heap_start s + HEAP_SIZE)) s;
     s \<leftarrow> memory_reserve (v2p_trans_kernel (ramdisk_saddr s)) (v2p_trans_kernel (ramdisk_eaddr s)) s;
     s \<leftarrow> memory_reserve (v2p_trans_kernel (dtb_addr s)) (v2p_trans_kernel (dtb_addr s + dtb_len s)) s;
     s \<leftarrow> (if usable_start s \<noteq> base s then memory_reserve (base s) (usable_start s) s else Some s);
     (if usable_end s \<noteq> bend s then memory_reserve (usable_end s) (bend s) s else Some s)
   }"

end
