(* ===== verification/Device_Tree_Props.thy ===== *)
theory Device_Tree_Props
  imports Device_Tree Fs_Props Bootloader
begin

text \<open>The traversal of a well-formed flattened device tree visits its nodes and properties in order, and \<open>main\<close> finds the initial ramdisk.\<close>

section \<open>Well-formed trees\<close>

definition be4 :: "u32 \<Rightarrow> u8 list" where
  "be4 w = [ucast (drop_bit 24 w), ucast (drop_bit 16 w), ucast (drop_bit 8 w), ucast w]"

definition pad4 :: "u8 list \<Rightarrow> u8 list" where
  "pad4 bs = bs @ replicate (4 * ((length bs + 3) div 4) - length bs) 0"

text \<open>The tokens: a node with its name, a property with the offset of its name and its value, the end of a node, and nothing.\<close>

datatype fdt_tok = Begin_Node "u8 list" | Prop u32 "u8 list" | End_Node | Nop

fun tok_bytes :: "fdt_tok \<Rightarrow> u8 list" where
  "tok_bytes (Begin_Node nm) = be4 FDT_BEGIN_NODE @ pad4 (nm @ [0])"
| "tok_bytes (Prop off v) = be4 FDT_PROP @ be4 (of_nat (length v)) @ be4 off @ pad4 v"
| "tok_bytes End_Node = be4 FDT_END_NODE"
| "tok_bytes Nop = be4 FDT_NOP"

definition struct_bytes :: "fdt_tok list \<Rightarrow> u8 list" where
  "struct_bytes ts = concat (map tok_bytes ts) @ be4 FDT_END"

definition mem_bytes :: "'a vm_data_scheme \<Rightarrow> u64 \<Rightarrow> u8 list \<Rightarrow> bool" where
  "mem_bytes s a bs \<longleftrightarrow> (\<forall>i < length bs. ram_ok s (a + of_nat i) \<and> ram s (a + of_nat i) = bs ! i)"

lemma mem_bytes_append: "mem_bytes s a (xs @ ys) \<longleftrightarrow> mem_bytes s a xs \<and> mem_bytes s (a + of_nat (length xs)) ys"
proof
  assume L: "mem_bytes s a (xs @ ys)"
  have "mem_bytes s (a + of_nat (length xs)) ys"
    unfolding mem_bytes_def
  proof (intro allI impI)
    fix i assume "i < length ys"
    then show "ram_ok s (a + of_nat (length xs) + of_nat i) \<and> ram s (a + of_nat (length xs) + of_nat i) = ys ! i"
      using L [unfolded mem_bytes_def, rule_format, of "length xs + i"] by (simp add: nth_append add.assoc)
  qed
  then show "mem_bytes s a xs \<and> mem_bytes s (a + of_nat (length xs)) ys" using L by (auto simp: mem_bytes_def nth_append)
next
  assume R: "mem_bytes s a xs \<and> mem_bytes s (a + of_nat (length xs)) ys"
  show "mem_bytes s a (xs @ ys)"
    unfolding mem_bytes_def
  proof (intro allI impI)
    fix i assume i: "i < length (xs @ ys)"
    show "ram_ok s (a + of_nat i) \<and> ram s (a + of_nat i) = (xs @ ys) ! i"
    proof (cases "i < length xs")
      case False
      then have "(of_nat i :: u64) = of_nat (length xs) + of_nat (i - length xs)" by simp
      then have "a + of_nat i = a + of_nat (length xs) + of_nat (i - length xs)" by (simp only: add.assoc)
      moreover have "i - length xs < length ys" using i False by simp
      ultimately show ?thesis using R False unfolding mem_bytes_def nth_append by metis
    qed (use R in \<open>simp add: mem_bytes_def nth_append\<close>)
  qed
qed

lemma mem_bytes_Cons: "mem_bytes s a (b # bs) \<longleftrightarrow> ram_ok s a \<and> ram s a = b \<and> mem_bytes s (a + 1) bs"
  using mem_bytes_append [of s a "[b]" bs] by (auto simp: mem_bytes_def)

lemma mem_bytes_Nil [simp]: "mem_bytes s a []"
  by (simp add: mem_bytes_def)

lemma big2host_le32: "big2host (le32 (ucast (drop_bit 24 w)) (ucast (drop_bit 16 w)) (ucast (drop_bit 8 w)) (ucast w)) = w"
proof -
  have z: "\<not> bit (x :: u8) (m + n)" if "8 \<le> m" for x m n using bit_imp_le_length [of x "m + n"] that by auto
  have b: "word_bytes (le32 a b c d) = [a, b, c, d]" for a b c d
    unfolding word_bytes_def le32_def by (auto intro!: bit_word_eqI simp: bit_simps z)
  have p: "push_bit 8 x + ucast (y :: u8) = (push_bit 8 x OR ucast y :: u32)" for x y
    using z [of _ y 0] by (subst disjunctive_add) (auto simp: bit_simps)
  show ?thesis
  proof (rule bit_word_eqI)
    fix n assume "n < LENGTH(32)"
    then consider "n < 8" | "8 \<le> n" "n < 16" | "16 \<le> n" "n < 24" | "24 \<le> n" "n < 32" by fastforce
    then show "bit (big2host (le32 (ucast (drop_bit 24 w)) (ucast (drop_bit 16 w)) (ucast (drop_bit 8 w)) (ucast w))) n = bit w n"
      unfolding big2host_def b by cases (auto simp: p bit_simps)
  qed
qed

lemma rd_be_at: "mem_bytes s a (be4 w) \<Longrightarrow> rd_be a s = Some w"
  using big2host_le32 [of w] by (simp add: be4_def mem_bytes_Cons rd_be_def rd32_def rd8_def add.assoc)

section \<open>Strings and lengths\<close>

lemma node_name_at:
  "mem_bytes s p (nm @ [0]) \<Longrightarrow> 0 \<notin> set nm \<Longrightarrow> length (takeWhile (\<lambda>c. c \<noteq> 64) nm) < n \<Longrightarrow> node_name n p s = Some (takeWhile (\<lambda>c. c \<noteq> 64) nm @ [0])"
proof (induction nm arbitrary: n p)
  case Nil
  then show ?case by (cases n) (simp_all add: mem_bytes_Cons rd8_def)
next
  case (Cons c nm)
  then show ?case by (cases n) (auto simp: mem_bytes_Cons rd8_def)
qed

lemma string_at_ok: "mem_bytes s p (nm @ [0]) \<Longrightarrow> 0 \<notin> set nm \<Longrightarrow> string_at p s = Some (nm @ [0])"
  by (induction nm arbitrary: p; subst string_at.simps) (auto simp: mem_bytes_Cons rd8_def)

lemma align4:
  assumes "n < 2 ^ 40"
  shows "(of_nat n + 3) AND NOT 3 = (of_nat (4 * ((n + 3) div 4)) :: u64)"
proof -
  have "unat ((of_nat n + 3 :: u64) AND NOT 3) = unat (of_nat (n + 3) :: u64) div 4 * 4" using align_down_unat [of 2 "of_nat n + 3"] by simp
  also have "unat (of_nat (n + 3) :: u64) = n + 3" using assms by (intro unat_of_nat_small) simp
  also have "(n + 3) div 4 * 4 = unat (of_nat (4 * ((n + 3) div 4)) :: u64)" using assms by (subst unat_of_nat_small) simp_all
  finally show ?thesis by (simp only: word_eq_iff_unsigned [where 'a = nat])
qed

lemma align4_u32:
  assumes "n < 2 ^ 31"
  shows "ucast ((of_nat n + 3 :: u32) AND NOT 3) = (of_nat (4 * ((n + 3) div 4)) :: u64)"
proof -
  have "ucast ((of_nat n + 3 :: u32) AND NOT 3) = (ucast (of_nat n + 3 :: u32) :: u64) AND NOT 3"
    using bit_imp_le_length [of "of_nat n + 3 :: u32"] by (intro bit_word_eqI) (auto simp: bit_simps)
  also have "ucast (of_nat n + 3 :: u32) = (of_nat n + 3 :: u64)"
  proof -
    have "unat (of_nat (n + 3) :: u32) = n + 3" "unat (of_nat (n + 3) :: u64) = n + 3" using assms by (intro unat_of_nat_small, simp)+
    then have "ucast (of_nat (n + 3) :: u32) = (of_nat (n + 3) :: u64)" unfolding word_eq_iff_unsigned [where 'a = nat] using assms by (simp add: unsigned_ucast_eq take_bit_nat_eq_self)
    then show ?thesis by simp
  qed
  finally show ?thesis using align4 [of n] assms by simp
qed

lemma length_pad4: "length (pad4 bs) = 4 * ((length bs + 3) div 4)"
  by (simp add: pad4_def)

section \<open>The traversal\<close>

text \<open>\<open>N\<close> are the names in the block of strings at the offset \<open>strs\<close>.\<close>

fun tok_ok :: "u32 \<Rightarrow> (u32 \<Rightarrow> u8 list) \<Rightarrow> 'a io_data_scheme \<Rightarrow> fdt_tok \<Rightarrow> bool" where
  "tok_ok strs N s (Begin_Node nm) \<longleftrightarrow> 0 \<notin> set nm \<and> length (takeWhile (\<lambda>c. c \<noteq> 64) nm) < 32 \<and> length nm < 2 ^ 30"
| "tok_ok strs N s (Prop off v) \<longleftrightarrow> 0 \<notin> set (N off) \<and> mem_bytes s (dtb_addr s + ucast strs + ucast off) (N off @ [0]) \<and> length v < 2 ^ 30"
| "tok_ok strs N s _ \<longleftrightarrow> True"

fun tok_name :: "(u32 \<Rightarrow> u8 list) \<Rightarrow> fdt_tok \<Rightarrow> u8 list option" where
  "tok_name N (Begin_Node nm) = Some (takeWhile (\<lambda>c. c \<noteq> 64) nm)"
| "tok_name N (Prop off v) = Some (N off)"
| "tok_name N _ = None"

definition tree_at :: "u32 \<Rightarrow> (u32 \<Rightarrow> u8 list) \<Rightarrow> 'a io_data_scheme \<Rightarrow> u64 \<Rightarrow> fdt_tok list \<Rightarrow> bool" where
  "tree_at strs N s p ts \<longleftrightarrow> mem_bytes s (dtb_addr s + 12) (be4 strs) \<and> mem_bytes s p (struct_bytes ts) \<and> (\<forall>t \<in> set ts. tok_ok strs N s t)"

text \<open>The calls in the order of the tokens, until one returns true.\<close>

fun visit :: "(u64 \<Rightarrow> u8 list \<Rightarrow> 's \<Rightarrow> (bool \<times> 's) option) \<Rightarrow> (u32 \<Rightarrow> u8 list) \<Rightarrow> u64 \<Rightarrow> fdt_tok list \<Rightarrow> 's \<Rightarrow> 's option" where
  "visit func N p [] s = do { (_, s) \<leftarrow> func p [0] s; Some s }"
| "visit func N p (t # ts) s =
     (case tok_name N t of
        None \<Rightarrow> visit func N (p + of_nat (length (tok_bytes t))) ts s
      | Some nm \<Rightarrow> do {
          (found, s) \<leftarrow> func p (nm @ [0]) s;
          if found then Some s else visit func N (p + of_nat (length (tok_bytes t))) ts s
        })"

definition same_mem :: "'a io_data_scheme \<Rightarrow> 'a io_data_scheme \<Rightarrow> bool" where
  "same_mem s s' \<longleftrightarrow> ram s' = ram s \<and> ram_ok s' = ram_ok s \<and> dtb_addr s' = dtb_addr s"

lemma same_mem_tree: "same_mem s s' \<Longrightarrow> tree_at strs N s p ts = tree_at strs N s' p ts"
proof -
  assume "same_mem s s'"
  then have "mem_bytes s' = mem_bytes s" "dtb_addr s' = dtb_addr s" by (auto simp: same_mem_def mem_bytes_def intro!: ext)
  then have "tok_ok strs N s' t = tok_ok strs N s t" for t by (cases t) simp_all
  then show ?thesis using \<open>mem_bytes s' = mem_bytes s\<close> \<open>dtb_addr s' = dtb_addr s\<close> by (simp add: tree_at_def)
qed

lemma tree_at_Cons: "tree_at strs N s p (t # ts) \<longleftrightarrow> mem_bytes s p (tok_bytes t) \<and> tok_ok strs N s t \<and> tree_at strs N s (p + of_nat (length (tok_bytes t))) ts"
  by (auto simp: tree_at_def struct_bytes_def mem_bytes_append)

lemmas fdt_tokens = FDT_BEGIN_NODE_def FDT_END_NODE_def FDT_PROP_def FDT_NOP_def FDT_END_def

lemma length_be4 [simp]: "length (be4 w) = 4"
  by (simp add: be4_def)

lemma loop_node:
  assumes "mem_bytes s p (tok_bytes (Begin_Node nm))" "tok_ok strs N s (Begin_Node nm)" "\<And>p nm s found s'. func p nm s = Some (found, s') \<Longrightarrow> same_mem s s'"
  shows "fdt_loop func p s = do {
     (found, s) \<leftarrow> func p (takeWhile (\<lambda>c. c \<noteq> 64) nm @ [0]) s;
     if found then Some s else fdt_loop func (p + of_nat (length (tok_bytes (Begin_Node nm)))) s }"
proof -
  have b: "mem_bytes s p (be4 FDT_BEGIN_NODE)" "mem_bytes s (p + 4) (nm @ [0])" using assms(1) by (simp_all add: mem_bytes_append mem_bytes_Cons pad4_def)
  have n: "0 \<notin> set nm" "length (takeWhile (\<lambda>c. c \<noteq> 64) nm) < 32" "length nm < 2 ^ 30" using assms(2) by simp_all
  have m: "string_at (p + 4) s' = Some (nm @ [0])" if "func p (takeWhile (\<lambda>c. c \<noteq> 64) nm @ [0]) s = Some (found, s')" for found s'
    using assms(3) [OF that] b(2) n(1) by (intro string_at_ok) (simp_all add: same_mem_def mem_bytes_def)
  have l: "p + ((4 + of_nat (length (nm @ [0])) + 3) AND NOT 3) = p + of_nat (length (tok_bytes (Begin_Node nm)))"
  proof -
    have "(4 + (length nm + 1) + 3) div 4 = 1 + (length nm + 1 + 3) div 4" by simp
    then show ?thesis using align4 [of "4 + (length nm + 1)"] n(3) by (simp add: length_pad4 algebra_simps)
  qed
  show ?thesis
  proof (cases "func p (takeWhile (\<lambda>c. c \<noteq> 64) nm @ [0]) s")
    case (Some r)
    then obtain found s' where r: "func p (takeWhile (\<lambda>c. c \<noteq> 64) nm @ [0]) s = Some (found, s')" by (cases r) auto
    show ?thesis using rd_be_at [OF b(1)] node_name_at [OF b(2) n(1,2)] m [OF r] l r by (subst fdt_loop.simps) simp
  qed (use rd_be_at [OF b(1)] node_name_at [OF b(2) n(1,2)] in \<open>subst fdt_loop.simps, simp\<close>)
qed

lemma loop_prop:
  assumes "mem_bytes s p (tok_bytes (Prop off v))" "tok_ok strs N s (Prop off v)" "mem_bytes s (dtb_addr s + 12) (be4 strs)" "\<And>p nm s found s'. func p nm s = Some (found, s') \<Longrightarrow> same_mem s s'"
  shows "fdt_loop func p s = do {
     (found, s) \<leftarrow> func p (N off @ [0]) s;
     if found then Some s else fdt_loop func (p + of_nat (length (tok_bytes (Prop off v)))) s }"
proof -
  have b: "mem_bytes s p (be4 FDT_PROP)" "mem_bytes s (p + 4) (be4 (of_nat (length v)))" "mem_bytes s (p + 8) (be4 off)" using assms(1) by (simp_all add: mem_bytes_append add.commute [of 8 p])
  have n: "0 \<notin> set (N off)" "mem_bytes s (dtb_addr s + ucast strs + ucast off) (N off @ [0])" "length v < 2 ^ 30" using assms(2) by simp_all
  have m: "rd_be (p + 4) s' = Some (of_nat (length v))" if "func p (N off @ [0]) s = Some (found, s')" for found s'
    using assms(4) [OF that] b(2) by (intro rd_be_at) (simp add: same_mem_def mem_bytes_def)
  have l: "p + ucast ((4 + 8 + of_nat (length v) + 3 :: u32) AND NOT 3) = p + of_nat (length (tok_bytes (Prop off v)))"
  proof -
    have "(12 + length v + 3) div 4 = 3 + (length v + 3) div 4" by simp
    then show ?thesis using align4_u32 [of "12 + length v"] n(3) by (simp add: length_pad4 algebra_simps)
  qed
  have tk: "FDT_PROP \<noteq> FDT_BEGIN_NODE" by (simp add: fdt_tokens)
  note rd = rd_be_at [OF b(1)] rd_be_at [OF b(3)] rd_be_at [OF assms(3)] string_at_ok [OF n(2,1)]
  show ?thesis
  proof (cases "func p (N off @ [0]) s")
    case (Some r)
    then obtain found s' where r: "func p (N off @ [0]) s = Some (found, s')" by (cases r) auto
    show ?thesis using rd tk m [OF r] l r by (subst fdt_loop.simps) (simp add: Let_def)
  qed (use rd tk in \<open>subst fdt_loop.simps, simp\<close>)
qed

theorem fdt_loop_visit:
  assumes "\<And>p nm s found s'. func p nm s = Some (found, s') \<Longrightarrow> same_mem s s'"
  shows "tree_at strs N s p ts \<Longrightarrow> fdt_loop func p s = visit func N p ts s"
proof (induction ts arbitrary: p s)
  case Nil
  then have "rd_be p s = Some FDT_END" by (intro rd_be_at) (simp add: tree_at_def struct_bytes_def)
  then show ?case by (subst fdt_loop.simps) (simp add: fdt_tokens)
next
  case (Cons t ts)
  have T: "mem_bytes s p (tok_bytes t)" "tok_ok strs N s t" "tree_at strs N s (p + of_nat (length (tok_bytes t))) ts" "mem_bytes s (dtb_addr s + 12) (be4 strs)"
    using Cons.prems unfolding tree_at_Cons by (auto simp: tree_at_def)
  have ih: "fdt_loop func (p + of_nat (length (tok_bytes t))) s' = visit func N (p + of_nat (length (tok_bytes t))) ts s'" if "func p nm s = Some (found, s')" for nm found s'
    using Cons.IH T(3) same_mem_tree [OF assms [OF that]] by blast
  show ?case
  proof (cases t)
    case (Begin_Node nm)
    then show ?thesis using loop_node [of s p nm strs N func] T(1,2) assms ih by (auto split: Option.bind_split)
  next
    case (Prop off v)
    then show ?thesis using loop_prop [of s p off v strs N func] T(1,2,4) assms ih by (auto split: Option.bind_split)
  next
    case End_Node
    then have "rd_be p s = Some FDT_END_NODE" using T(1) rd_be_at by simp
    then show ?thesis using Cons.IH [OF T(3)] End_Node by (subst fdt_loop.simps) (simp add: fdt_tokens)
  next
    case Nop
    then have "rd_be p s = Some FDT_NOP" using T(1) rd_be_at by simp
    then show ?thesis using Cons.IH [OF T(3)] Nop by (subst fdt_loop.simps) (simp add: fdt_tokens)
  qed
qed

section \<open>Looking for a property\<close>

lemma comp_end_ok:
  "drop i path = c @ e # rest \<Longrightarrow> 0 \<notin> set c \<Longrightarrow> 47 \<notin> set c \<Longrightarrow> e = 0 \<or> e = 47 \<Longrightarrow> comp_end path i = Some (i + length c, e = 0)"
proof (induction c arbitrary: i)
  case Nil
  then have "i < length path" "path ! i = e" using nth_via_drop [of i path e rest] by (auto simp: not_less [symmetric] intro: ccontr)
  then show ?case using Nil.prems(4) by (subst comp_end.simps) auto
next
  case (Cons x c)
  have d: "drop i path = x # (c @ e # rest)" using Cons.prems(1) by simp
  then have "i < length path" "path ! i = x" using nth_via_drop [of i path x] by (auto simp: not_less [symmetric] intro: ccontr)
  moreover have "drop (Suc i) path = tl (drop i path)" by (simp add: drop_Suc tl_drop)
  then have "drop (Suc i) path = c @ e # rest" using d by simp
  ultimately show ?case using Cons.IH [of "Suc i"] Cons.prems(2-4) by (subst comp_end.simps) auto
qed

lemma path_match_ok:
  assumes d: "drop i path = c @ e # rest" and c: "0 \<notin> set c" "47 \<notin> set c" "e = 0 \<or> e = 47" and i: "idx = i \<or> idx = 0 \<and> i = 1 \<and> path ! 0 = 47" "i \<noteq> 0"
    and n: "0 \<notin> set nm" "length path \<le> SIZE_MAX"
  shows "path_match path idx (nm @ [0]) = Some (i, i + length c, e = 0, nm = c)"
proof -
  have "path = take i path @ c @ e # rest" using append_take_drop_id [of i path] d by simp
  moreover have "length (take i path) = i" using d by (simp add: min_def) (metis append_is_Nil_conv drop_all list.distinct(1) nle_le)
  ultimately have "drop i (path[i + length c := 0]) = c @ 0 # rest"
    by (metis append_eq_conv_conj drop_update_swap le_add1 add_diff_cancel_left' d list_update_length)
  moreover have "cstr (c @ 0 # rest) = c" "cstr (nm @ [0]) = nm" using c(1) n(1) cstr_append0 by (simp_all add: cstr_def takeWhile_append)
  moreover have "length (c @ 0 # rest) \<le> SIZE_MAX" using arg_cong [OF d, of length] n(2) by simp
  ultimately have "strcmp (drop i (path[i + length c := 0])) (nm @ [0]) = Some (if c = nm then 0 else if c < nm then - 1 else 1)"
    using strncmp_cstr [of "c @ 0 # rest" "nm @ [0]" SIZE_MAX] by (simp add: strcmp_def)
  then show ?thesis using comp_end_ok [OF d c] i by (auto simp: path_match_def)
qed

text \<open>The first token with one of the names, then the next one with the following name, and so on; the nesting of the nodes does not matter.  The value of a property starts with a number.\<close>

fun look :: "(u32 \<Rightarrow> u8 list) \<Rightarrow> u8 list list \<Rightarrow> fdt_tok list \<Rightarrow> u8 list option" where
  "look N (q # qs) (t # ts) =
     (if tok_name N t = Some q then (if qs = [] then (case t of Prop off v \<Rightarrow> Some v | _ \<Rightarrow> None) else look N qs ts) else look N (q # qs) ts)"
| "look N _ _ = None"

definition be_word :: "u8 list \<Rightarrow> u32" where
  "be_word v = le32 (v ! 3) (v ! 2) (v ! 1) (v ! 0)"

lemma be_word_be4: "be_word (be4 w @ v) = w"
  using le32_bytes [of w] by (simp add: be_word_def be4_def)

definition numbers :: "(u32 \<Rightarrow> u8 list) \<Rightarrow> u8 list \<Rightarrow> fdt_tok list \<Rightarrow> bool" where
  "numbers N q ts \<longleftrightarrow> (\<forall>t \<in> set ts. tok_name N t = Some q \<longrightarrow> (\<exists>off w v. t = Prop off (be4 w @ v)))"

definition two_path :: "u8 list \<Rightarrow> u8 list \<Rightarrow> u8 list \<Rightarrow> bool" where
  "two_path path c q \<longleftrightarrow> path = 47 # c @ 47 # q @ [0] \<and> 0 \<notin> set c \<and> 47 \<notin> set c \<and> 0 \<notin> set q \<and> 47 \<notin> set q \<and> length path < 100"

lemma two_path_match:
  assumes P: "two_path path c q" and n: "0 \<notin> set nm"
  shows "idx \<le> 1 \<Longrightarrow> path_match path idx (nm @ [0]) = Some (1, 1 + length c, False, nm = c)"
    "path_match path (length c + 2) (nm @ [0]) = Some (length c + 2, length c + 2 + length q, True, nm = q)"
proof -
  have p: "path = 47 # c @ 47 # q @ [0]" "0 \<notin> set c" "47 \<notin> set c" "0 \<notin> set q" "47 \<notin> set q" "length path \<le> SIZE_MAX" using P by (auto simp: two_path_def SIZE_MAX_def)
  have d: "drop 1 path = c @ 47 # q @ [0]" "drop (length c + 2) path = q @ 0 # []" "path ! 0 = 47" using p(1) by simp_all
  show "path_match path idx (nm @ [0]) = Some (1, 1 + length c, False, nm = c)" if "idx \<le> 1"
    using path_match_ok [OF d(1) p(2,3) _ _ _ n p(6), of idx] that d(3) by (cases idx) auto
  show "path_match path (length c + 2) (nm @ [0]) = Some (length c + 2, length c + 2 + length q, True, nm = q)"
    using path_match_ok [OF d(2) p(4,5) _ _ _ n p(6), of "length c + 2"] by auto
qed

lemma tok_token:
  assumes "tree_at strs N s p (t # ts)" "tok_name N t = Some nm"
  shows "\<exists>k. rd_be p s = Some k \<and> (k = FDT_BEGIN_NODE \<or> k = FDT_PROP)" "0 \<notin> set nm"
    "t = Prop off (be4 w @ v) \<Longrightarrow> rd_be (p + 12) s = Some w"
proof -
  have T: "mem_bytes s p (tok_bytes t)" "tok_ok strs N s t" using assms(1) unfolding tree_at_Cons by blast+
  show "\<exists>k. rd_be p s = Some k \<and> (k = FDT_BEGIN_NODE \<or> k = FDT_PROP)" "0 \<notin> set nm" using assms(2) T rd_be_at
    by (cases t; auto simp: mem_bytes_append dest: set_takeWhileD)+
  show "rd_be (p + 12) s = Some w" if "t = Prop off (be4 w @ v)"
    using T(1) unfolding that by (intro rd_be_at) (simp add: mem_bytes_append pad4_def add.commute [of 12 p])
qed

lemma tree_at_idx [simp]: "tree_at strs N (s\<lparr>dtb_str_idx := i\<rparr>) p ts = tree_at strs N s p ts"
  using same_mem_tree [of s "s\<lparr>dtb_str_idx := i\<rparr>"] by (simp add: same_mem_def)

lemma rd_be_idx [simp]: "rd_be p (s\<lparr>dtb_str_idx := i\<rparr>) = rd_be p s"
  by (simp add: rd_be_def rd32_def rd8_def)

lemma tree_at_end: "tree_at strs N s p [] \<Longrightarrow> rd_be p s = Some FDT_END"
  by (intro rd_be_at) (simp add: tree_at_def struct_bytes_def)

definition with_value :: "(u64 \<Rightarrow> 's \<Rightarrow> 's) \<Rightarrow> u8 list option \<Rightarrow> 's \<Rightarrow> 's" where
  "with_value put v s = (case v of None \<Rightarrow> s | Some v \<Rightarrow> put (p2v_trans_kernel (ucast (be_word v))) s)"

lemma process_node_step:
  assumes "rd_be p s = Some k" "k = FDT_BEGIN_NODE \<or> k = FDT_PROP" "path_match path (dtb_str_idx s) nm = Some (idx, i, lst, same)"
  shows "initramfs_process_node p nm path put s = (if same then
       (if lst then rd_be (p + 12) s \<bind> (\<lambda>v. Some (True, (put (p2v_trans_kernel (ucast v)) (s\<lparr>dtb_str_idx := idx\<rparr>))\<lparr>dtb_str_idx := 0\<rparr>)) else Some (False, s\<lparr>dtb_str_idx := i + 1\<rparr>))
     else Some (False, s\<lparr>dtb_str_idx := idx\<rparr>))"
proof -
  have "k \<noteq> FDT_END" "(k \<noteq> FDT_BEGIN_NODE \<and> k \<noteq> FDT_PROP) = False" using assms(2) by (auto simp: fdt_tokens)
  then show ?thesis by (simp add: initramfs_process_node_def assms(1,3) Let_def del: de_Morgan_conj)
qed

lemma visit_second:
  assumes P: "two_path path c q" and put: "\<And>v i s. put v (s\<lparr>dtb_str_idx := i\<rparr>) = (put v s)\<lparr>dtb_str_idx := i\<rparr>"
  shows "tree_at strs N s p ts \<Longrightarrow> numbers N q ts \<Longrightarrow> dtb_str_idx s = length c + 2 \<Longrightarrow>
     visit (\<lambda>p nm. initramfs_process_node p nm path put) N p ts s = Some ((with_value put (look N [q] ts) s)\<lparr>dtb_str_idx := 0\<rparr>)"
proof (induction ts arbitrary: p)
  case Nil
  then show ?case using tree_at_end [of strs N s p] by (simp add: initramfs_process_node_def with_value_def)
next
  case (Cons t ts)
  have T: "tree_at strs N s (p + of_nat (length (tok_bytes t))) ts" "numbers N q ts" using Cons.prems(1,2) tree_at_Cons by (blast, simp add: numbers_def)
  note ih = Cons.IH [OF T Cons.prems(3)]
  show ?case
  proof (cases "tok_name N t")
    case None
    then show ?thesis using ih by simp
  next
    case (Some nm)
    obtain k where k: "rd_be p s = Some k" "k = FDT_BEGIN_NODE \<or> k = FDT_PROP" and nm: "0 \<notin> set nm" using tok_token(1,2) [OF Cons.prems(1) Some] by blast
    note step = process_node_step [OF k two_path_match(2) [OF P nm, folded Cons.prems(3)], where put = put, unfolded Cons.prems(3)]
    have i: "s\<lparr>dtb_str_idx := length c + 2\<rparr> = s" using Cons.prems(3) by (metis io_data.surjective io_data.update_convs(12))
    show ?thesis
    proof (cases "nm = q")
      case True
      then obtain off w v where t: "t = Prop off (be4 w @ v)" using Cons.prems(2) Some by (auto simp: numbers_def)
      have "initramfs_process_node p (nm @ [0]) path put s = Some (True, (put (p2v_trans_kernel (ucast w)) s)\<lparr>dtb_str_idx := 0\<rparr>)"
        using tok_token(3) [OF Cons.prems(1) Some t] True unfolding step by (simp add: put)
      then show ?thesis using Some True t by (simp add: with_value_def be_word_be4)
    next
      case False
      then have "initramfs_process_node p (nm @ [0]) path put s = Some (False, s)" unfolding step i by simp
      then show ?thesis using Some False ih by simp
    qed
  qed
qed

lemma visit_first:
  assumes P: "two_path path c q" and put: "\<And>v i s. put v (s\<lparr>dtb_str_idx := i\<rparr>) = (put v s)\<lparr>dtb_str_idx := i\<rparr>"
  shows "tree_at strs N s p ts \<Longrightarrow> numbers N q ts \<Longrightarrow> dtb_str_idx s \<le> 1 \<Longrightarrow>
     visit (\<lambda>p nm. initramfs_process_node p nm path put) N p ts s = Some ((with_value put (look N [c, q] ts) s)\<lparr>dtb_str_idx := 0\<rparr>)"
proof (induction ts arbitrary: p s)
  case Nil
  then show ?case using tree_at_end [of strs N s p] by (simp add: initramfs_process_node_def with_value_def)
next
  case (Cons t ts)
  have T: "tree_at strs N s (p + of_nat (length (tok_bytes t))) ts" "numbers N q ts" using Cons.prems(1,2) tree_at_Cons by (blast, simp add: numbers_def)
  have wi: "(with_value put v (s\<lparr>dtb_str_idx := i\<rparr>))\<lparr>dtb_str_idx := 0\<rparr> = (with_value put v s)\<lparr>dtb_str_idx := 0\<rparr>" for v i by (simp add: with_value_def put split: option.splits)
  show ?case
  proof (cases "tok_name N t")
    case None
    then show ?thesis using Cons.IH [OF T Cons.prems(3)] by simp
  next
    case (Some nm)
    obtain k where k: "rd_be p s = Some k" "k = FDT_BEGIN_NODE \<or> k = FDT_PROP" and nm: "0 \<notin> set nm" using tok_token(1,2) [OF Cons.prems(1) Some] by blast
    note step = process_node_step [OF k two_path_match(1) [OF P nm Cons.prems(3)], where put = put]
    show ?thesis
    proof (cases "nm = c")
      case True
      have "initramfs_process_node p (nm @ [0]) path put s = Some (False, s\<lparr>dtb_str_idx := length c + 2\<rparr>)" unfolding step using True by simp
      moreover have "tree_at strs N (s\<lparr>dtb_str_idx := length c + 2\<rparr>) (p + of_nat (length (tok_bytes t))) ts" using T(1) by simp
      ultimately show ?thesis using Some True visit_second [where put = put and strs = strs and s = "s\<lparr>dtb_str_idx := length c + 2\<rparr>", OF P put _ T(2)] wi by simp
    next
      case False
      have "initramfs_process_node p (nm @ [0]) path put s = Some (False, s\<lparr>dtb_str_idx := 1\<rparr>)" unfolding step using False by simp
      moreover have "tree_at strs N (s\<lparr>dtb_str_idx := 1\<rparr>) (p + of_nat (length (tok_bytes t))) ts" using T(1) by simp
      ultimately show ?thesis using Some False Cons.IH [OF _ T(2), of "s\<lparr>dtb_str_idx := 1\<rparr>"] wi by simp
    qed
  qed
qed

text \<open>A flattened tree in memory: the header, the structure and the strings.\<close>

definition dtb_ok :: "(u32 \<Rightarrow> u8 list) \<Rightarrow> 'a io_data_scheme \<Rightarrow> fdt_tok list \<Rightarrow> bool" where
  "dtb_ok N s ts \<longleftrightarrow> mem_bytes s (dtb_addr s) (be4 0xd00dfeed) \<and>
     (\<exists>off strs. mem_bytes s (dtb_addr s + 8) (be4 off) \<and> tree_at strs N s (dtb_addr s + ucast off) ts)"

lemma traverse_path:
  fixes put :: "u64 \<Rightarrow> 'a vfs_data_scheme \<Rightarrow> 'a vfs_data_scheme"
  assumes D: "dtb_ok N s ts" and P: "two_path path c q" and n: "numbers N q ts" and i: "dtb_str_idx s = 0"
    and put: "\<And>v i s. put v (s\<lparr>dtb_str_idx := i\<rparr>) = (put v s)\<lparr>dtb_str_idx := i\<rparr>" "\<And>v s. same_mem s (put v s)" "\<And>v s. dtb_str_idx (put v s) = dtb_str_idx s"
  shows "fdt_traverse (\<lambda>p nm. initramfs_process_node p nm path put) s = Some (with_value put (look N [c, q] ts) s)"
proof -
  obtain off strs where d: "mem_bytes s (dtb_addr s) (be4 0xd00dfeed)" "mem_bytes s (dtb_addr s + 8) (be4 off)" "tree_at strs N s (dtb_addr s + ucast off) ts" using D by (auto simp: dtb_ok_def)
  have sm: "same_mem s s'" if "initramfs_process_node p nm path put s = Some (found, s')" for p nm s found s'
    using that put(2) by (auto simp: initramfs_process_node_def same_mem_def Let_def split: if_splits Option.bind_splits prod.splits)
  have z: "(with_value put v s)\<lparr>dtb_str_idx := 0\<rparr> = with_value put v s" for v
  proof -
    have "dtb_str_idx (with_value put v s) = 0" using i put(3) by (simp add: with_value_def split: option.splits)
    then show ?thesis by (metis io_data.surjective io_data.update_convs(12))
  qed
  show ?thesis
    using rd_be_at [OF d(1)] rd_be_at [OF d(2)] fdt_loop_visit [OF sm d(3)] visit_first [where put = put, OF P put(1) d(3) n] i z by (simp add: fdt_traverse_def)
qed

definition dt_name :: "string \<Rightarrow> u8 list" where
  "dt_name t = map of_char t"

lemma initrd_paths:
  "two_path (literal ''/chosen/linux,initrd-start'') (dt_name ''chosen'') (dt_name ''linux,initrd-start'')"
  "two_path (literal ''/chosen/linux,initrd-end'') (dt_name ''chosen'') (dt_name ''linux,initrd-end'')"
  by (simp_all add: two_path_def literal_def dt_name_def)

text \<open>
  C18: the search for the initial ramdisk.  On every well-formed flattened device tree both traversals of \<open>main\<close> return, and the start and the end of the ramdisk become the kernel addresses of the
  numbers that the properties \<open>linux,initrd-start\<close> and \<open>linux,initrd-end\<close> hold that follow the node \<open>chosen\<close>; a value that is not there is not changed, nor is anything else.
\<close>

theorem initrd_found:
  assumes "dtb_ok N s ts" "numbers N (dt_name ''linux,initrd-start'') ts" "numbers N (dt_name ''linux,initrd-end'') ts" "dtb_str_idx s = 0"
  shows "fdt_traverse initramfs_start s \<bind> fdt_traverse initramfs_end
     = Some (with_value (\<lambda>v s. s\<lparr>ramdisk_eaddr := v\<rparr>) (look N [dt_name ''chosen'', dt_name ''linux,initrd-end''] ts)
         (with_value (\<lambda>v s. s\<lparr>ramdisk_saddr := v\<rparr>) (look N [dt_name ''chosen'', dt_name ''linux,initrd-start''] ts) s))"
proof -
  let ?s = "with_value (\<lambda>v s. s\<lparr>ramdisk_saddr := v\<rparr>) (look N [dt_name ''chosen'', dt_name ''linux,initrd-start''] ts) s"
  have e: "initramfs_start = (\<lambda>p nm. initramfs_process_node p nm (literal ''/chosen/linux,initrd-start'') (\<lambda>v s. s\<lparr>ramdisk_saddr := v\<rparr>))"
    "initramfs_end = (\<lambda>p nm. initramfs_process_node p nm (literal ''/chosen/linux,initrd-end'') (\<lambda>v s. s\<lparr>ramdisk_eaddr := v\<rparr>))"
    by (simp_all add: initramfs_start_def [abs_def] initramfs_end_def [abs_def] fun_eq_iff)
  have 1: "fdt_traverse initramfs_start s = Some ?s" unfolding e by (rule traverse_path [OF assms(1) initrd_paths(1) assms(2,4)]) (simp_all add: same_mem_def)
  have m: "same_mem s ?s" "dtb_str_idx ?s = 0" using assms(4) by (simp_all add: with_value_def same_mem_def split: option.splits)
  then have "dtb_ok N ?s ts" using assms(1) same_mem_tree [OF m(1)] by (simp add: dtb_ok_def mem_bytes_def same_mem_def)
  then have "fdt_traverse initramfs_end ?s = Some (with_value (\<lambda>v s. s\<lparr>ramdisk_eaddr := v\<rparr>) (look N [dt_name ''chosen'', dt_name ''linux,initrd-end''] ts) ?s)"
    unfolding e by (rule traverse_path [OF _ initrd_paths(2) assms(3) m(2)]) (simp_all add: same_mem_def)
  then show ?thesis using 1 by simp
qed

text \<open>A tree with the root, a node \<open>chosen@0\<close> with both properties, and the strings behind it.\<close>

definition sample_names :: "u32 \<Rightarrow> u8 list" where
  "sample_names off = dt_name (if off = 0 then ''linux,initrd-start'' else ''linux,initrd-end'')"

definition sample_tree :: "fdt_tok list" where
  "sample_tree = [Begin_Node [], Nop, Begin_Node (dt_name ''chosen@0''), Prop 0 (be4 0x8000000), Prop 19 (be4 0x8001000), End_Node, End_Node]"

definition sample_dtb :: "u8 list" where
  "sample_dtb = be4 0xd00dfeed @ be4 200 @ be4 40 @ be4 112 @ replicate 24 0 @ struct_bytes sample_tree @ dt_name ''linux,initrd-start'' @ [0] @ dt_name ''linux,initrd-end'' @ [0]"

definition with_dtb :: "vfs_data \<Rightarrow> vfs_data" where
  "with_dtb s = s\<lparr>dtb_addr := 0x1000, dtb_str_idx := 0, ram_ok := (\<lambda>_. True), ram := (\<lambda>a. sample_dtb ! unat (a - 0x1000))\<rparr>"

lemma with_dtb_bytes:
  assumes "sample_dtb = xs @ bs @ ys"
  shows "mem_bytes (with_dtb s) (0x1000 + of_nat (length xs)) bs"
  unfolding mem_bytes_def
proof (intro allI impI)
  fix i assume i: "i < length bs"
  have "length xs + length bs + length ys = length sample_dtb" by (subst assms) simp
  also have "length sample_dtb < 1000" by code_simp
  finally have "length xs + i < 2 ^ LENGTH(64)" using i by simp
  then have "unat (of_nat (length xs + i) :: u64) = length xs + i" by (rule unat_of_nat_small)
  moreover have nth: "sample_dtb ! (length xs + i) = bs ! i" by (subst assms) (simp add: nth_append i)
  ultimately show "ram_ok (with_dtb s) (0x1000 + of_nat (length xs) + of_nat i) \<and> ram (with_dtb s) (0x1000 + of_nat (length xs) + of_nat i) = bs ! i"
    using nth by (simp add: with_dtb_def add.assoc)
qed

lemma with_dtb_idx [simp]: "dtb_str_idx (with_dtb s) = 0" "dtb_addr (with_dtb s) = 0x1000"
  by (simp_all add: with_dtb_def)

lemma sample_dtb_split:
  assumes "take (length bs) (drop n sample_dtb) = bs" "n \<le> length sample_dtb"
  shows "mem_bytes (with_dtb s) (0x1000 + of_nat n) bs"
proof -
  have "sample_dtb = take n sample_dtb @ bs @ drop (length bs) (drop n sample_dtb)" using append_take_drop_id [of "length bs" "drop n sample_dtb"] assms(1) by simp
  from with_dtb_bytes [OF this, of s] show ?thesis using assms(2) by simp
qed

lemma sample_dtb_ok: "dtb_ok sample_names (with_dtb s) sample_tree"
proof -
  have "mem_bytes (with_dtb s) 0x1000 (be4 0xd00dfeed)" using sample_dtb_split [of "be4 0xd00dfeed" 0 s] by (simp add: sample_dtb_def)
  moreover have "mem_bytes (with_dtb s) (0x1000 + of_nat 8) (be4 40)" by (rule sample_dtb_split) code_simp+
  moreover have "mem_bytes (with_dtb s) (0x1000 + of_nat 12) (be4 112)" by (rule sample_dtb_split) code_simp+
  moreover have "mem_bytes (with_dtb s) (0x1000 + of_nat 40) (struct_bytes sample_tree)" by (rule sample_dtb_split) code_simp+
  moreover have "mem_bytes (with_dtb s) (0x1000 + of_nat 112) (sample_names 0 @ [0])" by (rule sample_dtb_split) code_simp+
  moreover have "mem_bytes (with_dtb s) (0x1000 + of_nat 131) (sample_names 19 @ [0])" by (rule sample_dtb_split) code_simp+
  moreover have "0 \<notin> set (sample_names off)" for off by (simp add: sample_names_def dt_name_def)
  ultimately have "mem_bytes (with_dtb s) 0x1000 (be4 0xd00dfeed) \<and> mem_bytes (with_dtb s) (0x1000 + 8) (be4 40) \<and> tree_at 112 sample_names (with_dtb s) (0x1000 + ucast (40 :: u32)) sample_tree"
    by (auto simp: tree_at_def sample_tree_def dt_name_def be4_def)
  then show ?thesis unfolding dtb_ok_def with_dtb_idx by blast
qed

lemma sample_numbers: "numbers sample_names q sample_tree" if "q \<noteq> dt_name ''chosen''" "q \<noteq> []"
  using that by (auto simp: numbers_def sample_tree_def dt_name_def)

theorem initrd_found_witness:
  "dtb_ok sample_names (with_dtb no_files) sample_tree \<and>
   fdt_traverse initramfs_start (with_dtb no_files) \<bind> fdt_traverse initramfs_end
     = Some ((with_dtb no_files)\<lparr>ramdisk_saddr := 0xffff000008000000, ramdisk_eaddr := 0xffff000008001000\<rparr>)"
proof -
  have "look sample_names [dt_name ''chosen'', dt_name ''linux,initrd-start''] sample_tree = Some (be4 0x8000000)"
    "look sample_names [dt_name ''chosen'', dt_name ''linux,initrd-end''] sample_tree = Some (be4 0x8001000)"
    "p2v_trans_kernel (ucast (be_word (be4 0x8000000))) = 0xffff000008000000" "p2v_trans_kernel (ucast (be_word (be4 0x8001000))) = 0xffff000008001000"
    by code_simp+
  moreover have "numbers sample_names (dt_name ''linux,initrd-start'') sample_tree" "numbers sample_names (dt_name ''linux,initrd-end'') sample_tree"
    by (rule sample_numbers; simp add: dt_name_def)+
  ultimately show ?thesis using initrd_found [OF sample_dtb_ok _ _ with_dtb_idx(1), of no_files] sample_dtb_ok by (simp add: with_value_def)
qed

end
