(* ===== verification/Spec2Isabelle.thy ===== *)
theory Spec2Isabelle
  imports Tmpfs_Props Exec Printf_Props Int_Queue Fault_Props Fat32_Props
    Bootloader Uart_Props Device_Tree_Props
begin

text \<open>
  A verification of an operating system for the Raspberry Pi 3: the kernel in \<open>src/src/kernel\<close> and \<open>src/include/kernel\<close>, the bootloader in \<open>src/src/bootloader\<close>,
  and the script \<open>src/send_kernel.py\<close> that sends the kernel over the serial line.

  \<^bold>\<open>How C is modelled.\<close>  A function of the program is a function of the same name from the state to an optional result and state.  \<^term>\<open>None\<close> means that the C code has undefined
  behaviour (an access outside an array or a block, a null pointer, a missing object) or does not return; an error that the code reports is an ordinary result.  Theorems therefore
  state results of the form \<open>f x s = Some \<dots>\<close>, which include that the code returns.  Loops are structural recursions, recursions with a termination proof, or partial functions in the
  option monad; no fuel is used.  Numbers have their widths (\<open>u8\<close>, \<open>u16\<close>, \<open>u32\<close>, \<open>u64\<close>), and wrap around where C does.  The kernel runs on one core and masks interrupts in
  its critical sections, so such a function is one step; \<open>disable_int\<close> and \<open>enable_int\<close> keep the nesting count.  A message to the console is recorded.

  The state grows with the components: \<open>cpu\<close> (Irq), \<open>simple_heap\<close> and \<open>buddy_data\<close> (Buddy), \<open>page_data\<close> (Page_Ref), \<open>dyn_data\<close> (Dyn_Alloc), \<open>list_data\<close> (Kernel_List), \<open>vm_data\<close> (Vmem),
  \<open>sched\<close> (Process), \<open>io_data\<close> (Devices), \<open>vfs_data\<close> (Vnode), each an extension of the one before, so that the lemmas of a component hold in all states behind it.  The interrupt queues
  extend \<open>cpu\<close> on their own (Int_Queue).

  \<^bold>\<open>Memory.\<close>
  \<^item> Buddy, Reserve: \<open>simple_malloc\<close>, \<open>buddy_init\<close>, \<open>buddy_malloc\<close>, \<open>buddy_free\<close>, \<open>memory_reserve\<close> of \<open>mem.c\<close>.  The array of block marks is given a meaning in Block_Map (which pages belong to
    which block), the free lists in Dll and Buddy_Links; Buddy_Correct and Buddy_Init show that each operation refines its effect on the block map and keeps the invariant \<open>buddy_ok\<close>.
    Buddy_Props has the properties: success whenever a block is large enough, minimal blocks, complete merging, rejection of bad pointers, the effect of reservations, and a page that is
    not reserved by mistake.
  \<^item> Page_Ref: reference counts of user pages.
  \<^item> Dyn_Alloc: \<open>malloc\<close>, \<open>free\<close>, \<open>dynamic_allocator_init\<close>.  Dyn_Correct and Dyn_Malloc show that the ranges handed out are disjoint and large enough.  The locale \<open>allocator\<close> of Dyn_Props is
    the contract that the clients use; it is interpreted by the model of \<open>malloc\<close> and \<open>free\<close>.  Mem_Budget tells when a series of allocations is certain to succeed.
  \<^item> Kernel_List: the linked list of \<open>list.c\<close>.  List_Correct shows that it implements sequences, List_Family that lists do not disturb each other.
  \<^item> Ring_Buffer: \<open>ring_buf.c\<close>, an instance of the locale \<open>bounded_queue\<close>, a queue of at most 511 elements.
  \<^item> Strings, Ram_Correct, Ram_Store: \<open>string.c\<close>, \<open>utils.c\<close>, copying of memory.
  \<^item> Printf: \<open>printf.c\<close>; Printf_Props shows that the buffer functions store what the console functions print, and that printed numbers can be read back.

  \<^bold>\<open>Processes.\<close>
  \<^item> Int_Queue: the timer queue and the task queue of \<open>interrupt.c\<close>, which stay sorted, and the execution of tasks by priority.
  \<^item> Vmem: page tables of \<open>vmem.c\<close>; Vmem_Correct relates the change of an entry to the translation of addresses.
  \<^item> Process: \<open>process.c\<close>, \<open>signal.c\<close>, \<open>thread.S\<close> and the process part of \<open>syscall.c\<close>.  A switch of threads ends the function with a jump into the next one, so a function that may block is given
    as the part before and the part behind the switch.  Process_Correct describes the queues as sequences; Process_Inv has the invariant (every thread is in the one place that its state
    names) and that it holds in every reachable state; Process_Props has fairness, the restoring of contexts, and the ends of threads.
  \<^item> Address_Space, Fault, Exec: sections, \<open>fork\<close>, \<open>mmap\<close>, the exception handler of \<open>interrupt.c\<close>, \<open>exec\<close>.  Fault_Props shows that copy on write gives the writer a copy of its own.

  \<^bold>\<open>Devices.\<close>  The hardware is not part of the program: a device (Mmio) is any reaction to accesses of registers, a codatatype, and what the drivers rely on is a coinductive relation to a
  simple description, which every theorem names as a hypothesis and a concrete device satisfies.
  \<^item> Sd: the driver \<open>sd.c\<close>.  Sd_Props: on a card that obeys the protocol of the host controller (\<open>obeys\<close>), with finitely many transfer errors, blocks are read as they were written.
  \<^item> Mini_Uart, Uart: the registers of the UART and the driver \<open>uart.c\<close> with the tasks of its interrupts.  Uart_Props: a thread that blocks in a read gets its bytes in order.
  \<^item> Bootloader: \<open>bootloader/main.c\<close>, \<open>bootloader/io.c\<close> and \<open>send_kernel.py\<close>; over any \<open>serial\<close> line the image started is the image sent.
  \<^item> Device_Tree: \<open>device_tree.c\<close> and the functions of \<open>ramdisk.c\<close> and \<open>mem.c\<close> that \<open>main\<close> passes to the traversal.  Device_Tree_Props: the traversal visits the tokens of a well-formed tree in
    order and finds the initial ramdisk.

  \<^bold>\<open>Files.\<close>
  \<^item> Vnode, Vfs: the data and the calls of \<open>vfs.c\<close>; a pointer to an operation of a file system is a constructor, and a call through it dispatches on it.  Fs_Tree and Path_Correct describe the
    tree of vnodes and the resolution of paths; Fs_Props has creation, lookup and resolution.
  \<^item> Tmpfs, Ramdisk, File: \<open>tmpfs.c\<close>, \<open>ramdisk.c\<close>, \<open>file.c\<close>.  Tmpfs_Props: what is written through a descriptor is read back, and a seek that leaves the file.
  \<^item> Fat32, Fat32_Volume: \<open>fat32.c\<close>.  Fat32_Correct, Fat32_Read and Fat32_Props: a read of a file on the card returns the bytes along its chain of clusters.
  \<^item> Sample_Io: a state for the examples.

  \<^bold>\<open>Not modelled.\<close>  The device files of \<open>dev.c\<close> (a read of the UART file may switch threads in the middle of a call of the virtual file system), the mailbox (the GPU changes memory), the
  shell and the order of the initialisations in \<open>main.c\<close>, the watchdog in \<open>boot.c\<close>, the entry code in assembly, the outermost interrupt handlers, which sequence the modelled operations with
  accesses to timer registers, the dispatch of system calls in \<open>syscall_entry\<close>, the set-up of the first process, \<open>cat\<close>, \<open>ps\<close> and \<open>vfs_ioctl\<close>, the floating-point conversions of
  \<open>printf.c\<close>, which are compiled out, and the programs in \<open>src/testprog\<close>.  Concurrent interrupts inside code that does not mask them are not modelled.  For \<open>fork\<close>, \<open>exec\<close>, signals, the
  archive parser and the writing parts of FAT32 there are definitions but no correctness theorem.
\<close>

end
